(* ===== verification/IR_Prelude.thy ===== *)
theory IR_Prelude
  imports
    "HOL-Library.Word"
    "HOL-Library.Monad_Syntax"
    "HOL-Library.AList"
    "HOL-Library.Char_ord"
    "HOL-Library.List_Lexorder"
    "HOL-Library.Product_Lexorder"
begin

text \<open>
  Shared vocabulary of the development: the machine integer types of the Rust code, decimal
  printing of numbers, string prefixes, checked traversals that stop at the first failure, the
  \<open>HashMap\<close>s that are iterated (association lists whose order stands for the unspecified
  iteration order), and the theorem collections the component theories extend.

  Conventions used everywhere: a Rust panic (\<open>expect\<close>, \<open>unreachable!\<close>, \<open>assert!\<close>) is
  \<open>None\<close>; a \<open>Result\<close> is a sum with the error on the left; a \<open>String\<close> is its list of bytes.
\<close>

type_synonym u32 = "32 word"
type_synonym u64 = "64 word"
type_synonym usize = "64 word"

text \<open>Facts on block parameters and edges (\<open>ir_simps\<close>), on name generation (\<open>name_simps\<close>), and
  on how a pass rewrites the instructions of a node (\<open>visit_simps\<close>).\<close>

named_theorems ir_simps
named_theorems name_simps
named_theorems visit_simps

section \<open>Decimal numbers\<close>

text \<open>\<open>format!("{}", n)\<close> on an unsigned integer.\<close>

fun show_nat :: "nat \<Rightarrow> string" where
  "show_nat n =
     (if n < 10 then [char_of (48 + n)] else show_nat (n div 10) @ [char_of (48 + n mod 10)])"

declare show_nat.simps [simp del]

definition read_nat :: "string \<Rightarrow> nat" where
  "read_nat s = foldl (\<lambda>n c. 10 * n + (of_char c - 48)) 0 s"

definition is_digit :: "char \<Rightarrow> bool" where
  "is_digit c \<longleftrightarrow> (48::nat) \<le> of_char c \<and> (of_char c :: nat) \<le> 57"

lemma of_char_digit: "n < 10 \<Longrightarrow> (of_char (char_of (48 + n) :: char) :: nat) = 48 + n"
  by simp

lemma show_nat_ne [simp]: "show_nat n \<noteq> []"
  by (subst show_nat.simps) simp

lemma read_show_nat [simp]: "read_nat (show_nat n) = n"
proof (induction n rule: show_nat.induct)
  case (1 n)
  show ?case
  proof (cases "n < 10")
    case True
    then show ?thesis by (subst show_nat.simps) (simp add: read_nat_def)
  next
    case False
    with 1 show ?thesis by (subst show_nat.simps) (simp add: read_nat_def)
  qed
qed

lemma show_nat_inject [simp]: "show_nat m = show_nat n \<longleftrightarrow> m = n"
  by (metis read_show_nat)

lemma show_nat_digits: "c \<in> set (show_nat n) \<Longrightarrow> is_digit c"
proof (induction n rule: show_nat.induct)
  case (1 n)
  then show ?case
    by (subst (asm) show_nat.simps) (auto simp: is_digit_def split: if_splits)
qed

lemma underscore_not_digit [simp]: "\<not> is_digit CHR ''_''"
  by (simp add: is_digit_def)

lemma show_nat_no_underscore [simp]: "CHR ''_'' \<notin> set (show_nat n)"
  using show_nat_digits underscore_not_digit by blast

text \<open>The last \<open>_\<close> splits a string into two parts in one way only.\<close>

lemma split_last_sep:
  assumes "c \<notin> set ys" "c \<notin> set ys'" "xs @ c # ys = xs' @ c # ys'"
  shows "xs = xs' \<and> ys = ys'"
  using assms by (auto simp: append_eq_append_conv2 append_eq_Cons_conv Cons_eq_append_conv)

section \<open>Strings\<close>

definition starts_with :: "string \<Rightarrow> string \<Rightarrow> bool" where
  "starts_with p s \<longleftrightarrow> take (length p) s = p"

definition strip_prefix :: "string \<Rightarrow> string \<Rightarrow> string option" where
  "strip_prefix p s = (if starts_with p s then Some (drop (length p) s) else None)"

lemma starts_with_append [simp]: "starts_with p (p @ s)"
  by (simp add: starts_with_def)

lemma starts_withE: "starts_with p s \<Longrightarrow> (\<And>t. s = p @ t \<Longrightarrow> thesis) \<Longrightarrow> thesis"
  by (metis append_take_drop_id starts_with_def)

lemma strip_prefix_append [simp]: "strip_prefix p (p @ s) = Some s"
  by (simp add: strip_prefix_def)

lemma strip_prefix_Some: "strip_prefix p s = Some t \<longleftrightarrow> s = p @ t"
  by (auto simp: strip_prefix_def elim: starts_withE)

section \<open>Checked traversals\<close>

text \<open>\<open>iter().map(f).collect::<Option<_>>\<close> and the loop that stops at the first error.\<close>

fun opt_map :: "('a \<Rightarrow> 'b option) \<Rightarrow> 'a list \<Rightarrow> 'b list option" where
  "opt_map f [] = Some []"
| "opt_map f (x # xs) = do { y \<leftarrow> f x; ys \<leftarrow> opt_map f xs; Some (y # ys) }"

lemma opt_map_cong [fundef_cong]:
  "xs = ys \<Longrightarrow> (\<And>x. x \<in> set ys \<Longrightarrow> f x = g x) \<Longrightarrow> opt_map f xs = opt_map g ys"
  by (induction xs arbitrary: ys) auto

lemma opt_map_Some_iff: "opt_map f xs = Some ys \<longleftrightarrow> list_all2 (\<lambda>x y. f x = Some y) xs ys"
  by (induction xs arbitrary: ys) (auto simp: list_all2_Cons1 bind_eq_Some_conv)

lemma opt_map_length: "opt_map f xs = Some ys \<Longrightarrow> length ys = length xs"
  by (auto simp: opt_map_Some_iff dest: list_all2_lengthD)

lemma opt_map_total: "(\<And>x. x \<in> set xs \<Longrightarrow> f x = Some (g x)) \<Longrightarrow> opt_map f xs = Some (map g xs)"
  by (induction xs) auto

lemma opt_map_defined: "opt_map f xs \<noteq> None \<longleftrightarrow> (\<forall>x\<in>set xs. f x \<noteq> None)"
  by (induction xs) (auto simp: bind_eq_None_conv)

fun check_all :: "('a \<Rightarrow> 'e + unit) \<Rightarrow> 'a list \<Rightarrow> 'e + unit" where
  "check_all f [] = Inr ()"
| "check_all f (x # xs) = (case f x of Inl e \<Rightarrow> Inl e | Inr _ \<Rightarrow> check_all f xs)"

lemma check_all_ok [simp]: "check_all f xs = Inr u \<longleftrightarrow> (\<forall>x\<in>set xs. f x = Inr ())"
  by (induction xs) (auto split: sum.splits)

text \<open>\<open>a?; b\<close>: go on only if the first check passed.\<close>

definition and_then :: "'e + unit \<Rightarrow> 'e + 'a \<Rightarrow> 'e + 'a" where
  "and_then a b = (case a of Inl e \<Rightarrow> Inl e | Inr _ \<Rightarrow> b)"

lemma and_then_ok [simp]: "and_then a b = Inr u \<longleftrightarrow> a = Inr () \<and> b = Inr u"
  by (auto simp: and_then_def split: sum.splits)

text \<open>A traversal whose function threads a state and may panic.\<close>

fun st_map :: "('a \<Rightarrow> 's \<Rightarrow> ('b \<times> 's) option) \<Rightarrow> 'a list \<Rightarrow> 's \<Rightarrow> ('b list \<times> 's) option" where
  "st_map f [] s = Some ([], s)"
| "st_map f (x # xs) s =
     do { (y, s') \<leftarrow> f x s; (ys, s'') \<leftarrow> st_map f xs s'; Some (y # ys, s'') }"

lemma st_map_cong [fundef_cong]:
  "xs = ys \<Longrightarrow> s = t \<Longrightarrow> (\<And>x u. x \<in> set ys \<Longrightarrow> f x u = g x u) \<Longrightarrow> st_map f xs s = st_map g ys t"
proof (induction xs arbitrary: ys s t)
  case (Cons x xs)
  then show ?case by (auto intro!: Option.bind_cong)
qed simp

lemma st_map_length: "st_map f xs s = Some (ys, s') \<Longrightarrow> length ys = length xs"
  by (induction xs arbitrary: ys s) (auto simp: bind_eq_Some_conv)

lemma st_map_ConsE:
  assumes "st_map f (x # xs) s = Some (zs, s')"
  obtains y s1 ys where "f x s = Some (y, s1)" "st_map f xs s1 = Some (ys, s')" "zs = y # ys"
  using assms by (auto simp: bind_eq_Some_conv)

text \<open>Invariants of a traversal: a relation between the states before and after each call that
  is reflexive and transitive holds across the whole traversal.\<close>

lemma st_map_state:
  assumes "st_map f xs s = Some (ys, s')"
    and "\<And>x u y u'. x \<in> set xs \<Longrightarrow> f x u = Some (y, u') \<Longrightarrow> R u u'"
    and refl: "\<And>u. R u u" and trans: "\<And>u v w. R u v \<Longrightarrow> R v w \<Longrightarrow> R u w"
  shows "R s s'"
  using assms(1,2)
proof (induction xs arbitrary: s ys)
  case (Cons x xs)
  from Cons.prems(1) obtain y s1 zs where 1: "f x s = Some (y, s1)" "st_map f xs s1 = Some (zs, s')"
    by (rule st_map_ConsE)
  have "R s s1" using 1(1) by (rule Cons.prems(2) [rotated]) simp
  moreover have "R s1 s'" using 1(2) by (rule Cons.IH) (rule Cons.prems(2), simp_all)
  ultimately show ?case by (rule trans)
qed (simp add: refl)

lemma st_map_append:
  "st_map f (xs @ ys) s =
     do { (as, s1) \<leftarrow> st_map f xs s; (bs, s2) \<leftarrow> st_map f ys s1; Some (as @ bs, s2) }"
proof (induction xs arbitrary: s)
  case (Cons x xs)
  then show ?case by (cases "f x s") (auto simp: bind_assoc case_prod_beta)
qed (simp add: case_prod_beta)

text \<open>A relation between input and output that survives later changes of the state holds for all
  elements in the final state.\<close>

lemma st_map_rel_inv:
  assumes "st_map f xs s = Some (ys, s')" "I s"
    and "\<And>x u y u'. x \<in> set xs \<Longrightarrow> I u \<Longrightarrow> f x u = Some (y, u') \<Longrightarrow> I u' \<and> R u u' \<and> (\<forall>v. R u' v \<longrightarrow> Q v x y)"
    and refl: "\<And>u. R u u" and trans: "\<And>u v w. R u v \<Longrightarrow> R v w \<Longrightarrow> R u w"
  shows "I s' \<and> R s s' \<and> (\<forall>v. R s' v \<longrightarrow> list_all2 (Q v) xs ys)"
  using assms(1-3)
proof (induction xs arbitrary: s ys)
  case (Cons x xs)
  from Cons.prems(1) obtain y s1 zs where 1: "f x s = Some (y, s1)" "st_map f xs s1 = Some (zs, s')" "ys = y # zs"
    by (rule st_map_ConsE)
  have head: "I s1 \<and> R s s1 \<and> (\<forall>v. R s1 v \<longrightarrow> Q v x y)"
    using Cons.prems(2) 1(1) by (rule Cons.prems(3) [rotated]) simp
  then have "I s1" by simp
  with 1(2) have "I s' \<and> R s1 s' \<and> (\<forall>v. R s' v \<longrightarrow> list_all2 (Q v) xs zs)"
    by (rule Cons.IH) (rule Cons.prems(3), simp_all)
  with head show ?case using trans by (auto simp: 1(3))
qed (simp add: refl)

lemma st_map_rel:
  assumes "st_map f xs s = Some (ys, s')"
    and "\<And>x u y u'. x \<in> set xs \<Longrightarrow> f x u = Some (y, u') \<Longrightarrow> R u u' \<and> (\<forall>v. R u' v \<longrightarrow> Q v x y)"
    and "\<And>u. R u u" "\<And>u v w. R u v \<Longrightarrow> R v w \<Longrightarrow> R u w"
  shows "R s s' \<and> (\<forall>v. R s' v \<longrightarrow> list_all2 (Q v) xs ys)"
  using st_map_rel_inv [of f xs s ys s' "\<lambda>_. True" R Q] assms by blast

text \<open>Tables only grow.\<close>

definition extends :: "'a list \<Rightarrow> 'a list \<Rightarrow> bool" where
  "extends xs ys \<longleftrightarrow> (\<exists>zs. ys = xs @ zs)"

lemma extends_refl: "extends xs xs" and extends_trans: "extends xs ys \<Longrightarrow> extends ys zs \<Longrightarrow> extends xs zs"
  by (auto simp: extends_def)

text \<open>A traversal that threads a state and cannot fail.\<close>

fun s_map :: "('a \<Rightarrow> 's \<Rightarrow> 'b \<times> 's) \<Rightarrow> 'a list \<Rightarrow> 's \<Rightarrow> 'b list \<times> 's" where
  "s_map f [] s = ([], s)"
| "s_map f (x # xs) s = (let (y, s1) = f x s; (ys, s2) = s_map f xs s1 in (y # ys, s2))"

lemma s_map_cong [fundef_cong]:
  "xs = ys \<Longrightarrow> s = t \<Longrightarrow> (\<And>x u. x \<in> set ys \<Longrightarrow> f x u = g x u) \<Longrightarrow> s_map f xs s = s_map g ys t"
proof (induction xs arbitrary: ys s t)
  case (Cons x xs)
  then show ?case by (auto split: prod.splits)
qed simp

lemma s_map_length: "s_map f xs s = (ys, s') \<Longrightarrow> length ys = length xs"
  by (induction xs arbitrary: s ys) (auto split: prod.splits)

lemma s_map_id: "(\<And>x u. x \<in> set xs \<Longrightarrow> f x u = (x, u)) \<Longrightarrow> s_map f xs s = (xs, s)"
  by (induction xs) auto

lemma s_map_all2:
  assumes "\<And>x u. x \<in> set xs \<Longrightarrow> Q x (fst (f x u))"
  shows "list_all2 Q xs (fst (s_map f xs s))"
  using assms
proof (induction xs arbitrary: s)
  case (Cons x xs)
  obtain y s1 where 1: "f x s = (y, s1)" by fastforce
  obtain ys s2 where 2: "s_map f xs s1 = (ys, s2)" by fastforce
  with Cons.IH [of s1] Cons.prems have "list_all2 Q xs ys" by simp
  moreover have "Q x y" using Cons.prems [of x s] 1 by simp
  ultimately show ?case by (simp add: 1 2)
qed simp

lemma list_all2_right: "list_all2 P xs ys \<Longrightarrow> y \<in> set ys \<Longrightarrow> \<exists>x\<in>set xs. P x y"
  by (induction rule: list_all2_induct) auto

text \<open>\<open>carries f ins ins' g x\<close>: the traversal \<open>g\<close> of \<open>x\<close> visits the elements \<open>ins x\<close> with \<open>f\<close>, puts
  the results where \<open>ins'\<close> finds them, and panics only if one of the visits does.\<close>

definition carries ::
  "('i \<Rightarrow> 's \<Rightarrow> ('o \<times> 's) option) \<Rightarrow> ('a \<Rightarrow> 'i list) \<Rightarrow> ('b \<Rightarrow> 'o list) \<Rightarrow> ('a \<Rightarrow> 's \<Rightarrow> ('b \<times> 's) option) \<Rightarrow> 'a \<Rightarrow> bool" where
  "carries f ins ins' g x \<longleftrightarrow>
     (\<forall>s. map_option (\<lambda>(y, s'). (ins' y, s')) (g x s) = st_map f (ins x) s)"

lemma carriesD:
  "carries f ins ins' g x \<Longrightarrow> g x s = Some (y, s') \<Longrightarrow> st_map f (ins x) s = Some (ins' y, s')"
  by (auto simp: carries_def dest: spec [of _ s])

lemma carries_None: "carries f ins ins' g x \<Longrightarrow> g x s = None \<longleftrightarrow> st_map f (ins x) s = None"
  by (metis carries_def map_option_is_None)

lemma carries_Some:
  assumes "carries f ins ins' g x" "st_map f (ins x) s = Some (ys, s')"
  obtains y where "g x s = Some (y, s')" "ins' y = ys"
proof -
  from assms have "map_option (\<lambda>(y, s'). (ins' y, s')) (g x s) = Some (ys, s')" by (simp add: carries_def)
  then show ?thesis using that by auto
qed

lemma carries_map:
  assumes "\<And>x. x \<in> set xs \<Longrightarrow> carries f ins ins' g x"
  shows "carries f (\<lambda>xs. concat (map ins xs)) (\<lambda>ys. concat (map ins' ys)) (st_map g) xs"
  unfolding carries_def
proof
  fix s
  show "map_option (\<lambda>(ys, s'). (concat (map ins' ys), s')) (st_map g xs s) = st_map f (concat (map ins xs)) s"
    using assms
  proof (induction xs arbitrary: s)
    case (Cons x xs)
    then have c: "carries f ins ins' g x" by simp
    show ?case
    proof (cases "g x s")
      case None
      with carries_None [OF c, of s] show ?thesis by (simp add: st_map_append)
    next
      case (Some r)
      then obtain y s1 where 1: "g x s = Some (y, s1)" by (cases r) auto
      with Cons.IH [of s1] Cons.prems show ?thesis
        by (cases "st_map g xs s1") (auto simp: st_map_append carriesD [OF c 1] dest!: sym [of "Some _"] sym [of None])
    qed
  qed simp
qed

section \<open>Hash maps that the code iterates\<close>

type_synonym ('k, 'v) hmap = "('k \<times> 'v) list"

definition find_key :: "('v \<Rightarrow> bool) \<Rightarrow> ('k, 'v) hmap \<Rightarrow> 'k option" where
  "find_key p m = map_option fst (find (\<lambda>(k, v). p v) m)"

lemma find_key_Some:
  "find_key p m = Some k \<Longrightarrow> \<exists>v. (k, v) \<in> set m \<and> p v"
  by (auto simp: find_key_def find_Some_iff) (metis case_prod_conv nth_mem)

lemma find_key_None: "find_key p m = None \<longleftrightarrow> (\<forall>(k, v)\<in>set m. \<not> p v)"
  by (auto simp: find_key_def find_None_iff)

text \<open>Collecting pairs into a map keeps the last value of a key; with distinct keys the order of
  the pairs does not matter.\<close>

lemma map_of_rev_distinct: "distinct (map fst ps) \<Longrightarrow> map_of (rev ps) = map_of ps"
proof (induction ps)
  case (Cons p ps)
  then have "map_of ps (fst p) = None" by (simp add: map_of_eq_None_iff)
  with Cons show ?case by (cases p) (auto simp: map_add_def fun_eq_iff split: option.splits)
qed simp

text \<open>\<open>Option::or_else\<close> and \<open>unwrap_or\<close>.\<close>

definition or_opt :: "'a option \<Rightarrow> 'a option \<Rightarrow> 'a option" where
  "or_opt a b = (case a of None \<Rightarrow> b | Some _ \<Rightarrow> a)"

definition unwrap_or :: "'a \<Rightarrow> 'a option \<Rightarrow> 'a" where
  "unwrap_or d a = (case a of None \<Rightarrow> d | Some x \<Rightarrow> x)"

lemma or_opt_simps [simp]: "or_opt None b = b" "or_opt (Some x) b = Some x"
  by (simp_all add: or_opt_def)

lemma unwrap_or_simps [simp]: "unwrap_or d None = d" "unwrap_or d (Some x) = x"
  by (simp_all add: unwrap_or_def)

text \<open>\<open>sort\<close> then \<open>dedup_by\<close> on a key: of the entries with equal keys the first is kept.\<close>

fun dedup_by :: "('a \<Rightarrow> 'k) \<Rightarrow> 'a list \<Rightarrow> 'a list" where
  "dedup_by k (x # y # xs) = (if k y = k x then dedup_by k (x # xs) else x # dedup_by k (y # xs))"
| "dedup_by k xs = xs"

lemma dedup_by_set_key [simp]: "k ` set (dedup_by k xs) = k ` set xs"
  by (induction k xs rule: dedup_by.induct) auto

lemma dedup_by_subset: "set (dedup_by k xs) \<subseteq> set xs"
  by (induction k xs rule: dedup_by.induct) auto

lemma dedup_by_hd: "xs \<noteq> [] \<Longrightarrow> dedup_by k xs \<noteq> [] \<and> hd (dedup_by k xs) = hd xs"
  by (induction k xs rule: dedup_by.induct) auto

lemma dedup_by_sorted_distinct:
  "sorted (map k xs) \<Longrightarrow> sorted (map k (dedup_by k xs)) \<and> distinct (map k (dedup_by k xs))"
proof (induction k xs rule: dedup_by.induct)
  case (1 k x y xs)
  show ?case
  proof (cases "k y = k x")
    case True
    with 1 show ?thesis by simp
  next
    case False
    with 1 have IH: "sorted (map k (dedup_by k (y # xs)))" "distinct (map k (dedup_by k (y # xs)))"
      by simp_all
    have "k x < k z" if "z \<in> set (y # xs)" for z
    proof -
      from that 1(3) have "k y \<le> k z" by auto
      moreover from 1(3) False have "k x < k y" by auto
      ultimately show ?thesis by simp
    qed
    then have "\<forall>z\<in>set (y # xs). k x \<le> k z \<and> k x \<noteq> k z" by fastforce
    with IH False show ?thesis by auto
  qed
qed auto

end
