(* ===== verification/Names.thy ===== *)
theory Names
  imports IR_Prelude
begin

text \<open>
  Identifiers and fresh names: \<open>soac-blockpy/src/block_py/name_gen.rs\<close>, \<open>InstrId\<close> of
  \<open>block_py/meta.rs\<close> and the thread-local counter of \<open>src/namegen.rs\<close>.

  The atomic counters are state: an operation takes the generator and returns it advanced, and a
  \<open>share\<close>d generator is the same state. \<open>fetch_add\<close> wraps around at the width of the counter,
  and \<open>usize\<close> has 64 bits. A \<open>BlockLabel\<close> holds a \<open>u32\<close>, so the conversion from the 64-bit block
  counter is partial: \<open>None\<close> is the panic of \<open>from_index\<close>.
\<close>

section \<open>Function ids\<close>

datatype function_id = FunctionId (packed: u64)

definition function_id_global :: function_id where
  "function_id_global = FunctionId 0"

definition function_id_new :: "u32 \<Rightarrow> u32 \<Rightarrow> function_id" where
  "function_id_new module_id function_id =
     FunctionId (or (push_bit 32 (ucast module_id)) (ucast function_id))"

definition from_packed :: "u64 \<Rightarrow> function_id" where
  "from_packed p = FunctionId p"

definition module_id :: "function_id \<Rightarrow> u32" where
  "module_id i = ucast (drop_bit 32 (packed i))"

definition function_id :: "function_id \<Rightarrow> u32" where
  "function_id i = ucast (packed i)"

text \<open>The \<open>Display\<close> form \<open>module:function\<close>.\<close>

definition show_function_id :: "function_id \<Rightarrow> string" where
  "show_function_id i = show_nat (unat (module_id i)) @ '':'' @ show_nat (unat (function_id i))"

lemma module_id_new [simp, name_simps]: "module_id (function_id_new m f) = m"
  by (rule bit_word_eqI)
     (auto simp: module_id_def function_id_new_def bit_simps bit_imp_le_length dest: bit_imp_le_length)

lemma function_id_new_low [simp, name_simps]: "function_id (function_id_new m f) = f"
  by (rule bit_word_eqI)
     (auto simp: function_id_def function_id_new_def bit_simps bit_imp_le_length dest: bit_imp_le_length)

lemma function_id_new_parts [simp]: "function_id_new (module_id i) (function_id i) = i"
proof (cases i)
  case (FunctionId p)
  have "or (push_bit 32 (ucast (module_id i))) (ucast (function_id i)) = p"
    by (rule bit_word_eqI)
       (auto simp: FunctionId module_id_def function_id_def bit_simps dest: bit_imp_le_length)
  then show ?thesis by (simp add: function_id_new_def FunctionId)
qed

lemma function_id_new_inject [simp]: "function_id_new m f = function_id_new m' f' \<longleftrightarrow> m = m' \<and> f = f'"
  by (metis module_id_new function_id_new_low)

text \<open>Ids are ordered by their packed value (\<open>derive(Ord)\<close>).\<close>

instantiation function_id :: linorder
begin

definition less_eq_function_id :: "function_id \<Rightarrow> function_id \<Rightarrow> bool" where
  "less_eq_function_id a b \<longleftrightarrow> packed a \<le> packed b"

definition less_function_id :: "function_id \<Rightarrow> function_id \<Rightarrow> bool" where
  "less_function_id a b \<longleftrightarrow> packed a < packed b"

instance
  by standard (auto simp: less_eq_function_id_def less_function_id_def function_id.expand)

end

section \<open>Block labels\<close>

datatype block_label = BlockLabel (as_u32: u32)

definition from_index :: "nat \<Rightarrow> block_label option" where
  "from_index n = (if n < 2 ^ 32 then Some (BlockLabel (of_nat n)) else None)"

definition fallthrough :: block_label where
  "fallthrough = BlockLabel (- 1)"

definition is_fallthrough :: "block_label \<Rightarrow> bool" where
  "is_fallthrough l \<longleftrightarrow> as_u32 l = - 1"

definition label_index :: "block_label \<Rightarrow> nat" where
  "label_index l = unat (as_u32 l)"

definition show_label :: "block_label \<Rightarrow> string" where
  "show_label l = (if is_fallthrough l then ''<fallthrough>'' else ''bb'' @ show_nat (label_index l))"

lemma label_index_inject [simp]: "label_index a = label_index b \<longleftrightarrow> a = b"
  by (cases a; cases b) (simp add: label_index_def word_unat_eq_iff)

lemma from_index_Some: "from_index n = Some l \<longleftrightarrow> n < 2 ^ 32 \<and> label_index l = n"
  by (cases l) (auto simp: from_index_def label_index_def unat_of_nat take_bit_eq_mod)

lemma from_index_label_index [simp]: "from_index (label_index l) = Some l"
proof -
  have "unat (as_u32 l) < 2 ^ 32" using unsigned_less [of "as_u32 l"] by simp
  then show ?thesis by (simp add: from_index_Some label_index_def)
qed

lemma from_index_eq_None [simp]: "from_index n = None \<longleftrightarrow> 2 ^ 32 \<le> n"
  by (auto simp: from_index_def)

lemma from_index_fallthrough: "from_index n = Some l \<Longrightarrow> is_fallthrough l \<longleftrightarrow> n = 2 ^ 32 - 1"
proof -
  assume "from_index n = Some l"
  then have "label_index l = n" by (simp add: from_index_Some)
  moreover have "is_fallthrough l \<longleftrightarrow> unat (as_u32 l) = unat (- 1 :: u32)"
    by (simp add: is_fallthrough_def word_unat_eq_iff)
  ultimately show ?thesis by (simp add: label_index_def unsigned_minus_1_eq_mask mask_eq_exp_minus_1)
qed

lemma show_label_inject: "show_label a = show_label b \<longleftrightarrow> a = b"
proof -
  have "is_fallthrough a \<Longrightarrow> is_fallthrough b \<Longrightarrow> a = b"
    by (simp add: is_fallthrough_def block_label.expand)
  then show ?thesis by (auto simp: show_label_def)
qed

instantiation block_label :: linorder
begin

definition less_eq_block_label :: "block_label \<Rightarrow> block_label \<Rightarrow> bool" where
  "less_eq_block_label a b \<longleftrightarrow> as_u32 a \<le> as_u32 b"

definition less_block_label :: "block_label \<Rightarrow> block_label \<Rightarrow> bool" where
  "less_block_label a b \<longleftrightarrow> as_u32 a < as_u32 b"

instance
  by standard (auto simp: less_eq_block_label_def less_block_label_def block_label.expand)

end

text \<open>The id of an instruction: its block and its position in the pre-order walk of the block.\<close>

datatype instr_id = InstrId (block_label: block_label) (instr_index_in_block: u32)

definition show_instr_id :: "instr_id \<Rightarrow> string" where
  "show_instr_id i = show_label (block_label i) @ '':'' @ show_nat (unat (instr_index_in_block i))"

section \<open>Name generators\<close>

record function_name_gen =
  gen_function_id :: function_id
  next_block_id :: usize
  next_tmp_id :: usize

definition function_name_gen_new :: "function_id \<Rightarrow> function_name_gen" where
  "function_name_gen_new i = \<lparr>gen_function_id = i, next_block_id = 0, next_tmp_id = 0\<rparr>"

definition next_block_name :: "function_name_gen \<Rightarrow> (block_label \<times> function_name_gen) option" where
  "next_block_name g =
     do { l \<leftarrow> from_index (unat (next_block_id g));
          Some (l, g\<lparr>next_block_id := next_block_id g + 1\<rparr>) }"

definition tmp_name :: "string \<Rightarrow> function_id \<Rightarrow> nat \<Rightarrow> string" where
  "tmp_name prefix i n =
     ''_dp_'' @ prefix @ ''_'' @ show_nat (unat (module_id i)) @ ''_''
       @ show_nat (unat (function_id i)) @ ''_'' @ show_nat n"

definition next_tmp_name :: "string \<Rightarrow> function_name_gen \<Rightarrow> string \<times> function_name_gen" where
  "next_tmp_name prefix g =
     (tmp_name prefix (gen_function_id g) (unat (next_tmp_id g)),
      g\<lparr>next_tmp_id := next_tmp_id g + 1\<rparr>)"

record module_name_gen =
  gen_module_id :: u32
  next_function :: u32

definition module_name_gen_new :: "u32 \<Rightarrow> module_name_gen" where
  "module_name_gen_new m = \<lparr>gen_module_id = m, next_function = 0\<rparr>"

definition next_function_name_gen :: "module_name_gen \<Rightarrow> function_name_gen \<times> module_name_gen" where
  "next_function_name_gen g =
     (function_name_gen_new (function_id_new (gen_module_id g) (next_function g)),
      g\<lparr>next_function := next_function g + 1\<rparr>)"

text \<open>The crate-wide counter of \<open>namegen.rs\<close>; the first name of a prefix is number 1.\<close>

definition fresh_name :: "string \<Rightarrow> usize \<Rightarrow> string \<times> usize" where
  "fresh_name prefix counter =
     (''_dp_'' @ prefix @ ''_'' @ show_nat (unat (counter + 1)), counter + 1)"

text \<open>The labels a generator has handed out so far.\<close>

definition issued :: "function_name_gen \<Rightarrow> block_label set" where
  "issued g = {l. label_index l < unat (next_block_id g)}"

section \<open>Freshness\<close>

lemma next_block_name_Some:
  assumes "next_block_name g = Some (l, g')"
  shows "label_index l = unat (next_block_id g)"
    and "unat (next_block_id g') = Suc (unat (next_block_id g))"
    and "gen_function_id g' = gen_function_id g" and "next_tmp_id g' = next_tmp_id g"
proof -
  from assms have l: "from_index (unat (next_block_id g)) = Some l"
    and g': "g' = g\<lparr>next_block_id := next_block_id g + 1\<rparr>"
    by (auto simp: next_block_name_def bind_eq_Some_conv)
  from l show "label_index l = unat (next_block_id g)" by (simp add: from_index_Some)
  from l have "unat (next_block_id g) < 2 ^ 32" by (simp add: from_index_Some)
  then show "unat (next_block_id g') = Suc (unat (next_block_id g))"
    by (simp add: g' unat_word_ariths)
qed (use assms in \<open>auto simp: next_block_name_def bind_eq_Some_conv\<close>)

lemma next_block_name_fresh:
  "next_block_name g = Some (l, g') \<Longrightarrow> l \<notin> issued g \<and> issued g' = insert l (issued g)"
  by (auto simp: issued_def next_block_name_Some less_Suc_eq simp flip: label_index_inject)

lemma next_block_name_panics: "next_block_name g = None \<longleftrightarrow> 2 ^ 32 \<le> unat (next_block_id g)"
  by (auto simp: next_block_name_def bind_eq_None_conv)

fun next_block_names :: "nat \<Rightarrow> function_name_gen \<Rightarrow> (block_label list \<times> function_name_gen) option" where
  "next_block_names 0 g = Some ([], g)"
| "next_block_names (Suc n) g =
     do { (l, g') \<leftarrow> next_block_name g; (ls, g'') \<leftarrow> next_block_names n g'; Some (l # ls, g'') }"

lemma next_block_names_Some:
  "next_block_names n g = Some (ls, g') \<Longrightarrow>
     map label_index ls = [unat (next_block_id g) ..< unat (next_block_id g) + n]
     \<and> unat (next_block_id g') = unat (next_block_id g) + n"
proof (induction n arbitrary: g ls)
  case (Suc n)
  then obtain l ls' g1 where g1: "next_block_name g = Some (l, g1)"
    and ls': "next_block_names n g1 = Some (ls', g')" and ls: "ls = l # ls'"
    by (auto simp: bind_eq_Some_conv)
  from Suc.IH [OF ls'] show ?case
    by (simp add: ls next_block_name_Some [OF g1] upt_rec)
qed simp

lemma next_block_names_defined:
  "unat (next_block_id g) + n \<le> 2 ^ 32 \<Longrightarrow> next_block_names n g \<noteq> None"
proof (induction n arbitrary: g)
  case (Suc n)
  then have "next_block_name g \<noteq> None" by (simp add: next_block_name_panics)
  then obtain l g1 where g1: "next_block_name g = Some (l, g1)" by auto
  with Suc.prems have "next_block_names n g1 \<noteq> None"
    by (intro Suc.IH) (simp add: next_block_name_Some [OF g1])
  with g1 show ?case by auto
qed simp

lemma tmp_name_inject [simp]:
  "tmp_name p i m = tmp_name q j n \<longleftrightarrow> p = q \<and> i = j \<and> m = n"
proof
  assume eq: "tmp_name p i m = tmp_name q j n"
  let ?f = "\<lambda>i. show_nat (unat (function_id i))" and ?m = "\<lambda>i. show_nat (unat (module_id i))"
  from eq have 1: "(p @ ''_'' @ ?m i @ ''_'' @ ?f i) @ CHR ''_'' # show_nat m
      = (q @ ''_'' @ ?m j @ ''_'' @ ?f j) @ CHR ''_'' # show_nat n"
    by (simp add: tmp_name_def)
  from split_last_sep [OF _ _ 1] have "m = n"
    and 2: "(p @ ''_'' @ ?m i) @ CHR ''_'' # ?f i = (q @ ''_'' @ ?m j) @ CHR ''_'' # ?f j"
    by simp_all
  from split_last_sep [OF _ _ 2] have f: "function_id i = function_id j"
    and 3: "p @ CHR ''_'' # ?m i = q @ CHR ''_'' # ?m j"
    by (simp_all add: word_unat_eq_iff)
  from split_last_sep [OF _ _ 3] have "p = q" and "module_id i = module_id j"
    by (simp_all add: word_unat_eq_iff)
  with f \<open>m = n\<close> show "p = q \<and> i = j \<and> m = n"
    by (metis function_id_new_parts)
qed simp

lemma fresh_name_inject:
  "fst (fresh_name p a) = fst (fresh_name q b) \<longleftrightarrow> p = q \<and> a = b"
proof
  assume "fst (fresh_name p a) = fst (fresh_name q b)"
  then have "p @ CHR ''_'' # show_nat (unat (a + 1)) = q @ CHR ''_'' # show_nat (unat (b + 1))"
    by (simp add: fresh_name_def)
  from split_last_sep [OF _ _ this] show "p = q \<and> a = b"
    by (simp flip: word_unat_eq_iff)
qed simp

text \<open>Any run of \<open>next_tmp_name\<close> calls on one generator, with the prefixes the callers chose.\<close>

fun next_tmp_names :: "string list \<Rightarrow> function_name_gen \<Rightarrow> string list \<times> function_name_gen" where
  "next_tmp_names [] g = ([], g)"
| "next_tmp_names (p # ps) g =
     (let (x, g') = next_tmp_name p g; (xs, g'') = next_tmp_names ps g' in (x # xs, g''))"

lemma next_tmp_names_eq:
  "next_tmp_names ps g =
     (map (\<lambda>(k, p). tmp_name p (gen_function_id g) (unat (next_tmp_id g + of_nat k)))
        (enumerate 0 ps),
      g\<lparr>next_tmp_id := next_tmp_id g + of_nat (length ps)\<rparr>)"
proof (induction ps arbitrary: g)
  case (Cons p ps)
  show ?case
    by (simp add: next_tmp_name_def Cons.IH enumerate_Suc_eq algebra_simps
        case_prod_unfold o_def)
qed simp

section \<open>Properties\<close>

text \<open>A packed function id gives back the module id and the function id it was made of, and is
  determined by them.\<close>

theorem function_id_roundtrip:
  "module_id (function_id_new m f) = m \<and> function_id (function_id_new m f) = f \<and>
   from_packed (packed i) = i \<and> function_id_new (module_id i) (function_id i) = i"
  by (simp add: from_packed_def)

text \<open>Temporary names never clash: two names made with any prefixes, by any generators of a
  module or of different modules, are equal only if prefix, function and counter value are.
  A run of \<open>next_tmp_name\<close> calls on one generator that starts below the wrap-around of the 64-bit
  counter therefore hands out distinct names.\<close>

theorem tmp_names_distinct:
  assumes "unat (next_tmp_id g) + length ps < 2 ^ 64" "gen_function_id g \<noteq> gen_function_id h"
  shows "distinct (fst (next_tmp_names ps g)) \<and>
    set (fst (next_tmp_names ps g)) \<inter> set (fst (next_tmp_names qs h)) = {}"
proof
  have lt: "unat (next_tmp_id g + of_nat k) = unat (next_tmp_id g) + k" if "k < length ps" for k
  proof -
    from that assms(1) have k: "unat (next_tmp_id g) + k < 2 ^ 64" by simp
    then have "unat (of_nat k :: usize) = k" by (simp add: unat_of_nat take_bit_nat_eq_self)
    with k show ?thesis by (simp add: unat_word_ariths(1))
  qed
  show "distinct (fst (next_tmp_names ps g))"
    by (auto simp: next_tmp_names_eq distinct_conv_nth lt nth_enumerate_eq)
  show "set (fst (next_tmp_names ps g)) \<inter> set (fst (next_tmp_names qs h)) = {}"
    using assms(2) by (auto simp: next_tmp_names_eq)
qed

theorem tmp_names_distinct_witness:
  "distinct (fst (next_tmp_names [''try_exc'', ''try_exc''] (function_name_gen_new (function_id_new 1 2)))) \<and>
   set (fst (next_tmp_names [''try_exc'', ''try_exc''] (function_name_gen_new (function_id_new 1 2)))) \<inter>
     set (fst (next_tmp_names [''try_exc''] (function_name_gen_new (function_id_new 1 3)))) = {}"
  using tmp_names_distinct [of "function_name_gen_new (function_id_new 1 2)" "[''try_exc'', ''try_exc'']"
      "function_name_gen_new (function_id_new 1 3)" "[''try_exc'']"]
  by (simp add: function_name_gen_new_def)

text \<open>The labels a generator hands out are consecutive, hence fresh and distinct; the generator
  panics exactly when the 32 bits of a block label are used up.\<close>

theorem block_labels_fresh:
  "next_block_names n g = (if n = 0 \<or> unat (next_block_id g) + n \<le> 2 ^ 32
     then Some (map (\<lambda>i. BlockLabel (of_nat i)) [unat (next_block_id g) ..< unat (next_block_id g) + n],
                g\<lparr>next_block_id := next_block_id g + of_nat n\<rparr>)
     else None)"
proof (induction n arbitrary: g)
  case (Suc n)
  show ?case
  proof (cases "unat (next_block_id g) < 2 ^ 32")
    case True
    let ?g = "g\<lparr>next_block_id := next_block_id g + 1\<rparr>"
    have step: "next_block_name g = Some (BlockLabel (of_nat (unat (next_block_id g))), ?g)"
      using True by (simp add: next_block_name_def from_index_def)
    have nxt: "unat (next_block_id ?g) = Suc (unat (next_block_id g))"
      by (rule next_block_name_Some(2) [OF step])
    have cond: "n = 0 \<or> Suc (unat (next_block_id g)) + n \<le> 2 ^ 32 \<longleftrightarrow> unat (next_block_id g) + Suc n \<le> 2 ^ 32"
      using True by auto
    show ?thesis
      unfolding next_block_names.simps step bind.bind_lunit prod.case Suc.IH nxt cond
      by (simp add: upt_conv_Cons algebra_simps del: upt_Suc)
  next
    case False
    then have "next_block_name g = None" by (simp add: next_block_name_panics)
    with False show ?thesis by simp
  qed
qed simp

end
