(* ===== verification/IR.thy ===== *)
theory IR
  imports Names
begin

text \<open>
  The BlockPy intermediate representation of \<open>soac-blockpy/src/block_py/mod.rs\<close>,
  \<open>block_py/operation.rs\<close> and \<open>block_py/meta.rs\<close>: names and their locations, literals, the
  operations that every stage shares, blocks with their terminators, edges and parameters, the
  structured statements of the early stages, and the operations on blocks and builders.

  The Rust operations are structs over the expression type \<open>E\<close> and its name type; here they are
  one polymorphic datatype \<open>('e, 'n) operation\<close> that each stage's expression type embeds
  (theory \<open>Exprs\<close>). Rust's generic \<open>Block<S, T>\<close> is \<open>('s, 'e) block\<close>.
\<close>

section \<open>Names and locations\<close>

datatype cell_location = Owned u32 | Closure u32 | CapturedSource u32

fun cell_slot :: "cell_location \<Rightarrow> u32" where
  "cell_slot (Owned s) = s"
| "cell_slot (Closure s) = s"
| "cell_slot (CapturedSource s) = s"

datatype name_location =
  LocLocal u32 | LocGlobal u32 | LocRuntimeName | LocCell cell_location | LocConstant u32

fun as_local :: "name_location \<Rightarrow> u32 option" where
  "as_local (LocLocal s) = Some s"
| "as_local _ = None"

fun as_cell :: "name_location \<Rightarrow> cell_location option" where
  "as_cell (LocCell c) = Some c"
| "as_cell _ = None"

fun as_constant :: "name_location \<Rightarrow> u32 option" where
  "as_constant (LocConstant i) = Some i"
| "as_constant _ = None"

fun as_global :: "name_location \<Rightarrow> u32 option" where
  "as_global (LocGlobal s) = Some s"
| "as_global _ = None"

datatype unresolved_name = SourceName string | RuntimeName string

fun unresolved_id :: "unresolved_name \<Rightarrow> string" where
  "unresolved_id (SourceName n) = n"
| "unresolved_id (RuntimeName n) = n"

fun unresolved_is_runtime :: "unresolved_name \<Rightarrow> bool" where
  "unresolved_is_runtime (SourceName _) = False"
| "unresolved_is_runtime (RuntimeName _) = True"

definition is_runtime_symbol :: "unresolved_name \<Rightarrow> string \<Rightarrow> bool" where
  "is_runtime_symbol n s \<longleftrightarrow> unresolved_is_runtime n \<and> unresolved_id n = s"

record located_name =
  located_id :: string
  location :: name_location

definition located_is_runtime :: "located_name \<Rightarrow> bool" where
  "located_is_runtime n \<longleftrightarrow> location n = LocRuntimeName"

definition is_internal_symbol :: "string \<Rightarrow> bool" where
  "is_internal_symbol n \<longleftrightarrow> starts_with ''_dp_'' n \<or> n = ''__soac__''"

lemma is_runtime_symbol_iff [simp]: "is_runtime_symbol n s \<longleftrightarrow> n = RuntimeName s"
  by (cases n) (auto simp: is_runtime_symbol_def)

section \<open>Metadata and literals\<close>

text \<open>\<open>AtomicNodeIndex\<close> and \<open>TextRange\<close> of the parser crate are numbers the passes only copy.\<close>

record meta =
  node_index :: nat
  meta_instr_id :: "instr_id option"
  text_range :: "nat \<times> nat"

definition meta_new :: "nat \<Rightarrow> nat \<times> nat \<Rightarrow> meta" where
  "meta_new n r = \<lparr>node_index = n, meta_instr_id = None, text_range = r\<rparr>"

definition synthetic :: meta where
  "synthetic = \<lparr>node_index = 0, meta_instr_id = None, text_range = (0, 0)\<rparr>"

text \<open>Floats are their 64 bits.\<close>

datatype number_literal = IntLiteral int | FloatLiteral u64

datatype literal =
  StringLiteral string | BytesLiteral "8 word list" | NumberLiteral number_literal

section \<open>Operations\<close>

datatype (plugins only: code size) bin_op_kind =
  Add | Sub | Mul | MatMul | TrueDiv | FloorDiv | Mod | Pow | LShift | RShift | BitOr | BitXor
| BitAnd | Eq | Ne | Lt | Le | Gt | Ge | Contains | Is | InplaceAdd | InplaceSub | InplaceMul
| InplaceMatMul | InplaceTrueDiv | InplaceFloorDiv | InplaceMod | InplacePow | InplaceLShift
| InplaceRShift | InplaceOr | InplaceXor | InplaceAnd

datatype unary_op_kind = Pos | Neg | Invert | Not | Truth

datatype function_kind = KFunction | KCoroutine | KGenerator | KAsyncGenerator

datatype 'e call_arg = Positional (arg_expr: 'e) | Starred (arg_expr: 'e)

datatype 'e call_keyword = Named string (keyword_expr: 'e) | KwStarred (keyword_expr: 'e)

datatype (plugins only: code size) (op_exprs: 'e, op_names: 'n) operation =
  BinOp bin_op_kind 'e 'e
| UnaryOp unary_op_kind 'e
| Call 'e "'e call_arg list" "'e call_keyword list"
| GetAttr 'e 'e
| SetAttr 'e 'e 'e
| GetItem 'e 'e
| SetItem 'e 'e 'e
| DelItem 'e 'e
| Load 'n
| Store 'n 'e
| Del 'n bool
| MakeCell 'e
| CellRef cell_location
| MakeFunction function_id function_kind 'e 'e
for map: map_operation

text \<open>\<open>ChildVisitable::visit_children\<close>: the operands in the order of the struct's fields.\<close>

fun op_children :: "('e, 'n) operation \<Rightarrow> 'e list" where
  "op_children (BinOp k l r) = [l, r]"
| "op_children (UnaryOp k x) = [x]"
| "op_children (Call f as ks) = f # map arg_expr as @ map keyword_expr ks"
| "op_children (GetAttr v a) = [v, a]"
| "op_children (SetAttr v a r) = [v, a, r]"
| "op_children (GetItem v i) = [v, i]"
| "op_children (SetItem v i r) = [v, i, r]"
| "op_children (DelItem v i) = [v, i]"
| "op_children (Load n) = []"
| "op_children (Store n v) = [v]"
| "op_children (Del n q) = []"
| "op_children (MakeCell v) = [v]"
| "op_children (CellRef c) = []"
| "op_children (MakeFunction i k d a) = [d, a]"

text \<open>
  \<open>Mappable::map_children\<close>: the operands are mapped in the same order and the node is rebuilt
  around the results; \<open>map_name\<close> maps the name of \<open>Load\<close>, \<open>Store\<close> and \<open>Del\<close>.
\<close>

fun op_with_children :: "('e, 'n) operation \<Rightarrow> 'f list \<Rightarrow> ('f, 'n) operation" where
  "op_with_children (BinOp k l r) ys = BinOp k (ys ! 0) (ys ! 1)"
| "op_with_children (UnaryOp k x) ys = UnaryOp k (ys ! 0)"
| "op_with_children (Call f as ks) ys =
     Call (ys ! 0)
       (map2 (\<lambda>a y. map_call_arg (\<lambda>_. y) a) as (take (length as) (drop 1 ys)))
       (map2 (\<lambda>k y. map_call_keyword (\<lambda>_. y) k) ks (drop (1 + length as) ys))"
| "op_with_children (GetAttr v a) ys = GetAttr (ys ! 0) (ys ! 1)"
| "op_with_children (SetAttr v a r) ys = SetAttr (ys ! 0) (ys ! 1) (ys ! 2)"
| "op_with_children (GetItem v i) ys = GetItem (ys ! 0) (ys ! 1)"
| "op_with_children (SetItem v i r) ys = SetItem (ys ! 0) (ys ! 1) (ys ! 2)"
| "op_with_children (DelItem v i) ys = DelItem (ys ! 0) (ys ! 1)"
| "op_with_children (Load n) ys = Load n"
| "op_with_children (Store n v) ys = Store n (ys ! 0)"
| "op_with_children (Del n q) ys = Del n q"
| "op_with_children (MakeCell v) ys = MakeCell (ys ! 0)"
| "op_with_children (CellRef c) ys = CellRef c"
| "op_with_children (MakeFunction i k d a) ys = MakeFunction i k (ys ! 0) (ys ! 1)"

lemma set_call_arg_eq [simp]: "set_call_arg a = {arg_expr a}"
  by (cases a) simp_all

lemma set_call_keyword_eq [simp]: "set_call_keyword k = {keyword_expr k}"
  by (cases k) simp_all

lemma set_op_children [simp]: "set (op_children op) = op_exprs op"
  by (cases op) auto

lemma map2_call_arg: "map2 (\<lambda>a y. map_call_arg (\<lambda>_. y) a) as (map (f \<circ> arg_expr) as) = map (map_call_arg f) as"
proof (induction as)
  case (Cons a as)
  then show ?case by (cases a) simp_all
qed simp

lemma map2_call_keyword:
  "map2 (\<lambda>a y. map_call_keyword (\<lambda>_. y) a) ks (map (f \<circ> keyword_expr) ks) = map (map_call_keyword f) ks"
proof (induction ks)
  case (Cons k ks)
  then show ?case by (cases k) simp_all
qed simp

lemma op_with_children_map [visit_simps]:
  "op_with_children op (map f (op_children op)) = map_operation f id op"
  by (cases op) (simp_all add: map2_call_arg map2_call_keyword)

lemma op_with_own_children [simp]: "op_with_children op (op_children op) = op"
  using op_with_children_map [of op id] by (simp add: operation.map_id0)

lemma map_arg_expr_with:
  "length ys = length as \<Longrightarrow> map (arg_expr \<circ> (\<lambda>(a, y). map_call_arg (\<lambda>_. y) a)) (zip as ys) = ys"
proof (induction as ys rule: list_induct2')
  case (4 a as y ys)
  then show ?case by (cases a) simp_all
qed simp_all

lemma map_keyword_expr_with:
  "length ys = length ks \<Longrightarrow> map (keyword_expr \<circ> (\<lambda>(k, y). map_call_keyword (\<lambda>_. y) k)) (zip ks ys) = ys"
proof (induction ks ys rule: list_induct2')
  case (4 k ks y ys)
  then show ?case by (cases k) simp_all
qed simp_all

lemma op_children_with [visit_simps]:
  "length ys = length (op_children op) \<Longrightarrow> op_children (op_with_children op ys) = ys"
proof (cases op)
  case (Call f as ks)
  assume "length ys = length (op_children op)"
  with Call obtain y zs where ys: "ys = y # zs" and len: "length zs = length as + length ks"
    by (cases ys) auto
  from len show ?thesis
    by (simp add: Call ys map_arg_expr_with map_keyword_expr_with)
qed (auto simp: length_Suc_conv numeral_2_eq_2 numeral_3_eq_3)

lemma map_arg_twice:
  "length ys = length as \<Longrightarrow> length zs = length as \<Longrightarrow>
    map2 (\<lambda>a y. map_call_arg (\<lambda>_. y) a) (map2 (\<lambda>a y. map_call_arg (\<lambda>_. y) a) as ys) zs
      = map2 (\<lambda>a y. map_call_arg (\<lambda>_. y) a) as zs"
  by (rule nth_equalityI) (simp_all add: call_arg.map_comp o_def)

lemma map_keyword_twice:
  "length ys = length ks \<Longrightarrow> length zs = length ks \<Longrightarrow>
    map2 (\<lambda>k y. map_call_keyword (\<lambda>_. y) k) (map2 (\<lambda>k y. map_call_keyword (\<lambda>_. y) k) ks ys) zs
      = map2 (\<lambda>k y. map_call_keyword (\<lambda>_. y) k) ks zs"
  by (rule nth_equalityI) (simp_all add: call_keyword.map_comp o_def)

lemma op_with_children_twice [visit_simps]:
  "length ys = length (op_children op) \<Longrightarrow> length zs = length (op_children op) \<Longrightarrow>
     op_with_children (op_with_children op ys) zs = op_with_children op zs"
  by (cases op) (simp_all add: map_arg_twice map_keyword_twice)

lemma size_op_child:
  "x \<in> op_exprs op \<Longrightarrow> size x < size_operation size (\<lambda>_. 0) op"
proof (cases op)
  case (Call f as ks)
  assume "x \<in> op_exprs op"
  with Call consider "x = f" | a where "a \<in> set as" "x = arg_expr a"
    | k where "k \<in> set ks" "x = keyword_expr k"
    by auto
  then show ?thesis
  proof cases
    case 2
    have "size (arg_expr a) \<le> size_call_arg size a" by (cases a) simp_all
    also have "\<dots> \<le> size_list (size_call_arg size) as" using 2 by (intro size_list_estimation') auto
    finally show ?thesis using Call 2 by simp
  next
    case 3
    have "size (keyword_expr k) \<le> size_call_keyword size k" by (cases k) simp_all
    also have "\<dots> \<le> size_list (size_call_keyword size) ks" using 3 by (intro size_list_estimation') auto
    finally show ?thesis using Call 3 by simp
  qed (use Call in simp)
qed auto

section \<open>Blocks\<close>

datatype abrupt_kind = AbruptFallthrough | AbruptReturn | AbruptException | AbruptBreak | AbruptContinue

datatype block_arg = ArgName string | ArgNone | ArgCurrentException | ArgAbruptKind abrupt_kind

record block_edge =
  target :: block_label
  edge_args :: "block_arg list"

definition edge_new :: "block_label \<Rightarrow> block_edge" where
  "edge_new l = \<lparr>target = l, edge_args = []\<rparr>"

definition edge_with_args :: "block_label \<Rightarrow> block_arg list \<Rightarrow> block_edge" where
  "edge_with_args l as = \<lparr>target = l, edge_args = as\<rparr>"

datatype param_role = RoleException | RoleAbruptKind | RoleAbruptPayload

record block_param =
  param_name :: string
  role :: param_role

datatype 'e block_term =
  Jump block_edge
| IfTerm 'e block_label block_label
| BranchTable 'e "block_label list" block_label
| Raise "'e option"
| Return 'e

record ('s, 'e) block =
  label :: block_label
  body :: "'s list"
  bterm :: "'e block_term"
  params :: "block_param list"
  exc_edge :: "block_edge option"

text \<open>\<open>BlockTerm::replace_target\<close>: the new terminator and whether anything was replaced.\<close>

definition replace_label :: "block_label \<Rightarrow> block_label \<Rightarrow> block_label \<Rightarrow> block_label" where
  "replace_label from to l = (if l = from then to else l)"

fun replace_target :: "block_label \<Rightarrow> block_label \<Rightarrow> 'e block_term \<Rightarrow> 'e block_term \<times> bool" where
  "replace_target from to (Jump e) =
     (if target e = from then (Jump (e\<lparr>target := to\<rparr>), True) else (Jump e, False))"
| "replace_target from to (IfTerm t a b) =
     (IfTerm t (replace_label from to a) (replace_label from to b), a = from \<or> b = from)"
| "replace_target from to (BranchTable i ts d) =
     (BranchTable i (map (replace_label from to) ts) (replace_label from to d),
      from \<in> set ts \<or> d = from)"
| "replace_target from to (Raise x) = (Raise x, False)"
| "replace_target from to (Return v) = (Return v, False)"

definition replace_fallthrough_target ::
  "block_label \<Rightarrow> ('s, 'e) block \<Rightarrow> ('s, 'e) block \<times> bool" where
  "replace_fallthrough_target to b =
     (let (t, r) = replace_target fallthrough to (bterm b) in (b\<lparr>bterm := t\<rparr>, r))"

fun successors :: "'e block_term \<Rightarrow> block_label list" where
  "successors (Jump e) = [target e]"
| "successors (IfTerm t a b) = [a, b]"
| "successors (BranchTable i ts d) = ts @ [d]"
| "successors (Raise x) = []"
| "successors (Return v) = []"

fun term_exprs :: "'e block_term \<Rightarrow> 'e list" where
  "term_exprs (Jump e) = []"
| "term_exprs (IfTerm t a b) = [t]"
| "term_exprs (BranchTable i ts d) = [i]"
| "term_exprs (Raise x) = (case x of None \<Rightarrow> [] | Some e \<Rightarrow> [e])"
| "term_exprs (Return v) = [v]"

lemma replace_target_successors [ir_simps]:
  "successors (fst (replace_target from to t)) = map (replace_label from to) (successors t)"
  by (cases t) (auto simp: replace_label_def)

lemma replace_target_changed [ir_simps]:
  "snd (replace_target from to t) \<longleftrightarrow> from \<in> set (successors t)"
  by (cases t) auto

lemma replace_target_exprs [ir_simps]:
  "term_exprs (fst (replace_target from to t)) = term_exprs t"
  by (cases t) auto

section \<open>Block parameters\<close>

text \<open>\<open>Block::ensure_param\<close>, \<open>set_exception_param\<close>, \<open>exception_param\<close> and the parameters in the
  order of the basic-block form (\<open>bb_params\<close>): exception, abrupt kind, abrupt payload.\<close>

definition ensure_param :: "string \<Rightarrow> param_role \<Rightarrow> block_param list \<Rightarrow> block_param list" where
  "ensure_param n r ps =
     (if \<exists>p\<in>set ps. param_name p = n then ps else ps @ [\<lparr>param_name = n, role = r\<rparr>])"

fun set_first_role :: "string \<Rightarrow> param_role \<Rightarrow> block_param list \<Rightarrow> block_param list" where
  "set_first_role n r [] = []"
| "set_first_role n r (p # ps) =
     (if param_name p = n then p\<lparr>role := r\<rparr> # ps else p # set_first_role n r ps)"

definition set_exception_param :: "string \<Rightarrow> block_param list \<Rightarrow> block_param list" where
  "set_exception_param n ps =
     (let kept = filter (\<lambda>p. role p \<noteq> RoleException \<or> param_name p = n) ps in
      if \<exists>p\<in>set kept. param_name p = n then set_first_role n RoleException kept
      else kept @ [\<lparr>param_name = n, role = RoleException\<rparr>])"

definition exception_param :: "block_param list \<Rightarrow> string option" where
  "exception_param ps = map_option param_name (find (\<lambda>p. role p = RoleException) ps)"

definition param_names :: "block_param list \<Rightarrow> string list" where
  "param_names ps = map param_name ps"

definition bb_params :: "block_param list \<Rightarrow> block_param list" where
  "bb_params ps =
     concat (map (\<lambda>r. filter (\<lambda>p. role p = r) ps) [RoleException, RoleAbruptKind, RoleAbruptPayload])"

lemma set_bb_params [simp, ir_simps]: "set (bb_params ps) = set ps"
proof -
  have "p \<in> set ps \<Longrightarrow> p \<in> set (bb_params ps)" for p
    by (cases "role p") (simp_all add: bb_params_def)
  then show ?thesis by (auto simp: bb_params_def)
qed

lemma exception_param_bb [ir_simps]: "exception_param (bb_params ps) = exception_param ps"
proof -
  have "find P (filter P xs) = find P xs" for P :: "block_param \<Rightarrow> bool" and xs
    by (induction xs) auto
  moreover have "find P (xs @ ys) = (case find P xs of None \<Rightarrow> find P ys | Some x \<Rightarrow> Some x)"
    for P :: "block_param \<Rightarrow> bool" and xs ys by (induction xs) auto
  moreover have "find (\<lambda>p. role p = RoleException) (filter (\<lambda>p. role p = r) ps) = None"
    if "r \<noteq> RoleException" for r using that by (auto simp: find_None_iff)
  ultimately show ?thesis by (auto simp: exception_param_def bb_params_def split: option.splits)
qed

lemma set_first_role_names [simp]: "map param_name (set_first_role n r ps) = map param_name ps"
  by (induction ps) auto

lemma set_first_role_set: "p \<in> set (set_first_role n r ps) \<Longrightarrow> p \<in> set ps \<or> (param_name p = n \<and> role p = r)"
  by (induction ps) (auto split: if_splits)

lemma set_first_role_has:
  "\<exists>p\<in>set ps. param_name p = n \<Longrightarrow> \<exists>p\<in>set (set_first_role n r ps). param_name p = n \<and> role p = r"
  by (induction ps) auto

text \<open>After \<open>set_exception_param\<close> the block receives the exception under exactly that name.\<close>

lemma set_exception_param_has:
  "\<exists>p\<in>set (set_exception_param n ps). param_name p = n \<and> role p = RoleException"
  using set_first_role_has by (fastforce simp: set_exception_param_def Let_def)

lemma set_exception_param_only:
  "p \<in> set (set_exception_param n ps) \<Longrightarrow> role p = RoleException \<Longrightarrow> param_name p = n"
  by (auto simp: set_exception_param_def Let_def split: if_splits dest!: set_first_role_set)

lemma exception_param_set [simp, ir_simps]: "exception_param (set_exception_param n ps) = Some n"
proof -
  obtain p where "find (\<lambda>p. role p = RoleException) (set_exception_param n ps) = Some p"
    using set_exception_param_has [of n ps] by (cases "find (\<lambda>p. role p = RoleException) (set_exception_param n ps)")
      (auto simp: find_None_iff)
  moreover from this have "p \<in> set (set_exception_param n ps)" "role p = RoleException"
    by (auto simp: find_Some_iff)
  ultimately show ?thesis
    by (auto simp: exception_param_def dest: set_exception_param_only)
qed

lemma distinct_set_exception_param:
  "distinct (map param_name ps) \<Longrightarrow> distinct (map param_name (set_exception_param n ps))"
  by (auto simp: set_exception_param_def Let_def distinct_map_filter)

lemma distinct_ensure_param:
  "distinct (map param_name ps) \<Longrightarrow> distinct (map param_name (ensure_param n r ps))"
  by (auto simp: ensure_param_def)

end
