(* ===== verification/Structured.thy ===== *)
theory Structured
  imports IR
begin

text \<open>
  Block builders and structured statements of \<open>soac-blockpy/src/block_py/mod.rs\<close>: a
  \<open>BlockBuilder\<close> collects statements and at most one terminator, a \<open>StructuredInstr\<close> is an
  expression or an \<open>if\<close> whose arms are builders. The type parameter \<open>I\<close> of the Rust code is
  \<open>'e\<close>; the \<open>assert_normalized\<close> checks recurse into the arms and never fail, so they have no
  counterpart here.
\<close>

datatype ('s, 't) block_builder = Builder (bb_body: "'s list") (bb_term: "'t option")

datatype 'e structured =
  SExpr 'e
| SIf 'e "('e structured, 'e block_term) block_builder" "('e structured, 'e block_term) block_builder"

type_synonym 'e stmt_builder = "('e structured, 'e block_term) block_builder"

definition builder_new :: "('s, 't) block_builder" where
  "builder_new = Builder [] None"

definition with_term :: "'s list \<Rightarrow> 't option \<Rightarrow> ('s, 't) block_builder" where
  "with_term stmts t = Builder stmts t"

definition from_stmts :: "'s list \<Rightarrow> ('s, 't) block_builder" where
  "from_stmts stmts = with_term stmts None"

text \<open>Appending after the terminator, or setting a second one, panics.\<close>

definition push_stmt :: "'s \<Rightarrow> ('s, 't) block_builder \<Rightarrow> ('s, 't) block_builder option" where
  "push_stmt s b = (if bb_term b = None then Some (Builder (bb_body b @ [s]) None) else None)"

fun extend :: "'s list \<Rightarrow> ('s, 't) block_builder \<Rightarrow> ('s, 't) block_builder option" where
  "extend [] b = Some b"
| "extend (s # ss) b = do { b' \<leftarrow> push_stmt s b; extend ss b' }"

definition set_term :: "'t \<Rightarrow> ('s, 't) block_builder \<Rightarrow> ('s, 't) block_builder option" where
  "set_term t b = (if bb_term b = None then Some (Builder (bb_body b) (Some t)) else None)"

definition builder_jump :: "block_label \<Rightarrow> ('s, 'e block_term) block_builder" where
  "builder_jump l = with_term [] (Some (Jump (edge_new l)))"

text \<open>\<open>Block::from_builder\<close>: a builder without terminator falls through to the given label, or
  returns the implicit \<open>None\<close> of the expression type.\<close>

definition from_builder ::
  "'e \<Rightarrow> block_label \<Rightarrow> ('s, 'e block_term) block_builder \<Rightarrow> block_param list
    \<Rightarrow> block_edge option \<Rightarrow> block_label option \<Rightarrow> ('s, 'e) block" where
  "from_builder implicit_none l b ps exc fallthrough_target =
     \<lparr>label = l, body = bb_body b,
      bterm = (case bb_term b of
                 Some t \<Rightarrow> t
               | None \<Rightarrow> (case fallthrough_target of
                           Some t \<Rightarrow> Jump (edge_new t)
                         | None \<Rightarrow> Return implicit_none)),
      params = ps, exc_edge = exc\<rparr>"

lemma extend_eq:
  "extend ss b =
     (if ss = [] then Some b
      else if bb_term b = None then Some (Builder (bb_body b @ ss) None) else None)"
  by (induction ss arbitrary: b) (auto simp: push_stmt_def)

text \<open>The position of the first \<open>if\<close> splits a statement list.\<close>

fun split_first_if ::
  "'e structured list \<Rightarrow> ('e structured list \<times> ('e \<times> 'e stmt_builder \<times> 'e stmt_builder) \<times> 'e structured list) option" where
  "split_first_if [] = None"
| "split_first_if (SIf c a b # rest) = Some ([], (c, a, b), rest)"
| "split_first_if (SExpr e # rest) =
     map_option (\<lambda>(pre, i, post). (SExpr e # pre, i, post)) (split_first_if rest)"

lemma split_first_if_Some:
  "split_first_if ss = Some (pre, (c, a, b), rest) \<Longrightarrow>
     ss = pre @ SIf c a b # rest \<and> (\<exists>es. pre = map SExpr es)"
proof (induction ss arbitrary: pre rule: split_first_if.induct)
  case (3 e ss)
  then obtain pre' where "split_first_if ss = Some (pre', (c, a, b), rest)" "pre = SExpr e # pre'"
    by (auto simp: map_option_case split: option.splits)
  with "3.IH" obtain es where "ss = pre' @ SIf c a b # rest" "pre' = map SExpr es" by blast
  then have "SExpr e # ss = pre @ SIf c a b # rest \<and> pre = map SExpr (e # es)"
    using \<open>pre = SExpr e # pre'\<close> by simp
  then show ?case by blast
qed simp_all

lemma split_first_if_None: "split_first_if ss = None \<Longrightarrow> \<exists>es. ss = map SExpr es"
proof (induction ss rule: split_first_if.induct)
  case (3 e ss)
  then obtain es where "SExpr e # ss = map SExpr (e # es)" by auto
  then show ?case by (rule exI)
qed simp_all

end
