(* ===== verification/Machine.thy ===== *)
theory Machine
  imports Structured
begin

text \<open>
  The abstract machine against which the passes on control flow are verified. The effect of one
  expression, the truth value and the branch index of a value, raising, and the binding of edge
  arguments to block parameters are a parameter (\<open>sem\<close>): the passes never look into expressions,
  so a theorem for every \<open>sem\<close> covers whatever the code generator makes of them. What the machine
  fixes is what the terminators mean to the code generator (\<open>soac-eval/src/jit/mod.rs\<close>): an
  index out of the range of a branch table goes to the default label, an exception goes to the
  exception edge of the block or leaves the function, and an edge without arguments leaves the
  state as it is.
\<close>

section \<open>Executing one block\<close>

record ('e, 'st, 'v, 'x) sem =
  sem_eval :: "'e \<Rightarrow> 'st \<Rightarrow> ('x + 'v) \<times> 'st"
  sem_truth :: "'v \<Rightarrow> 'st \<Rightarrow> ('x + bool) \<times> 'st"
  sem_index :: "'v \<Rightarrow> 'st \<Rightarrow> ('x + int) \<times> 'st"
  sem_raise :: "'v \<Rightarrow> 'st \<Rightarrow> 'x \<times> 'st"
  sem_reraise :: "'st \<Rightarrow> 'x \<times> 'st"
  sem_bind :: "block_param list \<Rightarrow> block_arg list \<Rightarrow> 'x option \<Rightarrow> 'st \<Rightarrow> 'st"

datatype ('st, 'v, 'x) control = Goto block_edge 'st | Finish 'v 'st | Throw 'x 'st

datatype ('st, 'v, 'x) outcome = Returned 'v 'st | Raised 'x 'st | Stuck

definition on_value ::
  "('x + 'a) \<times> 'st \<Rightarrow> ('a \<Rightarrow> 'st \<Rightarrow> ('st, 'v, 'x) control) \<Rightarrow> ('st, 'v, 'x) control" where
  "on_value r k = (case r of (Inl x, s) \<Rightarrow> Throw x s | (Inr a, s) \<Rightarrow> k a s)"

lemma on_value_simps [simp]:
  "on_value (Inl x, s) k = Throw x s" "on_value (Inr a, s) k = k a s"
  by (simp_all add: on_value_def)

lemma on_value_cong [fundef_cong]:
  "r = r' \<Longrightarrow> (\<And>a s. r' = (Inr a, s) \<Longrightarrow> k a s = k' a s) \<Longrightarrow> on_value r k = on_value r' k'"
  by (auto simp: on_value_def split: prod.splits sum.splits)

fun exec_term ::
  "('e, 'st, 'v, 'x) sem \<Rightarrow> 'e block_term \<Rightarrow> 'st \<Rightarrow> ('st, 'v, 'x) control" where
  "exec_term S (Jump e) st = Goto e st"
| "exec_term S (IfTerm t a b) st =
     on_value (sem_eval S t st) (\<lambda>v s. on_value (sem_truth S v s)
       (\<lambda>c s. Goto (edge_new (if c then a else b)) s))"
| "exec_term S (BranchTable i ts d) st =
     on_value (sem_eval S i st) (\<lambda>v s. on_value (sem_index S v s)
       (\<lambda>k s. Goto (edge_new (if 0 \<le> k \<and> nat k < length ts then ts ! nat k else d)) s))"
| "exec_term S (Raise None) st = (let (x, s) = sem_reraise S st in Throw x s)"
| "exec_term S (Raise (Some e)) st =
     on_value (sem_eval S e st) (\<lambda>v s. let (x, s') = sem_raise S v s in Throw x s')"
| "exec_term S (Return e) st = on_value (sem_eval S e st) Finish"

fun exec_body ::
  "('e, 'st, 'v, 'x) sem \<Rightarrow> 'e list \<Rightarrow> ('st \<Rightarrow> ('st, 'v, 'x) control) \<Rightarrow> 'st \<Rightarrow> ('st, 'v, 'x) control" where
  "exec_body S [] k st = k st"
| "exec_body S (e # es) k st = on_value (sem_eval S e st) (\<lambda>_ s. exec_body S es k s)"

definition exec_linear ::
  "('e, 'st, 'v, 'x) sem \<Rightarrow> ('e, 'e) block \<Rightarrow> 'st \<Rightarrow> ('st, 'v, 'x) control" where
  "exec_linear S b st = exec_body S (body b) (exec_term S (bterm b)) st"

text \<open>An arm of a structured \<open>if\<close> that ends without terminator continues after the \<open>if\<close>.\<close>

lemma size_builder_body: "size_list size (bb_body b) \<le> size_block_builder size g b"
  by (cases b) simp

lemma size_arm:
  "size_list size (bb_body (if r then a else b) @ rest) < size_list size (SIf c a b # rest)"
  "size_list size (bb_body (if r then a else b)) < size_list size (SIf c a b # rest)"
  using size_builder_body [of a size] size_builder_body [of b size] by auto

function exec_stmts ::
  "('e, 'st, 'v, 'x) sem \<Rightarrow> 'e structured list \<Rightarrow> 'e block_term \<Rightarrow> 'st \<Rightarrow> ('st, 'v, 'x) control" where
  "exec_stmts S [] t st = exec_term S t st"
| "exec_stmts S (SExpr e # rest) t st = on_value (sem_eval S e st) (\<lambda>_ s. exec_stmts S rest t s)"
| "exec_stmts S (SIf c a b # rest) t st =
     on_value (sem_eval S c st) (\<lambda>v s. on_value (sem_truth S v s) (\<lambda>r s.
       let arm = (if r then a else b) in
       (case bb_term arm of
          Some t' \<Rightarrow> exec_stmts S (bb_body arm) t' s
        | None \<Rightarrow> exec_stmts S (bb_body arm @ rest) t s)))"
  by pat_completeness auto

termination
  by (relation "measure (\<lambda>(S, ss, t, st). size_list size ss)") (simp_all only: in_measure prod.case
      size_arm wf_measure, simp)

definition exec_structured ::
  "('e, 'st, 'v, 'x) sem \<Rightarrow> ('e structured, 'e) block \<Rightarrow> 'st \<Rightarrow> ('st, 'v, 'x) control" where
  "exec_structured S b st = exec_stmts S (body b) (bterm b) st"

section \<open>Running a function\<close>

definition find_block :: "('s, 'e) block list \<Rightarrow> block_label \<Rightarrow> ('s, 'e) block option" where
  "find_block bs l = find (\<lambda>b. label b = l) bs"

definition enter_block ::
  "('e, 'st, 'v, 'x) sem \<Rightarrow> block_param list \<Rightarrow> block_arg list \<Rightarrow> 'x option \<Rightarrow> 'st \<Rightarrow> 'st" where
  "enter_block S ps as x st = (if as = [] \<and> x = None then st else sem_bind S ps as x st)"

definition dispatch ::
  "block_edge option \<Rightarrow> ('st, 'v, 'x) control \<Rightarrow> (block_edge \<times> 'x option \<times> 'st) + ('st, 'v, 'x) outcome" where
  "dispatch exc c =
     (case c of
        Goto e st \<Rightarrow> Inl (e, None, st)
      | Finish v st \<Rightarrow> Inr (Returned v st)
      | Throw x st \<Rightarrow> (case exc of None \<Rightarrow> Inr (Raised x st) | Some e \<Rightarrow> Inl (e, Some x, st)))"

text \<open>
  \<open>run S X bs n e x st\<close> follows the edge \<open>e\<close> (carrying the exception \<open>x\<close>, if any) into the blocks
  \<open>bs\<close> and executes at most \<open>n\<close> blocks with \<open>X\<close>; \<open>None\<close> is running out of steps.
\<close>

fun run ::
  "('e, 'st, 'v, 'x) sem \<Rightarrow> (('s, 'e) block \<Rightarrow> 'st \<Rightarrow> ('st, 'v, 'x) control) \<Rightarrow> ('s, 'e) block list
    \<Rightarrow> nat \<Rightarrow> block_edge \<Rightarrow> 'x option \<Rightarrow> 'st \<Rightarrow> ('st, 'v, 'x) outcome option" where
  "run S X bs 0 e x st = None"
| "run S X bs (Suc n) e x st =
     (case find_block bs (target e) of
        None \<Rightarrow> Some Stuck
      | Some b \<Rightarrow>
          (case dispatch (exc_edge b) (X b (enter_block S (params b) (edge_args e) x st)) of
             Inr out \<Rightarrow> Some out
           | Inl (e', x', st') \<Rightarrow> run S X bs n e' x' st'))"

abbreviation run_structured where "run_structured S \<equiv> run S (exec_structured S)"

abbreviation run_linear where "run_linear S \<equiv> run S (exec_linear S)"

lemma run_mono: "run S X bs n e x st = Some out \<Longrightarrow> run S X bs (n + k) e x st = Some out"
proof (induction n arbitrary: e x st)
  case (Suc n)
  then show ?case by (auto split: option.splits sum.splits)
qed simp

lemma run_mono_le: "run S X bs n e x st = Some out \<Longrightarrow> n \<le> m \<Longrightarrow> run S X bs m e x st = Some out"
  using run_mono [of S X bs n e x st out "m - n"] by simp

lemma run_deterministic:
  "run S X bs n e x st = Some out \<Longrightarrow> run S X bs m e x st = Some out' \<Longrightarrow> out = out'"
  using run_mono_le [of S X bs n e x st out m] run_mono_le [of S X bs m e x st out' n]
  by (cases "n \<le> m") auto

lemma find_block_Some: "find_block bs l = Some b \<Longrightarrow> b \<in> set bs \<and> label b = l"
  by (auto simp: find_block_def find_Some_iff)

lemma find_block_None: "find_block bs l = None \<longleftrightarrow> (\<forall>b\<in>set bs. label b \<noteq> l)"
  by (auto simp: find_block_def find_None_iff)

lemma find_block_distinct: "distinct (map label bs) \<Longrightarrow> b \<in> set bs \<Longrightarrow> find_block bs (label b) = Some b"
  by (induction bs) (auto simp: find_block_def)

lemma find_block_map:
  "(\<And>b. label (f b) = label b) \<Longrightarrow> find_block (map f bs) l = map_option f (find_block bs l)"
  by (induction bs) (auto simp: find_block_def)

lemma find_block_Cons: "find_block (b # bs) l = (if label b = l then Some b else find_block bs l)"
  by (simp add: find_block_def)

lemma enter_block_plain [simp]: "enter_block S ps [] None st = st"
  by (simp add: enter_block_def)

lemma edge_new_sel [simp]: "target (edge_new l) = l" "edge_args (edge_new l) = []"
  by (simp_all add: edge_new_def)

lemma exec_stmts_SExpr: "exec_stmts S (map SExpr es @ ss) t st = exec_body S es (exec_stmts S ss t) st"
  by (induction es arbitrary: st) (auto intro!: on_value_cong)

lemma exec_body_append: "exec_body S (es @ fs) k st = exec_body S es (exec_body S fs k) st"
  by (induction es arbitrary: st) (auto intro!: on_value_cong)

lemma exec_body_cong: "(\<And>s. k s = k' s) \<Longrightarrow> exec_body S es k st = exec_body S es k' st"
  by (induction es arbitrary: st) (auto intro!: on_value_cong)

text \<open>Every jump goes to a successor of the terminator.\<close>

lemma exec_term_Goto: "exec_term S t st = Goto e s \<Longrightarrow> target e \<in> set (successors t)"
  by (cases t) (auto simp: on_value_def Let_def split: prod.splits sum.splits if_splits option.splits
      elim!: exec_term.elims)

lemma exec_body_Goto:
  "exec_body S es k st = Goto e s \<Longrightarrow> \<exists>s'. k s' = Goto e s"
  by (induction es arbitrary: st) (auto simp: on_value_def split: prod.splits sum.splits)

section \<open>A concrete machine\<close>

text \<open>Expressions are numbers: evaluating one adds it to the state, which makes the order and the
  number of evaluations visible. Witnesses of the simulation theorems run on it.\<close>

definition adding_sem :: "(nat, nat, nat, nat) sem" where
  "adding_sem = \<lparr>sem_eval = (\<lambda>e st. (Inr e, st + e)), sem_truth = (\<lambda>v st. (Inr (v \<noteq> 0), st)),
     sem_index = (\<lambda>v st. (Inr (int v), st)), sem_raise = (\<lambda>v st. (v, st)),
     sem_reraise = (\<lambda>st. (0, st)), sem_bind = (\<lambda>ps as x st. st)\<rparr>"

end
