(* ===== verification/Simulation.thy ===== *)
theory Simulation
  imports Machine
begin

text \<open>
  The simulation argument the passes share that replace one block by several: when every block of
  the source is matched by a stretch of blocks of the target with the same combined effect, both
  programs return the same outcomes, and one runs forever exactly when the other does.
\<close>

section \<open>Stretches of blocks\<close>

definition resume ::
  "('e, 'st, 'v, 'x) sem \<Rightarrow> (('s, 'e) block \<Rightarrow> 'st \<Rightarrow> ('st, 'v, 'x) control) \<Rightarrow> ('s, 'e) block list
    \<Rightarrow> nat \<Rightarrow> block_edge option \<Rightarrow> ('st, 'v, 'x) control \<Rightarrow> ('st, 'v, 'x) outcome option" where
  "resume S X T n exc c =
     (case dispatch exc c of Inr out \<Rightarrow> Some out | Inl (e, x, st) \<Rightarrow> run S X T n e x st)"

text \<open>Entering \<open>T\<close> over the edge \<open>e\<close> amounts, after a fixed number of blocks, to the control \<open>c\<close>
  under the exception edge \<open>exc\<close>.\<close>

definition steps_to ::
  "('e, 'st, 'v, 'x) sem \<Rightarrow> (('s, 'e) block \<Rightarrow> 'st \<Rightarrow> ('st, 'v, 'x) control) \<Rightarrow> ('s, 'e) block list
    \<Rightarrow> block_edge \<Rightarrow> 'x option \<Rightarrow> 'st \<Rightarrow> block_edge option \<Rightarrow> ('st, 'v, 'x) control \<Rightarrow> bool" where
  "steps_to S X T e x st exc c \<longleftrightarrow>
     (\<exists>k. \<forall>m. run S X T m e x st = (if m \<le> k then None else resume S X T (m - Suc k) exc c))"

lemma run_Suc:
  "run S X T (Suc n) e x st =
     (case find_block T (target e) of
        None \<Rightarrow> Some Stuck
      | Some b \<Rightarrow> resume S X T n (exc_edge b) (X b (enter_block S (params b) (edge_args e) x st)))"
  by (simp add: resume_def split: option.split)

lemma resume_mono: "resume S X T n exc c = Some out \<Longrightarrow> n \<le> m \<Longrightarrow> resume S X T m exc c = Some out"
  by (cases "dispatch exc c") (auto simp: resume_def elim: run_mono_le)

lemma steps_block:
  "find_block T (target e) = Some b \<Longrightarrow>
     steps_to S X T e x st (exc_edge b) (X b (enter_block S (params b) (edge_args e) x st))"
  unfolding steps_to_def
proof (intro exI allI)
  fix m assume "find_block T (target e) = Some b"
  then show "run S X T m e x st = (if m \<le> 0 then None else resume S X T (m - Suc 0) (exc_edge b)
      (X b (enter_block S (params b) (edge_args e) x st)))"
    by (cases m) (simp_all add: run_Suc del: run.simps(2))
qed

lemma steps_trans:
  assumes "steps_to S X T e x st exc (Goto e' st')" "steps_to S X T e' None st' exc' c"
  shows "steps_to S X T e x st exc' c"
proof -
  from assms obtain k k' where
    "\<And>m. run S X T m e x st = (if m \<le> k then None else resume S X T (m - Suc k) exc (Goto e' st'))"
    "\<And>m. run S X T m e' None st' = (if m \<le> k' then None else resume S X T (m - Suc k') exc' c)"
    by (auto simp: steps_to_def)
  then have "run S X T m e x st =
      (if m \<le> k + Suc k' then None else resume S X T (m - Suc (k + Suc k')) exc' c)" for m
    by (auto simp: resume_def dispatch_def)
  then show ?thesis unfolding steps_to_def by blast
qed

section \<open>Programs matched block by block\<close>

definition matches ::
  "('e, 'st, 'v, 'x) sem \<Rightarrow> (('s, 'e) block \<Rightarrow> 'st \<Rightarrow> ('st, 'v, 'x) control) \<Rightarrow> ('s, 'e) block list
    \<Rightarrow> (('t, 'e) block \<Rightarrow> 'st \<Rightarrow> ('st, 'v, 'x) control) \<Rightarrow> ('t, 'e) block list \<Rightarrow> block_label set \<Rightarrow> bool" where
  "matches S X bs Y T L \<longleftrightarrow>
     (\<forall>e x st. target e \<in> L \<longrightarrow>
        (case find_block bs (target e) of
           None \<Rightarrow> find_block T (target e) = None
         | Some b \<Rightarrow>
             (let c = X b (enter_block S (params b) (edge_args e) x st) in
              steps_to S Y T e x st (exc_edge b) c \<and>
              (\<forall>e' x' st'. dispatch (exc_edge b) c = Inl (e', x', st') \<longrightarrow> target e' \<in> L))))"

lemma matches_block:
  assumes "matches S X bs Y T L" "target e \<in> L" "find_block bs (target e) = Some b"
  shows "steps_to S Y T e x st (exc_edge b) (X b (enter_block S (params b) (edge_args e) x st))"
    and "dispatch (exc_edge b) (X b (enter_block S (params b) (edge_args e) x st)) = Inl (e', x', st')
           \<Longrightarrow> target e' \<in> L"
  using assms by (force simp: matches_def Let_def)+

lemma matches_forward:
  assumes M: "matches S X bs Y T L"
  shows "target e \<in> L \<Longrightarrow> run S X bs n e x st = Some out \<Longrightarrow> \<exists>m. run S Y T m e x st = Some out"
proof (induction n arbitrary: e x st)
  case (Suc n)
  show ?case
  proof (cases "find_block bs (target e)")
    case None
    with M Suc.prems have "run S Y T (Suc 0) e x st = Some Stuck" "out = Stuck"
      by (force simp: matches_def)+
    then show ?thesis by blast
  next
    case (Some b)
    let ?c = "X b (enter_block S (params b) (edge_args e) x st)"
    have "\<exists>m. resume S Y T m (exc_edge b) ?c = Some out"
    proof (cases "dispatch (exc_edge b) ?c")
      case (Inl next_step)
      obtain e' x' st' where go: "dispatch (exc_edge b) ?c = Inl (e', x', st')"
        using Inl by (cases next_step) simp
      with Suc.prems Some have "run S X bs n e' x' st' = Some out" by simp
      then show ?thesis
        using Suc.IH [OF matches_block(2) [OF M Suc.prems(1) Some go]] by (simp add: resume_def go)
    qed (use Suc.prems Some in \<open>simp add: resume_def\<close>)
    moreover obtain k where "\<And>m. run S Y T m e x st
        = (if m \<le> k then None else resume S Y T (m - Suc k) (exc_edge b) ?c)"
      using matches_block(1) [OF M Suc.prems(1) Some] unfolding steps_to_def by blast
    ultimately show ?thesis by (metis add_diff_cancel_left' not_less_eq_eq le_add1)
  qed
qed simp

lemma matches_backward:
  assumes M: "matches S X bs Y T L"
  shows "target e \<in> L \<Longrightarrow> run S Y T m e x st = Some out \<Longrightarrow> run S X bs m e x st = Some out"
proof (induction m arbitrary: e x st rule: less_induct)
  case (less m)
  show ?case
  proof (cases "find_block bs (target e)")
    case None
    with M less.prems(1) have "find_block T (target e) = None" by (force simp: matches_def)
    with None less.prems show ?thesis by (cases m) auto
  next
    case (Some b)
    let ?c = "X b (enter_block S (params b) (edge_args e) x st)"
    obtain k where k: "\<And>m. run S Y T m e x st
        = (if m \<le> k then None else resume S Y T (m - Suc k) (exc_edge b) ?c)"
      using matches_block(1) [OF M less.prems(1) Some] unfolding steps_to_def by blast
    with less.prems have "\<not> m \<le> k" and r: "resume S Y T (m - Suc k) (exc_edge b) ?c = Some out"
      by (auto split: if_splits)
    then have lt: "m - Suc k < m" by simp
    have "resume S X bs (m - Suc k) (exc_edge b) ?c = Some out"
      using r less.IH [OF lt matches_block(2) [OF M less.prems(1) Some]]
      by (auto simp: resume_def split: sum.splits)
    then have "resume S X bs (m - 1) (exc_edge b) ?c = Some out"
      by (rule resume_mono) simp
    with \<open>\<not> m \<le> k\<close> Some show ?thesis by (cases m) (simp_all add: run_Suc del: run.simps(2))
  qed
qed

lemma matches_equiv:
  assumes "matches S X bs Y T L" "target e \<in> L"
  shows "(\<exists>n. run S X bs n e x st = Some out) \<longleftrightarrow> (\<exists>m. run S Y T m e x st = Some out)"
  using matches_forward [OF assms] matches_backward [OF assms] by blast

end
