(* ===== verification/Cfg_Simplify.thy ===== *)
theory Cfg_Simplify
  imports Machine
begin

text \<open>
  The passes of \<open>soac-blockpy/src/block_py/cfg.rs\<close> that keep the statements of a block:
  \<open>fold_jumps_to_trivial_none_return_blockpy\<close>, \<open>prune_unreachable_blockpy_blocks\<close> and
  \<open>relabel_blockpy_blocks_dense\<close>, each with its simulation against the abstract machine. A
  \<open>HashMap\<close> collected from an iterator keeps the last entry of a key, hence the \<open>rev\<close>.
\<close>

section \<open>Folding jumps to a trivial return\<close>

definition is_trivial_return :: "('e \<Rightarrow> bool) \<Rightarrow> ('s, 'e) block \<Rightarrow> bool" where
  "is_trivial_return is_none b \<longleftrightarrow>
     body b = [] \<and> (case bterm b of Return e \<Rightarrow> is_none e | _ \<Rightarrow> False)"

definition trivial_ret_none_terms ::
  "('e \<Rightarrow> bool) \<Rightarrow> ('s, 'e) block list \<Rightarrow> block_label \<rightharpoonup> 'e block_term" where
  "trivial_ret_none_terms is_none bs =
     map_of (rev (map (\<lambda>b. (label b, bterm b)) (filter (is_trivial_return is_none) bs)))"

definition fold_jump :: "(block_label \<rightharpoonup> 'e block_term) \<Rightarrow> ('s, 'e) block \<Rightarrow> ('s, 'e) block" where
  "fold_jump m b =
     (case bterm b of
        Jump e \<Rightarrow> (case m (target e) of Some t \<Rightarrow> b\<lparr>bterm := t\<rparr> | None \<Rightarrow> b)
      | _ \<Rightarrow> b)"

definition fold_jumps_to_trivial_none_return ::
  "('e \<Rightarrow> bool) \<Rightarrow> ('s, 'e) block list \<Rightarrow> ('s, 'e) block list" where
  "fold_jumps_to_trivial_none_return is_none bs = map (fold_jump (trivial_ret_none_terms is_none bs)) bs"

lemma fold_jump_frame [simp]:
  "label (fold_jump m b) = label b" "body (fold_jump m b) = body b"
  "params (fold_jump m b) = params b" "exc_edge (fold_jump m b) = exc_edge b"
  by (auto simp: fold_jump_def split: block_term.splits option.splits)

lemma trivial_terms_Some:
  assumes "distinct (map label bs)" "trivial_ret_none_terms is_none bs l = Some t"
  shows "\<exists>b v. find_block bs l = Some b \<and> body b = [] \<and> bterm b = Return v \<and> t = Return v \<and> is_none v"
proof -
  from assms(2) obtain b where "b \<in> set bs" "is_trivial_return is_none b" "label b = l" "bterm b = t"
    by (auto simp: trivial_ret_none_terms_def dest!: map_of_SomeD)
  then show ?thesis
    using find_block_distinct [OF assms(1), of b]
    by (auto simp: is_trivial_return_def split: block_term.splits)
qed

text \<open>Changing only the final terminator changes only what is done with it.\<close>

lemma exec_stmts_rel:
  "(\<And>s. R (exec_term S t s) (exec_term S t' s)) \<Longrightarrow> (\<And>c. R c c) \<Longrightarrow>
     R (exec_stmts S ss t st) (exec_stmts S ss t' st)"
proof (induction S ss t st rule: exec_stmts.induct)
  case (2 S e rest t st)
  then show ?case by (auto simp: on_value_def split: prod.splits sum.splits)
next
  case (3 S c a b rest t st)
  show ?case
  proof (cases "\<exists>v s r s'. sem_eval S c st = (Inr v, s) \<and> sem_truth S v s = (Inr r, s')")
    case True
    then obtain v s r s' where ev: "sem_eval S c st = (Inr v, s)" "sem_truth S v s = (Inr r, s')"
      by blast
    show ?thesis
    proof (cases "bb_term (if r then a else b)")
      case None
      with 3 ev show ?thesis by simp
    next
      case (Some t'')
      then show ?thesis by (simp add: ev Some 3(4))
    qed
  next
    case False
    then show ?thesis
      by (auto simp: on_value_def 3(4) split: prod.splits sum.splits)
  qed
qed simp

text \<open>
  The simulation. \<open>obs\<close> is what can be observed of a state once the function is done; binding
  edge arguments to parameters must not be observable there, and loading the implicit \<open>None\<close>
  must have no effect. The folded program needs at most the steps of the original, and the
  original at most twice the steps of the folded one.
\<close>

fun obs_outcome :: "('st \<Rightarrow> 'o) \<Rightarrow> ('st, 'v, 'x) outcome \<Rightarrow> ('o, 'v, 'x) outcome" where
  "obs_outcome obs (Returned v st) = Returned v (obs st)"
| "obs_outcome obs (Raised x st) = Raised x (obs st)"
| "obs_outcome obs Stuck = Stuck"

definition pure_none :: "('e, 'st, 'v, 'x) sem \<Rightarrow> ('e \<Rightarrow> bool) \<Rightarrow> bool" where
  "pure_none S is_none \<longleftrightarrow> (\<forall>e. is_none e \<longrightarrow> (\<exists>v. \<forall>st. sem_eval S e st = (Inr v, st)))"

definition bind_unobservable :: "('e, 'st, 'v, 'x) sem \<Rightarrow> ('st \<Rightarrow> 'o) \<Rightarrow> bool" where
  "bind_unobservable S obs \<longleftrightarrow> (\<forall>ps as x st. obs (sem_bind S ps as x st) = obs st)"

lemma obs_enter [simp]: "bind_unobservable S obs \<Longrightarrow> obs (enter_block S ps as x st) = obs st"
  by (simp add: bind_unobservable_def enter_block_def)

text \<open>What a block does after folding: the same, or a return where it jumped to a trivial block.\<close>

definition folds_to ::
  "('e, 'st, 'v, 'x) sem \<Rightarrow> ('e \<Rightarrow> bool) \<Rightarrow> ('e structured, 'e) block list
    \<Rightarrow> ('st, 'v, 'x) control \<Rightarrow> ('st, 'v, 'x) control \<Rightarrow> bool" where
  "folds_to S is_none bs c c' \<longleftrightarrow> c = c' \<or>
     (\<exists>e s b r v. c = Goto e s \<and> c' = Finish v s \<and> find_block bs (target e) = Some b \<and>
        body b = [] \<and> bterm b = Return r \<and> (\<forall>st. sem_eval S r st = (Inr v, st)))"

lemma fold_jump_exec:
  assumes "distinct (map label bs)" "pure_none S is_none"
  shows "folds_to S is_none bs (exec_structured S b st)
     (exec_structured S (fold_jump (trivial_ret_none_terms is_none bs) b) st)"
proof -
  let ?b' = "fold_jump (trivial_ret_none_terms is_none bs) b"
  have "folds_to S is_none bs (exec_term S (bterm b) s) (exec_term S (bterm ?b') s)" for s
  proof (cases "bterm ?b' = bterm b")
    case False
    then obtain e t where b: "bterm b = Jump e" "bterm ?b' = t"
      and t: "trivial_ret_none_terms is_none bs (target e) = Some t"
      by (auto simp: fold_jump_def split: block_term.splits option.splits)
    from trivial_terms_Some [OF assms(1) t] obtain c r where
      "find_block bs (target e) = Some c" "body c = []" "bterm c = Return r" "t = Return r" "is_none r"
      by blast
    with assms(2) show ?thesis
      by (auto simp: folds_to_def pure_none_def b)
  qed (simp add: folds_to_def)
  then show ?thesis
    unfolding exec_structured_def fold_jump_frame by (rule exec_stmts_rel) (simp add: folds_to_def)
qed

lemma find_block_fold [simp]:
  "find_block (fold_jumps_to_trivial_none_return is_none bs) l
     = map_option (fold_jump (trivial_ret_none_terms is_none bs)) (find_block bs l)"
  by (simp add: fold_jumps_to_trivial_none_return_def find_block_map)

lemma run_trivial_block:
  assumes "find_block bs (target e) = Some b" "body b = []" "bterm b = Return r"
    and "\<forall>st. sem_eval S r st = (Inr v, st)"
  shows "run_structured S bs (Suc n) e x st = Some (Returned v (enter_block S (params b) (edge_args e) x st))"
  using assms by (simp add: exec_structured_def dispatch_def)

lemma fold_forward:
  assumes "distinct (map label bs)" "pure_none S is_none" "bind_unobservable S obs"
    and "run_structured S bs n e x st = Some out"
  shows "\<exists>out'. run_structured S (fold_jumps_to_trivial_none_return is_none bs) n e x st = Some out' \<and>
     obs_outcome obs out' = obs_outcome obs out"
  using assms(4)
proof (induction n arbitrary: e x st)
  case (Suc n)
  show ?case
  proof (cases "find_block bs (target e)")
    case (Some b)
    let ?s = "enter_block S (params b) (edge_args e) x st"
    let ?b' = "fold_jump (trivial_ret_none_terms is_none bs) b"
    from fold_jump_exec [OF assms(1,2), of b ?s]
    consider "exec_structured S ?b' ?s = exec_structured S b ?s"
      | e' s c r v where "exec_structured S b ?s = Goto e' s" "exec_structured S ?b' ?s = Finish v s"
          "find_block bs (target e') = Some c" "body c = []" "bterm c = Return r"
          "\<forall>st. sem_eval S r st = (Inr v, st)"
      by (auto simp: folds_to_def)
    then show ?thesis
    proof cases
      case 1
      with Suc Some show ?thesis by (auto split: sum.splits)
    next
      case 2
      with Suc.prems Some have go: "run_structured S bs n e' None s = Some out"
        by (simp add: dispatch_def)
      then obtain m where "n = Suc m" by (cases n) auto
      with go run_trivial_block [OF 2(3-6), of m None s]
      have "out = Returned v (enter_block S (params c) (edge_args e') None s)" by simp
      with 2(2) Some assms(3) show ?thesis by (simp add: dispatch_def)
    qed
  qed (use Suc.prems in simp)
qed simp

lemma fold_backward:
  assumes "distinct (map label bs)" "pure_none S is_none" "bind_unobservable S obs"
    and "run_structured S (fold_jumps_to_trivial_none_return is_none bs) n e x st = Some out'"
  shows "\<exists>out. run_structured S bs (Suc n) e x st = Some out \<and>
     obs_outcome obs out = obs_outcome obs out'"
  using assms(4)
proof (induction n arbitrary: e x st)
  case (Suc n)
  show ?case
  proof (cases "find_block bs (target e)")
    case (Some b)
    let ?s = "enter_block S (params b) (edge_args e) x st"
    let ?b' = "fold_jump (trivial_ret_none_terms is_none bs) b"
    from fold_jump_exec [OF assms(1,2), of b ?s]
    consider "exec_structured S ?b' ?s = exec_structured S b ?s"
      | e' s c r v where "exec_structured S b ?s = Goto e' s" "exec_structured S ?b' ?s = Finish v s"
          "find_block bs (target e') = Some c" "body c = []" "bterm c = Return r"
          "\<forall>st. sem_eval S r st = (Inr v, st)"
      by (auto simp: folds_to_def)
    then show ?thesis
    proof cases
      case 1
      with Suc.prems Some show ?thesis
        using Suc.IH by (auto simp del: run.simps(2) simp: run.simps(2) [of S _ bs "Suc n"]
            run.simps(2) [of S _ "fold_jumps_to_trivial_none_return is_none bs" n]
            split: sum.splits)
    next
      case 2
      with Suc.prems Some have "out' = Returned v s" by (simp add: dispatch_def)
      with 2 Some assms(3) show ?thesis
        by (simp add: dispatch_def run_trivial_block del: run.simps(2)
            add: run.simps(2) [of S _ bs "Suc n"])
    qed
  qed (use Suc.prems in simp)
qed simp

section \<open>Pruning unreachable blocks\<close>

definition index_by_label :: "('s, 'e) block list \<Rightarrow> block_label \<rightharpoonup> ('s, 'e) block" where
  "index_by_label bs = map_of (rev (map (\<lambda>b. (label b, b)) bs))"

text \<open>The worklist is a stack: \<open>pop\<close> takes the label pushed last, here the head of the list. It
  ends because the finitely many labels are visited once each.\<close>

instance block_label :: finite
proof
  have "(UNIV :: block_label set) = BlockLabel ` UNIV"
    by (metis block_label.exhaust_sel surjI image_iff UNIV_I UNIV_eq_I)
  then show "finite (UNIV :: block_label set)" by (metis finite finite_imageI)
qed

lemma card_unvisited: "l \<notin> R \<Longrightarrow> card (- insert l R) < card (- R)" for l :: block_label
  by (rule psubset_card_mono) auto

function visit_labels ::
  "('s, 'e) block list \<Rightarrow> block_label set \<Rightarrow> block_label list \<Rightarrow> block_label set" where
  "visit_labels bs reached [] = reached"
| "visit_labels bs reached (l # work) =
     (if l \<in> reached then visit_labels bs reached work
      else (case index_by_label bs l of
              None \<Rightarrow> visit_labels bs (insert l reached) work
            | Some b \<Rightarrow> visit_labels bs (insert l reached) (rev (successors (bterm b)) @ work)))"
  by pat_completeness auto

termination
  by (relation "measures [\<lambda>(bs, R, work). card (- R), \<lambda>(bs, R, work). length work]")
     (simp_all add: card_unvisited)

definition prune_unreachable ::
  "block_label \<Rightarrow> block_label list \<Rightarrow> ('s, 'e) block list \<Rightarrow> ('s, 'e) block list" where
  "prune_unreachable entry extra_roots bs =
     (let reached = visit_labels bs {} (rev (entry # extra_roots))
      in filter (\<lambda>b. label b \<in> reached) bs)"

definition jump_edges :: "('s, 'e) block list \<Rightarrow> (block_label \<times> block_label) set" where
  "jump_edges bs = {(l, l'). \<exists>b. index_by_label bs l = Some b \<and> l' \<in> set (successors (bterm b))}"

lemma closed_frontier:
  assumes "l \<in> R" "\<And>l l'. l \<in> R \<Longrightarrow> (l, l') \<in> E \<Longrightarrow> l' \<in> R \<union> W"
  shows "E\<^sup>* `` {l} \<subseteq> R \<union> E\<^sup>* `` W"
proof -
  have "m \<in> R \<union> E\<^sup>* `` W" if "(l, m) \<in> E\<^sup>*" for m
    using that
  proof (induction rule: rtrancl_induct)
    case (step y z)
    then show ?case using assms(2) [of y z] by (auto intro: rtrancl_into_rtrancl)
  qed (simp add: assms(1))
  then show ?thesis by blast
qed

lemma image_roots_Cons: "E\<^sup>* `` set (l # work) = E\<^sup>* `` {l} \<union> E\<^sup>* `` set work"
  by auto

text \<open>The visited labels are those the roots reach over the jumps of the terminators.\<close>

lemma visit_labels_reachable:
  "(\<And>l l'. l \<in> R \<Longrightarrow> (l, l') \<in> jump_edges bs \<Longrightarrow> l' \<in> R \<union> set work) \<Longrightarrow>
     visit_labels bs R work = R \<union> (jump_edges bs)\<^sup>* `` set work"
proof (induction bs R work rule: visit_labels.induct)
  case (2 bs R l work)
  let ?E = "jump_edges bs"
  show ?case
  proof (cases "l \<in> R")
    case True
    then have inv: "\<And>k k'. k \<in> R \<Longrightarrow> (k, k') \<in> ?E \<Longrightarrow> k' \<in> R \<union> set work"
      using "2.prems" by fastforce
    have "?E\<^sup>* `` {l} \<subseteq> R \<union> ?E\<^sup>* `` set work"
      using True inv by (rule closed_frontier)
    moreover have "visit_labels bs R (l # work) = R \<union> ?E\<^sup>* `` set work"
      using "2.IH"(1) [OF True inv] True by simp
    ultimately show ?thesis unfolding image_roots_Cons by (auto simp only: Un_iff subset_iff)
  next
    case False
    show ?thesis
    proof (cases "index_by_label bs l")
      case None
      then have none: "(l, l') \<notin> ?E" for l' by (simp add: jump_edges_def)
      have inv: "\<And>k k'. k \<in> insert l R \<Longrightarrow> (k, k') \<in> ?E \<Longrightarrow> k' \<in> insert l R \<union> set work"
        using "2.prems" none by fastforce
      have "?E\<^sup>* `` {l} = {l}" using none by (auto elim: converse_rtranclE)
      moreover have "visit_labels bs R (l # work) = insert l R \<union> ?E\<^sup>* `` set work"
        using "2.IH"(2) [OF False None inv] False None by simp
      ultimately show ?thesis unfolding image_roots_Cons by blast
    next
      case (Some b)
      let ?W = "rev (successors (bterm b)) @ work"
      have out: "(l, l') \<in> ?E \<longleftrightarrow> l' \<in> set (successors (bterm b))" for l'
        by (simp add: jump_edges_def Some)
      have inv: "\<And>k k'. k \<in> insert l R \<Longrightarrow> (k, k') \<in> ?E \<Longrightarrow> k' \<in> insert l R \<union> set ?W"
        using "2.prems" out by fastforce
      have "?E\<^sup>* `` {l} = insert l (?E\<^sup>* `` set (successors (bterm b)))"
        using out by (auto elim: converse_rtranclE intro: converse_rtrancl_into_rtrancl)
      moreover have "visit_labels bs R (l # work) = insert l R \<union> ?E\<^sup>* `` set ?W"
        using "2.IH"(3) [OF False Some inv] False Some by simp
      ultimately show ?thesis unfolding image_roots_Cons set_append set_rev Image_Un by blast
    qed
  qed
qed auto

lemma prune_unreachable_eq:
  "prune_unreachable entry roots bs =
     filter (\<lambda>b. label b \<in> (jump_edges bs)\<^sup>* `` set (entry # roots)) bs"
  using visit_labels_reachable [of "{}" bs "rev (entry # roots)"]
  by (simp add: prune_unreachable_def Let_def)

text \<open>The targets of terminators inside the arms of a structured \<open>if\<close>; the pass does not follow
  them, so they have to be among the roots.\<close>

definition opt_successors :: "'e block_term option \<Rightarrow> block_label list" where
  "opt_successors t = (case t of None \<Rightarrow> [] | Some t \<Rightarrow> successors t)"

function nested_targets :: "'e structured list \<Rightarrow> block_label list" where
  "nested_targets [] = []"
| "nested_targets (SExpr e # rest) = nested_targets rest"
| "nested_targets (SIf c a b # rest) =
     nested_targets (bb_body a) @ opt_successors (bb_term a)
       @ nested_targets (bb_body b) @ opt_successors (bb_term b) @ nested_targets rest"
  by pat_completeness auto

termination
proof (relation "measure (size_list size)")
  fix c a b and rest :: "'a structured list"
  show "(bb_body a, SIf c a b # rest) \<in> measure (size_list size)"
    "(bb_body b, SIf c a b # rest) \<in> measure (size_list size)"
    using size_builder_body [of a size] size_builder_body [of b size] by auto
qed auto

lemma nested_targets_append [simp]:
  "nested_targets (xs @ ys) = nested_targets xs @ nested_targets ys"
  by (induction xs rule: nested_targets.induct) auto

lemma exec_stmts_Goto:
  "exec_stmts S ss t st = Goto e s \<Longrightarrow> target e \<in> set (nested_targets ss) \<union> set (successors t)"
proof (induction S ss t st arbitrary: e s rule: exec_stmts.induct)
  case (3 S c a b rest t st)
  from "3.prems" obtain v s1 r s2 where ev:
    "sem_eval S c st = (Inr v, s1)" "sem_truth S v s1 = (Inr r, s2)"
    by (auto simp: on_value_def split: prod.splits sum.splits)
  show ?case
  proof (cases "bb_term (if r then a else b)")
    case None
    with 3 ev have "target e \<in> set (nested_targets (bb_body (if r then a else b) @ rest)) \<union> set (successors t)"
      by simp
    then show ?thesis by (auto split: if_splits)
  next
    case (Some t')
    with 3 ev have "target e \<in> set (nested_targets (bb_body (if r then a else b))) \<union> set (successors t')"
      by simp
    with Some show ?thesis by (auto simp: opt_successors_def split: if_splits)
  qed
qed (auto simp: exec_term_Goto on_value_def split: prod.splits sum.splits)

definition roots_cover :: "block_label list \<Rightarrow> ('e structured, 'e) block list \<Rightarrow> bool" where
  "roots_cover roots bs \<longleftrightarrow>
     (\<forall>b\<in>set bs. set (nested_targets (body b)) \<subseteq> set roots \<and>
        (\<forall>e. exc_edge b = Some e \<longrightarrow> target e \<in> set roots))"

lemma index_by_label_find:
  "distinct (map label bs) \<Longrightarrow> index_by_label bs l = find_block bs l"
proof -
  assume d: "distinct (map label bs)"
  have "map_of (map (\<lambda>b. (label b, b)) bs) l = find_block bs l"
    by (induction bs) (auto simp: find_block_def)
  moreover have "distinct (map fst (map (\<lambda>b. (label b, b)) bs))"
    using d by (simp add: comp_def)
  ultimately show ?thesis by (simp add: index_by_label_def map_of_rev_distinct)
qed

lemma find_block_filter:
  "P l \<Longrightarrow> find_block (filter (\<lambda>b. P (label b)) bs) l = find_block bs l"
  by (induction bs) (auto simp: find_block_def)

lemma prune_run:
  assumes "distinct (map label bs)" "roots_cover (entry # roots) bs"
    and "target e \<in> (jump_edges bs)\<^sup>* `` set (entry # roots)"
  shows "run_structured S (prune_unreachable entry roots bs) n e x st = run_structured S bs n e x st"
  using assms(3)
proof (induction n arbitrary: e x st)
  case (Suc n)
  let ?L = "(jump_edges bs)\<^sup>* `` set (entry # roots)"
  have same: "find_block (prune_unreachable entry roots bs) (target e) = find_block bs (target e)"
    using Suc.prems unfolding prune_unreachable_eq by (rule find_block_filter)
  show ?case
  proof (cases "find_block bs (target e)")
    case (Some b)
    have next_in: "target e' \<in> ?L" if "dispatch (exc_edge b) (exec_structured S b s) = Inl (e', x', s')"
      for e' x' s s'
    proof -
      have "b \<in> set bs" using Some by (auto dest: find_block_Some)
      from that consider "exec_structured S b s = Goto e' s'" | "exc_edge b = Some e'"
        by (auto simp: dispatch_def split: control.splits option.splits)
      then consider "target e' \<in> set (entry # roots)" | "target e' \<in> set (successors (bterm b))"
        using \<open>b \<in> set bs\<close> assms(2) by cases (auto simp: exec_structured_def roots_cover_def dest!: exec_stmts_Goto)
      then show ?thesis
      proof cases
        case 2
        with Some assms(1) have "(target e, target e') \<in> jump_edges bs"
          by (simp add: jump_edges_def index_by_label_find)
        with Suc.prems show ?thesis by (blast intro: rtrancl_into_rtrancl)
      qed blast
    qed
    with Some same Suc.IH show ?thesis by (auto split: sum.splits)
  qed (simp add: same)
qed simp

section \<open>Dense labels\<close>

text \<open>\<open>relabel_blockpy_blocks_dense\<close>: the block at position \<open>i\<close> gets the label \<open>i\<close>, and every
  target follows. An unknown target panics.\<close>

definition dense_relabel :: "('s, 'e) block list \<Rightarrow> (block_label \<rightharpoonup> block_label) option" where
  "dense_relabel bs =
     do { ls \<leftarrow> opt_map from_index [0..<length bs]; Some (map_of (rev (zip (map label bs) ls))) }"

definition relabel_edge :: "(block_label \<rightharpoonup> block_label) \<Rightarrow> block_edge \<Rightarrow> block_edge option" where
  "relabel_edge m e = do { l \<leftarrow> m (target e); Some (e\<lparr>target := l\<rparr>) }"

fun relabel_targets :: "(block_label \<rightharpoonup> block_label) \<Rightarrow> 'e block_term \<Rightarrow> 'e block_term option" where
  "relabel_targets m (Jump e) = do { e' \<leftarrow> relabel_edge m e; Some (Jump e') }"
| "relabel_targets m (IfTerm t a b) = do { a' \<leftarrow> m a; b' \<leftarrow> m b; Some (IfTerm t a' b') }"
| "relabel_targets m (BranchTable i ts d) =
     do { ts' \<leftarrow> opt_map m ts; d' \<leftarrow> m d; Some (BranchTable i ts' d') }"
| "relabel_targets m (Raise x) = Some (Raise x)"
| "relabel_targets m (Return v) = Some (Return v)"

definition relabel_block ::
  "(block_label \<rightharpoonup> block_label) \<Rightarrow> ('s, 'e) block \<Rightarrow> ('s, 'e) block option" where
  "relabel_block m b =
     do { l \<leftarrow> m (label b);
          t \<leftarrow> relabel_targets m (bterm b);
          x \<leftarrow> (case exc_edge b of None \<Rightarrow> Some None
                | Some e \<Rightarrow> do { e' \<leftarrow> relabel_edge m e; Some (Some e') });
          Some (b\<lparr>label := l, bterm := t, exc_edge := x\<rparr>) }"

definition relabel_dense :: "('s, 'e) block list \<Rightarrow> ('s, 'e) block list option" where
  "relabel_dense bs = do { m \<leftarrow> dense_relabel bs; opt_map (relabel_block m) bs }"

definition block_targets :: "('s, 'e) block \<Rightarrow> block_label set" where
  "block_targets b =
     set (successors (bterm b)) \<union> (case exc_edge b of None \<Rightarrow> {} | Some e \<Rightarrow> {target e})"

lemma dense_relabel_Some:
  "dense_relabel bs = Some m \<longleftrightarrow> length bs \<le> 2 ^ 32 \<and>
     m = map_of (rev (zip (map label bs) (map (\<lambda>i. BlockLabel (of_nat i)) [0..<length bs])))"
proof (cases "length bs \<le> 2 ^ 32")
  case True
  then have "opt_map from_index [0..<length bs] = Some (map (\<lambda>i. BlockLabel (of_nat i)) [0..<length bs])"
    by (intro opt_map_total) (simp add: from_index_def)
  with True show ?thesis by (auto simp: dense_relabel_def)
next
  case False
  then obtain i where "i < length bs" "2 ^ 32 \<le> i" by (meson not_le order_refl)
  then have "\<not> (\<forall>i\<in>set [0..<length bs]. from_index i \<noteq> None)"
    by (metis atLeast0LessThan from_index_eq_None lessThan_iff set_upt)
  then have "opt_map from_index [0..<length bs] = None"
    unfolding opt_map_defined [symmetric] by (rule notnotD)
  with False show ?thesis unfolding dense_relabel_def by simp
qed

lemma relabel_targets_defined:
  "relabel_targets m t \<noteq> None \<longleftrightarrow> (\<forall>l\<in>set (successors t). m l \<noteq> None)"
proof (cases t)
  case (BranchTable i ts d)
  have "(\<exists>y. opt_map m ts = Some y) \<longleftrightarrow> (\<forall>l\<in>set ts. m l \<noteq> None)"
    using opt_map_defined [of m ts] by auto
  then show ?thesis by (auto simp: BranchTable bind_eq_Some_conv)
qed (auto simp: relabel_edge_def bind_eq_Some_conv)

lemma relabel_block_defined:
  "relabel_block m b \<noteq> None \<longleftrightarrow> m (label b) \<noteq> None \<and> (\<forall>l\<in>block_targets b. m l \<noteq> None)"
  using relabel_targets_defined [of m "bterm b"]
  by (auto simp: relabel_block_def block_targets_def relabel_edge_def bind_eq_Some_conv split: option.splits)

lemma relabel_blockD:
  assumes "relabel_block m b = Some b'"
  shows "m (label b) = Some (label b')" "relabel_targets m (bterm b) = Some (bterm b')"
    "body b' = body b" "params b' = params b"
    "rel_option (\<lambda>e e'. relabel_edge m e = Some e') (exc_edge b) (exc_edge b')"
  using assms by (auto simp: relabel_block_def bind_eq_Some_conv split: option.splits)

lemma relabel_dense_defined:
  "relabel_dense bs \<noteq> None \<longleftrightarrow>
     length bs \<le> 2 ^ 32 \<and> (\<forall>b\<in>set bs. block_targets b \<subseteq> label ` set bs)"
proof (cases "length bs \<le> 2 ^ 32")
  case True
  then obtain m where m: "dense_relabel bs = Some m" by (auto simp: dense_relabel_Some)
  have "m l \<noteq> None \<longleftrightarrow> l \<in> label ` set bs" for l
  proof -
    have "fst ` set (rev (zip (map label bs) ls)) = label ` set bs" if "length ls = length bs" for ls :: "block_label list"
      using that by (metis length_map list.set_map map_fst_zip set_rev)
    then show ?thesis using m by (simp only: dense_relabel_Some map_of_eq_None_iff) simp
  qed
  then show ?thesis
    using True by (auto simp: relabel_dense_def m opt_map_defined relabel_block_defined simp del: not_None_eq)
next
  case False
  then have "dense_relabel bs = None" by (metis dense_relabel_Some option.exhaust)
  with False show ?thesis by (simp add: relabel_dense_def)
qed

fun rename_control ::
  "(block_label \<rightharpoonup> block_label) \<Rightarrow> ('st, 'v, 'x) control \<Rightarrow> ('st, 'v, 'x) control \<Rightarrow> bool" where
  "rename_control m (Goto e s) c \<longleftrightarrow> (\<exists>e'. relabel_edge m e = Some e' \<and> c = Goto e' s)"
| "rename_control m d c \<longleftrightarrow> c = d"

lemma relabel_edge_new [simp]: "relabel_edge m (edge_new l) = map_option edge_new (m l)"
  by (cases "m l") (simp_all add: relabel_edge_def edge_new_def)

lemma exec_term_relabel:
  "relabel_targets m t = Some t' \<Longrightarrow> rename_control m (exec_term S t s) (exec_term S t' s)"
proof (induction m t rule: relabel_targets.induct)
  case (3 m i ts d)
  then show ?case
    by (auto simp: bind_eq_Some_conv on_value_def opt_map_Some_iff list_all2_conv_all_nth
        split: prod.splits sum.splits)
next
  case (4 m x)
  then show ?case by (cases x) (auto simp: on_value_def split: prod.splits sum.splits)
qed (auto simp: bind_eq_Some_conv on_value_def split: prod.splits sum.splits)

lemma exec_body_rel:
  "(\<And>s. R (k s) (k' s)) \<Longrightarrow> (\<And>x s. R (Throw x s) (Throw x s)) \<Longrightarrow>
     R (exec_body S es k s) (exec_body S es k' s)"
  by (induction es arbitrary: s) (auto simp: on_value_def split: prod.splits sum.splits)

lemma exec_linear_relabel:
  assumes "relabel_block m b = Some b'"
  shows "rename_control m (exec_linear S b s) (exec_linear S b' s)"
  unfolding exec_linear_def relabel_blockD(3) [OF assms]
  by (rule exec_body_rel) (simp_all add: exec_term_relabel [OF relabel_blockD(2) [OF assms]])

lemma dense_relabel_nth:
  assumes "distinct (map label bs)" "dense_relabel bs = Some m" "i < length bs"
  shows "m (label (bs ! i)) = Some (BlockLabel (of_nat i))"
proof -
  let ?ps = "zip (map label bs) (map (\<lambda>i. BlockLabel (of_nat i)) [0..<length bs])"
  have "map fst ?ps = map label bs" by simp
  then have "m = map_of ?ps"
    using assms(1,2) by (simp add: dense_relabel_Some map_of_rev_distinct)
  moreover have "?ps ! i = (label (bs ! i), BlockLabel (of_nat i))" using assms(3) by simp
  then have "(label (bs ! i), BlockLabel (of_nat i)) \<in> set ?ps"
    using assms(3) nth_mem [of i ?ps] by simp
  ultimately show ?thesis using assms(1) by (simp add: comp_def)
qed

lemma of_nat_label_inject:
  "i < 2 ^ 32 \<Longrightarrow> j < 2 ^ 32 \<Longrightarrow> BlockLabel (of_nat i) = BlockLabel (of_nat j) \<Longrightarrow> i = j"
  using from_index_Some [of i "BlockLabel (of_nat i)"] from_index_Some [of j "BlockLabel (of_nat j)"]
  unfolding from_index_def by presburger

lemma relabel_dense_nth:
  assumes "distinct (map label bs)" "relabel_dense bs = Some bs'" "dense_relabel bs = Some m"
  shows "length bs' = length bs"
    and "i < length bs \<Longrightarrow> relabel_block m (bs ! i) = Some (bs' ! i)"
    and "i < length bs \<Longrightarrow> label (bs' ! i) = BlockLabel (of_nat i)"
    and "distinct (map label bs')"
proof -
  from assms(2,3) have all: "list_all2 (\<lambda>b b'. relabel_block m b = Some b') bs bs'"
    by (simp add: relabel_dense_def opt_map_Some_iff)
  then show len: "length bs' = length bs" by (auto dest: list_all2_lengthD)
  from all show blk: "relabel_block m (bs ! i) = Some (bs' ! i)" if "i < length bs" for i
    using that by (rule list_all2_nthD)
  show lab: "label (bs' ! i) = BlockLabel (of_nat i)" if "i < length bs" for i
    using relabel_blockD(1) [OF blk [OF that]] dense_relabel_nth [OF assms(1,3) that] by simp
  have "length bs \<le> 2 ^ 32" using assms(3) by (simp only: dense_relabel_Some)
  then have "i < length bs \<Longrightarrow> j < length bs \<Longrightarrow> label (bs' ! i) = label (bs' ! j) \<Longrightarrow> i = j" for i j
    unfolding lab using of_nat_label_inject [of i j] by (meson less_le_trans)
  then show "distinct (map label bs')" by (simp add: distinct_conv_nth len) metis
qed

lemma find_block_relabel:
  assumes "distinct (map label bs)" "relabel_dense bs = Some bs'" "dense_relabel bs = Some m"
    and "m l = Some l'"
  obtains i where "i < length bs" "find_block bs l = Some (bs ! i)" "find_block bs' l' = Some (bs' ! i)"
proof -
  have "l \<in> label ` set bs"
    using assms(3,4) by (auto simp only: dense_relabel_Some dest!: map_of_SomeD) (auto simp: set_zip)
  then obtain i where i: "i < length bs" "l = label (bs ! i)" by (auto simp: in_set_conv_nth)
  note nth = relabel_dense_nth [OF assms(1-3)]
  from i assms(4) dense_relabel_nth [OF assms(1,3) i(1)] have "l' = label (bs' ! i)"
    by (simp add: nth(3))
  moreover from i(1) have "bs' ! i \<in> set bs'" "bs ! i \<in> set bs" by (simp_all add: nth(1))
  ultimately show ?thesis
    using that [OF i(1)] i(2) find_block_distinct [OF assms(1)] find_block_distinct [OF nth(4)] by metis
qed

text \<open>C15: Dense relabelling renames a function without changing what it does: entered at the renamed
  edge, it takes the same steps and returns the same outcome for every number of steps.\<close>

theorem relabel_dense_run:
  assumes "distinct (map label bs)" "relabel_dense bs = Some bs'" "dense_relabel bs = Some m"
    and "relabel_edge m e = Some e'"
  shows "run_linear S bs' n e' x st = run_linear S bs n e x st"
  using assms(4)
proof (induction n arbitrary: e e' x st)
  case (Suc n)
  from Suc.prems have e': "m (target e) = Some (target e')" "edge_args e' = edge_args e"
    by (auto simp: relabel_edge_def bind_eq_Some_conv)
  obtain i where i: "i < length bs" "find_block bs (target e) = Some (bs ! i)"
    "find_block bs' (target e') = Some (bs' ! i)"
    by (rule find_block_relabel [OF assms(1-3) e'(1)])
  let ?s = "enter_block S (params (bs ! i)) (edge_args e) x st"
  have blk: "relabel_block m (bs ! i) = Some (bs' ! i)"
    using i(1) by (rule relabel_dense_nth(2) [OF assms(1-3)])
  note par = relabel_blockD(4) [OF blk] and exc = relabel_blockD(5) [OF blk]
  have "rename_control m (exec_linear S (bs ! i) ?s) (exec_linear S (bs' ! i) ?s)"
    using blk by (rule exec_linear_relabel)
  then show ?case
    using exc Suc.IH
    by (cases "exec_linear S (bs ! i) ?s"; cases "exc_edge (bs ! i)"; cases "exc_edge (bs' ! i)")
       (auto simp: i e'(2) par dispatch_def)
qed simp


definition two_blocks :: "(nat, nat) block list" where
  "two_blocks =
     [\<lparr>label = BlockLabel 7, body = [3], bterm = Jump (edge_new (BlockLabel 4)), params = [],
       exc_edge = Some (edge_new (BlockLabel 4))\<rparr>,
      \<lparr>label = BlockLabel 4, body = [2], bterm = Return 1, params = [], exc_edge = None\<rparr>]"

theorem relabel_dense_run_witness:
  "run_linear adding_sem (the (relabel_dense two_blocks)) 2 (edge_new (BlockLabel 0)) None 0
     = run_linear adding_sem two_blocks 2 (edge_new (BlockLabel 7)) None 0"
proof -
  define m :: "block_label \<rightharpoonup> block_label" where "m = the (dense_relabel two_blocks)"
  have 1: "distinct (map label two_blocks)" by (simp add: two_blocks_def)
  have "relabel_dense two_blocks \<noteq> None"
    unfolding relabel_dense_defined by (simp add: two_blocks_def block_targets_def)
  moreover from this have "dense_relabel two_blocks \<noteq> None"
    by (auto simp: relabel_dense_def bind_eq_None_conv)
  ultimately have 2: "relabel_dense two_blocks = Some (the (relabel_dense two_blocks))"
    "dense_relabel two_blocks = Some m" by (simp_all add: m_def)
  have "m (label (two_blocks ! 0)) = Some (BlockLabel (of_nat 0))"
    by (rule dense_relabel_nth [OF 1 2(2)]) (simp add: two_blocks_def)
  then have 3: "relabel_edge m (edge_new (BlockLabel 7)) = Some (edge_new (BlockLabel 0))"
    by (simp add: two_blocks_def)
  show ?thesis by (rule relabel_dense_run [OF 1 2 3])
qed

text \<open>Dense relabelling panics exactly when a jump or exception target is not the label of a block,
  or when there are more blocks than 32-bit labels.\<close>

theorem relabel_dense_panics:
  "relabel_dense bs = None \<longleftrightarrow>
     2 ^ 32 < length bs \<or> (\<exists>b\<in>set bs. \<exists>l\<in>block_targets b. l \<notin> label ` set bs)"
proof -
  have "relabel_dense bs = None \<longleftrightarrow> \<not> (relabel_dense bs \<noteq> None)" by blast
  then show ?thesis unfolding relabel_dense_defined subset_eq by (simp only: de_Morgan_conj not_le) blast
qed

text \<open>Pruning keeps, in their order, exactly the blocks whose labels the entry and the extra roots
  reach over the jumps of the terminators.\<close>

theorem prune_keeps_reachable:
  "prune_unreachable entry roots bs =
     filter (\<lambda>b. \<exists>r\<in>set (entry # roots). (r, label b) \<in> (jump_edges bs)\<^sup>*) bs"
  unfolding prune_unreachable_eq Image_iff ..

text \<open>C13: When the extra roots contain every exception target and every target inside a structured
  \<open>if\<close>, pruning does not change any run that starts at the entry.\<close>

theorem prune_preserves_runs:
  assumes "distinct (map label bs)" "roots_cover (entry # roots) bs"
  shows "run_structured S (prune_unreachable entry roots bs) n (edge_new entry) None st
       = run_structured S bs n (edge_new entry) None st"
proof (rule prune_run [OF assms])
  have "entry \<in> set (entry # roots)" by simp
  then show "target (edge_new entry) \<in> (jump_edges bs)\<^sup>* `` set (entry # roots)"
    unfolding edge_new_sel by (rule ImageI [OF rtrancl_refl])
qed

definition three_blocks :: "(nat structured, nat) block list" where
  "three_blocks =
     [\<lparr>label = BlockLabel 0, body = [SExpr 3, SIf 1 (Builder [SExpr 5] None) (Builder [] (Some (Return 7))), SExpr 2],
       bterm = Jump (edge_new (BlockLabel 1)), params = [], exc_edge = None\<rparr>,
      \<lparr>label = BlockLabel 2, body = [SExpr 9], bterm = Return 9, params = [], exc_edge = None\<rparr>,
      \<lparr>label = BlockLabel 1, body = [], bterm = Return 0, params = [], exc_edge = None\<rparr>]"

theorem prune_preserves_runs_witness:
  "run_structured adding_sem (prune_unreachable (BlockLabel 0) [] three_blocks) 2 (edge_new (BlockLabel 0)) None 0
     = run_structured adding_sem three_blocks 2 (edge_new (BlockLabel 0)) None 0"
  by (rule prune_preserves_runs) (simp_all add: three_blocks_def roots_cover_def opt_successors_def)

text \<open>C14: Replacing a jump to a block that only returns the implicit \<open>None\<close> by that return changes no
  observable outcome, and neither adds nor removes a non-terminating run.\<close>

theorem fold_jumps_equiv:
  assumes "distinct (map label bs)" "pure_none S is_none" "bind_unobservable S obs"
  shows "(\<exists>n out. run_structured S (fold_jumps_to_trivial_none_return is_none bs) n e x st = Some out
            \<and> obs_outcome obs out = res)
     \<longleftrightarrow> (\<exists>n out. run_structured S bs n e x st = Some out \<and> obs_outcome obs out = res)"
  using fold_forward [OF assms] fold_backward [OF assms] by metis

theorem fold_jumps_equiv_witness:
  "\<exists>n out. run_structured adding_sem (fold_jumps_to_trivial_none_return (\<lambda>e. e = 0) three_blocks) n
      (edge_new (BlockLabel 0)) None 0 = Some out \<and> obs_outcome id out = Returned 0 11"
proof -
  have *: "distinct (map label three_blocks)" "pure_none adding_sem (\<lambda>e. e = 0)" "bind_unobservable adding_sem id"
    by (simp_all add: three_blocks_def pure_none_def bind_unobservable_def adding_sem_def)
  have "run_structured adding_sem three_blocks (Suc (Suc 0)) (edge_new (BlockLabel 0)) None 0 = Some (Returned 0 11)"
    by (simp add: three_blocks_def adding_sem_def find_block_def exec_structured_def dispatch_def)
  then show ?thesis unfolding fold_jumps_equiv [OF *] by fastforce
qed

end
