(* ===== verification/Cfg_Linearize.thy ===== *)
theory Cfg_Linearize
  imports Simulation Cfg_Simplify
begin

text \<open>
  \<open>linearize_structured_ifs\<close> of \<open>soac-blockpy/src/block_py/cfg.rs\<close>: a structured \<open>if\<close> in the
  middle of a block becomes an \<open>IfTerm\<close>, its arms and what follows it become blocks of their
  own under labels of the function's name generator. The collections the Rust functions receive
  as \<open>&mut\<close> are the record \<open>lin_out\<close>, the arguments they pass on unchanged are \<open>lin_ctx\<close>.
\<close>

section \<open>The pass\<close>

record lin_ctx =
  ctx_exc_edge :: "block_edge option"
  ctx_params :: "string list"
  ctx_declared :: "block_param list"
  ctx_exc_target :: "block_label option"

record 'e lin_out =
  out_gen :: function_name_gen
  out_blocks :: "('e structured, 'e) block list"
  out_block_params :: "block_label \<rightharpoonup> string list"
  out_exception_edges :: "block_label \<rightharpoonup> block_label option"

definition params_for_linearized_names :: "string list \<Rightarrow> block_param list \<Rightarrow> block_param list" where
  "params_for_linearized_names names declared = filter (\<lambda>p. param_name p \<in> set names) declared"

definition push_linear ::
  "lin_ctx \<Rightarrow> block_label \<Rightarrow> 'e structured list \<Rightarrow> 'e block_term \<Rightarrow> 'e lin_out \<Rightarrow> 'e lin_out" where
  "push_linear c l ss t out =
     out\<lparr>out_block_params := (out_block_params out)(l \<mapsto> ctx_params c),
        out_exception_edges := (out_exception_edges out)(l \<mapsto> ctx_exc_target c),
        out_blocks := out_blocks out @
          [\<lparr>label = l, body = ss, bterm = t,
            params = params_for_linearized_names (ctx_params c) (ctx_declared c),
            exc_edge = ctx_exc_edge c\<rparr>]\<rparr>"

definition next_join_label ::
  "bool \<Rightarrow> function_name_gen \<Rightarrow> (block_label option \<times> function_name_gen) option" where
  "next_join_label needed g =
     (if needed then do { (l, g') \<leftarrow> next_block_name g; Some (Some l, g') } else Some (None, g))"

lemma size_split_first_if:
  assumes "split_first_if ss = Some (pre, (q, a, b), rest)"
  shows "size_list size (bb_body a) < size_list size ss" "size_list size (bb_body b) < size_list size ss"
    "size_list size rest < size_list size ss"
  using split_first_if_Some [OF assms] size_builder_body [of a size] size_builder_body [of b size]
  by auto

function linearize_if_sequence ::
  "lin_ctx \<Rightarrow> block_label \<Rightarrow> 'e structured list \<Rightarrow> 'e block_term \<Rightarrow> 'e lin_out \<Rightarrow> 'e lin_out option" where
  "linearize_if_sequence c l ss final out =
     (case split_first_if ss of
        None \<Rightarrow> Some (push_linear c l ss final out)
      | Some (pre, (q, a, b), rest) \<Rightarrow>
          do { (then_label, g1) \<leftarrow> next_block_name (out_gen out);
               (else_label, g2) \<leftarrow> next_block_name g1;
               (join_label, g3) \<leftarrow> next_join_label (rest \<noteq> []) g2;
               let out1 = push_linear c l pre (IfTerm q then_label else_label) (out\<lparr>out_gen := g3\<rparr>);
               let branch = (case join_label of Some j \<Rightarrow> Jump (edge_new j) | None \<Rightarrow> final);
               out2 \<leftarrow> linearize_if_sequence c then_label (bb_body a) (unwrap_or branch (bb_term a)) out1;
               out3 \<leftarrow> linearize_if_sequence c else_label (bb_body b) (unwrap_or branch (bb_term b)) out2;
               (case join_label of
                  None \<Rightarrow> Some out3
                | Some j \<Rightarrow> linearize_if_sequence c j rest final out3) })"
  by pat_completeness auto

termination
  by (relation "measure (\<lambda>(c, l, ss, final, out). size_list size ss)") (auto intro: size_split_first_if)

declare linearize_if_sequence.simps [simp del]

text \<open>\<open>linearize_blockpy_fragment\<close>, which the function above calls on the two arms.\<close>

definition linearize_fragment ::
  "lin_ctx \<Rightarrow> block_label \<Rightarrow> 'e stmt_builder \<Rightarrow> 'e block_term \<Rightarrow> 'e lin_out \<Rightarrow> 'e lin_out option" where
  "linearize_fragment c l f fall out = linearize_if_sequence c l (bb_body f) (unwrap_or fall (bb_term f)) out"

definition add_param_name :: "string list \<Rightarrow> string \<Rightarrow> string list" where
  "add_param_name ps n = (if n \<in> set ps then ps else ps @ [n])"

definition lin_context ::
  "(block_label \<rightharpoonup> string list) \<Rightarrow> (block_label \<rightharpoonup> block_label option) \<Rightarrow> ('s, 'e) block \<Rightarrow> lin_ctx" where
  "lin_context block_params exception_edges b =
     \<lparr>ctx_exc_edge = exc_edge b,
      ctx_params = foldl add_param_name (unwrap_or [] (block_params (label b))) (param_names (bb_params (params b))),
      ctx_declared = params b,
      ctx_exc_target = unwrap_or None (exception_edges (label b))\<rparr>"

fun linearize_blocks ::
  "(block_label \<rightharpoonup> string list) \<Rightarrow> (block_label \<rightharpoonup> block_label option) \<Rightarrow>
     ('e structured, 'e) block list \<Rightarrow> 'e lin_out \<Rightarrow> 'e lin_out option" where
  "linearize_blocks bp ee [] out = Some out"
| "linearize_blocks bp ee (b # bs) out =
     do { out1 \<leftarrow> linearize_if_sequence (lin_context bp ee b) (label b) (body b) (bterm b) out;
          linearize_blocks bp ee bs out1 }"

definition linearize_structured_ifs ::
  "function_name_gen \<Rightarrow> ('e structured, 'e) block list \<Rightarrow> (block_label \<rightharpoonup> string list) \<Rightarrow>
     (block_label \<rightharpoonup> block_label option) \<Rightarrow> 'e lin_out option" where
  "linearize_structured_ifs g bs bp ee =
     linearize_blocks bp ee bs
       \<lparr>out_gen = g, out_blocks = [], out_block_params = Map.empty, out_exception_edges = Map.empty\<rparr>"

section \<open>Case analysis on statement lists\<close>

lemma split_first_if_map [simp]: "split_first_if (map SExpr es) = None"
  by (induction es) simp_all

lemma split_first_if_if [simp]:
  "split_first_if (map SExpr es @ SIf q a b # rest) = Some (map SExpr es, (q, a, b), rest)"
  by (induction es) simp_all

lemma if_sequence_induct [case_names linear split]:
  assumes "\<And>es. P (map SExpr es)"
    and "\<And>es q a b rest. P (bb_body a) \<Longrightarrow> P (bb_body b) \<Longrightarrow> P rest \<Longrightarrow> P (map SExpr es @ SIf q a b # rest)"
  shows "P ss"
proof (induction "size_list size ss" arbitrary: ss rule: less_induct)
  case less
  show ?case
  proof (cases "split_first_if ss")
    case None
    then show ?thesis using assms(1) by (auto dest: split_first_if_None)
  next
    case (Some r)
    obtain pre q a b rest where r: "r = (pre, (q, a, b), rest)" by (cases r) auto
    from split_first_if_Some [OF Some [unfolded r]] obtain es
      where "ss = map SExpr es @ SIf q a b # rest" by blast
    then show ?thesis
      using assms(2) less [OF size_split_first_if(1) [OF Some [unfolded r]]]
        less [OF size_split_first_if(2) [OF Some [unfolded r]]]
        less [OF size_split_first_if(3) [OF Some [unfolded r]]] by simp
  qed
qed

lemma linearize_linear:
  "linearize_if_sequence c l (map SExpr es) final out = Some (push_linear c l (map SExpr es) final out)"
  by (subst linearize_if_sequence.simps) simp

lemma linearize_splitE:
  assumes "linearize_if_sequence c l (map SExpr es @ SIf q a b # rest) final out = Some out'"
  obtains tl g1 el g2 jl g3 branch out2 out3 where
    "next_block_name (out_gen out) = Some (tl, g1)" "next_block_name g1 = Some (el, g2)"
    "next_join_label (rest \<noteq> []) g2 = Some (jl, g3)"
    "branch = (case jl of Some j \<Rightarrow> Jump (edge_new j) | None \<Rightarrow> final)"
    "linearize_if_sequence c tl (bb_body a) (unwrap_or branch (bb_term a))
       (push_linear c l (map SExpr es) (IfTerm q tl el) (out\<lparr>out_gen := g3\<rparr>)) = Some out2"
    "linearize_if_sequence c el (bb_body b) (unwrap_or branch (bb_term b)) out2 = Some out3"
    "(case jl of None \<Rightarrow> Some out3 | Some j \<Rightarrow> linearize_if_sequence c j rest final out3) = Some out'"
  using assms
  by (subst (asm) linearize_if_sequence.simps) (auto simp: bind_eq_Some_conv Let_def intro: that)

section \<open>Labels and label space\<close>

definition label_count :: "'e lin_out \<Rightarrow> nat" where
  "label_count out = unat (next_block_id (out_gen out))"

lemma push_linear_frame [simp]:
  "out_gen (push_linear c l ss t out) = out_gen out"
  "label_count (push_linear c l ss t out) = label_count out"
  "out_blocks (push_linear c l ss t out) = out_blocks out @
     [\<lparr>label = l, body = ss, bterm = t,
       params = params_for_linearized_names (ctx_params c) (ctx_declared c), exc_edge = ctx_exc_edge c\<rparr>]"
  by (simp_all add: push_linear_def label_count_def)

definition fresh_labels :: "nat \<Rightarrow> nat \<Rightarrow> block_label set" where
  "fresh_labels m n = {l. m \<le> label_index l \<and> label_index l < n}"

definition lin_block :: "lin_ctx \<Rightarrow> ('e structured, 'e) block \<Rightarrow> bool" where
  "lin_block c b \<longleftrightarrow> (\<exists>es. body b = map SExpr es) \<and> exc_edge b = ctx_exc_edge c \<and>
     params b = params_for_linearized_names (ctx_params c) (ctx_declared c)"

lemma next_join_label_Some:
  "next_join_label needed g = Some (jl, g') \<Longrightarrow>
     (if needed then \<exists>j. jl = Some j \<and> label_index j = unat (next_block_id g) \<and>
                        unat (next_block_id g') = Suc (unat (next_block_id g))
      else jl = None \<and> g' = g)"
  by (auto simp: next_join_label_def bind_eq_Some_conv next_block_name_Some split: if_splits)

lemma image_disjointI: "(\<And>x y. x \<in> A \<Longrightarrow> y \<in> B \<Longrightarrow> f x \<noteq> f y) \<Longrightarrow> f ` A \<inter> f ` B = {}"
  by auto

text \<open>What one call adds: blocks without structured \<open>if\<close> whose labels are the one given and fresh
  ones, all distinct.\<close>

lemma linearize_adds:
  "linearize_if_sequence c l ss final out = Some out' \<Longrightarrow>
     \<exists>new. out_blocks out' = out_blocks out @ new \<and> label_count out \<le> label_count out' \<and>
       list_all (lin_block c) new \<and>
       l \<in> label ` set new \<and> label ` set new \<subseteq> insert l (fresh_labels (label_count out) (label_count out')) \<and>
       (label_index l < label_count out \<longrightarrow> distinct (map label new))"
proof (induction ss arbitrary: l final out out' rule: if_sequence_induct)
  case (linear es)
  then show ?case by (auto simp: linearize_linear lin_block_def)
next
  case (split es q a b rest)
  from split.prems show ?case
  proof (cases rule: linearize_splitE)
    case (1 tl g1 el g2 jl g3 branch out2 out3)
    let ?n = "label_count out"
    have tl: "label_index tl = ?n" and el: "label_index el = Suc ?n"
      and g2: "unat (next_block_id g2) = Suc (Suc ?n)"
      using next_block_name_Some [OF 1(1)] next_block_name_Some [OF 1(2)] by (simp_all add: label_count_def)
    let ?n3 = "unat (next_block_id g3)"
    from split.IH(1) [OF 1(5)] obtain A where A: "out_blocks out2 = (out_blocks out @
        [\<lparr>label = l, body = map SExpr es, bterm = IfTerm q tl el,
          params = params_for_linearized_names (ctx_params c) (ctx_declared c), exc_edge = ctx_exc_edge c\<rparr>]) @ A"
      "?n3 \<le> label_count out2" "list_all (lin_block c) A"
      "label ` set A \<subseteq> insert tl (fresh_labels ?n3 (label_count out2))"
      "label_index tl < ?n3 \<longrightarrow> distinct (map label A)"
      by (auto simp: label_count_def)
    from split.IH(2) [OF 1(6)] obtain B where B: "out_blocks out3 = out_blocks out2 @ B"
      "label_count out2 \<le> label_count out3" "list_all (lin_block c) B"
      "label ` set B \<subseteq> insert el (fresh_labels (label_count out2) (label_count out3))"
      "label_index el < label_count out2 \<longrightarrow> distinct (map label B)"
      by blast
    obtain C where C: "out_blocks out' = out_blocks out3 @ C" "label_count out3 \<le> label_count out'"
      "list_all (lin_block c) C"
      "label ` set C \<subseteq> (case jl of None \<Rightarrow> {} | Some j \<Rightarrow> insert j (fresh_labels (label_count out3) (label_count out')))"
      "\<And>j. jl = Some j \<Longrightarrow> label_index j < label_count out3 \<longrightarrow> distinct (map label C)" "jl = None \<Longrightarrow> C = []"
    proof (cases jl)
      case None
      with 1(7) that [of "[]"] show ?thesis by simp
    next
      case (Some j)
      with 1(7) split.IH(3) [of j final out3 out'] that show ?thesis by auto
    qed
    have n3: "(jl = None \<and> ?n3 = Suc (Suc ?n)) \<or>
        (\<exists>j. jl = Some j \<and> label_index j = Suc (Suc ?n) \<and> ?n3 = Suc (Suc (Suc ?n)))"
      using next_join_label_Some [OF 1(3)] g2 by (auto split: if_splits)
    let ?b = "\<lparr>label = l, body = map SExpr es, bterm = IfTerm q tl el,
        params = params_for_linearized_names (ctx_params c) (ctx_declared c), exc_edge = ctx_exc_edge c\<rparr>"
    have lA: "x \<in> set A \<Longrightarrow> label x = tl \<or> (?n3 \<le> label_index (label x) \<and> label_index (label x) < label_count out2)"
      and lB: "x \<in> set B \<Longrightarrow> label x = el \<or> (label_count out2 \<le> label_index (label x) \<and> label_index (label x) < label_count out3)"
      and lC: "x \<in> set C \<Longrightarrow> jl = Some (label x) \<or> (label_count out3 \<le> label_index (label x) \<and> label_index (label x) < label_count out')"
      for x using A(4) B(4) C(4) by (auto simp: fresh_labels_def split: option.splits)
    have new: "out_blocks out' = out_blocks out @ (?b # A @ B @ C)" by (simp add: A(1) B(1) C(1))
    have le: "?n \<le> ?n3" "label_index tl < ?n3" "label_index el < ?n3" "label_index el < label_count out2"
      "\<And>j. jl = Some j \<Longrightarrow> ?n \<le> label_index j \<and> label_index j < ?n3 \<and> j \<noteq> tl \<and> j \<noteq> el"
      using n3 tl el A(2) by auto
    have sub: "label ` set (?b # A @ B @ C) \<subseteq> insert l (fresh_labels ?n (label_count out'))"
    proof -
      have "label x \<in> fresh_labels ?n (label_count out')" if "x \<in> set A \<union> set B \<union> set C" for x
        using that lA [of x] lB [of x] lC [of x] le A(2) B(2) C(2) tl el
        by (auto simp: fresh_labels_def)
      then show ?thesis by auto
    qed
    have dis: "distinct (map label (?b # A @ B @ C))" if "label_index l < ?n"
    proof -
      have "label ` set A \<inter> label ` set B = {}"
        by (rule image_disjointI) (use lA lB le tl el A(2) in fastforce)
      moreover have "label ` set A \<inter> label ` set C = {}"
        by (rule image_disjointI) (use lA lC le tl A(2) B(2) in fastforce)
      moreover have "label ` set B \<inter> label ` set C = {}"
        by (rule image_disjointI) (use lB lC le el A(2) B(2) in fastforce)
      moreover have "x \<in> set A \<union> set B \<union> set C \<Longrightarrow> label x \<noteq> l" for x
        using \<open>label_index l < ?n\<close> lA [of x] lB [of x] lC [of x] le A(2) B(2) tl el by auto
      then have "l \<notin> label ` set A" "l \<notin> label ` set B" "l \<notin> label ` set C" by blast+
      moreover have "distinct (map label A)" "distinct (map label B)" using A(5) B(5) le by simp_all
      moreover have "distinct (map label C)"
        using C(5,6) le A(2) B(2) by (cases jl) fastforce+
      ultimately show ?thesis by (simp add: Int_Un_distrib)
    qed
    have "lin_block c ?b" by (auto simp: lin_block_def)
    then show ?thesis
      using new sub dis A(2,3) B(2,3) C(2,3) n3
      by (intro exI [of _ "?b # A @ B @ C"]) auto
  qed
qed

text \<open>How many labels a statement list needs; the pass panics exactly when they run out.\<close>

function labels_needed :: "'e structured list \<Rightarrow> nat" where
  "labels_needed [] = 0"
| "labels_needed (SExpr e # rest) = labels_needed rest"
| "labels_needed (SIf q a b # rest) =
     (if rest = [] then 2 else 3) + labels_needed (bb_body a) + labels_needed (bb_body b) + labels_needed rest"
  by pat_completeness auto

termination
proof (relation "measure (size_list size)")
  fix q a b and rest :: "'a structured list"
  show "(bb_body a, SIf q a b # rest) \<in> measure (size_list size)"
    "(bb_body b, SIf q a b # rest) \<in> measure (size_list size)"
    using size_builder_body [of a size] size_builder_body [of b size] by auto
qed auto

lemma labels_needed_map [simp]: "labels_needed (map SExpr es @ ss) = labels_needed ss"
  by (induction es) simp_all

lemma labels_needed_exprs [simp]: "labels_needed (map SExpr es) = 0"
  using labels_needed_map [of es "[]"] by (simp del: labels_needed_map)

lemma linearize_label_count:
  "linearize_if_sequence c l ss final out = Some out' \<Longrightarrow>
     label_count out' = label_count out + labels_needed ss"
proof (induction ss arbitrary: l final out out' rule: if_sequence_induct)
  case (split es q a b rest)
  from split.prems show ?case
  proof (cases rule: linearize_splitE)
    case (1 tl g1 el g2 jl g3 branch out2 out3)
    have "unat (next_block_id g2) = Suc (Suc (label_count out))"
      using next_block_name_Some(2) [OF 1(1)] next_block_name_Some(2) [OF 1(2)] by (simp add: label_count_def)
    then have g3: "unat (next_block_id g3) = label_count out + (if rest = [] then 2 else 3)"
      "jl = None \<longleftrightarrow> rest = []"
      using next_join_label_Some [OF 1(3)] by (auto split: if_splits)
    have "label_count out3 = unat (next_block_id g3) + labels_needed (bb_body a) + labels_needed (bb_body b)"
      using split.IH(1) [OF 1(5)] split.IH(2) [OF 1(6)] by (simp add: label_count_def)
    moreover have "label_count out' = label_count out3 + labels_needed rest"
      using 1(7) split.IH(3) g3(2) by (cases jl) auto
    ultimately show ?thesis using g3(1) by simp
  qed
qed (simp add: linearize_linear)

lemma linearize_defined:
  "label_count out + labels_needed ss \<le> 2 ^ 32 \<Longrightarrow> linearize_if_sequence c l ss final out \<noteq> None"
proof (induction ss arbitrary: l final out rule: if_sequence_induct)
  case (split es q a b rest)
  let ?k = "if rest = [] then 2 else (3 :: nat)"
  from split.prems have room: "label_count out + ?k + labels_needed (bb_body a) + labels_needed (bb_body b)
      + labels_needed rest \<le> 2 ^ 32" by simp
  have nb: "\<exists>l g'. next_block_name g = Some (l, g')" if "unat (next_block_id g) < 2 ^ 32" for g
    using that next_block_name_panics [of g] by fastforce
  from room obtain tl g1 where 1: "next_block_name (out_gen out) = Some (tl, g1)"
    using nb [of "out_gen out"] by (auto simp: label_count_def split: if_splits)
  from room next_block_name_Some(2) [OF 1] obtain el g2 where 2: "next_block_name g1 = Some (el, g2)"
    using nb [of g1] by (auto simp: label_count_def split: if_splits)
  note c2 = next_block_name_Some(2) [OF 2, unfolded next_block_name_Some(2) [OF 1]]
  obtain jl g3 where 3: "next_join_label (rest \<noteq> []) g2 = Some (jl, g3)"
    using room c2 nb [of g2] by (cases "rest = []") (auto simp: label_count_def next_join_label_def)
  have c3: "unat (next_block_id g3) = label_count out + ?k" "jl = None \<longleftrightarrow> rest = []"
    using next_join_label_Some [OF 3] c2 by (auto simp: label_count_def split: if_splits)
  let ?out1 = "push_linear c l (map SExpr es) (IfTerm q tl el) (out\<lparr>out_gen := g3\<rparr>)"
  define branch where "branch = (case jl of Some j \<Rightarrow> Jump (edge_new j) | None \<Rightarrow> final)"
  have n1: "label_count ?out1 = label_count out + ?k" using c3(1) by (simp add: label_count_def)
  from room n1 obtain out2 where 4:
    "linearize_if_sequence c tl (bb_body a) (unwrap_or branch (bb_term a)) ?out1 = Some out2"
    using split.IH(1) [of ?out1 tl "unwrap_or branch (bb_term a)"] by fastforce
  note n2 = linearize_label_count [OF 4, unfolded n1]
  from room n2 obtain out3 where 5:
    "linearize_if_sequence c el (bb_body b) (unwrap_or branch (bb_term b)) out2 = Some out3"
    using split.IH(2) [of out2 el "unwrap_or branch (bb_term b)"] by fastforce
  note n3 = linearize_label_count [OF 5, unfolded n2]
  have "(case jl of None \<Rightarrow> Some out3 | Some j \<Rightarrow> linearize_if_sequence c j rest final out3) \<noteq> None"
    using room n3 split.IH(3) [of out3] by (auto split: option.splits)
  then show ?case
    by (subst linearize_if_sequence.simps) (simp add: 1 2 3 4 5 Let_def flip: branch_def)
qed (simp add: linearize_linear)

section \<open>The linearized blocks do what the block did\<close>

lemma exec_body_cases:
  "(\<exists>s'. \<forall>k. exec_body S es k s = k s') \<or> (\<exists>c. \<forall>k. exec_body S es k s = c)"
proof (induction es arbitrary: s)
  case (Cons e es)
  show ?case
  proof (cases "sem_eval S e s")
    case (Pair r s')
    with Cons show ?thesis by (cases r) simp_all
  qed
qed auto

lemma test_cases:
  fixes S :: "('e, 'st, 'v, 'x) sem"
  obtains (throw) x s1 where "\<And>k :: bool \<Rightarrow> 'st \<Rightarrow> ('st, 'v, 'x) control. on_value (sem_eval S q s) (\<lambda>v s. on_value (sem_truth S v s) k) = Throw x s1"
    | (decided) v s0 r s1 where "sem_eval S q s = (Inr v, s0)" "sem_truth S v s0 = (Inr r, s1)"
proof (cases "sem_eval S q s")
  case (Pair w s1)
  then show ?thesis
  proof (cases w)
    case (Inr v)
    with Pair that show ?thesis by (cases "sem_truth S v s1"; cases "fst (sem_truth S v s1)") auto
  qed (use Pair that in auto)
qed

lemma exec_stmts_cases_aux:
  fixes S :: "('e, 'st, 'v, 'x) sem" and t0 :: "'e block_term"
  shows "(\<exists>s'. \<forall>t rest. exec_stmts S (ss @ rest) t s = exec_stmts S rest t s') \<or>
   (\<exists>c. \<forall>t rest. exec_stmts S (ss @ rest) t s = c)"
proof (induction S ss t0 s rule: exec_stmts.induct)
  case (2 S e rest t st)
  then show ?case by (cases "sem_eval S e st"; cases "fst (sem_eval S e st)") auto
next
  case (3 S q a b rest t st)
  show ?case
  proof (cases rule: test_cases [of S q st])
    case (decided v s0 r s1)
    with 3 show ?thesis by (cases "bb_term (if r then a else b)") simp_all
  qed auto
qed auto

lemma exec_stmts_cases:
  obtains s' where "\<And>t rest. exec_stmts S (ss @ rest) t s = exec_stmts S rest t s'"
    | c where "\<And>t rest. exec_stmts S (ss @ rest) t s = c"
  using exec_stmts_cases_aux [of S ss s] by blast

lemma exec_structured_block:
  "exec_structured S \<lparr>label = l, body = ss, bterm = t, params = ps, exc_edge = x\<rparr> s = exec_stmts S ss t s"
  by (simp add: exec_structured_def)

lemma steps_entry:
  assumes "distinct (map label T)" "b \<in> set T" "target e = label b"
  shows "steps_to S (exec_structured S) T e x s (exc_edge b)
    (exec_structured S b (enter_block S (params b) (edge_args e) x s))"
  using steps_block [of T e b] find_block_distinct [OF assms(1,2)] assms(3) by simp

lemma linearize_exec:
  "linearize_if_sequence c l ss final out = Some out' \<Longrightarrow> set (out_blocks out') \<subseteq> set T \<Longrightarrow>
     distinct (map label T) \<Longrightarrow> target e = l \<Longrightarrow>
     steps_to S (exec_structured S) T e x s (ctx_exc_edge c)
       (exec_stmts S ss final
          (enter_block S (params_for_linearized_names (ctx_params c) (ctx_declared c)) (edge_args e) x s))"
proof (induction ss arbitrary: l final out out' e x s rule: if_sequence_induct)
  case (linear es)
  then show ?case
    using steps_entry [of T "\<lparr>label = l, body = map SExpr es, bterm = final,
      params = params_for_linearized_names (ctx_params c) (ctx_declared c), exc_edge = ctx_exc_edge c\<rparr>" e S x s]
    by (auto simp: linearize_linear exec_structured_block)
next
  case (split es q a b rest)
  let ?P = "params_for_linearized_names (ctx_params c) (ctx_declared c)"
  let ?s = "enter_block S ?P (edge_args e) x s"
  let ?steps = "\<lambda>e x s c'. steps_to S (exec_structured S) T e x s (ctx_exc_edge c) c'"
  from split.prems(1) show ?case
  proof (cases rule: linearize_splitE)
    case (1 tl g1 el g2 jl g3 branch out2 out3)
    have sub3: "set (out_blocks out3) \<subseteq> set T"
      using 1(7) split.prems(2) linearize_adds [of c _ rest final out3 out'] by (cases jl) (simp, fastforce)
    then have sub2: "set (out_blocks out2) \<subseteq> set T"
      using linearize_adds [OF 1(6)] by auto
    have inT: "\<lparr>label = l, body = map SExpr es, bterm = IfTerm q tl el, params = ?P,
        exc_edge = ctx_exc_edge c\<rparr> \<in> set T"
      using sub2 linearize_adds [OF 1(5)] by auto
    have arm: "?steps (edge_new (if r then tl else el)) None s2
        (exec_stmts S (bb_body (if r then a else b))
          (unwrap_or branch (bb_term (if r then a else b))) s2)" for r s2
      using split.IH(1) [OF 1(5) sub2 split.prems(3), of "edge_new tl" None s2]
        split.IH(2) [OF 1(6) sub3 split.prems(3), of "edge_new el" None s2] by (cases r) simp_all
    have arm_rest: "?steps (edge_new (if r then tl else el)) None s2
        (case bb_term (if r then a else b) of
           Some t' \<Rightarrow> exec_stmts S (bb_body (if r then a else b)) t' s2
         | None \<Rightarrow> exec_stmts S (bb_body (if r then a else b) @ rest) final s2)" for r s2
    proof (cases "bb_term (if r then a else b)")
      case None
      from arm [of r s2] None have fall: "?steps (edge_new (if r then tl else el)) None s2
        (exec_stmts S (bb_body (if r then a else b) @ []) branch s2)" by (simp only: unwrap_or_simps append_Nil2)
      show ?thesis
      proof (cases jl)
        case None
        then have "rest = []" using next_join_label_Some [OF 1(3)] by (auto split: if_splits)
        with fall None \<open>bb_term (if r then a else b) = None\<close> show ?thesis by (simp add: 1(4))
      next
        case (Some j)
        from 1(7) Some have J: "linearize_if_sequence c j rest final out3 = Some out'" by simp
        show ?thesis
        proof (rule exec_stmts_cases [of S "bb_body (if r then a else b)" s2])
          fix s' assume to: "\<And>t rest. exec_stmts S (bb_body (if r then a else b) @ rest) t s2 = exec_stmts S rest t s'"
          have "?steps (edge_new (if r then tl else el)) None s2 (Goto (edge_new j) s')"
            using fall unfolding to by (simp add: 1(4) Some)
          from steps_trans [OF this split.IH(3) [OF J split.prems(2,3)]]
          show ?thesis by (simp add: None to)
        next
          fix c' assume const: "\<And>t rest. exec_stmts S (bb_body (if r then a else b) @ rest) t s2 = c'"
          from fall show ?thesis unfolding None option.case const .
        qed
      qed
    next
      case (Some t')
      with arm [of r s2] show ?thesis by simp
    qed
    have first: "?steps e x s (exec_body S es (exec_term S (IfTerm q tl el)) ?s)"
      using steps_entry [OF split.prems(3) inT, of e S x s] split.prems(4)
        exec_stmts_SExpr [of S es "[]" "IfTerm q tl el" ?s]
      by (simp add: exec_structured_block cong: exec_body_cong)
    show ?thesis
    proof (rule disjE [OF exec_body_cases [of S es ?s]])
      assume "\<exists>c'. \<forall>k. exec_body S es k ?s = c'"
      with first show ?thesis by (auto simp: exec_stmts_SExpr)
    next
      assume "\<exists>s'. \<forall>k. exec_body S es k ?s = k s'"
      then obtain s' where to: "\<And>k. exec_body S es k ?s = k s'" by blast
      show ?thesis
      proof (cases rule: test_cases [of S q s'])
        case (decided v s1 r s2)
        have "?steps e x s (Goto (edge_new (if r then tl else el)) s2)"
          using first by (simp add: to decided)
        from steps_trans [OF this arm_rest] show ?thesis
          by (simp add: exec_stmts_SExpr to decided Let_def)
      next
        case (throw y s2)
        with first show ?thesis by (simp add: exec_stmts_SExpr to)
      qed
    qed
  qed
qed

section \<open>Whole functions\<close>

lemma disjoint_extension:
  "A \<subseteq> insert x F \<Longrightarrow> B \<subseteq> L \<union> G \<Longrightarrow> x \<notin> L \<Longrightarrow> F \<inter> G = {} \<Longrightarrow> F \<inter> L = {} \<Longrightarrow> x \<notin> G \<Longrightarrow>
     A \<inter> B = {}"
  by blast

lemma union_extension:
  "A \<subseteq> insert x F \<Longrightarrow> B \<subseteq> L \<union> G \<Longrightarrow> F \<subseteq> H \<Longrightarrow> G \<subseteq> H \<Longrightarrow> A \<union> B \<subseteq> insert x L \<union> H"
  by blast

lemma linearize_blocks_adds:
  "linearize_blocks bp ee bs out = Some out' \<Longrightarrow>
     \<exists>new. out_blocks out' = out_blocks out @ new \<and> label_count out \<le> label_count out' \<and>
       list_all (\<lambda>b. \<exists>es. body b = map SExpr es) new \<and>
       label ` set bs \<subseteq> label ` set new \<and>
       label ` set new \<subseteq> label ` set bs \<union> fresh_labels (label_count out) (label_count out') \<and>
       (distinct (map label bs) \<and> (\<forall>b\<in>set bs. label_index (label b) < label_count out) \<longrightarrow>
          distinct (map label new))"
proof (induction bs arbitrary: out)
  case (Cons b bs)
  from Cons.prems obtain out1 where
    1: "linearize_if_sequence (lin_context bp ee b) (label b) (body b) (bterm b) out = Some out1"
    and 2: "linearize_blocks bp ee bs out1 = Some out'"
    by (auto simp: bind_eq_Some_conv)
  from linearize_adds [OF 1] obtain A where A: "out_blocks out1 = out_blocks out @ A"
    "label_count out \<le> label_count out1" "list_all (lin_block (lin_context bp ee b)) A"
    "label b \<in> label ` set A"
    "label ` set A \<subseteq> insert (label b) (fresh_labels (label_count out) (label_count out1))"
    "label_index (label b) < label_count out \<longrightarrow> distinct (map label A)" by blast
  from Cons.IH [OF 2] obtain B where B: "out_blocks out' = out_blocks out1 @ B"
    "label_count out1 \<le> label_count out'" "list_all (\<lambda>b. \<exists>es. body b = map SExpr es) B"
    "label ` set bs \<subseteq> label ` set B"
    "label ` set B \<subseteq> label ` set bs \<union> fresh_labels (label_count out1) (label_count out')"
    "distinct (map label bs) \<and> (\<forall>b\<in>set bs. label_index (label b) < label_count out1) \<longrightarrow>
       distinct (map label B)" by blast
  have flat: "list_all (\<lambda>b. \<exists>es. body b = map SExpr es) A"
    using A(3) by (auto simp: list_all_iff lin_block_def)
  have dist: "distinct (map label (A @ B))"
    if d: "distinct (map label (b # bs))" "\<forall>b\<in>set (b # bs). label_index (label b) < label_count out"
  proof -
    have old: "\<And>b. b \<in> set bs \<Longrightarrow> label_index (label b) < label_count out"
      "label_index (label b) < label_count out" "label b \<notin> label ` set bs" using d by auto
    have "fresh_labels (label_count out) (label_count out1) \<inter> fresh_labels (label_count out1) (label_count out') = {}"
      "fresh_labels (label_count out) (label_count out1) \<inter> label ` set bs = {}"
      "label b \<notin> fresh_labels (label_count out1) (label_count out')"
    proof -
      show "fresh_labels (label_count out) (label_count out1) \<inter> fresh_labels (label_count out1) (label_count out') = {}"
        by (auto simp: fresh_labels_def)
      show "fresh_labels (label_count out) (label_count out1) \<inter> label ` set bs = {}"
      proof (rule equals0I)
        fix x assume "x \<in> fresh_labels (label_count out) (label_count out1) \<inter> label ` set bs"
        then obtain b' where "b' \<in> set bs" "x = label b'" "label_count out \<le> label_index x"
          by (auto simp: fresh_labels_def)
        with old(1) [of b'] show False by simp
      qed
      show "label b \<notin> fresh_labels (label_count out1) (label_count out')"
        using old(2) A(2) by (simp add: fresh_labels_def)
    qed
    with A(5) B(5) old(3) have "label ` set A \<inter> label ` set B = {}" by (rule disjoint_extension)
    moreover have "\<forall>b\<in>set bs. label_index (label b) < label_count out1"
      using old(1) A(2) by (meson less_le_trans)
    then have "distinct (map label B)" using B(6) d(1) by simp
    ultimately show ?thesis using A(6) d by simp
  qed
  have labs: "label ` set (A @ B) \<subseteq>
      label ` set (b # bs) \<union> fresh_labels (label_count out) (label_count out')"
  proof -
    have "fresh_labels (label_count out) (label_count out1) \<subseteq> fresh_labels (label_count out) (label_count out')"
      "fresh_labels (label_count out1) (label_count out') \<subseteq> fresh_labels (label_count out) (label_count out')"
      using A(2) B(2) by (auto simp: fresh_labels_def)
    with A(5) B(5) have "label ` set A \<union> label ` set B \<subseteq> insert (label b) (label ` set bs)
        \<union> fresh_labels (label_count out) (label_count out')" by (rule union_extension)
    then show ?thesis by (simp add: image_Un)
  qed
  show ?case
  proof (intro exI [of _ "A @ B"] conjI impI)
    show "out_blocks out' = out_blocks out @ A @ B" by (simp add: A(1) B(1))
    show "label_count out \<le> label_count out'" using A(2) B(2) by simp
    show "list_all (\<lambda>b. \<exists>es. body b = map SExpr es) (A @ B)" using flat B(3) by simp
    show "label ` set (b # bs) \<subseteq> label ` set (A @ B)" using A(4) B(4) by auto
  qed (use labs dist in blast)+
qed auto

lemma linearize_blocks_site:
  "linearize_blocks bp ee bs out = Some out' \<Longrightarrow> b \<in> set bs \<Longrightarrow>
     \<exists>o1 o2. linearize_if_sequence (lin_context bp ee b) (label b) (body b) (bterm b) o1 = Some o2 \<and>
       set (out_blocks o2) \<subseteq> set (out_blocks out')"
proof (induction bs arbitrary: out)
  case (Cons b' bs)
  then obtain out1 where
    1: "linearize_if_sequence (lin_context bp ee b') (label b') (body b') (bterm b') out = Some out1"
    and 2: "linearize_blocks bp ee bs out1 = Some out'"
    by (auto simp: bind_eq_Some_conv)
  obtain new where "out_blocks out' = out_blocks out1 @ new"
    using linearize_blocks_adds [OF 2] by blast
  then have sub: "set (out_blocks out1) \<subseteq> set (out_blocks out')" by simp
  show ?case
  proof (cases "b = b'")
    case True
    with 1 sub show ?thesis by blast
  next
    case False
    with Cons.IH [OF 2] Cons.prems(2) show ?thesis by simp
  qed
qed simp

lemma foldl_add_param_name: "set (foldl add_param_name ns ms) = set ns \<union> set ms"
  by (induction ms arbitrary: ns) (auto simp: add_param_name_def)

text \<open>The names collected for a block contain the names of all its parameters, so none is lost.\<close>

lemma lin_context_params [simp]:
  "params_for_linearized_names (ctx_params (lin_context bp ee b)) (ctx_declared (lin_context bp ee b)) = params b"
  by (auto simp: params_for_linearized_names_def lin_context_def foldl_add_param_name param_names_def
      filter_id_conv)

lemma lin_context_exc [simp]: "ctx_exc_edge (lin_context bp ee b) = exc_edge b"
  by (simp add: lin_context_def)

text \<open>A function is closed under a set of labels when its blocks and all their targets are in it.\<close>

definition labels_within :: "block_label set \<Rightarrow> ('e structured, 'e) block list \<Rightarrow> bool" where
  "labels_within L bs \<longleftrightarrow>
     (\<forall>b\<in>set bs. label b \<in> L \<and> set (nested_targets (body b)) \<subseteq> L \<and> block_targets b \<subseteq> L)"

lemma labels_within_next:
  assumes "labels_within L bs" "b \<in> set bs"
    and "dispatch (exc_edge b) (exec_structured S b s) = Inl (e', x', s')"
  shows "target e' \<in> L"
proof -
  from assms(3) consider "exec_structured S b s = Goto e' s'" | "exc_edge b = Some e'"
    by (auto simp: dispatch_def split: control.splits option.splits)
  then show ?thesis
    using assms(1,2)
    by cases (auto simp: exec_structured_def labels_within_def block_targets_def dest!: exec_stmts_Goto)
qed

lemma linearize_matches:
  assumes "distinct (map label bs)" "labels_within (issued g) bs"
    and "linearize_structured_ifs g bs bp ee = Some out"
  shows "matches S (exec_structured S) bs (exec_structured S) (out_blocks out) (issued g)"
proof -
  obtain out0 where lin: "linearize_blocks bp ee bs out0 = Some out"
    and out0: "out_gen out0 = g" "out_blocks out0 = []"
    using assms(3) by (auto simp: linearize_structured_ifs_def)
  have iss: "issued g = {l. label_index l < label_count out0}"
    by (simp add: issued_def label_count_def out0)
  from linearize_blocks_adds [OF lin] assms(1,2)
  have dist: "distinct (map label (out_blocks out))"
    and labs: "label ` set (out_blocks out) \<subseteq> label ` set bs \<union> fresh_labels (label_count out0) (label_count out)"
    by (auto simp: labels_within_def iss out0)
  show ?thesis
    unfolding matches_def
  proof (intro allI impI)
    fix e :: block_edge and x st
    assume L: "target e \<in> issued g"
    show "case find_block bs (target e) of
        None \<Rightarrow> find_block (out_blocks out) (target e) = None
      | Some b \<Rightarrow> let c = exec_structured S b (enter_block S (params b) (edge_args e) x st)
          in steps_to S (exec_structured S) (out_blocks out) e x st (exc_edge b) c \<and>
             (\<forall>e' x' st'. dispatch (exc_edge b) c = Inl (e', x', st') \<longrightarrow> target e' \<in> issued g)"
    proof (cases "find_block bs (target e)")
      case None
      then have "target e \<notin> label ` set bs" by (auto simp: find_block_None)
      moreover have "target e \<notin> fresh_labels (label_count out0) (label_count out)"
        using L by (simp add: iss fresh_labels_def)
      ultimately have "target e \<notin> label ` set (out_blocks out)" using labs by blast
      then have "find_block (out_blocks out) (target e) = None"
        by (metis find_block_None image_eqI)
      with None show ?thesis by simp
    next
      case (Some b)
      note b = find_block_Some [OF Some]
      from linearize_blocks_site [OF lin, of b] b obtain o1 o2 where
        site: "linearize_if_sequence (lin_context bp ee b) (label b) (body b) (bterm b) o1 = Some o2"
          "set (out_blocks o2) \<subseteq> set (out_blocks out)" by blast
      show ?thesis
        using linearize_exec [OF site dist, of e S x st] b labels_within_next [OF assms(2)]
        by (auto simp: Some exec_structured_def)
    qed
  qed
qed

lemma linearize_no_ifs:
  "linearize_structured_ifs g bs bp ee = Some out \<Longrightarrow> b \<in> set (out_blocks out) \<Longrightarrow> \<exists>es. body b = map SExpr es"
  using linearize_blocks_adds [of bp ee bs _ out]
  by (fastforce simp: linearize_structured_ifs_def list_all_iff)

text \<open>The exception targets recorded for the new blocks are those of their exception edges.\<close>

definition exc_tracked :: "'e lin_out \<Rightarrow> bool" where
  "exc_tracked out \<longleftrightarrow> (\<forall>b\<in>set (out_blocks out).
     out_exception_edges out (label b) = Some (map_option target (exc_edge b)))"

lemma exc_tracked_push:
  assumes "exc_tracked out" "ctx_exc_target c = map_option target (ctx_exc_edge c)"
    and "distinct (map label (out_blocks (push_linear c l ss t (out\<lparr>out_gen := g\<rparr>))))"
  shows "exc_tracked (push_linear c l ss t (out\<lparr>out_gen := g\<rparr>))"
  using assms by (auto simp: exc_tracked_def push_linear_def)

lemma linearize_exc_tracked:
  "linearize_if_sequence c l ss final out = Some out' \<Longrightarrow>
     ctx_exc_target c = map_option target (ctx_exc_edge c) \<Longrightarrow>
     distinct (map label (out_blocks out')) \<Longrightarrow> exc_tracked out \<Longrightarrow> exc_tracked out'"
proof (induction ss arbitrary: l final out out' rule: if_sequence_induct)
  case (linear es)
  then show ?case using exc_tracked_push [of out c l "map SExpr es" final "out_gen out"]
    by (auto simp: linearize_linear)
next
  case (split es q a b rest)
  from split.prems(1) show ?case
  proof (cases rule: linearize_splitE)
    case (1 tl g1 el g2 jl g3 branch out2 out3)
    obtain C where C: "out_blocks out' = out_blocks out3 @ C"
      using 1(7) linearize_adds [of c _ rest final out3 out'] by (cases jl) auto
    then have d3: "distinct (map label (out_blocks out3))" using split.prems(3) by simp
    obtain B where "out_blocks out3 = out_blocks out2 @ B" using linearize_adds [OF 1(6)] by blast
    then have d2: "distinct (map label (out_blocks out2))" using d3 by simp
    obtain A where "out_blocks out2 = out_blocks (push_linear c l (map SExpr es) (IfTerm q tl el)
        (out\<lparr>out_gen := g3\<rparr>)) @ A" using linearize_adds [OF 1(5)] by blast
    then have "exc_tracked (push_linear c l (map SExpr es) (IfTerm q tl el) (out\<lparr>out_gen := g3\<rparr>))"
      using exc_tracked_push [OF split.prems(4,2), of l "map SExpr es" "IfTerm q tl el" g3] d2 by simp
    then have "exc_tracked out3"
      using split.IH(1) [OF 1(5) split.prems(2) d2] split.IH(2) [OF 1(6) split.prems(2) d3] by blast
    then show ?thesis
      using 1(7) split.IH(3) [OF _ split.prems(2,3)] by (cases jl) auto
  qed
qed

lemma linearize_blocks_exc_tracked:
  "linearize_blocks bp ee bs out = Some out' \<Longrightarrow>
     (\<And>b. b \<in> set bs \<Longrightarrow> ee (label b) = Some (map_option target (exc_edge b))) \<Longrightarrow>
     distinct (map label (out_blocks out')) \<Longrightarrow> exc_tracked out \<Longrightarrow> exc_tracked out'"
proof (induction bs arbitrary: out)
  case (Cons b bs)
  from Cons.prems(1) obtain out1 where
    1: "linearize_if_sequence (lin_context bp ee b) (label b) (body b) (bterm b) out = Some out1"
    and 2: "linearize_blocks bp ee bs out1 = Some out'"
    by (auto simp: bind_eq_Some_conv)
  obtain B where "out_blocks out' = out_blocks out1 @ B" using linearize_blocks_adds [OF 2] by blast
  then have d1: "distinct (map label (out_blocks out1))" using Cons.prems(3) by simp
  have "ctx_exc_target (lin_context bp ee b) = map_option target (ctx_exc_edge (lin_context bp ee b))"
    using Cons.prems(2) [of b] by (simp add: lin_context_def)
  from linearize_exc_tracked [OF 1 this d1 Cons.prems(4)] show ?case
    by (rule Cons.IH [OF 2 _ Cons.prems(3), rotated]) (simp add: Cons.prems(2))
qed simp

lemma linearize_labels:
  assumes "distinct (map label bs)" "labels_within (issued g) bs"
    and "linearize_structured_ifs g bs bp ee = Some out"
  shows "distinct (map label (out_blocks out))" "label ` set bs \<subseteq> label ` set (out_blocks out)"
    "label ` set (out_blocks out) \<subseteq> issued (out_gen out)"
proof -
  obtain out0 where lin: "linearize_blocks bp ee bs out0 = Some out"
    and out0: "out_gen out0 = g" "out_blocks out0 = []"
    using assms(3) by (auto simp: linearize_structured_ifs_def)
  have old: "\<forall>b\<in>set bs. label_index (label b) < label_count out0"
    using assms(2) by (auto simp: labels_within_def issued_def label_count_def out0)
  obtain new where new: "out_blocks out = new" "label_count out0 \<le> label_count out"
    "label ` set bs \<subseteq> label ` set new"
    "label ` set new \<subseteq> label ` set bs \<union> fresh_labels (label_count out0) (label_count out)"
    "distinct (map label new)"
    using linearize_blocks_adds [OF lin] assms(1) old unfolding out0 append_Nil by blast
  then show "distinct (map label (out_blocks out))" "label ` set bs \<subseteq> label ` set (out_blocks out)"
    by simp_all
  have "label ` set bs \<subseteq> issued (out_gen out)"
    using old new(2) by (fastforce simp: issued_def label_count_def)
  moreover have "fresh_labels (label_count out0) (label_count out) \<subseteq> issued (out_gen out)"
    by (auto simp: issued_def label_count_def fresh_labels_def)
  ultimately show "label ` set (out_blocks out) \<subseteq> issued (out_gen out)"
    using new(1,4) by (meson Un_least subset_trans)
qed

definition total_labels :: "('e structured, 'e) block list \<Rightarrow> nat" where
  "total_labels bs = (\<Sum>b\<leftarrow>bs. labels_needed (body b))"

lemma linearize_blocks_defined:
  "label_count out + total_labels bs \<le> 2 ^ 32 \<Longrightarrow> linearize_blocks bp ee bs out \<noteq> None"
proof (induction bs arbitrary: out)
  case (Cons b bs)
  then have "label_count out + labels_needed (body b) \<le> 2 ^ 32" by (simp add: total_labels_def)
  from linearize_defined [OF this] obtain out1 where
    1: "linearize_if_sequence (lin_context bp ee b) (label b) (body b) (bterm b) out = Some out1"
    by blast
  have "label_count out1 + total_labels bs \<le> 2 ^ 32"
    using Cons.prems linearize_label_count [OF 1] by (simp add: total_labels_def)
  from Cons.IH [OF this] show ?case by (simp add: 1)
qed simp

section \<open>Properties\<close>

text \<open>C6: Linearizing structured ifs preserves what a function does: entered at any label that existed
  before, the linearized blocks return an outcome exactly when the structured blocks return it, so
  in particular one runs forever exactly when the other does.\<close>

theorem linearize_structured_ifs_equiv:
  assumes "distinct (map label bs)" "labels_within (issued g) bs" "target e \<in> issued g"
    and "linearize_structured_ifs g bs block_params exception_edges = Some out"
  shows "(\<exists>n. run_structured S (out_blocks out) n e x st = Some res)
     \<longleftrightarrow> (\<exists>n. run_structured S bs n e x st = Some res)"
  by (rule matches_equiv [OF linearize_matches [OF assms(1,2,4)] assms(3), THEN sym])

definition sample_gen :: function_name_gen where
  "sample_gen = \<lparr>gen_function_id = function_id_new 1 1, next_block_id = 3, next_tmp_id = 0\<rparr>"

lemma sample_within [simp]: "labels_within (issued sample_gen) three_blocks"
proof -
  have "issued sample_gen = {l. label_index l < 3}" by (simp add: issued_def sample_gen_def)
  then show ?thesis
    by (simp add: labels_within_def three_blocks_def label_index_def block_targets_def opt_successors_def)
qed

lemma sample_linearizes: "linearize_structured_ifs sample_gen three_blocks bp ee \<noteq> None"
  unfolding linearize_structured_ifs_def
  by (rule linearize_blocks_defined) (simp add: label_count_def sample_gen_def three_blocks_def total_labels_def)

lemma three_blocks_run:
  "run_structured adding_sem three_blocks (Suc (Suc 0)) (edge_new (BlockLabel 0)) None 0 = Some (Returned 0 11)"
  by (simp add: three_blocks_def adding_sem_def find_block_def exec_structured_def dispatch_def)

theorem linearize_structured_ifs_equiv_witness:
  "\<exists>n. run_structured adding_sem
     (out_blocks (the (linearize_structured_ifs sample_gen three_blocks Map.empty Map.empty))) n
     (edge_new (BlockLabel 0)) None 0 = Some (Returned 0 11)"
proof -
  obtain out where out: "linearize_structured_ifs sample_gen three_blocks Map.empty Map.empty = Some out"
    using sample_linearizes by blast
  have "distinct (map label three_blocks)" "target (edge_new (BlockLabel 0)) \<in> issued sample_gen"
    by (simp_all add: three_blocks_def issued_def sample_gen_def label_index_def)
  from linearize_structured_ifs_equiv [OF this(1) sample_within this(2) out, of adding_sem None 0 "Returned 0 11"]
  show ?thesis unfolding out option.sel using three_blocks_run by blast
qed

text \<open>C16: The linearized blocks hold no structured \<open>if\<close>, keep every label, and have distinct labels
  that the name generator has issued.\<close>

theorem linearize_structured_ifs_shape:
  assumes "distinct (map label bs)" "labels_within (issued g) bs"
    and "linearize_structured_ifs g bs block_params exception_edges = Some out"
  shows "distinct (map label (out_blocks out)) \<and> label ` set bs \<subseteq> label ` set (out_blocks out) \<and>
     label ` set (out_blocks out) \<subseteq> issued (out_gen out) \<and>
     (\<forall>b\<in>set (out_blocks out). split_first_if (body b) = None)"
  using linearize_labels [OF assms] linearize_no_ifs [OF assms(3)] split_first_if_map by metis

theorem linearize_structured_ifs_shape_witness:
  "list_all (\<lambda>b. split_first_if (body b) = None)
     (out_blocks (the (linearize_structured_ifs sample_gen three_blocks Map.empty Map.empty)))"
proof -
  obtain out where out: "linearize_structured_ifs sample_gen three_blocks Map.empty Map.empty = Some out"
    using sample_linearizes by blast
  have "distinct (map label three_blocks)" by (simp add: three_blocks_def)
  from linearize_structured_ifs_shape [OF this sample_within out] show ?thesis
    unfolding out option.sel list_all_iff by blast
qed

text \<open>Linearizing a statement list uses exactly two labels per structured \<open>if\<close>, and a third one
  when statements follow it, and panics exactly when the 32-bit label space cannot hold them.\<close>

theorem linearize_label_space:
  "(case linearize_if_sequence c l ss final out of
      None \<Rightarrow> 2 ^ 32 < label_count out + labels_needed ss
    | Some out' \<Rightarrow> label_count out' = label_count out + labels_needed ss)"
  using linearize_label_count [of c l ss final out] linearize_defined [of out ss c l final]
  by (cases "linearize_if_sequence c l ss final out") (simp_all only: option.case not_le simp_thms, blast intro: leI)

end
