(* ===== verification/Exprs.thy ===== *)
theory Exprs
  imports IR
begin

text \<open>
  The expression types of the four stages (\<open>soac-blockpy/src/passes/mod.rs\<close> and
  \<open>CodegenBlockPyExpr\<close> of \<open>block_py/mod.rs\<close>): with await and yield, with yield, core, and the
  form the code generator reads. Each embeds the shared operations and adds its own nodes; every
  node carries its metadata. The traits \<open>HasMeta\<close>, \<open>WithMeta\<close>, \<open>ChildVisitable\<close> and \<open>Mappable\<close>
  that the \<open>enum_broadcast\<close> macro derives are the functions \<open>*_meta\<close>, \<open>*_with_meta\<close>,
  \<open>*_children\<close> and \<open>*_with_children\<close>; \<open>*_preorder\<close> lists the nodes in the order in which
  \<open>walk_expr\<close> (\<open>block_py/visit.rs\<close>) reaches them. The locale \<open>instr_node\<close> states what the
  passes need of these traits, once for all four types.
\<close>

section \<open>The four expression types\<close>

datatype (plugins only: code size) ay_expr =
  AyLit meta literal
| AyOp meta "(ay_expr, unresolved_name) operation"
| AyCellRefForName meta string
| AyAwait meta ay_expr
| AyYield meta ay_expr
| AyYieldFrom meta ay_expr

datatype (plugins only: code size) y_expr =
  YLit meta literal
| YOp meta "(y_expr, unresolved_name) operation"
| YCellRefForName meta string
| YYield meta y_expr
| YYieldFrom meta y_expr

datatype (plugins only: code size) 'n core_expr =
  CoreLit meta literal
| CoreOp meta "('n core_expr, 'n) operation"
| CoreCellRefForName meta string

datatype (plugins only: code size) cg_expr =
  CgOp meta "(cg_expr, located_name) operation"
| CgCalleeFunctionId meta cg_expr
| CgCallDirect meta cg_expr function_id "cg_expr call_arg list" "cg_expr call_keyword list"
| CgIncrementCounter meta usize

type_synonym core = "unresolved_name core_expr"
type_synonym located_core = "located_name core_expr"

section \<open>Metadata\<close>

fun ay_meta :: "ay_expr \<Rightarrow> meta" where
  "ay_meta (AyLit m _) = m" | "ay_meta (AyOp m _) = m" | "ay_meta (AyCellRefForName m _) = m"
| "ay_meta (AyAwait m _) = m" | "ay_meta (AyYield m _) = m" | "ay_meta (AyYieldFrom m _) = m"

fun y_meta :: "y_expr \<Rightarrow> meta" where
  "y_meta (YLit m _) = m" | "y_meta (YOp m _) = m" | "y_meta (YCellRefForName m _) = m"
| "y_meta (YYield m _) = m" | "y_meta (YYieldFrom m _) = m"

fun core_meta :: "'n core_expr \<Rightarrow> meta" where
  "core_meta (CoreLit m _) = m" | "core_meta (CoreOp m _) = m" | "core_meta (CoreCellRefForName m _) = m"

fun cg_meta :: "cg_expr \<Rightarrow> meta" where
  "cg_meta (CgOp m _) = m" | "cg_meta (CgCalleeFunctionId m _) = m"
| "cg_meta (CgCallDirect m _ _ _ _) = m" | "cg_meta (CgIncrementCounter m _) = m"

fun cg_with_meta :: "meta \<Rightarrow> cg_expr \<Rightarrow> cg_expr" where
  "cg_with_meta m (CgOp _ op) = CgOp m op"
| "cg_with_meta m (CgCalleeFunctionId _ v) = CgCalleeFunctionId m v"
| "cg_with_meta m (CgCallDirect _ c i as ks) = CgCallDirect m c i as ks"
| "cg_with_meta m (CgIncrementCounter _ c) = CgIncrementCounter m c"

section \<open>Children and rebuilding\<close>

fun ay_children :: "ay_expr \<Rightarrow> ay_expr list" where
  "ay_children (AyLit m l) = []"
| "ay_children (AyOp m op) = op_children op"
| "ay_children (AyCellRefForName m n) = []"
| "ay_children (AyAwait m v) = [v]"
| "ay_children (AyYield m v) = [v]"
| "ay_children (AyYieldFrom m v) = [v]"

fun ay_with_children :: "ay_expr \<Rightarrow> ay_expr list \<Rightarrow> ay_expr" where
  "ay_with_children (AyLit m l) ys = AyLit m l"
| "ay_with_children (AyOp m op) ys = AyOp m (op_with_children op ys)"
| "ay_with_children (AyCellRefForName m n) ys = AyCellRefForName m n"
| "ay_with_children (AyAwait m v) ys = AyAwait m (ys ! 0)"
| "ay_with_children (AyYield m v) ys = AyYield m (ys ! 0)"
| "ay_with_children (AyYieldFrom m v) ys = AyYieldFrom m (ys ! 0)"

fun y_children :: "y_expr \<Rightarrow> y_expr list" where
  "y_children (YLit m l) = []"
| "y_children (YOp m op) = op_children op"
| "y_children (YCellRefForName m n) = []"
| "y_children (YYield m v) = [v]"
| "y_children (YYieldFrom m v) = [v]"

fun y_with_children :: "y_expr \<Rightarrow> y_expr list \<Rightarrow> y_expr" where
  "y_with_children (YLit m l) ys = YLit m l"
| "y_with_children (YOp m op) ys = YOp m (op_with_children op ys)"
| "y_with_children (YCellRefForName m n) ys = YCellRefForName m n"
| "y_with_children (YYield m v) ys = YYield m (ys ! 0)"
| "y_with_children (YYieldFrom m v) ys = YYieldFrom m (ys ! 0)"

fun core_children :: "'n core_expr \<Rightarrow> 'n core_expr list" where
  "core_children (CoreLit m l) = []"
| "core_children (CoreOp m op) = op_children op"
| "core_children (CoreCellRefForName m n) = []"

fun core_with_children :: "'n core_expr \<Rightarrow> 'n core_expr list \<Rightarrow> 'n core_expr" where
  "core_with_children (CoreLit m l) ys = CoreLit m l"
| "core_with_children (CoreOp m op) ys = CoreOp m (op_with_children op ys)"
| "core_with_children (CoreCellRefForName m n) ys = CoreCellRefForName m n"

fun cg_children :: "cg_expr \<Rightarrow> cg_expr list" where
  "cg_children (CgOp m op) = op_children op"
| "cg_children (CgCalleeFunctionId m v) = [v]"
| "cg_children (CgCallDirect m c i as ks) = c # map arg_expr as @ map keyword_expr ks"
| "cg_children (CgIncrementCounter m i) = []"

fun cg_with_children :: "cg_expr \<Rightarrow> cg_expr list \<Rightarrow> cg_expr" where
  "cg_with_children (CgOp m op) ys = CgOp m (op_with_children op ys)"
| "cg_with_children (CgCalleeFunctionId m v) ys = CgCalleeFunctionId m (ys ! 0)"
| "cg_with_children (CgCallDirect m c i as ks) ys =
     CgCallDirect m (ys ! 0) i
       (map2 (\<lambda>a y. map_call_arg (\<lambda>_. y) a) as (take (length as) (drop 1 ys)))
       (map2 (\<lambda>k y. map_call_keyword (\<lambda>_. y) k) ks (drop (1 + length as) ys))"
| "cg_with_children (CgIncrementCounter m i) ys = CgIncrementCounter m i"

lemma ay_child_size: "x \<in> set (ay_children e) \<Longrightarrow> size x < size e"
  by (cases e) (auto dest: size_op_child)

lemma y_child_size: "x \<in> set (y_children e) \<Longrightarrow> size x < size e"
  by (cases e) (auto dest: size_op_child)

lemma core_child_size: "x \<in> set (core_children e) \<Longrightarrow> size x < size e"
  by (cases e) (auto dest: size_op_child)

lemma cg_child_size: "x \<in> set (cg_children e) \<Longrightarrow> size x < size e"
proof (cases e)
  case (CgCallDirect m c i as ks)
  assume "x \<in> set (cg_children e)"
  then have "x \<in> op_exprs (Call c as ks :: (cg_expr, located_name) operation)"
    using CgCallDirect by auto
  then show ?thesis using size_op_child [of x "Call c as ks :: (cg_expr, located_name) operation"]
    by (simp add: CgCallDirect)
qed (auto dest: size_op_child)


section \<open>Pre-order\<close>

function ay_preorder :: "ay_expr \<Rightarrow> ay_expr list" where
  "ay_preorder e = e # concat (map ay_preorder (ay_children e))"
  by pat_completeness auto
termination by (relation "measure size") (simp_all add: ay_child_size)

function y_preorder :: "y_expr \<Rightarrow> y_expr list" where
  "y_preorder e = e # concat (map y_preorder (y_children e))"
  by pat_completeness auto
termination by (relation "measure size") (simp_all add: y_child_size)

function core_preorder :: "'n core_expr \<Rightarrow> 'n core_expr list" where
  "core_preorder e = e # concat (map core_preorder (core_children e))"
  by pat_completeness auto
termination by (relation "measure size") (simp_all add: core_child_size)

function cg_preorder :: "cg_expr \<Rightarrow> cg_expr list" where
  "cg_preorder e = e # concat (map cg_preorder (cg_children e))"
  by pat_completeness auto
termination by (relation "measure size") (simp_all add: cg_child_size)

declare ay_preorder.simps [simp del] y_preorder.simps [simp del]
  core_preorder.simps [simp del] cg_preorder.simps [simp del]

text \<open>\<open>instr_any\<close> (\<open>block_py/visit.rs\<close>): the search stops at the first node in pre-order that
  satisfies the predicate.\<close>

definition instr_any :: "('e \<Rightarrow> 'e list) \<Rightarrow> ('e \<Rightarrow> bool) \<Rightarrow> 'e \<Rightarrow> bool" where
  "instr_any preorder p e = list_ex p (preorder e)"

section \<open>The interface of the expression types\<close>

locale instr_node =
  fixes children :: "'e \<Rightarrow> 'e list"
    and with_children :: "'e \<Rightarrow> 'e list \<Rightarrow> 'e"
    and preorder :: "'e \<Rightarrow> 'e list"
    and measure :: "'e \<Rightarrow> nat"
  assumes child_measure: "x \<in> set (children e) \<Longrightarrow> measure x < measure e"
    and preorder_unfold: "preorder e = e # concat (map preorder (children e))"
    and with_own_children: "with_children e (children e) = e"
    and children_with: "length ys = length (children e) \<Longrightarrow> children (with_children e ys) = ys"
begin

lemma node_induct [case_names node]:
  assumes "\<And>e. (\<And>x. x \<in> set (children e) \<Longrightarrow> P x) \<Longrightarrow> P e"
  shows "P e"
  by (induction e rule: measure_induct_rule [of measure]) (blast intro: assms child_measure)

lemma self_in_preorder [simp]: "e \<in> set (preorder e)"
  by (subst preorder_unfold) simp

lemma in_preorder_iff: "x \<in> set (preorder e) \<longleftrightarrow> x = e \<or> (\<exists>c\<in>set (children e). x \<in> set (preorder c))"
  by (subst preorder_unfold) auto

lemma preorder_trans: "x \<in> set (preorder y) \<Longrightarrow> y \<in> set (preorder e) \<Longrightarrow> x \<in> set (preorder e)"
proof (induction e rule: node_induct)
  case (node e)
  then show ?case by (auto simp: in_preorder_iff [of _ e])
qed

text \<open>The recursive search of \<open>instr_any\<close>.\<close>

lemma instr_any_rec:
  "instr_any preorder p e \<longleftrightarrow> p e \<or> (\<exists>c\<in>set (children e). instr_any preorder p c)"
  by (subst preorder_unfold [of e, THEN arg_cong, of "list_ex p", folded instr_any_def])
     (auto simp: instr_any_def list_ex_iff)

lemma instr_any_iff: "instr_any preorder p e \<longleftrightarrow> (\<exists>x\<in>set (preorder e). p x)"
  by (simp add: instr_any_def list_ex_iff)

text \<open>Rebuilding a node around rewritten children: the nodes below it come from the children.\<close>

lemma preorder_with_children:
  assumes "length ys = length (children e)"
  shows "preorder (with_children e ys) = with_children e ys # concat (map preorder ys)"
  by (subst preorder_unfold) (simp add: children_with [OF assms])

lemma with_children_cong:
  assumes "\<And>x. x \<in> set (children e) \<Longrightarrow> f x = x"
  shows "with_children e (map f (children e)) = e"
  using assms by (simp add: map_idI with_own_children)

end

interpretation ay: instr_node ay_children ay_with_children ay_preorder size
proof
  fix e x and ys :: "ay_expr list"
  show "x \<in> set (ay_children e) \<Longrightarrow> size x < size e" by (rule ay_child_size)
  show "ay_preorder e = e # concat (map ay_preorder (ay_children e))" by (rule ay_preorder.simps)
  show "ay_with_children e (ay_children e) = e" by (cases e) simp_all
  show "length ys = length (ay_children e) \<Longrightarrow> ay_children (ay_with_children e ys) = ys"
    by (cases e) (auto simp: op_children_with length_Suc_conv)
qed

interpretation yld: instr_node y_children y_with_children y_preorder size
proof
  fix e x and ys :: "y_expr list"
  show "x \<in> set (y_children e) \<Longrightarrow> size x < size e" by (rule y_child_size)
  show "y_preorder e = e # concat (map y_preorder (y_children e))" by (rule y_preorder.simps)
  show "y_with_children e (y_children e) = e" by (cases e) simp_all
  show "length ys = length (y_children e) \<Longrightarrow> y_children (y_with_children e ys) = ys"
    by (cases e) (auto simp: op_children_with length_Suc_conv)
qed

interpretation cor: instr_node core_children core_with_children core_preorder size
proof
  fix e x :: "'n core_expr" and ys :: "'n core_expr list"
  show "x \<in> set (core_children e) \<Longrightarrow> size x < size e" by (rule core_child_size)
  show "core_preorder e = e # concat (map core_preorder (core_children e))" by (rule core_preorder.simps)
  show "core_with_children e (core_children e) = e" by (cases e) simp_all
  show "length ys = length (core_children e) \<Longrightarrow> core_children (core_with_children e ys) = ys"
    by (cases e) (auto simp: op_children_with)
qed

interpretation cg: instr_node cg_children cg_with_children cg_preorder size
proof
  fix e x and ys :: "cg_expr list"
  show "x \<in> set (cg_children e) \<Longrightarrow> size x < size e" by (rule cg_child_size)
  show "cg_preorder e = e # concat (map cg_preorder (cg_children e))" by (rule cg_preorder.simps)
  have direct: "op_with_children (Call c as ks :: (cg_expr, located_name) operation) ys
      = Call (ys ! 0)
       (map2 (\<lambda>a y. map_call_arg (\<lambda>_. y) a) as (take (length as) (drop 1 ys)))
       (map2 (\<lambda>k y. map_call_keyword (\<lambda>_. y) k) ks (drop (1 + length as) ys))"
    for c as ks ys by simp
  show "cg_with_children e (cg_children e) = e"
  proof (cases e)
    case (CgCallDirect m c i as ks)
    then show ?thesis
      using op_with_own_children [of "Call c as ks :: (cg_expr, located_name) operation"] by simp
  qed simp_all
  show "length ys = length (cg_children e) \<Longrightarrow> cg_children (cg_with_children e ys) = ys"
  proof (cases e)
    case (CgCallDirect m c i as ks)
    assume "length ys = length (cg_children e)"
    then show ?thesis
      using op_children_with [of ys "Call c as ks :: (cg_expr, located_name) operation"]
      by (simp add: CgCallDirect)
  qed (auto simp: op_children_with length_Suc_conv)
qed

end
