(* ===== verification/Bb_Shape.thy ===== *)
theory Bb_Shape
  imports Cfg_Linearize Exprs
begin

text \<open>
  \<open>passes/ruff_to_blockpy/bb_shape.rs\<close>: lowering linearized blocks to basic blocks, the
  arguments of exception edges, and the replacement of \<open>current_exception()\<close> and of the bare
  \<open>raise\<close> in exception handlers by the handler's exception parameter.
\<close>

section \<open>Arguments of exception edges\<close>

definition exception_aliases :: "'e block_term \<Rightarrow> string list" where
  "exception_aliases t =
     (case t of
        Jump e \<Rightarrow>
          List.map_filter (\<lambda>a. case a of
              ArgName n \<Rightarrow> (if starts_with ''_dp_try_exc_'' n then Some n else None)
            | _ \<Rightarrow> None) (edge_args e)
      | _ \<Rightarrow> [])"

definition has_owner :: "string list \<Rightarrow> bool" where
  "has_owner names \<longleftrightarrow> list_ex (\<lambda>n. n = ''_dp_self'' \<or> n = ''_dp_state'') names"

definition exception_arg :: "string list \<Rightarrow> ('s, 'e) block \<Rightarrow> string \<Rightarrow> block_arg" where
  "exception_arg source handler n =
     (if exception_param (params handler) = Some n then ArgCurrentException
      else if n \<in> set (exception_aliases (bterm handler)) then ArgCurrentException
      else if n \<in> set source \<or> has_owner source then ArgName n
      else ArgNone)"

definition populate_block :: "('s, 'e) block list \<Rightarrow> ('s, 'e) block \<Rightarrow> ('s, 'e) block" where
  "populate_block bs b =
     (case exc_edge b of
        None \<Rightarrow> b
      | Some e \<Rightarrow>
          (case index_by_label bs (target e) of
             None \<Rightarrow> b
           | Some h \<Rightarrow>
               b\<lparr>exc_edge := Some (edge_with_args (target e)
                  (map (exception_arg (param_names (params b)) h) (param_names (params h))))\<rparr>))"

text \<open>The loop changes exception edges only and reads none but the one it replaces, so it maps over
  the blocks.\<close>

definition populate_exception_edge_args :: "('s, 'e) block list \<Rightarrow> ('s, 'e) block list" where
  "populate_exception_edge_args bs = map (populate_block bs) bs"

lemma populate_frame [simp]:
  "label (populate_block bs b) = label b" "body (populate_block bs b) = body b"
  "bterm (populate_block bs b) = bterm b" "params (populate_block bs b) = params b"
  "map_option target (exc_edge (populate_block bs b)) = map_option target (exc_edge b)"
  by (auto simp: populate_block_def edge_with_args_def split: option.splits)

lemma populate_known:
  "exc_edge b = Some e \<Longrightarrow> index_by_label bs (target e) = Some h \<Longrightarrow>
     exc_edge (populate_block bs b) = Some (edge_with_args (target e)
       (map (exception_arg (param_names (params b)) h) (param_names (params h))))"
  by (simp add: populate_block_def)

lemma index_by_label_map:
  "(\<And>b. label (f b) = label b) \<Longrightarrow> index_by_label (map f bs) l = map_option f (index_by_label bs l)"
proof (induction bs)
  case (Cons b bs)
  then show ?case
    by (auto simp: index_by_label_def map_add_def split: option.splits)
qed (simp add: index_by_label_def)

text \<open>Populating twice changes nothing more: the arguments depend only on parameters and terminators.\<close>

lemma exception_arg_populate [simp]: "exception_arg ns (populate_block bs h) = exception_arg ns h"
  by (simp add: exception_arg_def fun_eq_iff)

lemma populate_block_again:
  "populate_block (populate_exception_edge_args bs) (populate_block bs b) = populate_block bs b"
proof (cases "exc_edge b")
  case (Some e)
  show ?thesis
  proof (cases "index_by_label bs (target e)")
    case None
    then have "index_by_label (populate_exception_edge_args bs) (target e) = None"
      by (simp add: populate_exception_edge_args_def index_by_label_map)
    with None Some show ?thesis by (simp add: populate_block_def)
  next
    case (Some h)
    note e = \<open>exc_edge b = Some e\<close>
    have "index_by_label (populate_exception_edge_args bs) (target e) = Some (populate_block bs h)"
      by (simp add: populate_exception_edge_args_def index_by_label_map Some)
    then show ?thesis
      using populate_known [OF e Some]
      by (subst populate_block_def) (simp add: edge_with_args_def)
  qed
qed (simp add: populate_block_def)

section \<open>Lowering to basic blocks\<close>

definition lowered_exception_edges :: "('s, 'e) block list \<Rightarrow> block_label \<rightharpoonup> block_label option" where
  "lowered_exception_edges bs = map_of (rev (map (\<lambda>b. (label b, map_option target (exc_edge b))) bs))"

text \<open>A structured \<open>if\<close> that is left is the \<open>unreachable!\<close>.\<close>

fun stmt_expr :: "'e structured \<Rightarrow> 'e option" where
  "stmt_expr (SExpr e) = Some e"
| "stmt_expr (SIf c a b) = None"

definition lower_linear_block ::
  "(block_label \<rightharpoonup> block_label option) \<Rightarrow> ('e structured, 'e) block \<Rightarrow> ('e, 'e) block option" where
  "lower_linear_block ee b =
     do { ops \<leftarrow> opt_map stmt_expr (body b);
          Some \<lparr>label = label b, body = ops, bterm = bterm b, params = bb_params (params b),
                exc_edge = map_option edge_new (unwrap_or None (ee (label b)))\<rparr> }"

definition lower_structured_blocks_to_bb_blocks ::
  "function_name_gen \<Rightarrow> ('e structured, 'e) block list \<Rightarrow> (('e, 'e) block list \<times> function_name_gen) option" where
  "lower_structured_blocks_to_bb_blocks g bs =
     do { out \<leftarrow> linearize_structured_ifs g bs Map.empty (lowered_exception_edges bs);
          bbs \<leftarrow> opt_map (lower_linear_block (out_exception_edges out)) (out_blocks out);
          Some (populate_exception_edge_args bbs, out_gen out) }"

lemma stmt_exprs_map [simp]: "opt_map stmt_expr (map SExpr es) = Some es"
  by (induction es) simp_all

lemma lower_linear_block_Some:
  assumes "body b = map SExpr es"
  shows "lower_linear_block ee b = Some \<lparr>label = label b, body = es, bterm = bterm b,
    params = bb_params (params b), exc_edge = map_option edge_new (unwrap_or None (ee (label b)))\<rparr>"
  by (simp add: lower_linear_block_def assms)

lemma exec_stmts_exprs: "exec_stmts S (map SExpr es) t s = exec_body S es (exec_term S t) s"
  using exec_stmts_SExpr [of S es "[]" t s] exec_body_cong [of "exec_stmts S [] t" "exec_term S t" S es s]
  by simp

lemma lowered_exception_edges_label:
  assumes "distinct (map label bs)" "b \<in> set bs"
  shows "lowered_exception_edges bs (label b) = Some (map_option target (exc_edge b))"
proof -
  let ?ps = "map (\<lambda>b. (label b, map_option target (exc_edge b))) bs"
  have "map fst ?ps = map label bs" by simp
  then have "distinct (map fst ?ps)" using assms(1) by metis
  moreover have "(label b, map_option target (exc_edge b)) \<in> set ?ps" using assms(2) by simp
  ultimately show ?thesis by (simp add: lowered_exception_edges_def map_of_rev_distinct)
qed

text \<open>Binding at an exception edge looks at the roles of the parameters only, and the parameters of
  a block stand in the order of the basic-block form.\<close>

definition binds_by_role :: "('e, 'st, 'v, 'x) sem \<Rightarrow> bool" where
  "binds_by_role S \<longleftrightarrow> (\<forall>ps as as' x st. sem_bind S ps as (Some x) st = sem_bind S ps as' (Some x) st)"

lemma enter_by_role:
  "binds_by_role S \<Longrightarrow> x \<noteq> None \<Longrightarrow> enter_block S ps as x st = enter_block S ps as' x st"
  by (cases x) (auto simp: enter_block_def binds_by_role_def)

definition same_edge :: "block_edge \<Rightarrow> 'x option \<Rightarrow> block_edge \<Rightarrow> bool" where
  "same_edge e x e' \<longleftrightarrow> target e' = target e \<and> (x = None \<longrightarrow> edge_args e' = edge_args e)"

lemma lower_bb_run:
  assumes role: "binds_by_role S"
    and find: "\<And>l. rel_option (\<lambda>b b'. \<exists>es. body b = map SExpr es \<and> bb_params (params b) = params b \<and>
        params b' = params b \<and> body b' = es \<and> bterm b' = bterm b \<and>
        map_option target (exc_edge b') = map_option target (exc_edge b))
      (find_block bs l) (find_block bbs l)"
  shows "same_edge e x e' \<Longrightarrow> run_linear S bbs n e' x st = run_structured S bs n e x st"
proof (induction n arbitrary: e e' x st)
  case (Suc n)
  from Suc.prems have e': "target e' = target e" by (simp add: same_edge_def)
  show ?case
  proof (cases "find_block bs (target e)")
    case None
    with find [of "target e"] show ?thesis by (simp add: e')
  next
    case (Some b)
    with find [of "target e"] obtain b' es where b': "find_block bbs (target e) = Some b'"
      "body b = map SExpr es" "params b' = params b" "body b' = es" "bterm b' = bterm b"
      "map_option target (exc_edge b') = map_option target (exc_edge b)"
      by (auto simp: option_rel_Some1)
    have "enter_block S (params b') (edge_args e') x st = enter_block S (params b) (edge_args e) x st"
      using Suc.prems enter_by_role [OF role, of x "params b" "edge_args e'" st "edge_args e"] b'(3)
      by (cases x) (auto simp: same_edge_def)
    moreover have "exec_linear S b' s = exec_structured S b s" for s
      by (simp add: exec_linear_def exec_structured_def b' exec_stmts_exprs)
    moreover have thrown: "run_linear S bbs n e1 (Some y) s = run_structured S bs n e0 (Some y) s"
      if "target e1 = target e0" for e0 e1 y s
      using that by (intro Suc.IH) (simp add: same_edge_def)
    moreover have plain: "run_linear S bbs n e0 None s = run_structured S bs n e0 None s" for e0 s
      by (rule Suc.IH) (simp add: same_edge_def)
    ultimately have "?thesis \<longleftrightarrow>
        (case dispatch (exc_edge b') (exec_structured S b (enter_block S (params b) (edge_args e) x st)) of
           Inr out \<Rightarrow> Some out | Inl (e1, x1, s1) \<Rightarrow> run_linear S bbs n e1 x1 s1) =
        (case dispatch (exc_edge b) (exec_structured S b (enter_block S (params b) (edge_args e) x st)) of
           Inr out \<Rightarrow> Some out | Inl (e1, x1, s1) \<Rightarrow> run_structured S bs n e1 x1 s1)"
      by (simp add: e' Some b'(1))
    then show ?thesis
      using b'(6)
      by (auto simp: dispatch_def plain intro: thrown split: control.splits option.splits)
  qed
qed simp

text \<open>The whole lowering: the basic blocks return what the structured blocks return.\<close>

lemma find_block_opt_map:
  assumes "opt_map f bs = Some bs'" "\<And>b b'. f b = Some b' \<Longrightarrow> label b' = label b"
  shows "rel_option (\<lambda>b b'. f b = Some b') (find_block bs l) (find_block bs' l)"
proof -
  from assms(1) have "list_all2 (\<lambda>b b'. f b = Some b') bs bs'" by (simp add: opt_map_Some_iff)
  then show ?thesis
    by (induction rule: list_all2_induct) (auto simp: find_block_def dest: assms(2))
qed

lemma lin_blocks_params:
  "linearize_structured_ifs g bs bp ee = Some out \<Longrightarrow> b' \<in> set (out_blocks out) \<Longrightarrow>
     \<exists>b\<in>set bs. params b' = params b"
proof -
  have "linearize_blocks bp ee bs out0 = Some out \<Longrightarrow> b' \<in> set (out_blocks out) \<Longrightarrow>
      b' \<in> set (out_blocks out0) \<or> (\<exists>b\<in>set bs. params b' = params b)" for out0
  proof (induction bs arbitrary: out0)
    case (Cons b bs)
    from Cons.prems(1) obtain out1 where
      1: "linearize_if_sequence (lin_context bp ee b) (label b) (body b) (bterm b) out0 = Some out1"
      and 2: "linearize_blocks bp ee bs out1 = Some out"
      by (auto simp: bind_eq_Some_conv)
    from linearize_adds [OF 1] obtain A where A: "out_blocks out1 = out_blocks out0 @ A"
      "list_all (lin_block (lin_context bp ee b)) A" by blast
    from Cons.IH [OF 2 Cons.prems(2)] show ?case
      using A by (auto simp: list_all_iff lin_block_def)
  qed simp
  then show "linearize_structured_ifs g bs bp ee = Some out \<Longrightarrow> b' \<in> set (out_blocks out) \<Longrightarrow>
     \<exists>b\<in>set bs. params b' = params b"
    by (fastforce simp: linearize_structured_ifs_def)
qed

lemma lower_structured_run:
  assumes dist: "distinct (map label bs)" and within: "labels_within (issued g) bs"
    and low: "lower_structured_blocks_to_bb_blocks g bs = Some (bbs, g')"
    and order: "\<forall>b\<in>set bs. bb_params (params b) = params b"
    and role: "binds_by_role S" and entry: "target e \<in> issued g"
  shows "(\<exists>n. run_structured S bs n e x st = Some out) \<longleftrightarrow> (\<exists>n. run_linear S bbs n e x st = Some out)"
proof -
  let ?ee = "lowered_exception_edges bs"
  from low obtain lo cs where lin: "linearize_structured_ifs g bs Map.empty ?ee = Some lo"
    and cs: "opt_map (lower_linear_block (out_exception_edges lo)) (out_blocks lo) = Some cs"
    and bbs: "bbs = populate_exception_edge_args cs"
    by (auto simp: lower_structured_blocks_to_bb_blocks_def bind_eq_Some_conv)
  note labs = linearize_labels [OF dist within lin]
  have track: "exc_tracked lo"
    by (rule linearize_blocks_exc_tracked [OF lin [unfolded linearize_structured_ifs_def] _ labs(1)])
       (simp_all add: lowered_exception_edges_label [OF dist] exc_tracked_def)
  have "run_linear S bbs n e x st = run_structured S (out_blocks lo) n e x st" for n
  proof (rule lower_bb_run [OF role])
    fix l
    let ?R = "\<lambda>b b'. \<exists>es. body b = map SExpr es \<and> bb_params (params b) = params b \<and>
        params b' = params b \<and> body b' = es \<and> bterm b' = bterm b \<and>
        map_option target (exc_edge b') = map_option target (exc_edge b)"
    have rel: "rel_option (\<lambda>b b'. lower_linear_block (out_exception_edges lo) b = Some b')
        (find_block (out_blocks lo) l) (find_block cs l)"
      using cs by (rule find_block_opt_map) (auto simp: lower_linear_block_def bind_eq_Some_conv)
    have map: "find_block bbs l = map_option (populate_block cs) (find_block cs l)"
      by (simp add: bbs populate_exception_edge_args_def find_block_map)
    show "rel_option ?R (find_block (out_blocks lo) l) (find_block bbs l)"
    proof (cases "find_block (out_blocks lo) l")
      case None
      with rel show ?thesis unfolding map by (cases "find_block cs l") simp_all
    next
      case (Some b)
      with rel obtain c where c: "find_block cs l = Some c"
        "lower_linear_block (out_exception_edges lo) b = Some c"
        by (cases "find_block cs l") auto
      have b: "b \<in> set (out_blocks lo)" using Some by (auto dest: find_block_Some)
      obtain es where es: "body b = map SExpr es" using linearize_no_ifs [OF lin b] by blast
      have "params b = bb_params (params b)" using lin_blocks_params [OF lin b] order by auto
      moreover have "out_exception_edges lo (label b) = Some (map_option target (exc_edge b))"
        using track b by (simp add: exc_tracked_def)
      ultimately have "?R b (populate_block cs c)"
        using c(2) es
        by (auto simp: lower_linear_block_Some [OF es] option.map_comp comp_def option.map_ident)
      then show ?thesis unfolding map Some c(1) option.map option.rel_inject by blast
    qed
  qed (simp add: same_edge_def)
  moreover have "(\<exists>n. run_structured S bs n e x st = Some out) \<longleftrightarrow>
      (\<exists>n. run_structured S (out_blocks lo) n e x st = Some out)"
    using linearize_matches [OF dist within lin] entry by (rule matches_equiv)
  ultimately show ?thesis by simp
qed

lemma lower_structured_defined:
  assumes "unat (next_block_id g) + total_labels bs \<le> 2 ^ 32"
  shows "lower_structured_blocks_to_bb_blocks g bs \<noteq> None"
proof -
  have "linearize_structured_ifs g bs Map.empty (lowered_exception_edges bs) \<noteq> None"
    unfolding linearize_structured_ifs_def
    by (rule linearize_blocks_defined) (use assms in \<open>simp add: label_count_def\<close>)
  then obtain lo where lo: "linearize_structured_ifs g bs Map.empty (lowered_exception_edges bs) = Some lo"
    by blast
  have "opt_map (lower_linear_block (out_exception_edges lo)) (out_blocks lo) \<noteq> None"
    unfolding opt_map_defined
  proof
    fix b assume "b \<in> set (out_blocks lo)"
    from linearize_no_ifs [OF lo this] show "lower_linear_block (out_exception_edges lo) b \<noteq> None"
      by (auto simp: lower_linear_block_def)
  qed
  then show ?thesis by (auto simp: lower_structured_blocks_to_bb_blocks_def lo)
qed

section \<open>The current exception\<close>

text \<open>
  A rewriting that works from the leaves up and replaces the nodes satisfying a test: the shape of
  \<open>rewrite_current_exception_in_expr\<close>, which \<open>visit_children_mut\<close> runs on the children first.
\<close>

locale bottom_up_rewrite = instr_node children with_children preorder measure
  for children :: "'e \<Rightarrow> 'e list" and with_children preorder measure +
  fixes hit :: "'e \<Rightarrow> bool" and replacement :: 'e and rewrite :: "'e \<Rightarrow> 'e"
  assumes rewrite_unfold:
      "rewrite e = (let e' = with_children e (map rewrite (children e)) in if hit e' then replacement else e')"
    and replacement_leaf: "children replacement = []"
    and replacement_clean: "\<not> hit replacement"
begin

lemma rewrite_clean: "x \<in> set (preorder (rewrite e)) \<Longrightarrow> \<not> hit x"
proof (induction e arbitrary: x rule: node_induct)
  case (node e)
  let ?e' = "with_children e (map rewrite (children e))"
  show ?case
  proof (cases "hit ?e'")
    case True
    then have "rewrite e = replacement" by (subst rewrite_unfold) simp
    then have "set (preorder (rewrite e)) = {replacement}"
      by (simp add: preorder_unfold [of replacement] replacement_leaf)
    with node.prems show ?thesis by (auto simp: replacement_clean)
  next
    case False
    then have "rewrite e = ?e'" by (subst rewrite_unfold) simp
    with node.prems have "x \<in> set (preorder ?e')" by simp
    then consider "x = ?e'" | c where "c \<in> set (children e)" "x \<in> set (preorder (rewrite c))"
      by (auto simp: preorder_with_children)
    then show ?thesis by cases (use False node.IH in auto)
  qed
qed

lemma rewrite_id: "(\<And>x. x \<in> set (preorder e) \<Longrightarrow> \<not> hit x) \<Longrightarrow> rewrite e = e"
proof (induction e rule: node_induct)
  case (node e)
  have "with_children e (map rewrite (children e)) = e"
  proof (rule with_children_cong)
    fix c assume c: "c \<in> set (children e)"
    show "rewrite c = c"
    proof (rule node.IH [OF c])
      fix x assume "x \<in> set (preorder c)"
      with c have "x \<in> set (preorder e)" by (auto simp: in_preorder_iff [of x e])
      then show "\<not> hit x" by (rule node.prems)
    qed
  qed
  then show ?case using node.prems [OF self_in_preorder] by (subst rewrite_unfold) simp
qed

lemma rewrite_twice: "rewrite (rewrite e) = rewrite e"
  by (rule rewrite_id) (rule rewrite_clean)

end

definition is_current_exception_operation :: "('e \<Rightarrow> unresolved_name option) \<Rightarrow> ('e, 'n) operation \<Rightarrow> bool" where
  "is_current_exception_operation load_name op =
     (case op of
        Call f as ks \<Rightarrow> as = [] \<and> ks = [] \<and> map_option unresolved_id (load_name f) = Some ''current_exception''
      | _ \<Rightarrow> False)"

fun ay_load_name :: "ay_expr \<Rightarrow> unresolved_name option" where
  "ay_load_name (AyOp m (Load n)) = Some n"
| "ay_load_name _ = None"

fun core_load_name :: "core \<Rightarrow> unresolved_name option" where
  "core_load_name (CoreOp m (Load n)) = Some n"
| "core_load_name _ = None"

fun ay_is_current_exception_call :: "ay_expr \<Rightarrow> bool" where
  "ay_is_current_exception_call (AyOp m op) = is_current_exception_operation ay_load_name op"
| "ay_is_current_exception_call _ = False"

fun core_is_current_exception_call :: "core \<Rightarrow> bool" where
  "core_is_current_exception_call (CoreOp m op) = is_current_exception_operation core_load_name op"
| "core_is_current_exception_call _ = False"

definition ay_current_exception_name :: "string \<Rightarrow> ay_expr" where
  "ay_current_exception_name n = AyOp synthetic (Load (SourceName n))"

definition core_current_exception_name :: "string \<Rightarrow> core" where
  "core_current_exception_name n = CoreOp synthetic (Load (SourceName n))"

function rewrite_current_exception_ay :: "string \<Rightarrow> ay_expr \<Rightarrow> ay_expr" where
  "rewrite_current_exception_ay n e =
     (let e' = ay_with_children e (map (rewrite_current_exception_ay n) (ay_children e))
      in if ay_is_current_exception_call e' then ay_current_exception_name n else e')"
  by pat_completeness auto
termination by (relation "measure (size \<circ> snd)") (simp_all add: ay_child_size)

function rewrite_current_exception_core :: "string \<Rightarrow> core \<Rightarrow> core" where
  "rewrite_current_exception_core n e =
     (let e' = core_with_children e (map (rewrite_current_exception_core n) (core_children e))
      in if core_is_current_exception_call e' then core_current_exception_name n else e')"
  by pat_completeness auto
termination by (relation "measure (size \<circ> snd)") (simp_all add: core_child_size)

declare rewrite_current_exception_ay.simps [simp del] rewrite_current_exception_core.simps [simp del]

interpretation ay_exc: bottom_up_rewrite ay_children ay_with_children ay_preorder size
  ay_is_current_exception_call "ay_current_exception_name n" "rewrite_current_exception_ay n" for n
  by standard (simp_all add: rewrite_current_exception_ay.simps [of n] ay_current_exception_name_def
      is_current_exception_operation_def Let_def)

interpretation core_exc: bottom_up_rewrite core_children core_with_children core_preorder size
  core_is_current_exception_call "core_current_exception_name n" "rewrite_current_exception_core n" for n
  by standard (simp_all add: rewrite_current_exception_core.simps [of n] core_current_exception_name_def
      is_current_exception_operation_def Let_def)

text \<open>The generic functions take the rewriting of an expression and the replacement of the bare
  \<open>raise\<close>; both traits' implementations instantiate them.\<close>

fun rewrite_current_exception_in_term :: "('e \<Rightarrow> 'e) \<Rightarrow> 'e \<Rightarrow> 'e block_term \<Rightarrow> 'e block_term" where
  "rewrite_current_exception_in_term rw x (Jump e) = Jump e"
| "rewrite_current_exception_in_term rw x (IfTerm t a b) = IfTerm (rw t) a b"
| "rewrite_current_exception_in_term rw x (BranchTable i ts d) = BranchTable (rw i) ts d"
| "rewrite_current_exception_in_term rw x (Raise None) = Raise (Some x)"
| "rewrite_current_exception_in_term rw x (Raise (Some e)) = Raise (Some (rw e))"
| "rewrite_current_exception_in_term rw x (Return v) = Return (rw v)"

definition rewrite_current_exception_in_block ::
  "(string \<Rightarrow> 'e \<Rightarrow> 'e) \<Rightarrow> (string \<Rightarrow> 'e) \<Rightarrow> ('e, 'e) block \<Rightarrow> ('e, 'e) block" where
  "rewrite_current_exception_in_block rw name b =
     (case exception_param (params b) of
        None \<Rightarrow> b
      | Some n \<Rightarrow> b\<lparr>body := map (rw n) (body b),
                   bterm := rewrite_current_exception_in_term (rw n) (name n) (bterm b)\<rparr>)"

definition rewrite_current_exception_in_core_blocks ::
  "(string \<Rightarrow> 'e \<Rightarrow> 'e) \<Rightarrow> (string \<Rightarrow> 'e) \<Rightarrow> ('e, 'e) block list \<Rightarrow> ('e, 'e) block list" where
  "rewrite_current_exception_in_core_blocks rw name bs = map (rewrite_current_exception_in_block rw name) bs"

definition block_exprs :: "('e, 'e) block \<Rightarrow> 'e list" where
  "block_exprs b = body b @ term_exprs (bterm b)"

lemma rewrite_block_frame [simp]:
  "label (rewrite_current_exception_in_block rw name b) = label b"
  "params (rewrite_current_exception_in_block rw name b) = params b"
  "exc_edge (rewrite_current_exception_in_block rw name b) = exc_edge b"
  by (simp_all add: rewrite_current_exception_in_block_def split: option.splits)

lemma successors_rewrite [simp]:
  "successors (rewrite_current_exception_in_term rw x t) = successors t"
  by (induction rw x t rule: rewrite_current_exception_in_term.induct) simp_all

lemma rewrite_block_exprs:
  assumes "exception_param (params b) = Some n"
    and "e \<in> set (block_exprs (rewrite_current_exception_in_block rw name b))"
  shows "e = name n \<or> (\<exists>e0. e = rw n e0)"
proof -
  have "e \<in> set (term_exprs (rewrite_current_exception_in_term (rw n) (name n) t)) \<Longrightarrow>
      e = name n \<or> (\<exists>e0. e = rw n e0)" for t
    by (induction "rw n" "name n" t rule: rewrite_current_exception_in_term.induct) auto
  then show ?thesis
    using assms by (auto simp: block_exprs_def rewrite_current_exception_in_block_def)
qed

lemma rewrite_no_bare_raise:
  "exception_param (params b) = Some n \<Longrightarrow> bterm (rewrite_current_exception_in_block rw name b) \<noteq> Raise None"
proof -
  have "rewrite_current_exception_in_term (rw n) (name n) t \<noteq> Raise None" for t
    by (induction "rw n" "name n" t rule: rewrite_current_exception_in_term.induct) auto
  then show "exception_param (params b) = Some n \<Longrightarrow> bterm (rewrite_current_exception_in_block rw name b) \<noteq> Raise None"
    by (simp add: rewrite_current_exception_in_block_def)
qed

lemma rewritten_handlers_ay:
  assumes "b \<in> set (rewrite_current_exception_in_core_blocks rewrite_current_exception_ay ay_current_exception_name bs)"
    and "exception_param (params b) = Some n" "e \<in> set (block_exprs b)" "x \<in> set (ay_preorder e)"
  shows "\<not> ay_is_current_exception_call x"
proof -
  from assms(1) obtain b0 where b0: "exception_param (params b0) = Some n"
    "b = rewrite_current_exception_in_block rewrite_current_exception_ay ay_current_exception_name b0"
    using assms(2) by (auto simp: rewrite_current_exception_in_core_blocks_def)
  from rewrite_block_exprs [OF b0(1), of e] assms(3) b0(2)
  consider "e = ay_current_exception_name n" | e0 where "e = rewrite_current_exception_ay n e0" by blast
  then show ?thesis
  proof cases
    case 1
    then have "ay_preorder e = [e]"
      by (subst ay_preorder.simps) (simp add: ay_current_exception_name_def)
    with 1 assms(4) show ?thesis
      by (simp add: ay_current_exception_name_def is_current_exception_operation_def)
  next
    case 2
    with assms(4) show ?thesis using ay_exc.rewrite_clean by simp
  qed
qed

section \<open>Properties\<close>

text \<open>C17: Lowering structured blocks to basic blocks preserves what a function does, for a machine
  that binds the parameters of a handler by their roles.\<close>

theorem lower_structured_blocks_equiv:
  assumes "distinct (map label bs)" "labels_within (issued g) bs" "target e \<in> issued g"
    and "\<forall>b\<in>set bs. bb_params (params b) = params b" "binds_by_role S"
    and "lower_structured_blocks_to_bb_blocks g bs = Some (bbs, g')"
  shows "(\<exists>n. run_linear S bbs n e x st = Some res) \<longleftrightarrow> (\<exists>n. run_structured S bs n e x st = Some res)"
  using lower_structured_run [OF assms(1,2,6,4,5,3)] by blast

theorem lower_structured_blocks_equiv_witness:
  "\<exists>bbs g' n. lower_structured_blocks_to_bb_blocks sample_gen three_blocks = Some (bbs, g') \<and>
     run_linear adding_sem bbs n (edge_new (BlockLabel 0)) None 0 = Some (Returned 0 11)"
proof -
  have "lower_structured_blocks_to_bb_blocks sample_gen three_blocks \<noteq> None"
    by (rule lower_structured_defined) (simp add: sample_gen_def three_blocks_def total_labels_def)
  then obtain bbs g' where low: "lower_structured_blocks_to_bb_blocks sample_gen three_blocks = Some (bbs, g')"
    by auto
  have "distinct (map label three_blocks)" "target (edge_new (BlockLabel 0)) \<in> issued sample_gen"
    "\<forall>b\<in>set three_blocks. bb_params (params b) = params b" "binds_by_role adding_sem"
    by (simp_all add: three_blocks_def issued_def sample_gen_def label_index_def bb_params_def
        binds_by_role_def adding_sem_def)
  from lower_structured_blocks_equiv [OF this(1) sample_within this(2-4) low] low
  show ?thesis using three_blocks_run by blast
qed

text \<open>C18: After \<open>populate_exception_edge_args\<close> an exception edge to a known block has one argument for
  each parameter of the handler, in their order, and passes the current exception to the handler's
  exception parameter.\<close>

theorem populated_edges_match_handler:
  assumes "b \<in> set (populate_exception_edge_args bs)" "exc_edge b = Some e"
    and "index_by_label bs (target e) = Some h"
  shows "length (edge_args e) = length (params h) \<and>
    (\<forall>i < length (params h). exception_param (params h) = Some (param_name (params h ! i))
       \<longrightarrow> edge_args e ! i = ArgCurrentException) \<and>
    (\<forall>i < length (params h). edge_args e ! i \<noteq> ArgCurrentException
       \<longrightarrow> edge_args e ! i = ArgNone \<or> edge_args e ! i = ArgName (param_name (params h ! i)))"
proof -
  from assms(1) obtain b0 where b0: "b = populate_block bs b0"
    by (auto simp: populate_exception_edge_args_def)
  with assms(2) have "map_option target (exc_edge b0) = Some (target e)"
    using populate_frame(5) [of bs b0] by simp
  then obtain e0 where "exc_edge b0 = Some e0" "target e0 = target e" by auto
  with populate_known [of b0 e0 bs h] assms(2,3) b0
  have "e = edge_with_args (target e) (map (exception_arg (param_names (params b0)) h) (param_names (params h)))"
    by simp
  then have "edge_args e = map (exception_arg (param_names (params b0)) h) (param_names (params h))"
    by (metis block_edge.select_convs(2) edge_with_args_def)
  then show ?thesis by (auto simp: param_names_def exception_arg_def)
qed

definition handler_blocks :: "(nat, nat) block list" where
  "handler_blocks =
     [\<lparr>label = BlockLabel 0, body = [1], bterm = Return 0, params = [],
       exc_edge = Some (edge_new (BlockLabel 1))\<rparr>,
      \<lparr>label = BlockLabel 1, body = [], bterm = Return 0,
       params = [\<lparr>param_name = ''e'', role = RoleException\<rparr>, \<lparr>param_name = ''k'', role = RoleAbruptKind\<rparr>],
       exc_edge = None\<rparr>]"

theorem populated_edges_match_handler_witness:
  "exc_edge (hd (populate_exception_edge_args handler_blocks)) =
     Some \<lparr>target = BlockLabel 1, edge_args = [ArgCurrentException, ArgNone]\<rparr> \<and>
   length [ArgCurrentException, ArgNone] = (2 :: nat)"
proof -
  let ?e = "\<lparr>target = BlockLabel 1, edge_args = [ArgCurrentException, ArgNone]\<rparr>"
  have 1: "exc_edge (hd (populate_exception_edge_args handler_blocks)) = Some ?e"
    by (simp add: handler_blocks_def populate_exception_edge_args_def populate_block_def index_by_label_def
        edge_with_args_def exception_arg_def exception_param_def exception_aliases_def has_owner_def param_names_def)
  have 2: "hd (populate_exception_edge_args handler_blocks) \<in> set (populate_exception_edge_args handler_blocks)"
    by (simp add: handler_blocks_def populate_exception_edge_args_def)
  have 3: "index_by_label handler_blocks (target ?e) = Some (handler_blocks ! 1)"
    by (simp add: handler_blocks_def index_by_label_def)
  from populated_edges_match_handler [OF 2 1 3] 1 show ?thesis
    by (simp add: handler_blocks_def)
qed

text \<open>C19: In a block with an exception parameter no \<open>current_exception()\<close> call is left after the
  rewriting, at any depth of any expression, and no bare \<open>raise\<close>.\<close>

theorem no_current_exception_left:
  assumes "b \<in> set (rewrite_current_exception_in_core_blocks rewrite_current_exception_ay ay_current_exception_name bs)"
    and "exception_param (params b) = Some n"
  shows "bterm b \<noteq> Raise None \<and>
    (\<forall>e\<in>set (block_exprs b). \<not> instr_any ay_preorder ay_is_current_exception_call e)"
proof
  from assms obtain b0 where "exception_param (params b0) = Some n"
    "b = rewrite_current_exception_in_block rewrite_current_exception_ay ay_current_exception_name b0"
    by (auto simp: rewrite_current_exception_in_core_blocks_def)
  then show "bterm b \<noteq> Raise None" by (simp add: rewrite_no_bare_raise)
  show "\<forall>e\<in>set (block_exprs b). \<not> instr_any ay_preorder ay_is_current_exception_call e"
    using rewritten_handlers_ay [OF assms] by (auto simp: ay.instr_any_iff)
qed

theorem no_current_exception_left_witness:
  "bterm (hd (rewrite_current_exception_in_core_blocks rewrite_current_exception_ay ay_current_exception_name
     [\<lparr>label = BlockLabel 0, body = [], bterm = Raise None,
       params = [\<lparr>param_name = ''e'', role = RoleException\<rparr>], exc_edge = None\<rparr>])) \<noteq> Raise None"
proof -
  let ?bs = "[\<lparr>label = BlockLabel 0, body = [], bterm = Raise None,
       params = [\<lparr>param_name = ''e'', role = RoleException\<rparr>], exc_edge = None\<rparr>]"
  let ?rs = "rewrite_current_exception_in_core_blocks rewrite_current_exception_ay ay_current_exception_name ?bs"
  have "hd ?rs \<in> set ?rs" "exception_param (params (hd ?rs)) = Some ''e''"
    by (simp_all add: rewrite_current_exception_in_core_blocks_def exception_param_def)
  then show ?thesis using no_current_exception_left [of "hd ?rs" ?bs "''e''"] by blast
qed

end
