(* ===== verification/Frontend.thy ===== *)
theory Frontend
  imports Bb_Shape
begin

text \<open>
  The end of \<open>build_core_blockpy_callable_def_from_runtime_input\<close>
  (\<open>passes/ruff_to_blockpy/mod.rs\<close>): the blocks lowered from the statements of a function get
  their entry block first and an end block if one is referenced, and run through folding, pruning,
  lowering to basic blocks and the rewriting of the current exception. The statement lowering that
  produces the blocks is the input here.
\<close>

section \<open>The composed passes\<close>

definition attach_exception_edges_to_blocks ::
  "('s, 'e) block list \<Rightarrow> (block_label \<rightharpoonup> block_label option) \<Rightarrow> ('s, 'e) block list" where
  "attach_exception_edges_to_blocks bs ee =
     map (\<lambda>b. b\<lparr>exc_edge := map_option edge_new (unwrap_or None (ee (label b)))\<rparr>) bs"

definition move_entry_block_to_front :: "block_label \<Rightarrow> ('s, 'e) block list \<Rightarrow> ('s, 'e) block list" where
  "move_entry_block_to_front entry bs =
     (let pre = takeWhile (\<lambda>b. label b \<noteq> entry) bs in
      (case drop (length pre) bs of
         [] \<Rightarrow> bs
       | b # rest \<Rightarrow> b # pre @ rest))"

definition block_references_label :: "block_label \<Rightarrow> ('e structured, 'e) block \<Rightarrow> bool" where
  "block_references_label l b \<longleftrightarrow>
     l \<in> set (nested_targets (body b))
     \<or> (case exc_edge b of None \<Rightarrow> False | Some e \<Rightarrow> target e = l)
     \<or> l \<in> set (successors (bterm b))"

definition add_end_block ::
  "'e \<Rightarrow> block_label \<Rightarrow> block_label \<Rightarrow> ('e structured, 'e) block list \<Rightarrow> ('e structured, 'e) block list" where
  "add_end_block implicit_none entry end_label bs =
     (if entry = end_label \<or> list_ex (block_references_label end_label) bs
      then bs @ [\<lparr>label = end_label, body = [], bterm = Return implicit_none, params = [], exc_edge = None\<rparr>]
      else bs)"

definition exception_targets :: "('s, 'e) block list \<Rightarrow> block_label list" where
  "exception_targets bs = List.map_filter (\<lambda>b. map_option target (exc_edge b)) bs"

definition simplify_and_lower ::
  "('e \<Rightarrow> bool) \<Rightarrow> function_name_gen \<Rightarrow> block_label \<Rightarrow> ('e structured, 'e) block list
    \<Rightarrow> (('e, 'e) block list \<times> function_name_gen) option" where
  "simplify_and_lower is_none g entry bs =
     (let folded = fold_jumps_to_trivial_none_return is_none bs;
          kept = prune_unreachable entry (exception_targets folded) folded
      in lower_structured_blocks_to_bb_blocks g kept)"

fun ay_is_implicit_none :: "ay_expr \<Rightarrow> bool" where
  "ay_is_implicit_none (AyOp m (Load n)) = is_runtime_symbol n ''NONE''"
| "ay_is_implicit_none _ = False"

definition ay_implicit_none :: ay_expr where
  "ay_implicit_none = AyOp synthetic (Load (RuntimeName ''NONE''))"

definition build_function_blocks ::
  "function_name_gen \<Rightarrow> function_kind \<Rightarrow> block_label \<Rightarrow> block_label \<Rightarrow> (ay_expr structured, ay_expr) block list
    \<Rightarrow> ((ay_expr, ay_expr) block list \<times> function_name_gen) option" where
  "build_function_blocks g kind entry end_label bs =
     do { let bs1 = move_entry_block_to_front entry bs;
          (bbs, g') \<leftarrow> simplify_and_lower ay_is_implicit_none g entry
                        (add_end_block ay_implicit_none entry end_label bs1);
          Some (if kind = KFunction
                then rewrite_current_exception_in_core_blocks rewrite_current_exception_ay ay_current_exception_name bbs
                else bbs, g') }"

section \<open>The entry block\<close>

lemma move_entry_perm: "set (move_entry_block_to_front entry bs) = set bs"
proof -
  have "set bs = set (takeWhile (\<lambda>b. label b \<noteq> entry) bs) \<union>
      set (drop (length (takeWhile (\<lambda>b. label b \<noteq> entry) bs)) bs)"
    by (metis dropWhile_eq_drop set_append takeWhile_dropWhile_id)
  then show ?thesis by (auto simp: move_entry_block_to_front_def Let_def split: list.splits)
qed

lemma move_entry_distinct: "distinct (map label bs) \<Longrightarrow> distinct (map label (move_entry_block_to_front entry bs))"
proof -
  assume d: "distinct (map label bs)"
  let ?p = "takeWhile (\<lambda>b. label b \<noteq> entry) bs"
  have "bs = ?p @ drop (length ?p) bs" by (metis dropWhile_eq_drop takeWhile_dropWhile_id)
  then have "distinct (map label ?p @ map label (drop (length ?p) bs))" using d by (metis map_append)
  then show ?thesis using d
    by (auto simp: move_entry_block_to_front_def Let_def split: list.splits)
qed

lemma move_entry_first:
  assumes "entry \<in> label ` set bs"
  obtains b rest where "move_entry_block_to_front entry bs = b # rest" "label b = entry"
proof -
  let ?p = "\<lambda>b. label b \<noteq> entry"
  have "dropWhile ?p bs \<noteq> []" using assms by (auto simp: dropWhile_eq_Nil_conv)
  then obtain b rest where "dropWhile ?p bs = b # rest" by (cases "dropWhile ?p bs") auto
  moreover from this have "label b = entry" using hd_dropWhile [of ?p bs] by fastforce
  ultimately show ?thesis
    using that by (simp add: move_entry_block_to_front_def Let_def flip: dropWhile_eq_drop)
qed

lemma linearize_first:
  "linearize_if_sequence c l ss final out = Some out' \<Longrightarrow> out_blocks out = [] \<Longrightarrow>
     \<exists>b rest. out_blocks out' = b # rest \<and> label b = l"
proof (induction ss arbitrary: l final out out' rule: if_sequence_induct)
  case (split es q a b rest)
  from split.prems(1) show ?case
  proof (cases rule: linearize_splitE)
    case (1 tl g1 el g2 jl g3 branch out2 out3)
    obtain C where "out_blocks out' = out_blocks out3 @ C"
      using 1(7) linearize_adds [of c _ rest final out3 out'] by (cases jl) auto
    then show ?thesis
      using linearize_adds [OF 1(5)] linearize_adds [OF 1(6)] split.prems(2) by auto
  qed
qed (auto simp: linearize_linear)

lemma lower_first:
  assumes "lower_structured_blocks_to_bb_blocks g (b # bs) = Some (bbs, g')"
  shows "\<exists>b' rest. bbs = b' # rest \<and> label b' = label b"
proof -
  from assms obtain lo cs where lin: "linearize_structured_ifs g (b # bs) Map.empty (lowered_exception_edges (b # bs)) = Some lo"
    and cs: "opt_map (lower_linear_block (out_exception_edges lo)) (out_blocks lo) = Some cs"
    and bbs: "bbs = populate_exception_edge_args cs"
    by (auto simp: lower_structured_blocks_to_bb_blocks_def bind_eq_Some_conv)
  from lin obtain o0 o1 where
    1: "linearize_if_sequence (lin_context Map.empty (lowered_exception_edges (b # bs)) b) (label b) (body b) (bterm b) o0 = Some o1"
    and 0: "out_blocks o0 = []"
    and 2: "linearize_blocks Map.empty (lowered_exception_edges (b # bs)) bs o1 = Some lo"
    by (auto simp: linearize_structured_ifs_def bind_eq_Some_conv)
  from linearize_first [OF 1 0] linearize_blocks_adds [OF 2]
  obtain b1 r1 where "out_blocks lo = b1 # r1" "label b1 = label b" by auto
  with cs obtain c r where "cs = c # r" "label c = label b"
    by (auto simp: bind_eq_Some_conv lower_linear_block_def)
  then show ?thesis by (simp add: bbs populate_exception_edge_args_def)
qed

section \<open>Refinement\<close>

lemma fold_labels [simp]: "map label (fold_jumps_to_trivial_none_return is_none bs) = map label bs"
  by (simp add: fold_jumps_to_trivial_none_return_def)

lemma fold_mem:
  "b \<in> set (fold_jumps_to_trivial_none_return is_none bs) \<longleftrightarrow>
     (\<exists>b0\<in>set bs. b = fold_jump (trivial_ret_none_terms is_none bs) b0)"
  by (auto simp: fold_jumps_to_trivial_none_return_def)

lemma fold_jump_targets:
  assumes "distinct (map label bs)"
  shows "block_targets (fold_jump (trivial_ret_none_terms is_none bs) b) \<subseteq> block_targets b"
proof (cases "bterm b")
  case (Jump e)
  show ?thesis
  proof (cases "trivial_ret_none_terms is_none bs (target e)")
    case (Some t)
    from trivial_terms_Some [OF assms Some] Some show ?thesis
      by (auto simp: fold_jump_def Jump block_targets_def)
  qed (simp add: fold_jump_def Jump)
qed (simp_all add: fold_jump_def)

lemma exception_targets_cover:
  assumes "\<And>b. b \<in> set bs \<Longrightarrow> nested_targets (body b) = []"
  shows "roots_cover (entry # exception_targets bs) bs"
proof -
  have "target e \<in> set (exception_targets bs)" if "b \<in> set bs" "exc_edge b = Some e" for b e
    using that by (force simp: exception_targets_def List.map_filter_def image_iff)
  then show ?thesis by (simp add: roots_cover_def assms)
qed

text \<open>The result of the passes does, up to what is observable, what the structured blocks do.\<close>

lemma simplify_and_lower_steps:
  assumes dist: "distinct (map label bs)" and within: "labels_within (issued g) bs"
    and flat: "\<And>b. b \<in> set bs \<Longrightarrow> nested_targets (body b) = []"
    and order: "\<And>b. b \<in> set bs \<Longrightarrow> bb_params (params b) = params b"
    and role: "binds_by_role S" and entry: "entry \<in> issued g"
    and low: "simplify_and_lower is_none g entry bs = Some (bbs, g')"
  shows "(\<exists>n. run_linear S bbs n (edge_new entry) None st = Some out) \<longleftrightarrow>
         (\<exists>n. run_structured S (fold_jumps_to_trivial_none_return is_none bs) n (edge_new entry) None st = Some out)"
proof -
  let ?f = "fold_jumps_to_trivial_none_return is_none bs"
  let ?k = "prune_unreachable entry (exception_targets ?f) ?f"
  have low': "lower_structured_blocks_to_bb_blocks g ?k = Some (bbs, g')"
    using low by (simp add: simplify_and_lower_def Let_def)
  have sub: "set ?k \<subseteq> set ?f" by (auto simp: prune_unreachable_def Let_def)
  have kd: "distinct (map label ?k)"
    using dist by (simp add: prune_unreachable_def Let_def distinct_map_filter)
  have kept: "label b \<in> issued g \<and> set (nested_targets (body b)) \<subseteq> issued g \<and> block_targets b \<subseteq> issued g
      \<and> bb_params (params b) = params b" if "b \<in> set ?k" for b
  proof -
    from sub that have "b \<in> set ?f" by (rule subsetD)
    then obtain b0 where b0: "b0 \<in> set bs" "b = fold_jump (trivial_ret_none_terms is_none bs) b0"
      unfolding fold_mem by blast
    then show ?thesis
      using within order [OF b0(1)] fold_jump_targets [OF dist, of is_none b0]
      by (auto simp: labels_within_def)
  qed
  have kw: "labels_within (issued g) ?k" using kept by (simp add: labels_within_def)
  have cover: "roots_cover (entry # exception_targets ?f) ?f"
    by (rule exception_targets_cover) (auto simp: fold_mem flat)
  have "run_structured S ?k n (edge_new entry) None st = run_structured S ?f n (edge_new entry) None st" for n
    using dist cover by (intro prune_run) auto
  moreover have "(\<exists>n. run_structured S ?k n (edge_new entry) None st = Some out) \<longleftrightarrow>
      (\<exists>n. run_linear S bbs n (edge_new entry) None st = Some out)"
    using kd kw low' kept role entry by (intro lower_structured_run) auto
  ultimately show ?thesis by simp
qed

section \<open>Totality\<close>

lemma total_labels_filter: "total_labels (filter P bs) \<le> total_labels bs"
  by (induction bs) (auto simp: total_labels_def)

lemma total_labels_fold [simp]: "total_labels (fold_jumps_to_trivial_none_return is_none bs) = total_labels bs"
  by (simp add: total_labels_def fold_jumps_to_trivial_none_return_def comp_def)

lemma total_labels_append [simp]: "total_labels (bs @ cs) = total_labels bs + total_labels cs"
  by (simp add: total_labels_def)

lemma total_labels_Cons [simp]: "total_labels (b # bs) = labels_needed (body b) + total_labels bs"
  by (simp add: total_labels_def)

lemma total_labels_Nil [simp]: "total_labels [] = 0"
  by (simp add: total_labels_def)

lemma total_labels_move [simp]: "total_labels (move_entry_block_to_front entry bs) = total_labels bs"
proof -
  let ?p = "takeWhile (\<lambda>b. label b \<noteq> entry) bs"
  have "bs = ?p @ drop (length ?p) bs" by (metis dropWhile_eq_drop takeWhile_dropWhile_id)
  then have "total_labels bs = total_labels ?p + total_labels (drop (length ?p) bs)"
    by (metis total_labels_append)
  then show ?thesis
    by (simp add: move_entry_block_to_front_def Let_def split: list.split)
qed

lemma total_labels_end [simp]: "total_labels (add_end_block x entry end_label bs) = total_labels bs"
  by (simp add: add_end_block_def)

lemma simplify_and_lower_defined:
  assumes "unat (next_block_id g) + total_labels bs \<le> 2 ^ 32"
  shows "simplify_and_lower is_none g entry bs \<noteq> None"
proof -
  let ?f = "fold_jumps_to_trivial_none_return is_none bs"
  have "total_labels (prune_unreachable entry (exception_targets ?f) ?f) \<le> total_labels bs"
    using total_labels_filter [of _ ?f] by (simp add: prune_unreachable_def Let_def)
  with assms show ?thesis
    unfolding simplify_and_lower_def Let_def by (intro lower_structured_defined) simp
qed

lemma build_function_blocks_defined:
  assumes "unat (next_block_id g) + total_labels bs \<le> 2 ^ 32"
  shows "build_function_blocks g kind entry end_label bs \<noteq> None"
proof -
  have "simplify_and_lower ay_is_implicit_none g entry
      (add_end_block ay_implicit_none entry end_label (move_entry_block_to_front entry bs)) \<noteq> None"
    by (rule simplify_and_lower_defined) (use assms in simp)
  then show ?thesis by (auto simp: build_function_blocks_def)
qed

section \<open>Properties\<close>

text \<open>C12: Building the basic blocks of a function never panics while the labels its structured ifs
  need fit in the 32-bit label space: the unreachable branch of the lowering is never taken.\<close>

theorem build_function_blocks_total:
  assumes "unat (next_block_id g) + total_labels bs \<le> 2 ^ 32"
  shows "\<exists>bbs g'. build_function_blocks g kind entry end_label bs = Some (bbs, g')"
  using build_function_blocks_defined [OF assms] by auto

text \<open>C2: The passes from the structured blocks of a function to its basic blocks (folding, pruning,
  linearizing, lowering) preserve every observable outcome and non-termination: from the entry,
  the basic blocks can end with a result exactly when the structured blocks can. The arms of
  structured ifs may end in a return or a raise but not in a jump, which is what the statement
  lowering produces.\<close>

theorem simplify_and_lower_refines:
  assumes "distinct (map label bs)" "labels_within (issued g) bs" "entry \<in> issued g"
    and "\<And>b. b \<in> set bs \<Longrightarrow> nested_targets (body b) = [] \<and> bb_params (params b) = params b"
    and "binds_by_role S" "pure_none S is_none" "bind_unobservable S obs"
    and "simplify_and_lower is_none g entry bs = Some (bbs, g')"
  shows "(\<exists>n out. run_linear S bbs n (edge_new entry) None st = Some out \<and> obs_outcome obs out = res)
     \<longleftrightarrow> (\<exists>n out. run_structured S bs n (edge_new entry) None st = Some out \<and> obs_outcome obs out = res)"
proof -
  let ?f = "fold_jumps_to_trivial_none_return is_none bs"
  have "(\<exists>n out. run_linear S bbs n (edge_new entry) None st = Some out \<and> obs_outcome obs out = res)
     \<longleftrightarrow> (\<exists>n out. run_structured S ?f n (edge_new entry) None st = Some out \<and> obs_outcome obs out = res)"
    using simplify_and_lower_steps [OF assms(1,2) _ _ assms(5,3,8)] assms(4) by blast
  also have "\<dots> \<longleftrightarrow> (\<exists>n out. run_structured S bs n (edge_new entry) None st = Some out \<and> obs_outcome obs out = res)"
    using fold_forward [OF assms(1,6,7)] fold_backward [OF assms(1,6,7)] by metis
  finally show ?thesis .
qed

theorem simplify_and_lower_refines_witness:
  "\<exists>bbs g' n out. simplify_and_lower (\<lambda>e. e = 0) sample_gen (BlockLabel 0) three_blocks = Some (bbs, g') \<and>
     run_linear adding_sem bbs n (edge_new (BlockLabel 0)) None 0 = Some out \<and>
     obs_outcome id out = Returned 0 11"
proof -
  have "simplify_and_lower (\<lambda>e. e = 0) sample_gen (BlockLabel 0) three_blocks \<noteq> None"
    by (rule simplify_and_lower_defined) (simp add: sample_gen_def three_blocks_def total_labels_def)
  then obtain bbs g' where low: "simplify_and_lower (\<lambda>e. e = 0) sample_gen (BlockLabel 0) three_blocks = Some (bbs, g')"
    by auto
  have hyps: "distinct (map label three_blocks)" "BlockLabel 0 \<in> issued sample_gen"
    "binds_by_role adding_sem" "pure_none adding_sem (\<lambda>e. e = 0)" "bind_unobservable adding_sem id"
    by (simp_all add: three_blocks_def issued_def sample_gen_def label_index_def
        binds_by_role_def adding_sem_def pure_none_def bind_unobservable_def)
  have flat: "nested_targets (body b) = [] \<and> bb_params (params b) = params b" if "b \<in> set three_blocks" for b
    using that by (auto simp: three_blocks_def opt_successors_def bb_params_def)
  have "\<exists>n out. run_structured adding_sem three_blocks n (edge_new (BlockLabel 0)) None 0 = Some out
      \<and> obs_outcome id out = Returned 0 11"
    using three_blocks_run by fastforce
  with simplify_and_lower_refines [OF hyps(1) sample_within hyps(2) flat hyps(3-5) low] low
  show ?thesis by blast
qed

text \<open>The first basic block of the function is its entry block.\<close>

theorem entry_block_first:
  assumes "entry \<in> label ` set bs" "build_function_blocks g kind entry end_label bs = Some (bbs, g')"
  shows "bbs \<noteq> [] \<and> label (hd bbs) = entry"
proof -
  obtain b rest where m: "move_entry_block_to_front entry bs = b # rest" and l: "label b = entry"
    using move_entry_first [OF assms(1)] by blast
  let ?all = "add_end_block ay_implicit_none entry end_label (b # rest)"
  let ?f = "fold_jumps_to_trivial_none_return ay_is_implicit_none ?all"
  obtain r1 where r1: "?all = b # r1" by (cases "?all") (auto simp: add_end_block_def split: if_splits)
  define f where "f = ?f"
  then obtain b2 r2 where f: "f = b2 # r2" "label b2 = entry"
    by (simp add: r1 fold_jumps_to_trivial_none_return_def l)
  from assms(2) obtain xs where low: "lower_structured_blocks_to_bb_blocks g
      (prune_unreachable entry (exception_targets f) f) = Some (xs, g')"
    and bbs: "bbs = (if kind = KFunction then rewrite_current_exception_in_core_blocks
      rewrite_current_exception_ay ay_current_exception_name xs else xs)"
    by (auto simp: build_function_blocks_def simplify_and_lower_def m Let_def f_def bind_eq_Some_conv)
  have "entry \<in> (jump_edges f)\<^sup>* `` set (entry # exception_targets f)"
    by (rule ImageI [OF rtrancl_refl]) simp
  with f have "\<exists>r3. prune_unreachable entry (exception_targets f) f = b2 # r3"
    unfolding prune_unreachable_eq by simp
  then obtain r3 where "prune_unreachable entry (exception_targets f) f = b2 # r3" by blast
  with low lower_first [of g b2 r3 xs g'] obtain b3 r4 where "xs = b3 # r4" "label b3 = entry"
    using f(2) by auto
  then show ?thesis by (simp add: bbs rewrite_current_exception_in_core_blocks_def)
qed

definition two_ay_blocks :: "(ay_expr structured, ay_expr) block list" where
  "two_ay_blocks =
     [\<lparr>label = BlockLabel 1, body = [], bterm = Return ay_implicit_none, params = [], exc_edge = None\<rparr>,
      \<lparr>label = BlockLabel 0, body = [SExpr ay_implicit_none], bterm = Jump (edge_new (BlockLabel 1)),
       params = [], exc_edge = None\<rparr>]"

theorem build_function_blocks_total_witness:
  "\<exists>bbs g'. build_function_blocks sample_gen KGenerator (BlockLabel 0) (BlockLabel 2) two_ay_blocks = Some (bbs, g')"
  by (rule build_function_blocks_total) (simp add: sample_gen_def two_ay_blocks_def total_labels_def)

theorem entry_block_first_witness:
  "\<exists>bbs g'. build_function_blocks sample_gen KFunction (BlockLabel 0) (BlockLabel 2) two_ay_blocks = Some (bbs, g')
     \<and> label (hd bbs) = BlockLabel 0"
proof -
  have "build_function_blocks sample_gen KFunction (BlockLabel 0) (BlockLabel 2) two_ay_blocks \<noteq> None"
    by (rule build_function_blocks_defined) (simp add: sample_gen_def two_ay_blocks_def total_labels_def)
  then obtain bbs g' where b: "build_function_blocks sample_gen KFunction (BlockLabel 0) (BlockLabel 2) two_ay_blocks = Some (bbs, g')"
    by auto
  have "BlockLabel 0 \<in> label ` set two_ay_blocks" by (simp add: two_ay_blocks_def)
  from entry_block_first [OF this b] b show ?thesis by blast
qed

end
