(* ===== verification/Params.thy ===== *)
theory Params
  imports IR_Prelude
begin

text \<open>
  Parameter specifications of a function, \<open>soac-blockpy/src/block_py/param_specs/mod.rs\<close>. The
  syntax tree's parameter lists (\<open>ruff_python_ast::Parameters\<close>) are a record of names with their
  optional default expressions \<open>'d\<close>.
\<close>

datatype param_kind = PAny | PPosOnly | PVarArg | PKwOnly | PKwArg

record param =
  pname :: string
  pkind :: param_kind
  has_default :: bool

datatype default_source = DefaultPositional nat | DefaultKeywordOnly string

type_synonym param_spec = "param list"

definition spec_names :: "param_spec \<Rightarrow> string list" where
  "spec_names ps = map pname ps"

fun default_sources_from :: "nat \<Rightarrow> param_spec \<Rightarrow> (param \<times> default_source option) list" where
  "default_sources_from n [] = []"
| "default_sources_from n (p # ps) =
     (if \<not> has_default p then (p, None) # default_sources_from n ps
      else (case pkind p of
              PPosOnly \<Rightarrow> (p, Some (DefaultPositional n)) # default_sources_from (n + 1) ps
            | PAny \<Rightarrow> (p, Some (DefaultPositional n)) # default_sources_from (n + 1) ps
            | PKwOnly \<Rightarrow> (p, Some (DefaultKeywordOnly (pname p))) # default_sources_from n ps
            | PVarArg \<Rightarrow> (p, None) # default_sources_from n ps
            | PKwArg \<Rightarrow> (p, None) # default_sources_from n ps))"

definition iter_with_default_sources :: "param_spec \<Rightarrow> (param \<times> default_source option) list" where
  "iter_with_default_sources ps = default_sources_from 0 ps"

definition default_count :: "param_spec \<Rightarrow> nat" where
  "default_count ps = length (filter has_default ps)"

definition is_positional :: "param \<Rightarrow> bool" where
  "is_positional p \<longleftrightarrow> pkind p = PPosOnly \<or> pkind p = PAny"

definition positional_param_indices :: "param_spec \<Rightarrow> nat list" where
  "positional_param_indices ps = filter (\<lambda>i. is_positional (ps ! i)) [0..<length ps]"

fun position :: "('a \<Rightarrow> bool) \<Rightarrow> 'a list \<Rightarrow> nat option" where
  "position P [] = None"
| "position P (x # xs) = (if P x then Some 0 else map_option Suc (position P xs))"

definition param_index :: "string \<Rightarrow> param_spec \<Rightarrow> nat option" where
  "param_index n ps = position (\<lambda>p. pname p = n) ps"

definition vararg_index :: "param_spec \<Rightarrow> nat option" where
  "vararg_index ps = position (\<lambda>p. pkind p = PVarArg) ps"

definition kwarg_index :: "param_spec \<Rightarrow> nat option" where
  "kwarg_index ps = position (\<lambda>p. pkind p = PKwArg) ps"

section \<open>Collecting the specification\<close>

record 'd parameters =
  posonlyargs :: "(string \<times> 'd option) list"
  plainargs :: "(string \<times> 'd option) list"
  vararg :: "string option"
  kwonlyargs :: "(string \<times> 'd option) list"
  kwarg :: "string option"

text \<open>\<open>push_param\<close> panics when the parameter is marked but carries no default.\<close>

definition push_param ::
  "param \<Rightarrow> 'd option \<Rightarrow> param_spec \<times> 'd list \<Rightarrow> (param_spec \<times> 'd list) option" where
  "push_param p d st =
     (let (spec, defaults) = st in
      if has_default p
      then (case d of None \<Rightarrow> None | Some e \<Rightarrow> Some (spec @ [p], defaults @ [e]))
      else Some (spec @ [p], defaults))"

fun push_params ::
  "param_kind \<Rightarrow> (string \<times> 'd option) list \<Rightarrow> param_spec \<times> 'd list \<Rightarrow> (param_spec \<times> 'd list) option" where
  "push_params k [] st = Some st"
| "push_params k ((n, d) # ps) st =
     do { st' \<leftarrow> push_param \<lparr>pname = n, pkind = k, has_default = (d \<noteq> None)\<rparr> d st; push_params k ps st' }"

definition push_rest :: "param_kind \<Rightarrow> string option \<Rightarrow> param_spec \<times> 'd list \<Rightarrow> param_spec \<times> 'd list" where
  "push_rest k n st =
     (case n of None \<Rightarrow> st
      | Some n \<Rightarrow> (fst st @ [\<lparr>pname = n, pkind = k, has_default = False\<rparr>], snd st))"

definition collect_param_spec_and_defaults :: "'d parameters \<Rightarrow> (param_spec \<times> 'd list) option" where
  "collect_param_spec_and_defaults ps =
     do { st1 \<leftarrow> push_params PPosOnly (posonlyargs ps) ([], []);
          st2 \<leftarrow> push_params PAny (plainargs ps) st1;
          let st3 = push_rest PVarArg (vararg ps) st2;
          st4 \<leftarrow> push_params PKwOnly (kwonlyargs ps) st3;
          let st5 = push_rest PKwArg (kwarg ps) st4;
          if default_count (fst st5) = length (snd st5) then Some st5 else None }"

section \<open>Lemmas\<close>

lemma position_Some:
  "position P xs = Some i \<Longrightarrow> i < length xs \<and> P (xs ! i) \<and> (\<forall>j<i. \<not> P (xs ! j))"
proof (induction xs arbitrary: i)
  case (Cons x xs)
  show ?case
  proof (cases "P x")
    case False
    with Cons.prems obtain k where "position P xs = Some k" "i = Suc k" by auto
    with Cons.IH [of k] False show ?thesis by (auto simp: less_Suc_eq_0_disj)
  qed (use Cons.prems in simp)
qed simp

lemma position_None: "position P xs = None \<longleftrightarrow> (\<forall>x\<in>set xs. \<not> P x)"
  by (induction xs) auto

lemma position_unique:
  assumes "i < length xs" "P (xs ! i)" "\<And>j. j < length xs \<Longrightarrow> P (xs ! j) \<Longrightarrow> j = i"
  shows "position P xs = Some i"
proof (cases "position P xs")
  case None
  with assms(1,2) show ?thesis by (auto simp: position_None)
next
  case (Some k)
  with position_Some [OF Some] assms(3) show ?thesis by simp
qed

definition param_of :: "param_kind \<Rightarrow> string \<times> 'd option \<Rightarrow> param" where
  "param_of k nd = \<lparr>pname = fst nd, pkind = k, has_default = (snd nd \<noteq> None)\<rparr>"

definition rest_of :: "param_kind \<Rightarrow> string option \<Rightarrow> param list" where
  "rest_of k n = (case n of None \<Rightarrow> [] | Some n \<Rightarrow> [\<lparr>pname = n, pkind = k, has_default = False\<rparr>])"

definition defaults_of :: "(string \<times> 'd option) list \<Rightarrow> 'd list" where
  "defaults_of nds = List.map_filter snd nds"

lemma push_params_eq:
  "push_params k nds (spec, defaults) = Some (spec @ map (param_of k) nds, defaults @ defaults_of nds)"
proof (induction nds arbitrary: spec defaults)
  case (Cons nd nds)
  obtain n d where nd: "nd = (n, d)" by (cases nd)
  show ?case
    using Cons.IH by (cases d) (simp_all add: nd push_param_def param_of_def defaults_of_def List.map_filter_simps)
qed (simp add: defaults_of_def List.map_filter_simps)

lemma push_rest_eq: "push_rest k n (spec, defaults) = (spec @ rest_of k n, defaults)"
  by (simp add: push_rest_def rest_of_def split: option.splits)

lemma default_count_append [simp]: "default_count (ps @ qs) = default_count ps + default_count qs"
  by (simp add: default_count_def)

lemma default_count_params [simp]: "default_count (map (param_of k) nds) = length (defaults_of nds)"
proof (induction nds)
  case (Cons nd nds)
  then show ?case
    by (cases nd; cases "snd nd") (simp_all add: default_count_def param_of_def defaults_of_def List.map_filter_simps)
qed (simp add: default_count_def defaults_of_def List.map_filter_simps)

lemma default_count_rest [simp]: "default_count (rest_of k n) = 0"
  by (simp add: default_count_def rest_of_def split: option.splits)

section \<open>Properties\<close>

text \<open>Collecting a parameter list never panics: neither the missing-default \<open>expect\<close> nor the final
  assertion on the number of defaults can fail. The specification lists the parameters in the order
  of Python's grammar, and the defaults follow the parameters that have one.\<close>

theorem collect_params_total:
  "collect_param_spec_and_defaults ps = Some
     (map (param_of PPosOnly) (posonlyargs ps) @ map (param_of PAny) (plainargs ps) @ rest_of PVarArg (vararg ps)
        @ map (param_of PKwOnly) (kwonlyargs ps) @ rest_of PKwArg (kwarg ps),
      defaults_of (posonlyargs ps) @ defaults_of (plainargs ps) @ defaults_of (kwonlyargs ps))"
  unfolding collect_param_spec_and_defaults_def push_params_eq push_rest_eq bind.bind_lunit Let_def
  by (simp add: push_params_eq push_rest_eq)

text \<open>The positional defaults are numbered from zero without gaps, in the order of the parameters.\<close>

theorem positional_defaults_numbered:
  "[n. (p, Some (DefaultPositional n)) \<leftarrow> iter_with_default_sources ps]
     = [0 ..< length (filter (\<lambda>p. has_default p \<and> is_positional p) ps)]"
proof -
  have "[n. (p, Some (DefaultPositional n)) \<leftarrow> default_sources_from k ps]
      = [k ..< k + length (filter (\<lambda>p. has_default p \<and> is_positional p) ps)]" for k
  proof (induction ps arbitrary: k)
    case (Cons p ps)
    then show ?case
      by (cases "pkind p") (simp_all add: is_positional_def upt_conv_Cons del: upt_Suc)
  qed simp
  then show ?thesis by (simp add: iter_with_default_sources_def)
qed

end
