(* ===== verification/Arg_Binding.thy ===== *)
theory Arg_Binding
  imports Params
begin

text \<open>
  Binding the arguments of a call to the parameters of a function,
  \<open>build_function_bound_args\<close> of \<open>soac-eval/src/tree_walk/eval.rs\<close>. Objects are values \<open>'v\<close>,
  a null pointer is \<open>None\<close>, and so is a keyword name that is not a string. The \<open>**kwargs\<close>
  dictionary is created once and filled while the keywords are bound; the parameter's slot holds
  the reference \<open>VarKw\<close> and the state holds the contents. Allocation in the Python runtime is
  assumed to succeed; reference counts are not modelled.
\<close>

section \<open>The binding loop\<close>

datatype 'v bound_value = Value 'v | VarTuple "'v list" | VarKw

datatype bind_error =
  TooManyPositional nat nat
| NullPositional | NullVararg | NullKeyword | BadKeywordName
| UnexpectedKeyword string | MultipleValues string | MissingArgument string

record 'v bind_state =
  bound_args :: "'v bound_value option list"
  assigned :: "bool list"
  varkw_dict :: "(string \<times> 'v) list"

definition bind_slot :: "nat \<Rightarrow> 'v bound_value \<Rightarrow> 'v bind_state \<Rightarrow> 'v bind_state" where
  "bind_slot i v st = st\<lparr>bound_args := (bound_args st)[i := Some v], assigned := (assigned st)[i := True]\<rparr>"

definition set_kw :: "string \<Rightarrow> 'v \<Rightarrow> 'v bind_state \<Rightarrow> 'v bind_state" where
  "set_kw k v st = st\<lparr>varkw_dict := AList.update k v (varkw_dict st)\<rparr>"

fun bind_positional :: "nat list \<Rightarrow> 'v option list \<Rightarrow> 'v bind_state \<Rightarrow> bind_error + 'v bind_state" where
  "bind_positional (i # is) (v # vs) st =
     (case v of None \<Rightarrow> Inl NullPositional | Some x \<Rightarrow> bind_positional is vs (bind_slot i (Value x) st))"
| "bind_positional is vs st = Inr st"

definition bind_varargs ::
  "param_spec \<Rightarrow> 'v option list \<Rightarrow> 'v bind_state \<Rightarrow> bind_error + 'v bind_state" where
  "bind_varargs ps extras st =
     (case vararg_index ps of
        None \<Rightarrow> Inr st
      | Some i \<Rightarrow> (case opt_map id extras of
                    None \<Rightarrow> Inl NullVararg
                  | Some vs \<Rightarrow> Inr (bind_slot i (VarTuple vs) st)))"

definition bind_varkw :: "param_spec \<Rightarrow> 'v bind_state \<Rightarrow> 'v bind_state" where
  "bind_varkw ps st = (case kwarg_index ps of None \<Rightarrow> st | Some i \<Rightarrow> bind_slot i VarKw st)"

definition bind_keyword ::
  "param_spec \<Rightarrow> string \<Rightarrow> 'v \<Rightarrow> 'v bind_state \<Rightarrow> bind_error + 'v bind_state" where
  "bind_keyword ps k v st =
     (let has_varkw = (kwarg_index ps \<noteq> None) in
      case param_index k ps of
        Some i \<Rightarrow>
          (case pkind (ps ! i) of
             PPosOnly \<Rightarrow> (if \<not> has_varkw then Inl (UnexpectedKeyword k) else Inr (set_kw k v st))
           | PVarArg \<Rightarrow> (if \<not> has_varkw then Inl (UnexpectedKeyword k) else Inr (set_kw k v st))
           | PAny \<Rightarrow> (if assigned st ! i then Inl (MultipleValues k) else Inr (bind_slot i (Value v) st))
           | PKwOnly \<Rightarrow> (if assigned st ! i then Inl (MultipleValues k) else Inr (bind_slot i (Value v) st))
           | PKwArg \<Rightarrow> Inr (set_kw k v st))
      | None \<Rightarrow> (if has_varkw then Inr (set_kw k v st) else Inl (UnexpectedKeyword k)))"

fun bind_keywords ::
  "param_spec \<Rightarrow> (string option \<times> 'v option) list \<Rightarrow> 'v bind_state \<Rightarrow> bind_error + 'v bind_state" where
  "bind_keywords ps [] st = Inr st"
| "bind_keywords ps ((key, val) # kws) st =
     (case val of
        None \<Rightarrow> Inl NullKeyword
      | Some v \<Rightarrow>
          (case key of
             None \<Rightarrow> Inl BadKeywordName
           | Some k \<Rightarrow> (case bind_keyword ps k v st of
                          Inl e \<Rightarrow> Inl e
                        | Inr st' \<Rightarrow> bind_keywords ps kws st')))"

fun check_missing :: "param_spec \<Rightarrow> bool list \<Rightarrow> bind_error + unit" where
  "check_missing (p # ps) (a # as) =
     (if a \<or> pkind p = PVarArg \<or> pkind p = PKwArg \<or> has_default p then check_missing ps as
      else Inl (MissingArgument (pname p)))"
| "check_missing _ _ = Inr ()"

definition bind_args ::
  "param_spec \<Rightarrow> 'v option list \<Rightarrow> (string option \<times> 'v option) list
    \<Rightarrow> bind_error + ('v bound_value option list \<times> (string \<times> 'v) list)" where
  "bind_args ps args kws =
     (let indices = positional_param_indices ps; capacity = length indices;
          st0 = \<lparr>bound_args = replicate (length ps) None, assigned = replicate (length ps) False, varkw_dict = []\<rparr>
      in if vararg_index ps = None \<and> capacity < length args
         then Inl (TooManyPositional capacity (length args))
         else case bind_positional indices args st0 of
                Inl e \<Rightarrow> Inl e
              | Inr st1 \<Rightarrow>
                  (case bind_varargs ps (drop capacity args) st1 of
                     Inl e \<Rightarrow> Inl e
                   | Inr st2 \<Rightarrow>
                       (case bind_keywords ps kws (bind_varkw ps st2) of
                          Inl e \<Rightarrow> Inl e
                        | Inr st3 \<Rightarrow>
                            (case check_missing ps (assigned st3) of
                               Inl e \<Rightarrow> Inl e
                             | Inr _ \<Rightarrow> Inr (bound_args st3, varkw_dict st3)))))"

text \<open>\<open>write_owned_bound_args_to_buffer\<close> hands the bound arguments over to the buffer of the direct
  entry; a null buffer is only an error when there is something to write.\<close>

datatype buffer_error = ArityMismatch | MissingBuffer

definition write_owned_bound_args_to_buffer ::
  "'v bound_value option list \<Rightarrow> 'v bound_value option list option \<Rightarrow> nat
    \<Rightarrow> buffer_error + 'v bound_value option list" where
  "write_owned_bound_args_to_buffer bound out_args out_len =
     (if length bound \<noteq> out_len then Inl ArityMismatch
      else if out_len = 0 then Inr []
      else (case out_args of
              None \<Rightarrow> Inl MissingBuffer
            | Some buffer \<Rightarrow> Inr (bound @ drop (length bound) buffer)))"

section \<open>Python's rules, parameter by parameter\<close>

text \<open>
  The reference: \<open>rank\<close> is the position of a parameter among the positional ones, a keyword belongs
  to the parameter of its name if that may be given by keyword, and to \<open>**kwargs\<close> otherwise.
\<close>

definition rank :: "param_spec \<Rightarrow> nat \<Rightarrow> nat" where
  "rank ps i = length (filter (\<lambda>j. is_positional (ps ! j)) [0..<i])"

definition by_position :: "param_spec \<Rightarrow> nat \<Rightarrow> nat \<Rightarrow> bool" where
  "by_position ps n i \<longleftrightarrow> is_positional (ps ! i) \<and> rank ps i < n"

definition keyword_target :: "param_spec \<Rightarrow> string \<Rightarrow> nat option" where
  "keyword_target ps k =
     (case param_index k ps of
        Some i \<Rightarrow> if pkind (ps ! i) = PAny \<or> pkind (ps ! i) = PKwOnly then Some i else None
      | None \<Rightarrow> None)"

definition expected_value ::
  "param_spec \<Rightarrow> 'v list \<Rightarrow> (string \<times> 'v) list \<Rightarrow> nat \<Rightarrow> 'v bound_value option" where
  "expected_value ps args kws i =
     (if by_position ps (length args) i then Some (Value (args ! rank ps i))
      else case pkind (ps ! i) of
             PVarArg \<Rightarrow> Some (VarTuple (drop (length (positional_param_indices ps)) args))
           | PKwArg \<Rightarrow> Some VarKw
           | PPosOnly \<Rightarrow> None
           | _ \<Rightarrow> map_option Value (map_of kws (pname (ps ! i))))"

definition expected_kwargs :: "param_spec \<Rightarrow> (string \<times> 'v) list \<Rightarrow> (string \<times> 'v) list" where
  "expected_kwargs ps kws = filter (\<lambda>(k, v). keyword_target ps k = None) kws"

definition call_accepted :: "param_spec \<Rightarrow> 'v list \<Rightarrow> (string \<times> 'v) list \<Rightarrow> bool" where
  "call_accepted ps args kws \<longleftrightarrow>
     (vararg_index ps = None \<longrightarrow> length args \<le> length (positional_param_indices ps)) \<and>
     list_all (\<lambda>(k, v). case keyword_target ps k of
                          Some i \<Rightarrow> \<not> by_position ps (length args) i
                        | None \<Rightarrow> kwarg_index ps \<noteq> None) kws \<and>
     list_all (\<lambda>i. has_default (ps ! i) \<or> expected_value ps args kws i \<noteq> None) [0..<length ps]"

text \<open>Specifications that come from a parameter list: distinct names, one \<open>*args\<close>, one \<open>**kwargs\<close>.\<close>

definition wf_spec :: "param_spec \<Rightarrow> bool" where
  "wf_spec ps \<longleftrightarrow> distinct (map pname ps) \<and>
     length (filter (\<lambda>p. pkind p = PVarArg) ps) \<le> 1 \<and> length (filter (\<lambda>p. pkind p = PKwArg) ps) \<le> 1"

section \<open>Lemmas\<close>

lemma bind_slot_frame [simp]:
  "length (bound_args (bind_slot i v st)) = length (bound_args st)"
  "length (assigned (bind_slot i v st)) = length (assigned st)"
  "varkw_dict (bind_slot i v st) = varkw_dict st"
  by (simp_all add: bind_slot_def)

lemma upt_split: "i < n \<Longrightarrow> [0..<n] = [0..<i] @ i # [Suc i..<n]"
  using upt_add_eq_append [of 0 i "n - i"] by (simp add: upt_conv_Cons)

lemma bind_slot_nth:
  "i < length (bound_args st) \<Longrightarrow> bound_args (bind_slot j v st) ! i = (if i = j then Some v else bound_args st ! i)"
  "i < length (assigned st) \<Longrightarrow> assigned (bind_slot j v st) ! i = (i = j \<or> assigned st ! i)"
  by (cases "i = j", simp_all add: bind_slot_def)+

lemma filter_upt_nth:
  "i < n \<Longrightarrow> P i \<Longrightarrow> filter P [0..<n] ! length (filter P [0..<i]) = i"
proof -
  assume "i < n" "P i"
  then show ?thesis by (simp add: upt_split nth_append)
qed

lemma positional_bound:
  "distinct is \<Longrightarrow> \<forall>i\<in>set is. i < length (bound_args st) \<and> i < length (assigned st) \<Longrightarrow>
     \<exists>st'. bind_positional is (map Some vs) st = Inr st' \<and> varkw_dict st' = varkw_dict st \<and>
       length (bound_args st') = length (bound_args st) \<and> length (assigned st') = length (assigned st) \<and>
       (\<forall>i. i < length (bound_args st) \<longrightarrow> bound_args st' ! i
          = (case map_of (zip is vs) i of Some v \<Rightarrow> Some (Value v) | None \<Rightarrow> bound_args st ! i)) \<and>
       (\<forall>i. i < length (assigned st) \<longrightarrow> assigned st' ! i = (map_of (zip is vs) i \<noteq> None \<or> assigned st ! i))"
proof (induction "is" "map Some vs" st arbitrary: vs rule: bind_positional.induct)
  case (1 i "is" v vs' st vs)
  then obtain x xs where vs: "vs = x # xs" "v = Some x" "vs' = map Some xs" by (cases vs) auto
  have prem: "distinct is" "\<forall>j\<in>set is. j < length (bound_args (bind_slot i (Value x) st)) \<and>
      j < length (assigned (bind_slot i (Value x) st))" "i \<notin> set is"
    using "1.prems" by auto
  from "1.hyps"(1) [OF vs(2,3) prem(1,2)] obtain st' where st':
    "bind_positional is (map Some xs) (bind_slot i (Value x) st) = Inr st'" "varkw_dict st' = varkw_dict st"
    "length (bound_args st') = length (bound_args st)" "length (assigned st') = length (assigned st)"
    "\<And>j. j < length (bound_args st) \<Longrightarrow> bound_args st' ! j = (case map_of (zip is xs) j of
        Some v \<Rightarrow> Some (Value v) | None \<Rightarrow> bound_args (bind_slot i (Value x) st) ! j)"
    "\<And>j. j < length (assigned st) \<Longrightarrow> assigned st' ! j =
        (map_of (zip is xs) j \<noteq> None \<or> assigned (bind_slot i (Value x) st) ! j)"
    using vs(3) by auto
  have none: "map_of (zip is xs) i = None"
    using prem(3) by (auto simp: map_of_eq_None_iff dest: set_zip_leftD)
  show ?case
    using st' none "1.prems" by (auto simp: vs bind_slot_def nth_list_update split: option.splits)
qed auto

lemma map_of_positional:
  assumes "i < length ps"
  shows "map_of (zip (positional_param_indices ps) vs) i =
    (if by_position ps (length vs) i then Some (vs ! rank ps i) else None)"
proof -
  let ?is = "positional_param_indices ps"
  let ?zs = "zip ?is vs"
  have dist: "distinct (map fst ?zs)" by (simp add: positional_param_indices_def map_fst_zip_take)
  show ?thesis
  proof (cases "is_positional (ps ! i)")
    case True
    have nth: "?is ! rank ps i = i"
      unfolding positional_param_indices_def rank_def by (rule filter_upt_nth) (use assms True in auto)
    have lt: "rank ps i < length ?is"
    proof -
      have "?is = filter (\<lambda>j. is_positional (ps ! j)) [0..<i] @ i # filter (\<lambda>j. is_positional (ps ! j)) [Suc i..<length ps]"
        using True assms by (simp add: positional_param_indices_def upt_split)
      then show ?thesis by (simp add: rank_def)
    qed
    show ?thesis
    proof (cases "rank ps i < length vs")
      case less: True
      then have "?zs ! rank ps i = (i, vs ! rank ps i)" "rank ps i < length ?zs"
        using lt nth by simp_all
      then have "(i, vs ! rank ps i) \<in> set ?zs" by (metis nth_mem)
      with dist show ?thesis using True less by (simp add: by_position_def)
    next
      case False
      have "i \<notin> fst ` set ?zs"
      proof
        assume "i \<in> fst ` set ?zs"
        then obtain r where r: "r < length ?is" "r < length vs" "?is ! r = i"
          by (auto simp: set_zip)
        moreover have "distinct ?is" by (simp add: positional_param_indices_def)
        ultimately have "r = rank ps i" using nth lt nth_eq_iff_index_eq by metis
        with r(2) False show False by simp
      qed
      then show ?thesis using False by (simp add: by_position_def map_of_eq_None_iff)
    qed
  next
    case False
    then have "i \<notin> set ?is" by (simp add: positional_param_indices_def)
    then have "map_of ?zs i = None" by (auto simp: map_of_eq_None_iff dest: set_zip_leftD)
    with False show ?thesis by (simp add: by_position_def)
  qed
qed

text \<open>The keyword loop: which calls it accepts and what it leaves in the slots.\<close>

definition kw_for :: "param_spec \<Rightarrow> (string \<times> 'v) list \<Rightarrow> nat \<Rightarrow> 'v option" where
  "kw_for ps kws i =
     (if keyword_target ps (pname (ps ! i)) = Some i then map_of kws (pname (ps ! i)) else None)"

lemma keyword_target_Some:
  "keyword_target ps k = Some i \<Longrightarrow> i < length ps \<and> pname (ps ! i) = k \<and> (pkind (ps ! i) = PAny \<or> pkind (ps ! i) = PKwOnly)"
  by (auto simp: keyword_target_def param_index_def split: option.splits if_splits dest: position_Some)

lemma kwarg_index_some: "pkind (ps ! i) = PKwArg \<Longrightarrow> i < length ps \<Longrightarrow> kwarg_index ps \<noteq> None"
  by (auto simp: kwarg_index_def position_None)

lemma bind_keyword_cases:
  "bind_keyword ps k v st = Inr st' \<longleftrightarrow>
     (case keyword_target ps k of
        Some i \<Rightarrow> \<not> assigned st ! i \<and> st' = bind_slot i (Value v) st
      | None \<Rightarrow> kwarg_index ps \<noteq> None \<and> st' = set_kw k v st)"
proof (cases "param_index k ps")
  case None
  then show ?thesis by (auto simp: bind_keyword_def keyword_target_def Let_def)
next
  case (Some i)
  then have "i < length ps" by (auto simp: param_index_def dest: position_Some)
  then show ?thesis
    using Some kwarg_index_some [of ps i]
    by (cases "pkind (ps ! i)") (auto simp: bind_keyword_def keyword_target_def Let_def)
qed

definition keywords_accepted :: "param_spec \<Rightarrow> bool list \<Rightarrow> (string \<times> 'v) list \<Rightarrow> bool" where
  "keywords_accepted ps as kws \<longleftrightarrow>
     list_all (\<lambda>(k, v). case keyword_target ps k of Some i \<Rightarrow> \<not> as ! i | None \<Rightarrow> kwarg_index ps \<noteq> None) kws"

lemma keywords_accepted_update:
  assumes "k \<notin> fst ` set kws" "keyword_target ps k = Some i"
  shows "keywords_accepted ps (as[i := True]) kws = keywords_accepted ps as kws"
proof -
  have "(case keyword_target ps k' of Some j \<Rightarrow> \<not> as[i := True] ! j | None \<Rightarrow> kwarg_index ps \<noteq> None)
      = (case keyword_target ps k' of Some j \<Rightarrow> \<not> as ! j | None \<Rightarrow> kwarg_index ps \<noteq> None)"
    if "(k', v') \<in> set kws" for k' v'
  proof (cases "keyword_target ps k'")
    case (Some j)
    have "k' \<noteq> k" using that assms(1) by force
    then have "j \<noteq> i" using keyword_target_Some [OF Some] keyword_target_Some [OF assms(2)] by auto
    with Some show ?thesis by simp
  qed simp
  then show ?thesis
    unfolding keywords_accepted_def list_all_iff by (intro ball_cong refl) auto
qed

definition after_keywords :: "param_spec \<Rightarrow> (string \<times> 'v) list \<Rightarrow> 'v bind_state \<Rightarrow> 'v bind_state \<Rightarrow> bool" where
  "after_keywords ps kws st st' \<longleftrightarrow>
     length (bound_args st') = length ps \<and> length (assigned st') = length ps \<and>
     varkw_dict st' = varkw_dict st @ filter (\<lambda>(k, v). keyword_target ps k = None) kws \<and>
     (\<forall>i<length ps. bound_args st' ! i = (case kw_for ps kws i of Some v \<Rightarrow> Some (Value v) | None \<Rightarrow> bound_args st ! i)
        \<and> assigned st' ! i = (kw_for ps kws i \<noteq> None \<or> assigned st ! i))"

lemma update_fresh: "k \<notin> fst ` set d \<Longrightarrow> AList.update k v d = d @ [(k, v)]"
  by (induction d) auto

lemma bind_keywords_ok:
  assumes "distinct (map fst kws)" "fst ` set (varkw_dict st) \<inter> fst ` set kws = {}"
    and "length (bound_args st) = length ps" "length (assigned st) = length ps"
    and "keywords_accepted ps (assigned st) kws"
  shows "\<exists>st'. bind_keywords ps (map (\<lambda>(k, v). (Some k, Some v)) kws) st = Inr st' \<and> after_keywords ps kws st st'"
  using assms
proof (induction kws arbitrary: st)
  case Nil
  then show ?case by (simp add: after_keywords_def kw_for_def)
next
  case (Cons kv kws)
  obtain k v where kv: "kv = (k, v)" by (cases kv)
  have fresh: "k \<notin> fst ` set kws" "k \<notin> fst ` set (varkw_dict st)" using Cons.prems(1,2) by (auto simp: kv)
  show ?case
  proof (cases "keyword_target ps k")
    case None
    let ?st = "set_kw k v st"
    have acc: "kwarg_index ps \<noteq> None" "keywords_accepted ps (assigned ?st) kws"
      using Cons.prems(5) None by (simp_all add: keywords_accepted_def kv set_kw_def)
    have dict: "varkw_dict ?st = varkw_dict st @ [(k, v)]" using fresh(2) by (simp add: set_kw_def update_fresh)
    obtain st' where st': "bind_keywords ps (map (\<lambda>(k, v). (Some k, Some v)) kws) ?st = Inr st'"
      "after_keywords ps kws ?st st'"
      using Cons.IH [of ?st] Cons.prems(1-4) acc(2) dict fresh(1) by (auto simp: kv set_kw_def)
    have "kw_for ps ((k, v) # kws) i = kw_for ps kws i" for i
      using None by (auto simp: kw_for_def)
    moreover have "bind_keyword ps k v st = Inr ?st" using None acc(1) by (simp add: bind_keyword_cases)
    ultimately show ?thesis
      using st' dict None by (auto simp: kv after_keywords_def set_kw_def split: option.splits)
  next
    case (Some i)
    let ?st = "bind_slot i (Value v) st"
    note i = keyword_target_Some [OF Some]
    have acc: "\<not> assigned st ! i" "keywords_accepted ps (assigned ?st) kws"
      using Cons.prems(5) Some keywords_accepted_update [OF fresh(1) Some, of "assigned st"]
      by (simp_all add: keywords_accepted_def kv bind_slot_def)
    obtain st' where st': "bind_keywords ps (map (\<lambda>(k, v). (Some k, Some v)) kws) ?st = Inr st'"
      "after_keywords ps kws ?st st'"
      using Cons.IH [of ?st] Cons.prems(1-4) acc(2) by (auto simp: kv)
    have for_i: "kw_for ps ((k, v) # kws) i = Some v" "kw_for ps kws i = None"
      using Some i fresh(1) by (auto simp: kw_for_def map_of_eq_None_iff)
    have other: "kw_for ps ((k, v) # kws) j = kw_for ps kws j" if "j \<noteq> i" for j
      using Some that by (auto simp: kw_for_def)
    have "after_keywords ps ((k, v) # kws) st st'"
      using st'(2) Some i for_i other Cons.prems(3,4)
      by (auto simp: after_keywords_def bind_slot_def nth_list_update split: option.splits)
    moreover have "bind_keyword ps k v st = Inr ?st" using Some acc(1) by (simp add: bind_keyword_cases)
    ultimately show ?thesis using st'(1) by (auto simp: kv)
  qed
qed

lemma bind_keywords_accepts:
  assumes "distinct (map fst kws)" "bind_keywords ps (map (\<lambda>(k, v). (Some k, Some v)) kws) st = Inr st'"
  shows "keywords_accepted ps (assigned st) kws"
  using assms
proof (induction kws arbitrary: st)
  case (Cons kv kws)
  obtain k v where kv: "kv = (k, v)" by (cases kv)
  from Cons.prems(2) obtain st1 where 1: "bind_keyword ps k v st = Inr st1"
    "bind_keywords ps (map (\<lambda>(k, v). (Some k, Some v)) kws) st1 = Inr st'"
    by (auto simp: kv split: sum.splits)
  have IH: "keywords_accepted ps (assigned st1) kws" using Cons.IH [OF _ 1(2)] Cons.prems(1) by simp
  show ?case
  proof (cases "keyword_target ps k")
    case None
    with 1(1) IH show ?thesis
      by (auto simp: bind_keyword_cases keywords_accepted_def kv set_kw_def)
  next
    case (Some i)
    with 1(1) IH keywords_accepted_update [of k kws ps i "assigned st"] Cons.prems(1) show ?thesis
      by (auto simp: bind_keyword_cases keywords_accepted_def kv bind_slot_def)
  qed
qed (simp add: keywords_accepted_def)

lemma check_missing_ok:
  "length as = length ps \<Longrightarrow> check_missing ps as = Inr u \<longleftrightarrow>
     (\<forall>i<length ps. as ! i \<or> pkind (ps ! i) = PVarArg \<or> pkind (ps ! i) = PKwArg \<or> has_default (ps ! i))"
proof (induction ps as rule: list_induct2')
  case (4 p ps a as)
  then show ?case by (auto simp: less_Suc_eq_0_disj)
qed auto

lemma filter_unique:
  assumes "length (filter P xs) \<le> 1" "i < length xs" "j < length xs" "P (xs ! i)" "P (xs ! j)"
  shows "i = j"
  using assms
proof (induction xs arbitrary: i j)
  case (Cons x xs)
  have none: "filter P xs = [] \<Longrightarrow> k < length xs \<Longrightarrow> \<not> P (xs ! k)" for k
    by (auto simp: filter_empty_conv)
  show ?case
  proof (cases "P x")
    case True
    then have "filter P xs = []" using Cons.prems(1) by simp
    with none Cons.prems(2-) show ?thesis by (cases i; cases j) auto
  next
    case False
    with Cons show ?thesis by (cases i; cases j) auto
  qed
qed simp

lemma position_iff:
  assumes "length (filter P xs) \<le> 1"
  shows "position P xs = Some i \<longleftrightarrow> i < length xs \<and> P (xs ! i)"
proof
  assume "i < length xs \<and> P (xs ! i)"
  then show "position P xs = Some i"
    using filter_unique [OF assms] by (intro position_unique) blast+
qed (auto dest: position_Some)

lemma vararg_index_iff:
  "wf_spec ps \<Longrightarrow> vararg_index ps = Some i \<longleftrightarrow> i < length ps \<and> pkind (ps ! i) = PVarArg"
  unfolding vararg_index_def wf_spec_def by (simp only: position_iff)

lemma kwarg_index_iff:
  "wf_spec ps \<Longrightarrow> kwarg_index ps = Some i \<longleftrightarrow> i < length ps \<and> pkind (ps ! i) = PKwArg"
  unfolding kwarg_index_def wf_spec_def by (simp only: position_iff)

lemma keyword_target_own:
  assumes "wf_spec ps" "i < length ps"
  shows "keyword_target ps (pname (ps ! i)) = Some i \<longleftrightarrow> pkind (ps ! i) = PAny \<or> pkind (ps ! i) = PKwOnly"
proof -
  have "param_index (pname (ps ! i)) ps = Some i"
    unfolding param_index_def
    by (rule position_unique)
       (use assms in \<open>auto simp: wf_spec_def distinct_conv_nth\<close>)
  then show ?thesis by (simp add: keyword_target_def)
qed

lemma by_position_kind: "by_position ps n i \<Longrightarrow> pkind (ps ! i) = PPosOnly \<or> pkind (ps ! i) = PAny"
  by (simp add: by_position_def is_positional_def)

text \<open>The slots before the keywords are bound.\<close>

definition initial_slot :: "param_spec \<Rightarrow> 'v list \<Rightarrow> nat \<Rightarrow> 'v bound_value option" where
  "initial_slot ps args i = (if pkind (ps ! i) = PAny \<or> pkind (ps ! i) = PKwOnly
     then if by_position ps (length args) i then Some (Value (args ! rank ps i)) else None
     else expected_value ps args [] i)"

lemma before_keywords:
  assumes "wf_spec ps"
  shows "\<exists>st1 st2 st. bind_positional (positional_param_indices ps) (map Some args)
        \<lparr>bound_args = replicate (length ps) None, assigned = replicate (length ps) False, varkw_dict = []\<rparr> = Inr st1 \<and>
     bind_varargs ps (drop (length (positional_param_indices ps)) (map Some args)) st1 = Inr st2 \<and>
     bind_varkw ps st2 = st \<and> varkw_dict st = [] \<and>
     length (bound_args st) = length ps \<and> length (assigned st) = length ps \<and>
     (\<forall>i<length ps. bound_args st ! i = initial_slot ps args i \<and>
        assigned st ! i = (by_position ps (length args) i \<or> pkind (ps ! i) = PVarArg \<or> pkind (ps ! i) = PKwArg))"
proof -
  let ?is = "positional_param_indices ps"
  let ?st0 = "\<lparr>bound_args = replicate (length ps) None, assigned = replicate (length ps) False, varkw_dict = []\<rparr>
    :: 'a bind_state"
  have "distinct ?is" "\<forall>i\<in>set ?is. i < length (bound_args ?st0) \<and> i < length (assigned ?st0)"
    by (simp_all add: positional_param_indices_def)
  from positional_bound [OF this, of args] obtain st1 where
    st1: "bind_positional ?is (map Some args) ?st0 = Inr st1" "varkw_dict st1 = []"
      "length (bound_args st1) = length ps" "length (assigned st1) = length ps"
    and slots: "\<And>i. i < length ps \<Longrightarrow> bound_args st1 ! i
        = (if by_position ps (length args) i then Some (Value (args ! rank ps i)) else None)"
      "\<And>i. i < length ps \<Longrightarrow> assigned st1 ! i = by_position ps (length args) i"
    using map_of_positional [of _ ps args] by auto
  let ?t = "VarTuple (drop (length ?is) args)"
  let ?st2 = "case vararg_index ps of None \<Rightarrow> st1 | Some i \<Rightarrow> bind_slot i ?t st1"
  have "opt_map id (drop (length ?is) (map Some args)) = Some (drop (length ?is) args)"
    unfolding drop_map by (simp add: opt_map_Some_iff list_all2_conv_all_nth)
  then have st2: "bind_varargs ps (drop (length ?is) (map Some args)) st1 = Inr ?st2"
    by (simp add: bind_varargs_def split: option.splits)
  let ?st = "bind_varkw ps ?st2"
  have slots2: "bound_args ?st2 ! i = (if vararg_index ps = Some i then Some ?t else bound_args st1 ! i)"
      "assigned ?st2 ! i = (vararg_index ps = Some i \<or> assigned st1 ! i)" if "i < length ps" for i
    using that st1(3,4) by (auto simp: bind_slot_nth split: option.splits)
  have len2: "length (bound_args ?st2) = length ps" "length (assigned ?st2) = length ps"
    using st1(3,4) by (auto split: option.splits)
  have slots3: "bound_args ?st ! i = (if kwarg_index ps = Some i then Some VarKw else bound_args ?st2 ! i)"
      "assigned ?st ! i = (kwarg_index ps = Some i \<or> assigned ?st2 ! i)" if "i < length ps" for i
    using that len2 by (auto simp: bind_varkw_def bind_slot_nth split: option.splits)
  have "bound_args ?st ! i = initial_slot ps args i \<and>
      assigned ?st ! i = (by_position ps (length args) i \<or> pkind (ps ! i) = PVarArg \<or> pkind (ps ! i) = PKwArg)"
    if "i < length ps" for i
    unfolding slots3 [OF that] slots2 [OF that] slots [OF that]
      vararg_index_iff [OF assms] kwarg_index_iff [OF assms]
    using that by_position_kind [of ps "length args" i]
    by (cases "pkind (ps ! i)") (auto simp: initial_slot_def expected_value_def)
  moreover have "varkw_dict ?st = []" "length (bound_args ?st) = length ps" "length (assigned ?st) = length ps"
    using st1(2-4) by (auto simp: bind_varkw_def split: option.splits)
  ultimately show ?thesis using st1(1) st2 by blast
qed

section \<open>Properties\<close>

text \<open>C22: Binding a call follows Python's rules: a call is accepted exactly when the declarative rules
  accept it, and then every parameter holds the value the rules give it (positional value,
  keyword value, the tuple of the surplus positional arguments, the dictionary of the remaining
  keywords in call order, or nothing where a default will be filled in).\<close>

theorem bind_args_iff:
  assumes "wf_spec ps" "distinct (map fst kws)"
  shows "bind_args ps (map Some args) (map (\<lambda>(k, v). (Some k, Some v)) kws) = Inr (b, d) \<longleftrightarrow>
    call_accepted ps args kws \<and> b = map (expected_value ps args kws) [0..<length ps] \<and> d = expected_kwargs ps kws"
proof (cases "vararg_index ps = None \<and> length (positional_param_indices ps) < length args")
  case True
  then show ?thesis by (simp add: bind_args_def Let_def call_accepted_def)
next
  case False
  obtain st1 st2 st where st: "bind_positional (positional_param_indices ps) (map Some args)
      \<lparr>bound_args = replicate (length ps) None, assigned = replicate (length ps) False, varkw_dict = []\<rparr> = Inr st1"
    "bind_varargs ps (drop (length (positional_param_indices ps)) (map Some args)) st1 = Inr st2"
    "bind_varkw ps st2 = st" "varkw_dict st = []" "length (bound_args st) = length ps" "length (assigned st) = length ps"
    and slots: "\<And>i. i < length ps \<Longrightarrow> bound_args st ! i = initial_slot ps args i"
      "\<And>i. i < length ps \<Longrightarrow> assigned st ! i =
         (by_position ps (length args) i \<or> pkind (ps ! i) = PVarArg \<or> pkind (ps ! i) = PKwArg)"
    using before_keywords [OF assms(1), of args] by blast
  let ?kws = "map (\<lambda>(k, v). (Some k, Some v)) kws"
  have run: "bind_args ps (map Some args) ?kws =
      (case bind_keywords ps ?kws st of Inl e \<Rightarrow> Inl e
       | Inr st3 \<Rightarrow> (case check_missing ps (assigned st3) of Inl e \<Rightarrow> Inl e | Inr _ \<Rightarrow> Inr (bound_args st3, varkw_dict st3)))"
    unfolding bind_args_def Let_def length_map if_not_P [OF False] st(1) sum.case st(2) st(3) ..
  have target: "\<not> assigned st ! i \<longleftrightarrow> \<not> by_position ps (length args) i" if "keyword_target ps k = Some i" for k i
    using keyword_target_Some [OF that] slots(2) [of i] by auto
  have acc: "keywords_accepted ps (assigned st) kws \<longleftrightarrow>
      list_all (\<lambda>(k, v). case keyword_target ps k of Some i \<Rightarrow> \<not> by_position ps (length args) i
        | None \<Rightarrow> kwarg_index ps \<noteq> None) kws"
    unfolding keywords_accepted_def by (rule list_all_cong) (auto simp: target split: option.splits)
  show ?thesis
  proof (cases "keywords_accepted ps (assigned st) kws")
    case False
    then have "bind_keywords ps ?kws st \<noteq> Inr st3" for st3
      using bind_keywords_accepts [OF assms(2)] by blast
    then show ?thesis using False by (auto simp: run call_accepted_def acc split: sum.splits)
  next
    case True
    obtain st3 where st3: "bind_keywords ps ?kws st = Inr st3" "after_keywords ps kws st st3"
      using bind_keywords_ok [OF assms(2) _ st(5,6) True] st(4) by auto
    have kw: "kw_for ps kws i = (if pkind (ps ! i) = PAny \<or> pkind (ps ! i) = PKwOnly
        then map_of kws (pname (ps ! i)) else None)" if "i < length ps" for i
      using keyword_target_own [OF assms(1) that] by (simp add: kw_for_def)
    have pos: "kw_for ps kws i = None" if i: "i < length ps" "by_position ps (length args) i" for i
    proof (rule ccontr)
      assume "kw_for ps kws i \<noteq> None"
      then obtain v where "keyword_target ps (pname (ps ! i)) = Some i" "map_of kws (pname (ps ! i)) = Some v"
        by (auto simp: kw_for_def split: if_splits)
      then have "(pname (ps ! i), v) \<in> set kws" "\<not> assigned st ! i"
        using True by (auto simp: keywords_accepted_def list_all_iff dest!: map_of_SomeD)
      with i slots(2) show False by auto
    qed
    have bound: "bound_args st3 ! i = expected_value ps args kws i" if "i < length ps" for i
      using st3(2) that slots(1) [OF that] kw [OF that] pos [OF that] by_position_kind [of ps "length args" i]
      by (cases "pkind (ps ! i)")
         (auto simp: after_keywords_def initial_slot_def expected_value_def split: option.splits)
    then have b: "bound_args st3 = map (expected_value ps args kws) [0..<length ps]"
      using st3(2) by (intro nth_equalityI) (simp_all add: after_keywords_def)
    have d: "varkw_dict st3 = expected_kwargs ps kws"
      using st3(2) st(4) by (simp add: after_keywords_def expected_kwargs_def)
    have len: "length (assigned st3) = length ps" using st3(2) by (simp add: after_keywords_def)
    have miss: "check_missing ps (assigned st3) = Inr () \<longleftrightarrow>
        list_all (\<lambda>i. has_default (ps ! i) \<or> expected_value ps args kws i \<noteq> None) [0..<length ps]"
    proof -
      have "(assigned st3 ! i \<or> pkind (ps ! i) = PVarArg \<or> pkind (ps ! i) = PKwArg \<or> has_default (ps ! i))
          = (has_default (ps ! i) \<or> expected_value ps args kws i \<noteq> None)" if "i < length ps" for i
        using st3(2) that slots(2) [OF that] kw [OF that]
        by (cases "pkind (ps ! i)") (auto simp: after_keywords_def expected_value_def)
      then show ?thesis unfolding check_missing_ok [OF len] list_all_iff by auto
    qed
    have "bind_args ps (map Some args) ?kws = Inr (b, d) \<longleftrightarrow>
        check_missing ps (assigned st3) = Inr () \<and> b = bound_args st3 \<and> d = varkw_dict st3"
      by (auto simp: run st3(1) split: sum.splits)
    then show ?thesis using True \<open>\<not> (vararg_index ps = None \<and> _ < _)\<close>
      by (auto simp: call_accepted_def acc miss b d)
  qed
qed

definition sample_spec :: param_spec where
  "sample_spec =
     [\<lparr>pname = ''a'', pkind = PPosOnly, has_default = False\<rparr>, \<lparr>pname = ''b'', pkind = PAny, has_default = False\<rparr>,
      \<lparr>pname = ''args'', pkind = PVarArg, has_default = False\<rparr>, \<lparr>pname = ''c'', pkind = PKwOnly, has_default = False\<rparr>,
      \<lparr>pname = ''d'', pkind = PKwOnly, has_default = True\<rparr>, \<lparr>pname = ''kw'', pkind = PKwArg, has_default = False\<rparr>]"

theorem bind_args_iff_witness:
  "bind_args sample_spec (map Some [1, 2, 3 :: nat]) (map (\<lambda>(k, v). (Some k, Some v)) [(''c'', 4), (''a'', 5)])
     = Inr ([Some (Value 1), Some (Value 2), Some (VarTuple [3]), Some (Value 4), None, Some VarKw], [(''a'', 5)])"
proof -
  have wf: "wf_spec sample_spec" by (simp add: wf_spec_def sample_spec_def)
  have d: "distinct (map fst [(''c'', 4 :: nat), (''a'', 5)])" by simp
  show ?thesis
    unfolding bind_args_iff [OF wf d]
    by code_simp
qed

text \<open>Too many positional arguments are reported, with both counts, exactly when the function has no
  \<open>*args\<close> and the call has more positional arguments than it has positional parameters; this error
  comes before all others, even for null arguments.\<close>

theorem too_many_positional_iff:
  "bind_args ps args kws = Inl (TooManyPositional m n) \<longleftrightarrow>
     vararg_index ps = None \<and> m < n \<and> m = length (positional_param_indices ps) \<and> n = length args"
proof -
  have 1: "bind_positional is vs st \<noteq> Inl (TooManyPositional m n)" for "is" and vs :: "'a option list" and st
    by (induction "is" vs st rule: bind_positional.induct) (auto split: option.splits)
  have 2: "bind_varargs ps vs st \<noteq> Inl (TooManyPositional m n)" for vs :: "'a option list" and st
    by (auto simp: bind_varargs_def split: option.splits)
  have 3: "bind_keyword qs k v st \<noteq> Inl (TooManyPositional m n)" for qs k and v :: 'a and st
    by (auto simp: bind_keyword_def Let_def split: option.splits param_kind.splits)
  have 4: "bind_keywords ps kws st \<noteq> Inl (TooManyPositional m n)" for kws :: "(string option \<times> 'a option) list" and st
    by (induction ps kws st rule: bind_keywords.induct) (auto split: option.splits sum.splits simp: 3)
  have 5: "check_missing qs as \<noteq> Inl (TooManyPositional m n)" for qs as
    by (induction qs as rule: check_missing.induct) auto
  show ?thesis
    unfolding bind_args_def Let_def
    by (auto split: sum.splits simp: 1 2 4 5)
qed

end
