(* ===== verification/Scope.thy ===== *)
theory Scope
  imports Exprs Params
begin

text \<open>
  Name scopes of callables: \<open>soac-blockpy/src/block_py/scope.rs\<close>. A \<open>CallableScopeInfo\<close> says how
  each name of a function, class body or module is bound; from it the storage layout of closures
  is computed. The \<open>HashMap\<close>s that are iterated are association lists whose order stands for the
  unspecified iteration order; where an operation sorts, its result does not depend on it.
\<close>

section \<open>Data\<close>

datatype binding_target = TargetLocal | TargetModuleGlobal | TargetClassNamespace

datatype cell_binding_kind = Owner | Capture

datatype binding_kind = BindLocal | BindGlobal | BindCell cell_binding_kind

datatype closure_init =
  InheritedCapture | InitParameter | DeletedSentinel | RuntimePcUnstarted
| RuntimeAbruptKindFallthrough | RuntimeNone | Deferred

record closure_slot =
  logical_name :: string
  storage_name :: string
  slot_init :: closure_init

record storage_layout =
  freevars :: "closure_slot list"
  cellvars :: "closure_slot list"
  runtime_cells :: "closure_slot list"
  stack_slots :: "string list"

datatype callable_scope_kind = ScopeFunction | ScopeClass | ScopeModule

datatype class_body_fallback = FallbackGlobal | FallbackCell

datatype effective_binding =
  EffLocal | EffGlobal | EffCell cell_binding_kind | EffClassBody class_body_fallback

datatype binding_purpose = LoadPurpose | StorePurpose

record cell_capture_binding =
  capture_logical :: string
  capture_source :: string

record function_name =
  bind_name :: string
  fn_name :: string
  display_name :: string
  qualname :: string

record callable_scope_info =
  scope_names :: function_name
  scope_kind :: callable_scope_kind
  bindings :: "(string, binding_kind) hmap"
  local_defs :: "string set"
  cell_storage_names :: "(string, string) hmap"
  cell_capture_source_names :: "(string, string) hmap"
  owned_cell_source_names :: "string set"
  scope_internal_names :: "string set"
  type_param_names :: "string set"
  effective_load_bindings :: "(string, effective_binding) hmap"
  effective_store_bindings :: "(string, effective_binding) hmap"

definition cell_name :: "string \<Rightarrow> string" where
  "cell_name n = ''_dp_cell_'' @ n"

section \<open>Storage layouts\<close>

definition local_cells :: "storage_layout \<Rightarrow> closure_slot list" where
  "local_cells l = cellvars l @ runtime_cells l"

definition nth_opt :: "'a list \<Rightarrow> nat \<Rightarrow> 'a option" where
  "nth_opt xs n = (if n < length xs then Some (xs ! n) else None)"

definition freevar_slot :: "storage_layout \<Rightarrow> u32 \<Rightarrow> closure_slot option" where
  "freevar_slot l slot = nth_opt (freevars l) (unat slot)"

definition local_cell_slot :: "storage_layout \<Rightarrow> u32 \<Rightarrow> closure_slot option" where
  "local_cell_slot l slot = nth_opt (local_cells l) (unat slot)"

definition layout_local_cell_storage_names :: "storage_layout \<Rightarrow> string list" where
  "layout_local_cell_storage_names l = map storage_name (local_cells l)"

definition has_freevar_storage_name :: "string \<Rightarrow> storage_layout \<Rightarrow> bool" where
  "has_freevar_storage_name n l = list_ex (\<lambda>s. storage_name s = n) (freevars l)"

definition has_cellvar_storage_name :: "string \<Rightarrow> storage_layout \<Rightarrow> bool" where
  "has_cellvar_storage_name n l = list_ex (\<lambda>s. storage_name s = n) (cellvars l)"

definition has_storage_name :: "string \<Rightarrow> storage_layout \<Rightarrow> bool" where
  "has_storage_name n l \<longleftrightarrow> has_freevar_storage_name n l \<or> has_cellvar_storage_name n l
     \<or> list_ex (\<lambda>s. storage_name s = n) (runtime_cells l)"

definition set_stack_slots :: "string list \<Rightarrow> storage_layout \<Rightarrow> storage_layout" where
  "set_stack_slots ns l = l\<lparr>stack_slots := ns\<rparr>"

definition ensure_stack_slot :: "string \<Rightarrow> storage_layout \<Rightarrow> storage_layout" where
  "ensure_stack_slot n l =
     (if n \<in> set (stack_slots l) then l else l\<lparr>stack_slots := stack_slots l @ [n]\<rparr>)"

section \<open>Effective bindings\<close>

definition plain_binding :: "binding_kind \<Rightarrow> effective_binding" where
  "plain_binding b = (case b of BindLocal \<Rightarrow> EffLocal | BindGlobal \<Rightarrow> EffGlobal | BindCell k \<Rightarrow> EffCell k)"

definition derive_effective_binding_for_name ::
  "string \<Rightarrow> binding_kind \<Rightarrow> callable_scope_kind \<Rightarrow> string set \<Rightarrow> binding_purpose \<Rightarrow> bool \<Rightarrow> effective_binding" where
  "derive_effective_binding_for_name n b k type_params purpose honor_internal =
     (if is_internal_symbol n \<and> \<not> honor_internal then EffLocal
      else case purpose of
        LoadPurpose \<Rightarrow>
          (if k = ScopeClass
           then (case b of BindCell _ \<Rightarrow> EffClassBody FallbackCell | _ \<Rightarrow> EffClassBody FallbackGlobal)
           else plain_binding b)
      | StorePurpose \<Rightarrow>
          (if k = ScopeClass \<and> n \<in> type_params then plain_binding b
           else if k = ScopeClass \<and> b = BindLocal then EffClassBody FallbackGlobal
           else plain_binding b))"

definition honors_internal_binding :: "string \<Rightarrow> callable_scope_info \<Rightarrow> bool" where
  "honors_internal_binding n s \<longleftrightarrow> \<not> is_internal_symbol n \<or> n \<in> scope_internal_names s"

definition binding_kind_of :: "string \<Rightarrow> callable_scope_info \<Rightarrow> binding_kind option" where
  "binding_kind_of n s = map_of (bindings s) n"

definition has_local_def :: "string \<Rightarrow> callable_scope_info \<Rightarrow> bool" where
  "has_local_def n s \<longleftrightarrow> n \<in> local_defs s"

fun effective_binding_of :: "string \<Rightarrow> binding_purpose \<Rightarrow> callable_scope_info \<Rightarrow> effective_binding option" where
  "effective_binding_of n LoadPurpose s = map_of (effective_load_bindings s) n"
| "effective_binding_of n StorePurpose s = map_of (effective_store_bindings s) n"

definition set_opt :: "'k \<Rightarrow> 'v option \<Rightarrow> ('k, 'v) hmap \<Rightarrow> ('k, 'v) hmap" where
  "set_opt k v m = (case v of None \<Rightarrow> m | Some x \<Rightarrow> AList.update k x m)"

definition insert_binding_with_cell_names ::
  "string \<Rightarrow> binding_kind \<Rightarrow> bool \<Rightarrow> string option \<Rightarrow> string option \<Rightarrow> callable_scope_info \<Rightarrow> callable_scope_info" where
  "insert_binding_with_cell_names n b honor_internal storage source s =
     s\<lparr>bindings := AList.update n b (bindings s),
       cell_storage_names := set_opt n storage (cell_storage_names s),
       cell_capture_source_names := set_opt n source (cell_capture_source_names s),
       scope_internal_names := (if honor_internal then insert n (scope_internal_names s) else scope_internal_names s),
       effective_load_bindings := AList.update n
         (derive_effective_binding_for_name n b (scope_kind s) (type_param_names s) LoadPurpose honor_internal)
         (effective_load_bindings s),
       effective_store_bindings := AList.update n
         (derive_effective_binding_for_name n b (scope_kind s) (type_param_names s) StorePurpose honor_internal)
         (effective_store_bindings s)\<rparr>"

definition insert_binding ::
  "string \<Rightarrow> binding_kind \<Rightarrow> bool \<Rightarrow> string option \<Rightarrow> callable_scope_info \<Rightarrow> callable_scope_info" where
  "insert_binding n b honor_internal storage s =
     insert_binding_with_cell_names n b honor_internal storage storage s"

definition resolved_load_binding_kind :: "string \<Rightarrow> callable_scope_info \<Rightarrow> binding_kind" where
  "resolved_load_binding_kind n s =
     (case (if honors_internal_binding n s then binding_kind_of n s else None) of
        Some b \<Rightarrow> b
      | None \<Rightarrow> if is_internal_symbol n then BindLocal else BindGlobal)"

definition is_cell_binding :: "string \<Rightarrow> callable_scope_info \<Rightarrow> bool" where
  "is_cell_binding n s = (case binding_kind_of n s of Some (BindCell _) \<Rightarrow> True | _ \<Rightarrow> False)"

definition cell_storage_name :: "string \<Rightarrow> callable_scope_info \<Rightarrow> string" where
  "cell_storage_name n s = unwrap_or (cell_name n) (map_of (cell_storage_names s) n)"

definition cell_capture_source_name :: "string \<Rightarrow> callable_scope_info \<Rightarrow> string" where
  "cell_capture_source_name n s = unwrap_or (cell_name n) (map_of (cell_capture_source_names s) n)"

definition cell_ref_source_name :: "string \<Rightarrow> callable_scope_info \<Rightarrow> string" where
  "cell_ref_source_name n s =
     (if is_cell_binding n s then cell_storage_name n s else cell_capture_source_name n s)"

definition logical_name_for_cell_storage :: "string \<Rightarrow> callable_scope_info \<Rightarrow> string option" where
  "logical_name_for_cell_storage n s =
     (case strip_prefix ''_dp_cell_'' n of
        Some l \<Rightarrow> Some l
      | None \<Rightarrow> find_key (\<lambda>v. v = n) (cell_storage_names s))"

definition logical_name_for_cell_capture_source :: "string \<Rightarrow> callable_scope_info \<Rightarrow> string option" where
  "logical_name_for_cell_capture_source n s =
     or_opt (find_key (\<lambda>v. v = n) (cell_capture_source_names s)) (logical_name_for_cell_storage n s)"

definition target_of_effective :: "effective_binding option \<Rightarrow> binding_target" where
  "target_of_effective b =
     (case b of
        Some EffGlobal \<Rightarrow> TargetModuleGlobal
      | Some (EffClassBody _) \<Rightarrow> TargetClassNamespace
      | _ \<Rightarrow> TargetLocal)"

definition binding_target_for_name :: "string \<Rightarrow> binding_purpose \<Rightarrow> callable_scope_info \<Rightarrow> binding_target" where
  "binding_target_for_name n purpose s =
     (let b = effective_binding_of n purpose s in
      if b \<noteq> None \<and> honors_internal_binding n s then target_of_effective b
      else if is_internal_symbol n then TargetLocal
      else target_of_effective b)"

definition owned_cell_storage_names :: "callable_scope_info \<Rightarrow> string set" where
  "owned_cell_storage_names s =
     set (map (\<lambda>(n, b). cell_storage_name n s) (filter (\<lambda>(n, b). b = BindCell Owner) (bindings s)))
       \<union> owned_cell_source_names s"

definition captured_cell_logical_names :: "callable_scope_info \<Rightarrow> string list" where
  "captured_cell_logical_names s = sort (map fst (filter (\<lambda>(n, b). b = BindCell Capture) (bindings s)))"

definition captured_cell_bindings :: "callable_scope_info \<Rightarrow> cell_capture_binding list" where
  "captured_cell_bindings s =
     map (\<lambda>n. \<lparr>capture_logical = n, capture_source = cell_capture_source_name n s\<rparr>) (captured_cell_logical_names s)"

definition local_cell_storage_names :: "callable_scope_info \<Rightarrow> string set" where
  "local_cell_storage_names s = (if scope_kind s = ScopeFunction then owned_cell_storage_names s else {})"

section \<open>What an expression says about names\<close>

text \<open>
  \<open>ScopeExprNode\<close>: the names a node itself loads, defines, deletes or refers to as a cell. The
  implementations for the core stages are the same code over different expression types; they are
  one set of functions over a view of the node as an operation.
\<close>

datatype 'e node_view =
  ViewCall 'e "'e call_arg list"
| ViewLoad string
| ViewStore string
| ViewDel string
| ViewString string
| ViewCellRefForName string
| ViewOther

definition op_view :: "('n \<Rightarrow> string) \<Rightarrow> ('e, 'n) operation \<Rightarrow> 'e node_view" where
  "op_view idf op =
     (case op of
        Call f as ks \<Rightarrow> ViewCall f as
      | Load n \<Rightarrow> ViewLoad (idf n)
      | Store n v \<Rightarrow> ViewStore (idf n)
      | Del n q \<Rightarrow> ViewDel (idf n)
      | _ \<Rightarrow> ViewOther)"

definition literal_view :: "literal \<Rightarrow> 'e node_view" where
  "literal_view l = (case l of StringLiteral s \<Rightarrow> ViewString s | _ \<Rightarrow> ViewOther)"

fun ay_view :: "ay_expr \<Rightarrow> ay_expr node_view" where
  "ay_view (AyLit m l) = literal_view l"
| "ay_view (AyOp m op) = op_view unresolved_id op"
| "ay_view (AyCellRefForName m n) = ViewCellRefForName n"
| "ay_view _ = ViewOther"

fun y_view :: "y_expr \<Rightarrow> y_expr node_view" where
  "y_view (YLit m l) = literal_view l"
| "y_view (YOp m op) = op_view unresolved_id op"
| "y_view (YCellRefForName m n) = ViewCellRefForName n"
| "y_view _ = ViewOther"

fun core_view :: "('n \<Rightarrow> string) \<Rightarrow> 'n core_expr \<Rightarrow> 'n core_expr node_view" where
  "core_view idf (CoreLit m l) = literal_view l"
| "core_view idf (CoreOp m op) = op_view idf op"
| "core_view idf (CoreCellRefForName m n) = ViewCellRefForName n"

text \<open>A string literal is a constant load in the code generator's form, and not looked at.\<close>

fun cg_view :: "cg_expr \<Rightarrow> cg_expr node_view" where
  "cg_view (CgOp m op) = op_view located_id op"
| "cg_view _ = ViewOther"

text \<open>\<open>root_name_id\<close> follows the callee of a call; the length of the chain bounds the recursion.\<close>

fun root_name_id :: "('e \<Rightarrow> 'e node_view) \<Rightarrow> nat \<Rightarrow> 'e \<Rightarrow> string option" where
  "root_name_id view fuel e =
     (case view e of
        ViewCall f as \<Rightarrow> (case fuel of 0 \<Rightarrow> None | Suc k \<Rightarrow> root_name_id view k f)
      | ViewLoad n \<Rightarrow> Some n
      | _ \<Rightarrow> None)"

declare root_name_id.simps [simp del]

record 'e scope_node =
  node_view :: "'e \<Rightarrow> 'e node_view"
  node_size :: "'e \<Rightarrow> nat"
  node_preorder :: "'e \<Rightarrow> 'e list"

definition node_root_name :: "'e scope_node \<Rightarrow> 'e \<Rightarrow> string option" where
  "node_root_name N e = root_name_id (node_view N) (node_size N e) e"

definition ay_node :: "ay_expr scope_node" where
  "ay_node = \<lparr>node_view = ay_view, node_size = size, node_preorder = ay_preorder\<rparr>"

definition y_node :: "y_expr scope_node" where
  "y_node = \<lparr>node_view = y_view, node_size = size, node_preorder = y_preorder\<rparr>"

definition core_node :: "('n \<Rightarrow> string) \<Rightarrow> 'n core_expr scope_node" where
  "core_node idf = \<lparr>node_view = core_view idf, node_size = size, node_preorder = core_preorder\<rparr>"

definition cg_node :: "cg_expr scope_node" where
  "cg_node = \<lparr>node_view = cg_view, node_size = size, node_preorder = cg_preorder\<rparr>"

definition root_loaded_names :: "'e scope_node \<Rightarrow> 'e \<Rightarrow> string list" where
  "root_loaded_names N e =
     (case node_view N e of
        ViewCall f as \<Rightarrow> (case node_root_name N f of None \<Rightarrow> [] | Some n \<Rightarrow> [n])
      | ViewLoad n \<Rightarrow> [n]
      | _ \<Rightarrow> [])"

definition root_defined_names :: "'e scope_node \<Rightarrow> 'e \<Rightarrow> string list" where
  "root_defined_names N e = (case node_view N e of ViewStore n \<Rightarrow> [n] | _ \<Rightarrow> [])"

definition root_deleted_names :: "'e scope_node \<Rightarrow> 'e \<Rightarrow> string list" where
  "root_deleted_names N e = (case node_view N e of ViewDel n \<Rightarrow> [n] | _ \<Rightarrow> [])"

definition call_root_cell_ref_logical_name :: "'e scope_node \<Rightarrow> 'e \<Rightarrow> 'e call_arg list \<Rightarrow> string option" where
  "call_root_cell_ref_logical_name N f as =
     (if node_root_name N f \<noteq> Some ''cell_ref'' then None
      else case as of
        Positional a # _ \<Rightarrow> (case node_view N a of ViewString s \<Rightarrow> Some s | _ \<Rightarrow> None)
      | _ \<Rightarrow> None)"

definition root_cell_ref_logical_names :: "'e scope_node \<Rightarrow> 'e \<Rightarrow> string list" where
  "root_cell_ref_logical_names N e =
     (case node_view N e of
        ViewCall f as \<Rightarrow> (case call_root_cell_ref_logical_name N f as of None \<Rightarrow> [] | Some n \<Rightarrow> [n])
      | ViewCellRefForName n \<Rightarrow> [n]
      | _ \<Rightarrow> [])"

text \<open>\<open>StorageLayoutScopeCollector\<close> over the blocks of a function.\<close>

record scope_collector =
  used_names :: "string set"
  defined_names :: "string set"
  deleted_names :: "string set"
  cell_ref_names :: "string set"

definition collect_instr :: "'e scope_node \<Rightarrow> 'e \<Rightarrow> scope_collector \<Rightarrow> scope_collector" where
  "collect_instr N e c =
     fold (\<lambda>x c. c\<lparr>used_names := used_names c \<union> set (root_loaded_names N x),
                  defined_names := defined_names c \<union> set (root_defined_names N x),
                  cell_ref_names := cell_ref_names c \<union> set (root_cell_ref_logical_names N x)\<rparr>)
       (node_preorder N e) c"

definition collect_stmt :: "'e scope_node \<Rightarrow> 'e \<Rightarrow> scope_collector \<Rightarrow> scope_collector" where
  "collect_stmt N e c =
     collect_instr N e
       (c\<lparr>used_names := used_names c \<union> set (root_deleted_names N e),
          deleted_names := deleted_names c \<union> set (root_deleted_names N e)\<rparr>)"

definition collect_block :: "'e scope_node \<Rightarrow> ('e, 'e) block \<Rightarrow> scope_collector \<Rightarrow> scope_collector" where
  "collect_block N b c =
     (let c1 = (case exception_param (params b) of None \<Rightarrow> c | Some n \<Rightarrow> c\<lparr>used_names := insert n (used_names c)\<rparr>)
      in fold (collect_instr N) (term_exprs (bterm b)) (fold (collect_stmt N) (body b) c1))"

definition collect_blocks :: "'e scope_node \<Rightarrow> ('e, 'e) block list \<Rightarrow> scope_collector" where
  "collect_blocks N bs =
     fold (collect_block N) bs \<lparr>used_names = {}, defined_names = {}, deleted_names = {}, cell_ref_names = {}\<rparr>"

section \<open>Lemmas\<close>

named_theorems scope_simps

lemma cell_name_prefix [scope_simps]: "strip_prefix ''_dp_cell_'' (cell_name n) = Some n"
  by (simp add: cell_name_def strip_prefix_Some)

lemma map_of_set_opt [scope_simps]:
  "map_of (set_opt k v m) n = (if n = k \<and> v \<noteq> None then v else map_of m n)"
  by (auto simp: set_opt_def update_conv' split: option.splits)

lemma target_derived:
  "target_of_effective (Some (derive_effective_binding_for_name n b k tps p h)) =
     (if is_internal_symbol n \<and> \<not> h then TargetLocal
      else if k = ScopeClass \<and> (p = LoadPurpose \<or> n \<notin> tps \<and> b = BindLocal) then TargetClassNamespace
      else if b = BindGlobal then TargetModuleGlobal
      else TargetLocal)"
  by (cases p; cases b)
     (auto simp: derive_effective_binding_for_name_def target_of_effective_def plain_binding_def)

lemma effective_after_insert [scope_simps]:
  "effective_binding_of m p (insert_binding_with_cell_names n b h st src s) =
     (if m = n then Some (derive_effective_binding_for_name n b (scope_kind s) (type_param_names s) p h)
      else effective_binding_of m p s)"
  by (cases p) (simp_all add: insert_binding_with_cell_names_def update_conv')

lemma honors_after_insert [scope_simps]:
  "honors_internal_binding m (insert_binding_with_cell_names n b h st src s) \<longleftrightarrow>
     honors_internal_binding m s \<or> h \<and> m = n"
  by (auto simp: honors_internal_binding_def insert_binding_with_cell_names_def)

text \<open>Well-formed cell names: no two names share a storage name, and a storage name of the form
  \<open>_dp_cell_x\<close> belongs to \<open>x\<close>.\<close>

definition cell_names_ok :: "(string, string) hmap \<Rightarrow> bool" where
  "cell_names_ok m \<longleftrightarrow>
     distinct (map fst m) \<and> distinct (map snd m) \<and>
     list_all (\<lambda>(n, st). case strip_prefix ''_dp_cell_'' st of None \<Rightarrow> True | Some l \<Rightarrow> l = n) m"

lemma find_key_unique:
  assumes "(k, v) \<in> set m" "distinct (map snd m)"
  shows "find_key (\<lambda>w. w = v) m = Some k"
  using assms
  by (induction m) (auto simp: find_key_def rev_image_eqI)

section \<open>Properties\<close>

text \<open>Where a name lives after its binding is inserted, for every kind of scope: an internal name
  is local unless the scope honours it, a class body loads from the class namespace and stores there
  what it binds locally and is no type parameter, a global binding is the module's, and everything
  else is local. No other name moves.\<close>

theorem insert_binding_target:
  "binding_target_for_name m p (insert_binding n b h st s) =
     (if m \<noteq> n then binding_target_for_name m p s
      else if is_internal_symbol n \<and> \<not> h then TargetLocal
      else if scope_kind s = ScopeClass \<and> (p = LoadPurpose \<or> n \<notin> type_param_names s \<and> b = BindLocal)
        then TargetClassNamespace
      else if b = BindGlobal then TargetModuleGlobal
      else TargetLocal)"
proof (cases "m = n")
  case True
  have honored: "honors_internal_binding n s \<or> h" if "\<not> (is_internal_symbol n \<and> \<not> h)"
    using that by (auto simp: honors_internal_binding_def)
  show ?thesis using honored
    by (simp add: True binding_target_for_name_def insert_binding_def scope_simps target_derived Let_def)
next
  case False
  then show ?thesis
    by (simp add: binding_target_for_name_def insert_binding_def scope_simps)
qed

text \<open>The storage name of a cell leads back to its logical name, for the default name \<open>_dp_cell_n\<close>
  and for every explicit storage name of a well-formed scope.\<close>

theorem cell_storage_roundtrip:
  assumes "cell_names_ok (cell_storage_names s)"
  shows "logical_name_for_cell_storage (cell_storage_name n s) s = Some n"
proof (cases "map_of (cell_storage_names s) n")
  case None
  then show ?thesis by (simp add: cell_storage_name_def logical_name_for_cell_storage_def cell_name_prefix)
next
  case (Some st)
  then have mem: "(n, st) \<in> set (cell_storage_names s)" by (rule map_of_SomeD)
  with assms have "case strip_prefix ''_dp_cell_'' st of None \<Rightarrow> True | Some l \<Rightarrow> l = n"
    by (auto simp: cell_names_ok_def list_all_iff)
  moreover have "find_key (\<lambda>v. v = st) (cell_storage_names s) = Some n"
    using mem assms by (intro find_key_unique) (simp_all add: cell_names_ok_def)
  ultimately show ?thesis
    by (simp add: Some cell_storage_name_def logical_name_for_cell_storage_def split: option.splits)
qed

definition sample_scope :: callable_scope_info where
  "sample_scope =
     \<lparr>scope_names = \<lparr>bind_name = ''f'', fn_name = ''f'', display_name = ''f'', qualname = ''f''\<rparr>,
      scope_kind = ScopeFunction, bindings = [(''x'', BindCell Owner), (''y'', BindCell Capture)],
      local_defs = {}, cell_storage_names = [(''x'', ''_dp_classcell'')], cell_capture_source_names = [],
      owned_cell_source_names = {}, scope_internal_names = {}, type_param_names = {},
      effective_load_bindings = [], effective_store_bindings = []\<rparr>"

theorem cell_storage_roundtrip_witness:
  "logical_name_for_cell_storage (cell_storage_name ''x'' sample_scope) sample_scope = Some ''x'' \<and>
   cell_storage_name ''x'' sample_scope = ''_dp_classcell''"
  using cell_storage_roundtrip [of sample_scope "''x''"]
  by (simp add: sample_scope_def cell_names_ok_def strip_prefix_def starts_with_def cell_storage_name_def)

end
