(* ===== verification/Program.thy ===== *)
theory Program
  imports Scope Structured
begin

text \<open>
  Functions and modules of the BlockPy representation (\<open>soac-blockpy/src/block_py/mod.rs\<close>) and the
  traversals that carry a mapping of instructions over them (\<open>block_py/map.rs\<close>). The traits
  \<open>MapInstr\<close> and \<open>TryMapInstr\<close> have a mutable receiver: \<open>map_*\<close> are the traversals for a mapping
  without state, \<open>map_*_st\<close> those for a mapping that threads a state and may panic, and
  \<open>try_map_*\<close> those of \<open>TryMapInstr\<close>, which stop at the first error.
\<close>

section \<open>Counters\<close>

datatype counter_scope = CounterThis | CounterFunction | CounterGlobal

datatype counter_site =
  SiteBlockEntry function_id block_label
| SiteRuntime "function_id option" "instr_id option"

record counter_def =
  counter_id :: usize
  counter_scope :: counter_scope
  counter_kind :: string
  counter_site :: counter_site

section \<open>Functions and modules\<close>

record 'e bp_function =
  fn_id :: function_id
  fn_name_gen :: function_name_gen
  fn_names :: function_name
  fn_kind :: function_kind
  fn_params :: param_spec
  fn_blocks :: "('e, 'e) block list"
  fn_doc :: "string option"
  fn_layout :: "storage_layout option"
  fn_scope :: callable_scope_info

record 'e bp_module =
  mod_name_gen :: module_name_gen
  global_names :: "string list"
  callable_defs :: "'e bp_function list"
  module_constants :: "located_core list"
  counter_defs :: "counter_def list"

text \<open>\<open>entry_block\<close> panics on a function without blocks.\<close>

definition entry_block :: "'e bp_function \<Rightarrow> ('e, 'e) block option" where
  "entry_block f = (case fn_blocks f of [] \<Rightarrow> None | b # _ \<Rightarrow> Some b)"

definition map_blocks :: "(('e, 'e) block \<Rightarrow> ('f, 'f) block) \<Rightarrow> 'e bp_function \<Rightarrow> 'f bp_function" where
  "map_blocks g f =
     \<lparr>fn_id = fn_id f, fn_name_gen = fn_name_gen f, fn_names = fn_names f, fn_kind = fn_kind f,
      fn_params = fn_params f, fn_blocks = map g (fn_blocks f), fn_doc = fn_doc f,
      fn_layout = fn_layout f, fn_scope = fn_scope f\<rparr>"

text \<open>The debug assertions hold in the builds the tests run; a release build drops the constants
  and the counters, as the result does.\<close>

definition map_callable_defs :: "('e bp_function \<Rightarrow> 'f bp_function) \<Rightarrow> 'e bp_module \<Rightarrow> 'f bp_module" where
  "map_callable_defs g m =
     \<lparr>mod_name_gen = mod_name_gen m, global_names = global_names m,
      callable_defs = map g (callable_defs m), module_constants = [], counter_defs = []\<rparr>"

section \<open>Mapping without state\<close>

fun map_term :: "('i \<Rightarrow> 'o) \<Rightarrow> 'i block_term \<Rightarrow> 'o block_term" where
  "map_term f (Jump e) = Jump e"
| "map_term f (IfTerm t a b) = IfTerm (f t) a b"
| "map_term f (BranchTable i ts d) = BranchTable (f i) ts d"
| "map_term f (Raise x) = Raise (map_option f x)"
| "map_term f (Return v) = Return (f v)"

definition map_block :: "('i \<Rightarrow> 'o) \<Rightarrow> ('i, 'i) block \<Rightarrow> ('o, 'o) block" where
  "map_block f b =
     \<lparr>label = label b, body = map f (body b), bterm = map_term f (bterm b), params = params b,
      exc_edge = exc_edge b\<rparr>"

definition map_fn :: "('i \<Rightarrow> 'o) \<Rightarrow> 'i bp_function \<Rightarrow> 'o bp_function" where
  "map_fn f = map_blocks (map_block f)"

definition map_module :: "('i \<Rightarrow> 'o) \<Rightarrow> 'i bp_module \<Rightarrow> 'o bp_module" where
  "map_module f m =
     \<lparr>mod_name_gen = mod_name_gen m, global_names = global_names m,
      callable_defs = map (map_fn f) (callable_defs m), module_constants = module_constants m,
      counter_defs = counter_defs m\<rparr>"

section \<open>Mapping with state\<close>

type_synonym ('i, 'o, 's) st_mapper = "'i \<Rightarrow> 's \<Rightarrow> ('o \<times> 's) option"

fun map_term_st :: "('i, 'o, 's) st_mapper \<Rightarrow> 'i block_term \<Rightarrow> 's \<Rightarrow> ('o block_term \<times> 's) option" where
  "map_term_st f (Jump e) s = Some (Jump e, s)"
| "map_term_st f (IfTerm t a b) s = do { (t', s') \<leftarrow> f t s; Some (IfTerm t' a b, s') }"
| "map_term_st f (BranchTable i ts d) s = do { (i', s') \<leftarrow> f i s; Some (BranchTable i' ts d, s') }"
| "map_term_st f (Raise None) s = Some (Raise None, s)"
| "map_term_st f (Raise (Some x)) s = do { (x', s') \<leftarrow> f x s; Some (Raise (Some x'), s') }"
| "map_term_st f (Return v) s = do { (v', s') \<leftarrow> f v s; Some (Return v', s') }"

definition map_block_st ::
  "('i, 'o, 's) st_mapper \<Rightarrow> ('i, 'i) block \<Rightarrow> 's \<Rightarrow> (('o, 'o) block \<times> 's) option" where
  "map_block_st f b s =
     do { (ys, s1) \<leftarrow> st_map f (body b) s;
          (t, s2) \<leftarrow> map_term_st f (bterm b) s1;
          Some (\<lparr>label = label b, body = ys, bterm = t, params = params b, exc_edge = exc_edge b\<rparr>, s2) }"

definition map_fn_st ::
  "('i, 'o, 's) st_mapper \<Rightarrow> 'i bp_function \<Rightarrow> 's \<Rightarrow> ('o bp_function \<times> 's) option" where
  "map_fn_st f fn s =
     do { (bs, s') \<leftarrow> st_map (map_block_st f) (fn_blocks fn) s;
          Some (\<lparr>fn_id = fn_id fn, fn_name_gen = fn_name_gen fn, fn_names = fn_names fn,
                 fn_kind = fn_kind fn, fn_params = fn_params fn, fn_blocks = bs, fn_doc = fn_doc fn,
                 fn_layout = fn_layout fn, fn_scope = fn_scope fn\<rparr>, s') }"

section \<open>Mapping that may fail\<close>

definition res_bind :: "'x + 'a \<Rightarrow> ('a \<Rightarrow> 'x + 'b) \<Rightarrow> 'x + 'b" where
  "res_bind r k = (case r of Inl x \<Rightarrow> Inl x | Inr a \<Rightarrow> k a)"

definition res_map :: "('a \<Rightarrow> 'b) \<Rightarrow> 'x + 'a \<Rightarrow> 'x + 'b" where
  "res_map g r = res_bind r (\<lambda>a. Inr (g a))"

fun try_map :: "('a \<Rightarrow> 'x + 'b) \<Rightarrow> 'a list \<Rightarrow> 'x + 'b list" where
  "try_map f [] = Inr []"
| "try_map f (x # xs) = res_bind (f x) (\<lambda>y. res_bind (try_map f xs) (\<lambda>ys. Inr (y # ys)))"

fun try_map_term :: "('i \<Rightarrow> 'x + 'o) \<Rightarrow> 'i block_term \<Rightarrow> 'x + 'o block_term" where
  "try_map_term f (Jump e) = Inr (Jump e)"
| "try_map_term f (IfTerm t a b) = res_map (\<lambda>t'. IfTerm t' a b) (f t)"
| "try_map_term f (BranchTable i ts d) = res_map (\<lambda>i'. BranchTable i' ts d) (f i)"
| "try_map_term f (Raise None) = Inr (Raise None)"
| "try_map_term f (Raise (Some x)) = res_map (\<lambda>x'. Raise (Some x')) (f x)"
| "try_map_term f (Return v) = res_map Return (f v)"

definition try_map_block :: "('i \<Rightarrow> 'x + 'o) \<Rightarrow> ('i, 'i) block \<Rightarrow> 'x + ('o, 'o) block" where
  "try_map_block f b =
     res_bind (try_map f (body b)) (\<lambda>ys. res_bind (try_map_term f (bterm b)) (\<lambda>t.
       Inr \<lparr>label = label b, body = ys, bterm = t, params = params b, exc_edge = exc_edge b\<rparr>))"

definition try_map_fn :: "('i \<Rightarrow> 'x + 'o) \<Rightarrow> 'i bp_function \<Rightarrow> 'x + 'o bp_function" where
  "try_map_fn f fn =
     res_bind (try_map (try_map_block f) (fn_blocks fn)) (\<lambda>bs.
       Inr \<lparr>fn_id = fn_id fn, fn_name_gen = fn_name_gen fn, fn_names = fn_names fn,
            fn_kind = fn_kind fn, fn_params = fn_params fn, fn_blocks = bs, fn_doc = fn_doc fn,
            fn_layout = fn_layout fn, fn_scope = fn_scope fn\<rparr>)"

definition try_map_module :: "('i \<Rightarrow> 'x + 'o) \<Rightarrow> 'i bp_module \<Rightarrow> 'x + 'o bp_module" where
  "try_map_module f m =
     res_bind (try_map (try_map_fn f) (callable_defs m)) (\<lambda>fns.
       Inr \<lparr>mod_name_gen = mod_name_gen m, global_names = global_names m, callable_defs = fns,
            module_constants = module_constants m, counter_defs = counter_defs m\<rparr>)"

section \<open>Lemmas\<close>

text \<open>The instructions of a block, function or module in the order in which they are visited.\<close>

definition block_instrs :: "('i, 'i) block \<Rightarrow> 'i list" where
  "block_instrs b = body b @ term_exprs (bterm b)"

definition fn_instrs :: "'i bp_function \<Rightarrow> 'i list" where
  "fn_instrs f = concat (map block_instrs (fn_blocks f))"

definition module_instrs :: "'i bp_module \<Rightarrow> 'i list" where
  "module_instrs m = concat (map fn_instrs (callable_defs m))"

named_theorems map_simps

lemma term_exprs_map_term [map_simps]: "term_exprs (map_term f t) = map f (term_exprs t)"
  by (cases t) (auto split: option.splits)

lemma successors_map_term [map_simps]: "successors (map_term f t) = successors t"
  by (cases t) auto

lemma map_block_frame [map_simps]:
  "label (map_block f b) = label b" "body (map_block f b) = map f (body b)"
  "bterm (map_block f b) = map_term f (bterm b)" "params (map_block f b) = params b"
  "exc_edge (map_block f b) = exc_edge b"
  by (simp_all add: map_block_def)

lemma map_fn_frame [map_simps]:
  "fn_id (map_fn f fn) = fn_id fn" "fn_name_gen (map_fn f fn) = fn_name_gen fn"
  "fn_names (map_fn f fn) = fn_names fn" "fn_kind (map_fn f fn) = fn_kind fn"
  "fn_params (map_fn f fn) = fn_params fn" "fn_blocks (map_fn f fn) = map (map_block f) (fn_blocks fn)"
  "fn_layout (map_fn f fn) = fn_layout fn" "fn_scope (map_fn f fn) = fn_scope fn"
  by (simp_all add: map_fn_def map_blocks_def)

lemma block_instrs_map [map_simps]: "block_instrs (map_block f b) = map f (block_instrs b)"
  by (simp add: block_instrs_def map_simps)

lemma fn_instrs_map [map_simps]: "fn_instrs (map_fn f fn) = map f (fn_instrs fn)"
  by (simp add: fn_instrs_def map_simps map_concat o_def)

lemma module_instrs_map [map_simps]: "module_instrs (map_module f m) = map f (module_instrs m)"
  by (simp add: module_instrs_def map_module_def map_simps map_concat o_def)

lemma map_term_cong: "(\<And>x. x \<in> set (term_exprs t) \<Longrightarrow> f x = g x) \<Longrightarrow> map_term f t = map_term g t"
  by (cases t) (auto intro!: option.map_cong split: option.splits)

lemma map_block_cong: "(\<And>x. x \<in> set (block_instrs b) \<Longrightarrow> f x = g x) \<Longrightarrow> map_block f b = map_block g b"
  by (auto simp: map_block_def block_instrs_def intro: map_term_cong)

lemma map_fn_cong: "(\<And>x. x \<in> set (fn_instrs fn) \<Longrightarrow> f x = g x) \<Longrightarrow> map_fn f fn = map_fn g fn"
  by (auto simp: map_fn_def map_blocks_def fn_instrs_def intro!: map_block_cong)

text \<open>A checked traversal fails with the error of the first element that has one.\<close>

definition first_error :: "('i \<Rightarrow> 'x + 'o) \<Rightarrow> 'i list \<Rightarrow> 'x option" where
  "first_error f xs =
     (case find (\<lambda>x. isl (f x)) xs of None \<Rightarrow> None | Some x \<Rightarrow> Some (projl (f x)))"

lemma first_error_simps [simp]:
  "first_error f [] = None"
  "first_error f (x # xs) = (case f x of Inl e \<Rightarrow> Some e | Inr _ \<Rightarrow> first_error f xs)"
  by (simp_all add: first_error_def split: sum.splits)

lemma first_error_append [simp]: "first_error f (xs @ ys) = or_opt (first_error f xs) (first_error f ys)"
  by (induction xs) (auto split: sum.splits)

lemma first_error_None: "first_error f xs = None \<longleftrightarrow> (\<forall>x\<in>set xs. \<not> isl (f x))"
  by (induction xs) (auto split: sum.splits)

text \<open>\<open>traversal f xs r y\<close>: the checked traversal of \<open>xs\<close> gave \<open>r\<close>, and \<open>y\<close> is the value without
  errors.\<close>

definition traversal :: "('i \<Rightarrow> 'x + 'o) \<Rightarrow> 'i list \<Rightarrow> 'x + 'r \<Rightarrow> 'r \<Rightarrow> bool" where
  "traversal f xs r y \<longleftrightarrow> r = (case first_error f xs of None \<Rightarrow> Inr y | Some e \<Rightarrow> Inl e)"

lemma try_map_traversal:
  assumes "\<And>x. x \<in> set xs \<Longrightarrow> traversal f (ins x) (g x) (h x)"
  shows "traversal f (concat (map ins xs)) (try_map g xs) (map h xs)"
  using assms
proof (induction xs)
  case (Cons x xs)
  then have x: "traversal f (ins x) (g x) (h x)"
    and xs: "traversal f (concat (map ins xs)) (try_map g xs) (map h xs)" by simp_all
  show ?case
    using x xs by (simp add: traversal_def res_bind_def split: option.splits)
qed (simp add: traversal_def)

lemma try_map_instrs: "traversal f xs (try_map f xs) (map (projr \<circ> f) xs)"
  by (induction xs) (auto simp: traversal_def res_bind_def split: sum.splits option.splits)

lemma try_map_term_traversal: "traversal f (term_exprs t) (try_map_term f t) (map_term (projr \<circ> f) t)"
  by (cases "(f, t)" rule: try_map_term.cases)
     (simp_all add: traversal_def res_map_def res_bind_def split: sum.splits)

lemma try_map_block_traversal: "traversal f (block_instrs b) (try_map_block f b) (map_block (projr \<circ> f) b)"
  using try_map_instrs [of f "body b"] try_map_term_traversal [of f "bterm b"]
  by (simp add: traversal_def try_map_block_def block_instrs_def map_block_def res_bind_def
      split: option.splits)

lemma try_map_fn_traversal: "traversal f (fn_instrs fn) (try_map_fn f fn) (map_fn (projr \<circ> f) fn)"
  using try_map_traversal [of "fn_blocks fn" f block_instrs, OF try_map_block_traversal]
  by (simp add: traversal_def try_map_fn_def fn_instrs_def map_fn_def map_blocks_def res_bind_def
      split: option.splits)

text \<open>The stateful traversal of a mapping that neither panics nor uses its state.\<close>

lemma st_map_pure: "(\<And>x u. x \<in> set xs \<Longrightarrow> f x u = Some (g x, u)) \<Longrightarrow> st_map f xs s = Some (map g xs, s)"
  by (induction xs) auto

lemma map_term_st_pure:
  "(\<And>x u. x \<in> set (term_exprs t) \<Longrightarrow> f x u = Some (g x, u)) \<Longrightarrow> map_term_st f t s = Some (map_term g t, s)"
  by (cases "(f, t, s)" rule: map_term_st.cases) simp_all

lemma map_block_st_pure:
  "(\<And>x u. x \<in> set (block_instrs b) \<Longrightarrow> f x u = Some (g x, u)) \<Longrightarrow> map_block_st f b s = Some (map_block g b, s)"
  by (simp add: map_block_st_def map_block_def block_instrs_def st_map_pure [where g = g]
      map_term_st_pure [where g = g])

text \<open>A stateful traversal of a block, function or module visits its instructions in order.\<close>

lemma map_term_st_carries: "carries f term_exprs term_exprs (map_term_st f) t"
  unfolding carries_def
proof
  fix s show "map_option (\<lambda>(y, s'). (term_exprs y, s')) (map_term_st f t s) = st_map f (term_exprs t) s"
    by (cases "(f, t, s)" rule: map_term_st.cases)
       (simp_all add: case_prod_unfold map_option_bind comp_def)
qed

lemma map_block_st_carries: "carries f block_instrs block_instrs (map_block_st f) b"
  unfolding carries_def
proof
  fix s
  show "map_option (\<lambda>(y, s'). (block_instrs y, s')) (map_block_st f b s) = st_map f (block_instrs b) s"
  proof (cases "st_map f (body b) s")
    case (Some r)
    obtain ys s1 where 1: "st_map f (body b) s = Some (ys, s1)" using Some by (cases r) auto
    note tm = map_term_st_carries [of f "bterm b", unfolded carries_def, rule_format, of s1]
    show ?thesis
      by (cases "map_term_st f (bterm b) s1")
         (auto simp: map_block_st_def block_instrs_def st_map_append 1 tm [symmetric])
  qed (simp add: map_block_st_def block_instrs_def st_map_append)
qed

lemma map_fn_st_carries: "carries f fn_instrs fn_instrs (map_fn_st f) fn"
  unfolding carries_def
proof
  fix s
  note blocks = carries_map [of "fn_blocks fn" f block_instrs block_instrs, OF map_block_st_carries,
      unfolded carries_def, rule_format, of s]
  show "map_option (\<lambda>(y, s'). (fn_instrs y, s')) (map_fn_st f fn s) = st_map f (fn_instrs fn) s"
    unfolding fn_instrs_def blocks [symmetric]
    by (cases "st_map (map_block_st f) (fn_blocks fn) s") (auto simp: map_fn_st_def fn_instrs_def)
qed

lemma map_fns_st_carries:
  "carries f (\<lambda>fns. concat (map fn_instrs fns)) (\<lambda>fns. concat (map fn_instrs fns)) (st_map (map_fn_st f)) fns"
  by (rule carries_map) (rule map_fn_st_carries)

text \<open>What a stateful traversal leaves alone.\<close>

lemma map_term_st_successors: "map_term_st f t s = Some (t', s') \<Longrightarrow> successors t' = successors t"
  by (cases "(f, t, s)" rule: map_term_st.cases) (auto simp: bind_eq_Some_conv)

lemma map_block_st_frame:
  assumes "map_block_st f b s = Some (b', s')"
  shows "label b' = label b" "params b' = params b" "exc_edge b' = exc_edge b"
    "successors (bterm b') = successors (bterm b)" "length (body b') = length (body b)"
  using assms
  by (auto simp: map_block_st_def bind_eq_Some_conv map_term_st_successors st_map_length)

section \<open>Properties\<close>

text \<open>C25: The checked traversal of a module: when every instruction maps, the result is the plain
  traversal with the mapped instructions; otherwise it is the error of the first instruction, in
  the order functions, blocks, body, terminator, that has one.\<close>

theorem try_map_module_spec:
  "try_map_module f m =
     (case first_error f (module_instrs m) of
        None \<Rightarrow> Inr (map_module (projr \<circ> f) m)
      | Some e \<Rightarrow> Inl e)"
  using try_map_traversal [of "callable_defs m" f fn_instrs, OF try_map_fn_traversal]
  by (simp add: traversal_def try_map_module_def module_instrs_def map_module_def res_bind_def
      split: option.splits)

end
