(* ===== verification/Closure_Layout.thy ===== *)
theory Closure_Layout
  imports Program
begin

text \<open>
  Which cells a function captures and where it stores them: the last part of
  \<open>soac-blockpy/src/block_py/scope.rs\<close>. Rust iterates a \<open>HashSet\<close> of the cells the body refers to;
  the iteration order is the argument \<open>refs\<close>, and the result does not depend on it.
\<close>

definition is_runtime_closure_name :: "string \<Rightarrow> bool" where
  "is_runtime_closure_name n \<longleftrightarrow>
     n \<in> {''_dp_pc'', ''_dp_yieldfrom'', ''_dp_throw_context''} \<or> starts_with ''_dp_try_abrupt_kind_'' n"

definition normalize_capture_name :: "callable_scope_info \<Rightarrow> string \<Rightarrow> string" where
  "normalize_capture_name s n =
     unwrap_or n (or_opt (logical_name_for_cell_capture_source n s) (logical_name_for_cell_storage n s))"

definition capture_binding :: "callable_scope_info \<Rightarrow> string \<Rightarrow> cell_capture_binding" where
  "capture_binding s n = \<lparr>capture_logical = n, capture_source = cell_capture_source_name n s\<rparr>"

definition referenced_captures :: "'e bp_function \<Rightarrow> string list \<Rightarrow> string list" where
  "referenced_captures f refs =
     filter (\<lambda>n. \<not> is_runtime_closure_name n \<and> n \<notin> set (spec_names (fn_params f)) \<and>
               cell_capture_source_name n (fn_scope f) \<notin> owned_cell_storage_names (fn_scope f))
       (map (normalize_capture_name (fn_scope f)) refs)"

definition make_function_capture_bindings :: "'e bp_function \<Rightarrow> string list \<Rightarrow> cell_capture_binding list" where
  "make_function_capture_bindings f refs =
     dedup_by capture_logical (sort_key (\<lambda>b. (capture_logical b, capture_source b))
       (map (\<lambda>b. capture_binding (fn_scope f) (normalize_capture_name (fn_scope f) (capture_logical b)))
          (captured_cell_bindings (fn_scope f))
        @ map (capture_binding (fn_scope f)) (referenced_captures f refs)))"

definition compute_make_function_capture_bindings_from_scope ::
  "'e scope_node \<Rightarrow> 'e bp_function \<Rightarrow> cell_capture_binding list" where
  "compute_make_function_capture_bindings_from_scope N f =
     make_function_capture_bindings f (sorted_list_of_set (cell_ref_names (collect_blocks N (fn_blocks f))))"

definition storage_logical_name :: "callable_scope_info \<Rightarrow> string \<Rightarrow> string" where
  "storage_logical_name s n = unwrap_or n (logical_name_for_cell_storage n s)"

definition build_storage_layout_from_capture_names ::
  "'e bp_function \<Rightarrow> string list \<Rightarrow> string list \<Rightarrow> storage_layout option" where
  "build_storage_layout_from_capture_names f capture_names local_cell_slots =
     (let s = fn_scope f;
          captures = dedup_by id (sort capture_names);
          locals = filter (\<lambda>n. \<not> is_runtime_closure_name (storage_logical_name s n)) local_cell_slots
      in if captures = [] \<and> locals = [] then None
         else Some
           \<lparr>freevars = map (\<lambda>n. \<lparr>logical_name = n, storage_name = cell_storage_name n s,
                                  slot_init = InheritedCapture\<rparr>) captures,
            cellvars = map (\<lambda>n. \<lparr>logical_name = storage_logical_name s n, storage_name = n,
                                  slot_init = (if storage_logical_name s n \<in> set (spec_names (fn_params f))
                                               then InitParameter else DeletedSentinel)\<rparr>) locals,
            runtime_cells = [], stack_slots = []\<rparr>)"

definition compute_storage_layout_from_scope :: "'e scope_node \<Rightarrow> 'e bp_function \<Rightarrow> storage_layout option" where
  "compute_storage_layout_from_scope N f =
     build_storage_layout_from_capture_names f
       (map capture_logical (compute_make_function_capture_bindings_from_scope N f))
       (sorted_list_of_set (owned_cell_storage_names (fn_scope f)))"

section \<open>Lemmas\<close>

subsection \<open>Sorting and removing duplicates\<close>

lemma dedup_by_map: "dedup_by k (map f xs) = map f (dedup_by (k \<circ> f) xs)"
proof (induction "k \<circ> f" xs rule: dedup_by.induct)
  case (1 x y xs)
  then show ?case by simp
qed simp_all

lemma dedup_id_sort: "dedup_by id (sort xs) = sorted_list_of_set (set xs)"
proof (rule sorted_distinct_set_unique)
  have "sorted (map id (sort xs))" by simp
  from dedup_by_sorted_distinct [OF this]
  show "sorted (dedup_by id (sort xs))" "distinct (dedup_by id (sort xs))" by simp_all
  show "set (dedup_by id (sort xs)) = set (sorted_list_of_set (set xs))"
    using dedup_by_set_key [of id "sort xs"] by simp
qed simp_all

text \<open>Sorting entries that are a function of their first component, by that component and more,
  sorts the components.\<close>

lemma sort_key_map:
  assumes "\<And>x. k (f x) = (x, g x)"
  shows "sort_key k (map f xs) = map f (sort xs)"
proof -
  have "insort_key k (f x) (map f ys) = map f (insort x ys)" for x ys
    by (induction ys) (auto simp: assms less_eq_prod_def)
  then show ?thesis by (induction xs) (simp_all add: sort_key_def)
qed

subsection \<open>Captures\<close>

lemma capture_binding_sel [simp]:
  "capture_logical (capture_binding s n) = n" "capture_source (capture_binding s n) = cell_capture_source_name n s"
  by (simp_all add: capture_binding_def)

text \<open>The names before sorting: what the scope says, normalized, and what the body refers to.\<close>

definition capture_names :: "'e bp_function \<Rightarrow> string list \<Rightarrow> string list" where
  "capture_names f refs =
     map (normalize_capture_name (fn_scope f)) (captured_cell_logical_names (fn_scope f)) @ referenced_captures f refs"

lemma make_function_capture_bindings_eq:
  "make_function_capture_bindings f refs =
     map (capture_binding (fn_scope f)) (sorted_list_of_set (set (capture_names f refs)))"
proof -
  have all: "map (\<lambda>b. capture_binding (fn_scope f) (normalize_capture_name (fn_scope f) (capture_logical b)))
        (captured_cell_bindings (fn_scope f)) @ map (capture_binding (fn_scope f)) (referenced_captures f refs)
      = map (capture_binding (fn_scope f)) (capture_names f refs)"
    by (simp add: capture_names_def captured_cell_bindings_def)
  have "dedup_by (capture_logical \<circ> capture_binding (fn_scope f)) xs = dedup_by id xs" for xs
    by (rule arg_cong [of _ _ "\<lambda>k. dedup_by k xs"]) (simp add: fun_eq_iff)
  then show ?thesis
    unfolding make_function_capture_bindings_def all
    by (subst sort_key_map [where g = "\<lambda>n. cell_capture_source_name n (fn_scope f)"])
       (simp_all add: dedup_by_map dedup_id_sort)
qed

lemma capture_names_cong: "set refs = set refs' \<Longrightarrow> set (capture_names f refs) = set (capture_names f refs')"
  by (auto simp: capture_names_def referenced_captures_def)

lemma finite_collect_instr: "finite (cell_ref_names c) \<Longrightarrow> finite (cell_ref_names (collect_instr N e c))"
  unfolding collect_instr_def by (rule fold_invariant [where Q = "\<lambda>_. True"]) simp_all

lemma finite_collect_stmt: "finite (cell_ref_names c) \<Longrightarrow> finite (cell_ref_names (collect_stmt N e c))"
  by (simp add: collect_stmt_def finite_collect_instr)

lemma finite_collect_block: "finite (cell_ref_names c) \<Longrightarrow> finite (cell_ref_names (collect_block N b c))"
  unfolding collect_block_def Let_def
  by (intro fold_invariant [where Q = "\<lambda>_. True" and P = "\<lambda>c. finite (cell_ref_names c)"]
      finite_collect_instr finite_collect_stmt) (simp_all split: option.splits)

lemma finite_collected: "finite (cell_ref_names (collect_blocks N bs))"
  unfolding collect_blocks_def
  by (rule fold_invariant [where Q = "\<lambda>_. True"]) (simp_all add: finite_collect_block)

lemma set_cell_refs:
  "set (sorted_list_of_set (cell_ref_names (collect_blocks N bs))) = cell_ref_names (collect_blocks N bs)"
  by (simp add: finite_collected)

lemma finite_owned [simp]: "finite (owned_cell_source_names s) \<Longrightarrow> finite (owned_cell_storage_names s)"
  by (simp add: owned_cell_storage_names_def)

section \<open>Properties\<close>

text \<open>C24: The captures of a function, whatever the order in which the hash set of cell references is
  iterated: the logical names in ascending order without repetition, each paired with the name of
  the cell in the enclosing function; the names are the normalized captures of the scope and the
  referenced cells that are neither runtime cells, parameters nor cells the function owns.\<close>

theorem capture_bindings_spec:
  assumes "set refs = cell_ref_names (collect_blocks N (fn_blocks f))"
  shows "make_function_capture_bindings f refs = compute_make_function_capture_bindings_from_scope N f \<and>
    map capture_logical (make_function_capture_bindings f refs) = sorted_list_of_set (set (capture_names f refs)) \<and>
    map capture_source (make_function_capture_bindings f refs) =
      map (\<lambda>n. cell_capture_source_name n (fn_scope f)) (sorted_list_of_set (set (capture_names f refs)))"
proof -
  have "set (capture_names f refs) =
      set (capture_names f (sorted_list_of_set (cell_ref_names (collect_blocks N (fn_blocks f)))))"
    by (rule capture_names_cong) (simp add: set_cell_refs assms)
  then show ?thesis
    by (simp add: compute_make_function_capture_bindings_from_scope_def make_function_capture_bindings_eq o_def)
qed

text \<open>What the layout has to provide: the captured names and the owned cells.\<close>

definition captured_names :: "'e scope_node \<Rightarrow> 'e bp_function \<Rightarrow> string set" where
  "captured_names N f = capture_logical ` set (compute_make_function_capture_bindings_from_scope N f)"

definition owned_cells :: "'e bp_function \<Rightarrow> string set" where
  "owned_cells f = {n \<in> owned_cell_storage_names (fn_scope f).
     \<not> is_runtime_closure_name (storage_logical_name (fn_scope f) n)}"

definition implements_cells :: "'e scope_node \<Rightarrow> 'e bp_function \<Rightarrow> storage_layout \<Rightarrow> bool" where
  "implements_cells N f l \<longleftrightarrow>
     sorted_wrt (<) (map logical_name (freevars l)) \<and> logical_name ` set (freevars l) = captured_names N f \<and>
     list_all (\<lambda>sl. storage_name sl = cell_storage_name (logical_name sl) (fn_scope f) \<and>
       slot_init sl = InheritedCapture) (freevars l) \<and>
     sorted_wrt (<) (map storage_name (cellvars l)) \<and> storage_name ` set (cellvars l) = owned_cells f \<and>
     list_all (\<lambda>sl. logical_name sl = storage_logical_name (fn_scope f) (storage_name sl) \<and>
       slot_init sl = (if logical_name sl \<in> set (spec_names (fn_params f)) then InitParameter
                       else DeletedSentinel)) (cellvars l) \<and>
     runtime_cells l = [] \<and> stack_slots l = []"

text \<open>C23: The storage layout of a function. It is missing exactly when the function captures nothing
  and owns only cells of the runtime. Otherwise the free variables are the captured names, ascending
  and distinct, each stored under its cell name and inherited; the cell variables are the owned
  cells that are not the runtime's, ascending and distinct, those named like a parameter initialised
  from it and all others unbound; and no runtime cells or stack slots are assigned yet.\<close>

theorem storage_layout_spec:
  assumes "finite (owned_cell_source_names (fn_scope f))"
  shows "case compute_storage_layout_from_scope N f of
      None \<Rightarrow> captured_names N f = {} \<and> owned_cells f = {}
    | Some l \<Rightarrow> (captured_names N f \<noteq> {} \<or> owned_cells f \<noteq> {}) \<and> implements_cells N f l"
proof -
  let ?cs = "map capture_logical (compute_make_function_capture_bindings_from_scope N f)"
  let ?own = "filter (\<lambda>n. \<not> is_runtime_closure_name (storage_logical_name (fn_scope f) n))
                (sorted_list_of_set (owned_cell_storage_names (fn_scope f)))"
  have cs: "dedup_by id (sort ?cs) = ?cs" "sorted_wrt (<) ?cs" "set ?cs = captured_names N f"
    by (simp_all add: dedup_id_sort compute_make_function_capture_bindings_from_scope_def
        make_function_capture_bindings_eq o_def captured_names_def image_image)
  have own: "set ?own = owned_cells f" "sorted_wrt (<) ?own"
    using assms by (auto simp: owned_cells_def intro: sorted_wrt_filter)
  have layout: "compute_storage_layout_from_scope N f =
      (if captured_names N f = {} \<and> owned_cells f = {} then None
       else Some
         \<lparr>freevars = map (\<lambda>n. \<lparr>logical_name = n, storage_name = cell_storage_name n (fn_scope f),
                               slot_init = InheritedCapture\<rparr>) ?cs,
          cellvars = map (\<lambda>n. \<lparr>logical_name = storage_logical_name (fn_scope f) n, storage_name = n,
                               slot_init = (if storage_logical_name (fn_scope f) n \<in> set (spec_names (fn_params f))
                                            then InitParameter else DeletedSentinel)\<rparr>) ?own,
          runtime_cells = [], stack_slots = []\<rparr>)"
    unfolding compute_storage_layout_from_scope_def build_storage_layout_from_capture_names_def Let_def cs(1)
      cs(3) [symmetric] own(1) [symmetric] set_empty ..
  show ?thesis
    unfolding layout implements_cells_def
    using cs(2,3) own by (auto simp: list_all_iff o_def image_image)
qed

definition sample_function :: "core bp_function" where
  "sample_function =
     \<lparr>fn_id = function_id_new 0 0, fn_name_gen = function_name_gen_new (function_id_new 0 0),
      fn_names = scope_names sample_scope, fn_kind = KFunction, fn_params = [], fn_blocks = [],
      fn_doc = None, fn_layout = None, fn_scope = sample_scope\<rparr>"

theorem storage_layout_spec_witness:
  "(case compute_storage_layout_from_scope (core_node unresolved_id) sample_function of
      None \<Rightarrow> captured_names (core_node unresolved_id) sample_function = {} \<and> owned_cells sample_function = {}
    | Some l \<Rightarrow> (captured_names (core_node unresolved_id) sample_function \<noteq> {} \<or> owned_cells sample_function \<noteq> {})
        \<and> implements_cells (core_node unresolved_id) sample_function l) \<and>
   owned_cell_source_names (fn_scope sample_function) = {}"
  using storage_layout_spec [of sample_function "core_node unresolved_id"]
  by (simp add: sample_function_def sample_scope_def)

theorem capture_bindings_spec_witness:
  "make_function_capture_bindings sample_function [] =
     compute_make_function_capture_bindings_from_scope (core_node unresolved_id) sample_function \<and>
   map capture_logical (make_function_capture_bindings sample_function []) =
     sorted_list_of_set (set (capture_names sample_function [])) \<and>
   map capture_source (make_function_capture_bindings sample_function []) =
     map (\<lambda>n. cell_capture_source_name n (fn_scope sample_function))
       (sorted_list_of_set (set (capture_names sample_function [])))"
  by (rule capture_bindings_spec) (simp add: sample_function_def collect_blocks_def)

end
