(* ===== verification/Validate.thy ===== *)
theory Validate
  imports Closure_Layout Bb_Shape
begin

text \<open>
  The validator that runs between the passes, \<open>soac-blockpy/src/block_py/validate.rs\<close>. Its error
  messages are constructors that carry the values the message prints.
\<close>

datatype edge_kind = ExceptionTarget | JumpTarget | ThenTarget | ElseTarget | BrTableTarget | BrTableDefault

datatype validation_error =
  NonDenseLabel block_label nat
| UnknownTarget edge_kind block_label block_label
| ExceptionArgCount block_label nat block_label nat
| ExceptionAbruptArg block_label abrupt_kind string
| TooManyEdgeArgs edge_kind block_label nat block_label nat
| AmbiguousForwarding edge_kind block_label block_label string param_role string
| AbruptKindArg edge_kind block_label abrupt_kind string
| CurrentExceptionArg edge_kind block_label string block_label
| LayoutMissing
| MissingOwnerCell string
| OwnerCellStorage string string string
| MissingFreevar string

section \<open>Edges\<close>

text \<open>Every message also names the function; \<open>validate_function\<close> pairs the error with it.\<close>

definition lookup_known_block ::
  "('e, 'e) block list \<Rightarrow> block_label \<Rightarrow> block_label \<Rightarrow> edge_kind \<Rightarrow> validation_error + ('e, 'e) block" where
  "lookup_known_block bs l source kind =
     (case nth_opt bs (label_index l) of
        None \<Rightarrow> Inl (UnknownTarget kind l source)
      | Some b \<Rightarrow> if label b = l then Inr b else Inl (UnknownTarget kind l source))"

definition validate_exception_edge ::
  "('e, 'e) block list \<Rightarrow> ('e, 'e) block \<Rightarrow> block_edge \<Rightarrow> validation_error + unit" where
  "validate_exception_edge bs b e =
     res_bind (lookup_known_block bs (target e) (label b) ExceptionTarget) (\<lambda>t.
       if length (edge_args e) \<noteq> length (param_names (params t))
       then Inl (ExceptionArgCount (label b) (length (edge_args e)) (label t) (length (param_names (params t))))
       else check_all (\<lambda>(n, a). case a of
              ArgAbruptKind k \<Rightarrow> Inl (ExceptionAbruptArg (label b) k n)
            | _ \<Rightarrow> Inr ()) (zip (param_names (params t)) (edge_args e)))"

definition validate_explicit_edge_arg ::
  "('e, 'e) block \<Rightarrow> ('e, 'e) block \<Rightarrow> edge_kind \<Rightarrow> block_param \<Rightarrow> block_arg \<Rightarrow> validation_error + unit" where
  "validate_explicit_edge_arg b t kind p a =
     (case (role p, a) of
        (_, ArgName n) \<Rightarrow> Inr ()
      | (_, ArgNone) \<Rightarrow> Inr ()
      | (RoleException, ArgCurrentException) \<Rightarrow> Inr ()
      | (RoleAbruptKind, ArgAbruptKind k) \<Rightarrow> Inr ()
      | (_, ArgAbruptKind k) \<Rightarrow> Inl (AbruptKindArg kind (label b) k (param_name p))
      | (_, ArgCurrentException) \<Rightarrow> Inl (CurrentExceptionArg kind (label b) (param_name p) (label t)))"

definition validate_edge_param_forwarding ::
  "('e, 'e) block \<Rightarrow> ('e, 'e) block \<Rightarrow> block_arg list \<Rightarrow> edge_kind \<Rightarrow> validation_error + unit" where
  "validate_edge_param_forwarding b t as kind =
     (if length (params t) < length as
      then Inl (TooManyEdgeArgs kind (label b) (length as) (label t) (length (params t)))
      else let start = length (params t) - length as in
        and_then
          (check_all (\<lambda>p. case find (\<lambda>q. role q = role p) (params b) of
              None \<Rightarrow> Inr ()
            | Some q \<Rightarrow> if param_name q \<noteq> param_name p
                then Inl (AmbiguousForwarding kind (label b) (label t) (param_name p) (role p) (param_name q))
                else Inr ()) (take start (params t)))
          (check_all (\<lambda>(p, a). validate_explicit_edge_arg b t kind p a) (zip (drop start (params t)) as)))"

definition validate_non_exception_edge ::
  "('e, 'e) block list \<Rightarrow> ('e, 'e) block \<Rightarrow> block_edge \<Rightarrow> edge_kind \<Rightarrow> validation_error + unit" where
  "validate_non_exception_edge bs b e kind =
     res_bind (lookup_known_block bs (target e) (label b) kind) (\<lambda>t.
       validate_edge_param_forwarding b t (edge_args e) kind)"

section \<open>Storage layouts\<close>

definition validate_owner_cell :: "storage_layout \<Rightarrow> closure_slot \<Rightarrow> validation_error + unit" where
  "validate_owner_cell l x =
     (case find (\<lambda>sl. logical_name sl = logical_name x) (cellvars l) of
        None \<Rightarrow> Inl (MissingOwnerCell (logical_name x))
      | Some sl \<Rightarrow> if storage_name sl \<noteq> storage_name x
          then Inl (OwnerCellStorage (logical_name x) (storage_name sl) (storage_name x))
          else Inr ())"

definition validate_freevar :: "storage_layout \<Rightarrow> closure_slot \<Rightarrow> validation_error + unit" where
  "validate_freevar l x =
     (if list_ex (\<lambda>sl. logical_name sl = logical_name x) (freevars l) then Inr ()
      else Inl (MissingFreevar (logical_name x)))"

definition validate_storage_layout_scoping ::
  "'e scope_node \<Rightarrow> 'e bp_function \<Rightarrow> validation_error + unit" where
  "validate_storage_layout_scoping N f =
     (let expected = compute_storage_layout_from_scope N f in
      case fn_layout f of
        None \<Rightarrow> if expected = None then Inr () else Inl LayoutMissing
      | Some l \<Rightarrow>
          (case expected of
             None \<Rightarrow> Inr ()
           | Some x \<Rightarrow> and_then (check_all (validate_owner_cell l) (cellvars x))
                         (check_all (validate_freevar l) (freevars x))))"

section \<open>Functions and modules\<close>

definition validate_dense :: "('e, 'e) block list \<Rightarrow> validation_error + unit" where
  "validate_dense bs =
     check_all (\<lambda>(i, b). if label_index (label b) \<noteq> i then Inl (NonDenseLabel (label b) i) else Inr ())
       (enumerate 0 bs)"

definition validate_term :: "('e, 'e) block list \<Rightarrow> ('e, 'e) block \<Rightarrow> validation_error + unit" where
  "validate_term bs b =
     (case bterm b of
        Jump e \<Rightarrow> validate_non_exception_edge bs b e JumpTarget
      | IfTerm t l1 l2 \<Rightarrow>
          and_then (validate_non_exception_edge bs b (edge_new l1) ThenTarget)
                   (validate_non_exception_edge bs b (edge_new l2) ElseTarget)
      | BranchTable i ts d \<Rightarrow>
          and_then (check_all (\<lambda>l. validate_non_exception_edge bs b (edge_new l) BrTableTarget) ts)
                   (validate_non_exception_edge bs b (edge_new d) BrTableDefault)
      | Raise x \<Rightarrow> Inr ()
      | Return v \<Rightarrow> Inr ())"

definition validate_block :: "('e, 'e) block list \<Rightarrow> ('e, 'e) block \<Rightarrow> validation_error + unit" where
  "validate_block bs b =
     and_then (case exc_edge b of None \<Rightarrow> Inr () | Some e \<Rightarrow> validate_exception_edge bs b e)
              (validate_term bs b)"

definition validate_function_body :: "'e scope_node \<Rightarrow> 'e bp_function \<Rightarrow> validation_error + unit" where
  "validate_function_body N f =
     and_then (validate_storage_layout_scoping N f)
       (and_then (validate_dense (fn_blocks f)) (check_all (validate_block (fn_blocks f)) (fn_blocks f)))"

definition validate_function :: "'e scope_node \<Rightarrow> 'e bp_function \<Rightarrow> (string \<times> validation_error) + unit" where
  "validate_function N f =
     (case validate_function_body N f of
        Inl e \<Rightarrow> Inl (qualname (fn_names f), e)
      | Inr u \<Rightarrow> Inr u)"

definition validate_module :: "'e scope_node \<Rightarrow> 'e bp_module \<Rightarrow> (string \<times> validation_error) + unit" where
  "validate_module N m = check_all (validate_function N) (callable_defs m)"

section \<open>What a validated function satisfies\<close>

definition dense :: "('s, 'e) block list \<Rightarrow> bool" where
  "dense bs \<longleftrightarrow> (\<forall>i<length bs. label_index (label (bs ! i)) = i)"

text \<open>The edges of a terminator; only a jump has arguments.\<close>

fun term_edges :: "'e block_term \<Rightarrow> block_edge list" where
  "term_edges (Jump e) = [e]"
| "term_edges t = map edge_new (successors t)"

definition arg_fits :: "block_param \<Rightarrow> block_arg \<Rightarrow> bool" where
  "arg_fits p a \<longleftrightarrow> (a = ArgCurrentException \<longrightarrow> role p = RoleException) \<and>
     (\<forall>k. a = ArgAbruptKind k \<longrightarrow> role p = RoleAbruptKind)"

text \<open>A parameter without explicit argument is forwarded from the parameter of the source with the
  same role, which must have the same name.\<close>

definition forwards :: "('s, 'e) block \<Rightarrow> block_param \<Rightarrow> bool" where
  "forwards b p \<longleftrightarrow> (\<forall>q. find (\<lambda>q. role q = role p) (params b) = Some q \<longrightarrow> param_name q = param_name p)"

definition edge_ok :: "('s, 'e) block list \<Rightarrow> ('s, 'e) block \<Rightarrow> block_edge \<Rightarrow> bool" where
  "edge_ok bs b e \<longleftrightarrow> (\<exists>t\<in>set bs. label t = target e \<and>
     (\<exists>implicit explicit. params t = implicit @ explicit \<and>
        (\<forall>p\<in>set implicit. forwards b p) \<and> list_all2 arg_fits explicit (edge_args e)))"

definition exception_edge_ok :: "('s, 'e) block list \<Rightarrow> block_edge \<Rightarrow> bool" where
  "exception_edge_ok bs e \<longleftrightarrow> (\<exists>t\<in>set bs. label t = target e \<and>
     length (edge_args e) = length (params t) \<and> (\<forall>k. ArgAbruptKind k \<notin> set (edge_args e)))"

definition layout_ok :: "'e scope_node \<Rightarrow> 'e bp_function \<Rightarrow> bool" where
  "layout_ok N f \<longleftrightarrow>
     (\<forall>x. compute_storage_layout_from_scope N f = Some x \<longrightarrow>
       (\<exists>l. fn_layout f = Some l \<and>
         (\<forall>c\<in>set (cellvars x). \<exists>sl. find (\<lambda>sl. logical_name sl = logical_name c) (cellvars l) = Some sl \<and>
             storage_name sl = storage_name c) \<and>
         (logical_name ` set (freevars x) \<subseteq> logical_name ` set (freevars l))))"

definition valid_function :: "'e scope_node \<Rightarrow> 'e bp_function \<Rightarrow> bool" where
  "valid_function N f \<longleftrightarrow> layout_ok N f \<and> dense (fn_blocks f) \<and>
     (\<forall>b\<in>set (fn_blocks f). (\<forall>e. exc_edge b = Some e \<longrightarrow> exception_edge_ok (fn_blocks f) e) \<and>
        (\<forall>e\<in>set (term_edges (bterm b)). edge_ok (fn_blocks f) b e))"

subsection \<open>Lemmas\<close>

lemma res_bind_ok: "res_bind r k = Inr y \<longleftrightarrow> (\<exists>x. r = Inr x \<and> k x = Inr y)"
  by (cases r) (simp_all add: res_bind_def)

lemma dense_distinct: "dense bs \<Longrightarrow> distinct (map label bs)"
  unfolding dense_def by (simp add: distinct_conv_nth) metis

lemma lookup_known_block_ok:
  assumes "dense bs"
  shows "lookup_known_block bs l src k = Inr t \<longleftrightarrow> t \<in> set bs \<and> label t = l"
proof
  assume "lookup_known_block bs l src k = Inr t"
  then show "t \<in> set bs \<and> label t = l"
    by (auto simp: lookup_known_block_def nth_opt_def split: option.splits if_splits)
next
  assume t: "t \<in> set bs \<and> label t = l"
  then obtain i where i: "i < length bs" "t = bs ! i" by (auto simp: in_set_conv_nth)
  with assms t have "label_index l = i" by (auto simp: dense_def)
  with i t show "lookup_known_block bs l src k = Inr t"
    by (simp add: lookup_known_block_def nth_opt_def)
qed

lemma validate_dense_ok: "validate_dense bs = Inr u \<longleftrightarrow> dense bs"
  by (auto simp: validate_dense_def dense_def in_set_enumerate_eq Ball_def)

lemma explicit_arg_ok: "validate_explicit_edge_arg b t k p a = Inr u \<longleftrightarrow> arg_fits p a"
  by (cases a; cases "role p") (simp_all add: validate_explicit_edge_arg_def arg_fits_def)

lemma forward_check_ok:
  "(case find (\<lambda>q. role q = role p) (params b) of
      None \<Rightarrow> Inr ()
    | Some q \<Rightarrow> if param_name q \<noteq> param_name p
        then Inl (AmbiguousForwarding k (label b) (label t) (param_name p) (role p) (param_name q))
        else Inr ()) = Inr () \<longleftrightarrow> forwards b p"
  by (auto simp: forwards_def split: option.splits)

lemma param_forwarding_ok:
  "validate_edge_param_forwarding b t as k = Inr u \<longleftrightarrow>
     (\<exists>implicit explicit. params t = implicit @ explicit \<and>
        (\<forall>p\<in>set implicit. forwards b p) \<and> list_all2 arg_fits explicit as)"
proof -
  let ?n = "length (params t) - length as"
  have checks: "validate_edge_param_forwarding b t as k = Inr u \<longleftrightarrow>
      length as \<le> length (params t) \<and> (\<forall>p\<in>set (take ?n (params t)). forwards b p) \<and>
      list_all2 arg_fits (drop ?n (params t)) as"
    by (auto simp: validate_edge_param_forwarding_def Let_def forward_check_ok explicit_arg_ok list_all2_iff)
  show ?thesis
  proof
    assume "validate_edge_param_forwarding b t as k = Inr u"
    then show "\<exists>implicit explicit. params t = implicit @ explicit \<and>
        (\<forall>p\<in>set implicit. forwards b p) \<and> list_all2 arg_fits explicit as"
      unfolding checks by (intro exI [of _ "take ?n (params t)"] exI [of _ "drop ?n (params t)"]) simp
  next
    assume "\<exists>implicit explicit. params t = implicit @ explicit \<and>
        (\<forall>p\<in>set implicit. forwards b p) \<and> list_all2 arg_fits explicit as"
    then obtain im ex where "params t = im @ ex" "\<forall>p\<in>set im. forwards b p" "list_all2 arg_fits ex as"
      by blast
    then show "validate_edge_param_forwarding b t as k = Inr u"
      unfolding checks by (simp add: list_all2_lengthD)
  qed
qed

lemma non_exception_edge_ok:
  "dense bs \<Longrightarrow> validate_non_exception_edge bs b e k = Inr u \<longleftrightarrow> edge_ok bs b e"
  by (auto simp: validate_non_exception_edge_def res_bind_ok lookup_known_block_ok param_forwarding_ok edge_ok_def)

lemma exception_edge_check_ok:
  assumes "dense bs"
  shows "validate_exception_edge bs b e = Inr u \<longleftrightarrow> exception_edge_ok bs e"
proof -
  have args: "(\<forall>(n, a)\<in>set (zip ns as). (case a of ArgAbruptKind k \<Rightarrow> Inl (ExceptionAbruptArg l k n) | _ \<Rightarrow> Inr ()) = Inr ())
      \<longleftrightarrow> (\<forall>k. ArgAbruptKind k \<notin> set as)" if "length ns = length as" for ns as l
    using that
  proof (induction ns as rule: list_induct2)
    case (Cons n ns a as)
    then show ?case by (cases a) auto
  qed simp
  show ?thesis
    using args by (auto simp: validate_exception_edge_def res_bind_ok lookup_known_block_ok [OF assms]
        exception_edge_ok_def param_names_def case_prod_beta)
qed

lemma validate_term_ok:
  "dense bs \<Longrightarrow> validate_term bs b = Inr u \<longleftrightarrow> (\<forall>e\<in>set (term_edges (bterm b)). edge_ok bs b e)"
  by (cases "bterm b") (auto simp: validate_term_def non_exception_edge_ok)

lemma validate_block_ok:
  "dense bs \<Longrightarrow> validate_block bs b = Inr u \<longleftrightarrow>
     (\<forall>e. exc_edge b = Some e \<longrightarrow> exception_edge_ok bs e) \<and> (\<forall>e\<in>set (term_edges (bterm b)). edge_ok bs b e)"
  by (auto simp: validate_block_def validate_term_ok exception_edge_check_ok split: option.splits)

lemma validate_layout_ok: "validate_storage_layout_scoping N f = Inr u \<longleftrightarrow> layout_ok N f"
proof -
  have cell: "validate_owner_cell l c = Inr () \<longleftrightarrow>
      (\<exists>sl. find (\<lambda>sl. logical_name sl = logical_name c) (cellvars l) = Some sl \<and> storage_name sl = storage_name c)"
    for l c by (auto simp: validate_owner_cell_def split: option.splits)
  have free: "validate_freevar l c = Inr () \<longleftrightarrow> logical_name c \<in> logical_name ` set (freevars l)" for l c
    unfolding validate_freevar_def list_ex_iff image_iff by (metis Inl_Inr_False)
  show ?thesis
    by (cases "fn_layout f"; cases "compute_storage_layout_from_scope N f")
       (simp_all add: validate_storage_layout_scoping_def layout_ok_def Let_def cell free image_subset_iff)
qed

lemma valid_target:
  assumes "valid_function N f" "b \<in> set (fn_blocks f)" "e \<in> set (term_edges (bterm b)) \<or> exc_edge b = Some e"
  shows "target e \<in> label ` set (fn_blocks f)"
  using assms unfolding valid_function_def edge_ok_def exception_edge_ok_def by (metis image_eqI)

lemma successors_edges: "set (successors t) = target ` set (term_edges t)"
  by (cases t) (auto simp: image_image edge_new_def)

lemma exec_linear_target:
  assumes "exec_linear S b st = Goto e s"
  shows "target e \<in> target ` set (term_edges (bterm b))"
proof -
  from assms obtain s' where "exec_term S (bterm b) s' = Goto e s"
    unfolding exec_linear_def by (auto dest: exec_body_Goto)
  from exec_term_Goto [OF this] show ?thesis unfolding successors_edges .
qed

lemma dispatch_not_stuck [simp]: "dispatch x c \<noteq> Inr Stuck"
  by (simp add: dispatch_def split: control.splits option.splits)

lemma populate_target:
  "exc_edge (populate_block bs c) = Some e \<Longrightarrow> \<exists>x. exc_edge c = Some x \<and> target x = target e"
  by (auto simp: populate_block_def edge_with_args_def split: option.splits)

lemma populated_edge_ok:
  assumes "distinct (map label bs)" "b \<in> set (populate_exception_edge_args bs)" "exc_edge b = Some e"
    "target e \<in> label ` set bs"
  shows "exception_edge_ok (populate_exception_edge_args bs) e"
proof -
  from assms(2) obtain c where c: "c \<in> set bs" "b = populate_block bs c"
    by (auto simp: populate_exception_edge_args_def)
  from assms(4) obtain h where h: "h \<in> set bs" "label h = target e" by auto
  with assms(1) have idx: "index_by_label bs (target e) = Some h"
    by (simp add: index_by_label_find find_block_distinct flip: h(2))
  obtain x where x: "exc_edge c = Some x" "target x = target e"
    using populate_target [of bs c e] assms(3) c(2) by auto
  with idx have "e = edge_with_args (target e) (map (exception_arg (param_names (params c)) h) (param_names (params h)))"
    using assms(3) c(2) populate_known [of c x bs h] by simp
  then have "edge_args e = map (exception_arg (param_names (params c)) h) (param_names (params h))"
    by (metis block_edge.select_convs(2) edge_with_args_def)
  moreover have "populate_block bs h \<in> set (populate_exception_edge_args bs)"
    using h(1) by (simp add: populate_exception_edge_args_def)
  ultimately show ?thesis
    using h(2) unfolding exception_edge_ok_def
    by (intro bexI [of _ "populate_block bs h"]) (auto simp: param_names_def exception_arg_def split: if_splits)
qed

lemma relabelled_dense:
  assumes "distinct (map label bs)" "relabel_dense bs = Some bs'"
  shows "dense bs'"
proof -
  from assms(2) obtain m where m: "dense_relabel bs = Some m" by (auto simp: relabel_dense_def bind_eq_Some_conv)
  then have "length bs \<le> 2 ^ 32" by (simp only: dense_relabel_Some)
  then have lt: "i < 2 ^ 32" if "i < length bs" for i using that by simp
  note nth = relabel_dense_nth [OF assms m]
  show ?thesis unfolding dense_def nth(1)
  proof (intro allI impI)
    fix i assume i: "i < length bs"
    then have "from_index i = Some (BlockLabel (of_nat i))" using lt unfolding from_index_def by simp
    then show "label_index (label (bs' ! i)) = i" unfolding nth(3) [OF i] by (simp only: from_index_Some)
  qed
qed

section \<open>Properties\<close>

text \<open>C10: The validator accepts exactly the valid functions: the storage layout provides every owned and
  captured cell of the scope, the label of the block at position \<open>i\<close> is \<open>i\<close>, every edge leads to a
  block, an exception edge has an argument for every parameter and none of them an abrupt kind, and
  on every other edge the trailing parameters fit the explicit arguments while the leading ones can
  be forwarded by role without changing their name.\<close>

theorem validate_function_iff: "validate_function N f = Inr u \<longleftrightarrow> valid_function N f"
proof -
  have "validate_function N f = Inr u \<longleftrightarrow> validate_function_body N f = Inr ()"
    by (simp add: validate_function_def split: sum.splits)
  also have "\<dots> \<longleftrightarrow> valid_function N f"
    by (auto simp: validate_function_body_def validate_layout_ok validate_dense_ok valid_function_def
        validate_block_ok)
  finally show ?thesis .
qed

text \<open>C11: A validated function never gets stuck: entered at the label of one of its blocks, no number of
  steps of the abstract machine reaches a label that is not a block, whatever the expressions do.\<close>

theorem validated_never_stuck:
  assumes "validate_function N f = Inr ()" "target e \<in> label ` set (fn_blocks f)"
  shows "run_linear S (fn_blocks f) n e x st \<noteq> Some Stuck"
  using assms(2)
proof (induction n arbitrary: e x st)
  case (Suc n)
  have valid: "valid_function N f"
    using assms(1) by (auto simp: validate_function_def validate_function_body_def validate_layout_ok
        validate_dense_ok valid_function_def validate_block_ok split: sum.splits)
  then have dist: "distinct (map label (fn_blocks f))" by (simp add: valid_function_def dense_distinct)
  from Suc.prems obtain b where b: "b \<in> set (fn_blocks f)" "label b = target e" by auto
  with dist have fnd: "find_block (fn_blocks f) (target e) = Some b"
    using find_block_distinct by metis
  have "target e' \<in> label ` set (fn_blocks f)"
    if "dispatch (exc_edge b) (exec_linear S b s) = Inl (e', x', s')" for s e' x' s'
    using that valid_target [OF valid b(1)]
    by (auto simp: dispatch_def split: control.splits option.splits dest!: exec_linear_target)
  with fnd Suc.IH show ?case by (auto split: sum.splits)
qed simp

text \<open>C21: Dense relabelling followed by the population of exception edges gives what the validator
  wants of labels and exception edges: the labels are dense and every exception edge passes.\<close>

theorem relabelled_populated_validate:
  assumes "distinct (map label bs)" "relabel_dense bs = Some bs'"
  shows "validate_dense (populate_exception_edge_args bs') = Inr () \<and>
    list_all (\<lambda>b. case exc_edge b of None \<Rightarrow> True
      | Some e \<Rightarrow> validate_exception_edge (populate_exception_edge_args bs') b e = Inr ())
      (populate_exception_edge_args bs')"
proof -
  let ?ps = "populate_exception_edge_args bs'"
  have dense: "dense bs'" using assms by (rule relabelled_dense)
  then have pop: "dense ?ps" by (simp add: dense_def populate_exception_edge_args_def)
  obtain m where m: "dense_relabel bs = Some m" using assms(2) by (auto simp: relabel_dense_def bind_eq_Some_conv)
  note nth = relabel_dense_nth [OF assms m]
  have "target e \<in> label ` set bs'" if b: "b \<in> set ?ps" "exc_edge b = Some e" for b e
  proof -
    from b(1) obtain i where i: "i < length bs'" "b = populate_block bs' (bs' ! i)"
      by (auto simp: populate_exception_edge_args_def in_set_conv_nth)
    with b(2) populate_target [of bs' "bs' ! i" e] obtain e' where
      e': "exc_edge (bs' ! i) = Some e'" "target e' = target e" by auto
    have "relabel_block m (bs ! i) = Some (bs' ! i)" using i nth(1,2) by simp
    then obtain e0 where "relabel_edge m e0 = Some e'"
      using relabel_blockD(5) e'(1) by (cases "exc_edge (bs ! i)") fastforce+
    then have "m (target e0) = Some (target e)" using e'(2) by (auto simp: relabel_edge_def bind_eq_Some_conv)
    from find_block_relabel [OF assms m this] obtain j where "j < length bs" "find_block bs' (target e) = Some (bs' ! j)"
      by metis
    from find_block_Some [OF this(2)] show ?thesis by (metis image_eqI)
  qed
  then have "exception_edge_ok ?ps e" if "b \<in> set ?ps" "exc_edge b = Some e" for b e
    using that by (intro populated_edge_ok dense_distinct dense) auto
  then show ?thesis
    using pop by (auto simp: validate_dense_ok list_all_iff exception_edge_check_ok split: option.splits)
qed

text \<open>A function over the concrete machine's expressions: a block that adds, with an exception edge to
  a handler, then a return.\<close>

definition number_node :: "nat scope_node" where
  "number_node = \<lparr>node_view = (\<lambda>_. ViewOther), node_size = id, node_preorder = (\<lambda>e. [e])\<rparr>"

definition guarded_function :: "nat bp_function" where
  "guarded_function =
     \<lparr>fn_id = function_id_new 0 0, fn_name_gen = function_name_gen_new (function_id_new 0 0),
      fn_names = scope_names sample_scope, fn_kind = KFunction, fn_params = [],
      fn_blocks =
        [\<lparr>label = BlockLabel 0, body = [3], bterm = IfTerm 1 (BlockLabel 0) (BlockLabel 1), params = [],
          exc_edge = Some (edge_with_args (BlockLabel 1) [ArgCurrentException])\<rparr>,
         \<lparr>label = BlockLabel 1, body = [2], bterm = Return 1,
          params = [\<lparr>param_name = ''e'', role = RoleException\<rparr>], exc_edge = None\<rparr>],
      fn_doc = None, fn_layout = None, fn_scope = sample_scope\<lparr>bindings := []\<rparr>\<rparr>"

lemma guarded_function_validates: "validate_function number_node guarded_function = Inr ()"
proof -
  have "compute_storage_layout_from_scope number_node guarded_function = None"
    by (simp add: compute_storage_layout_from_scope_def build_storage_layout_from_capture_names_def
        compute_make_function_capture_bindings_from_scope_def make_function_capture_bindings_def
        referenced_captures_def guarded_function_def captured_cell_bindings_def captured_cell_logical_names_def
        owned_cell_storage_names_def sample_scope_def collect_blocks_def collect_block_def collect_instr_def
        collect_stmt_def number_node_def root_loaded_names_def root_defined_names_def root_deleted_names_def
        root_cell_ref_logical_names_def exception_param_def)
  then have 1: "validate_storage_layout_scoping number_node guarded_function = Inr ()"
    by (simp add: validate_storage_layout_scoping_def guarded_function_def)
  have 2: "validate_dense (fn_blocks guarded_function) = Inr ()"
    by (simp add: validate_dense_def guarded_function_def label_index_def)
  have 3: "validate_block (fn_blocks guarded_function) b = Inr ()" if "b \<in> set (fn_blocks guarded_function)" for b
    using that
    by (auto simp: validate_block_def validate_term_def validate_exception_edge_def and_then_def
        validate_non_exception_edge_def lookup_known_block_def nth_opt_def validate_edge_param_forwarding_def
        guarded_function_def label_index_def edge_with_args_def res_bind_def param_names_def)
  from 3 have "check_all (validate_block (fn_blocks guarded_function)) (fn_blocks guarded_function) = Inr ()"
    by simp
  with 1 2 show ?thesis by (simp add: validate_function_def validate_function_body_def and_then_def del: check_all_ok)
qed

theorem validated_never_stuck_witness:
  "run_linear adding_sem (fn_blocks guarded_function) 5 (edge_new (BlockLabel 0)) None 0 \<noteq> Some Stuck"
  by (rule validated_never_stuck [OF guarded_function_validates]) (simp add: guarded_function_def)

theorem relabelled_populated_validate_witness:
  "\<exists>bs. relabel_dense two_blocks = Some bs \<and> validate_dense (populate_exception_edge_args bs) = Inr () \<and>
    list_all (\<lambda>b. case exc_edge b of None \<Rightarrow> True
      | Some e \<Rightarrow> validate_exception_edge (populate_exception_edge_args bs) b e = Inr ())
      (populate_exception_edge_args bs)"
proof -
  have "relabel_dense two_blocks \<noteq> None"
    unfolding relabel_dense_defined by (simp add: two_blocks_def block_targets_def)
  then obtain bs where "relabel_dense two_blocks = Some bs" by auto
  moreover have "distinct (map label two_blocks)" by (simp add: two_blocks_def)
  ultimately show ?thesis using relabelled_populated_validate by blast
qed

end
