(* ===== verification/Exception_Split.thy ===== *)
theory Exception_Split
  imports Validate
begin

text \<open>
  \<open>passes/blockpy_to_bb/exception_pass/mod.rs\<close>: a block with an exception edge is split after every
  instruction that updates the state an exception handler can see, so that the handler is entered
  with the state of the instruction that failed; then the arguments of the exception edges are set.
\<close>

fun op_updates_exception_state :: "'n core_expr \<Rightarrow> bool" where
  "op_updates_exception_state (CoreOp m (Store n v)) = True"
| "op_updates_exception_state (CoreOp m (Del n q)) = True"
| "op_updates_exception_state _ = False"

definition segment_block ::
  "('e, 'e) block \<Rightarrow> block_label \<Rightarrow> 'e list \<Rightarrow> 'e block_term \<Rightarrow> ('e, 'e) block" where
  "segment_block b l ops t =
     \<lparr>label = l, body = ops, bterm = t, params = bb_params (params b), exc_edge = exc_edge b\<rparr>"

text \<open>The loop over the instructions of a block: \<open>l\<close> is the label of the segment being built and
  \<open>seg\<close> its instructions so far.\<close>

fun split_ops ::
  "('e \<Rightarrow> bool) \<Rightarrow> ('e, 'e) block \<Rightarrow> block_label \<Rightarrow> 'e list \<Rightarrow> 'e list \<Rightarrow> function_name_gen
    \<Rightarrow> (('e, 'e) block list \<times> function_name_gen) option" where
  "split_ops upd b l seg [] g = Some ([], g)"
| "split_ops upd b l seg [op] g = Some ([segment_block b l (seg @ [op]) (bterm b)], g)"
| "split_ops upd b l seg (op # op' # ops) g =
     (if upd op then
        (case next_block_name g of
           None \<Rightarrow> None
         | Some (n, g1) \<Rightarrow>
             map_option (\<lambda>(bs, g2). (segment_block b l (seg @ [op]) (Jump (edge_new n)) # bs, g2))
               (split_ops upd b n [] (op' # ops) g1))
      else split_ops upd b l (seg @ [op]) (op' # ops) g)"

definition split_block ::
  "('e \<Rightarrow> bool) \<Rightarrow> ('e, 'e) block \<Rightarrow> function_name_gen \<Rightarrow> (('e, 'e) block list \<times> function_name_gen) option" where
  "split_block upd b g =
     (if exc_edge b = None \<or> body b = [] then Some ([b], g) else split_ops upd b (label b) [] (body b) g)"

definition split_exception_blocks ::
  "('e \<Rightarrow> bool) \<Rightarrow> ('e, 'e) block list \<Rightarrow> function_name_gen \<Rightarrow> (('e, 'e) block list \<times> function_name_gen) option" where
  "split_exception_blocks upd bs g =
     do { (bss, g') \<leftarrow> st_map (split_block upd) bs g; Some (concat bss, g') }"

definition lower_function_try_jump_exception_flow ::
  "located_core bp_function \<Rightarrow> located_core bp_function option" where
  "lower_function_try_jump_exception_flow f =
     do { (bs, g) \<leftarrow> split_exception_blocks op_updates_exception_state (fn_blocks f) (fn_name_gen f);
          Some (f\<lparr>fn_name_gen := g, fn_blocks := populate_exception_edge_args bs\<rparr>) }"

definition lower_try_jump_exception_flow :: "located_core bp_module \<Rightarrow> located_core bp_module option" where
  "lower_try_jump_exception_flow m =
     do { fs \<leftarrow> opt_map lower_function_try_jump_exception_flow (callable_defs m);
          Some (m\<lparr>callable_defs := fs\<rparr>) }"

section \<open>Labels\<close>

text \<open>\<open>fresh_after ls g g'\<close>: the generator went from \<open>g\<close> to \<open>g'\<close> and handed out the labels \<open>ls\<close>.\<close>

definition fresh_after :: "block_label list \<Rightarrow> function_name_gen \<Rightarrow> function_name_gen \<Rightarrow> bool" where
  "fresh_after ls g g' \<longleftrightarrow> distinct ls \<and> set ls \<inter> issued g = {} \<and> issued g' = issued g \<union> set ls"

lemma fresh_after_Nil [simp]: "fresh_after [] g g"
  by (simp add: fresh_after_def)

lemma fresh_after_Cons:
  "next_block_name g = Some (l, g1) \<Longrightarrow> fresh_after ls g1 g2 \<Longrightarrow> fresh_after (l # ls) g g2"
  using next_block_name_fresh [of g l g1] by (auto simp: fresh_after_def)

lemma fresh_after_append: "fresh_after xs g g1 \<Longrightarrow> fresh_after ys g1 g2 \<Longrightarrow> fresh_after (xs @ ys) g g2"
  by (auto simp: fresh_after_def)

lemma split_ops_labels:
  "split_ops upd b l seg ops g = Some (bs, g') \<Longrightarrow> ops \<noteq> [] \<Longrightarrow>
     \<exists>ls. map label bs = l # ls \<and> fresh_after ls g g'"
proof (induction upd b l seg ops g arbitrary: bs rule: split_ops.induct)
  case (3 upd b l seg op op' ops g)
  show ?case
  proof (cases "upd op")
    case True
    with "3.prems" obtain n g1 cs where 1: "next_block_name g = Some (n, g1)"
      "split_ops upd b n [] (op' # ops) g1 = Some (cs, g')"
      "bs = segment_block b l (seg @ [op]) (Jump (edge_new n)) # cs"
      by (auto split: option.splits)
    from "3.IH"(1) [OF True 1(1) refl 1(2)] obtain ls where "map label cs = n # ls" "fresh_after ls g1 g'" by auto
    with 1 show ?thesis by (intro exI [of _ "n # ls"]) (simp add: segment_block_def fresh_after_Cons)
  next
    case False
    with "3.IH"(2) "3.prems" show ?thesis by simp
  qed
qed (auto simp: segment_block_def)

lemma split_block_labels:
  assumes "split_block upd b g = Some (bs, g')"
  shows "\<exists>ls. map label bs = label b # ls \<and> fresh_after ls g g'"
  using assms split_ops_labels [of upd b "label b" "[]" "body b" g bs g']
  by (auto simp: split_block_def split: if_splits)

lemma split_blocks_labels:
  assumes "st_map (split_block upd) bs g = Some (bss, g')" "distinct (map label bs)" "label ` set bs \<subseteq> issued g"
  shows "distinct (map label (concat bss)) \<and>
    (\<exists>ls. set (map label (concat bss)) = label ` set bs \<union> set ls \<and> fresh_after ls g g')"
  using assms
proof (induction bs arbitrary: g bss)
  case (Cons b bs)
  from Cons.prems(1) obtain cs g1 css where 1: "split_block upd b g = Some (cs, g1)"
    "st_map (split_block upd) bs g1 = Some (css, g')" "bss = cs # css" by (rule st_map_ConsE)
  from split_block_labels [OF 1(1)] obtain ls where ls: "map label cs = label b # ls" "fresh_after ls g g1"
    by (elim exE conjE)
  then have "label ` set bs \<subseteq> issued g1" using Cons.prems(3) by (auto simp: fresh_after_def)
  with Cons.IH [OF 1(2)] Cons.prems(2) obtain ks where dist: "distinct (map label (concat css))"
    and ks: "set (map label (concat css)) = label ` set bs \<union> set ks" "fresh_after ks g1 g'" by auto
  have set_cs: "set (map label cs) = insert (label b) (set ls)" by (simp add: ls(1) del: set_map)
  have "set (map label cs) \<inter> set (map label (concat css)) = {}"
    unfolding set_cs ks(1) using ls(2) ks(2) Cons.prems(2,3) by (auto simp: fresh_after_def)
  moreover have "distinct (map label cs)"
    unfolding ls(1) using ls(2) Cons.prems(3) by (auto simp: fresh_after_def)
  moreover have "set (map label (concat bss)) = label ` set (b # bs) \<union> set (ls @ ks)"
    using set_cs ks(1) by (simp add: 1(3)) blast
  ultimately show ?case
    using dist fresh_after_append [OF ls(2) ks(2)] unfolding 1(3) concat.simps map_append distinct_append by metis
qed simp

section \<open>Simulation\<close>

lemma segment_block_sel [simp]:
  "label (segment_block b l ops t) = l" "body (segment_block b l ops t) = ops"
  "bterm (segment_block b l ops t) = t" "params (segment_block b l ops t) = bb_params (params b)"
  "exc_edge (segment_block b l ops t) = exc_edge b"
  by (simp_all add: segment_block_def)

lemma exec_segment [simp]: "exec_linear S (segment_block b l ops t) st = exec_body S ops (exec_term S t) st"
  by (simp add: exec_linear_def)

lemma split_ops_steps:
  assumes "split_ops upd b l seg ops g = Some (bs, g')" "ops \<noteq> []" "target e = l"
    and "\<forall>c\<in>set bs. find_block T (label c) = Some c"
  shows "steps_to S (exec_linear S) T e x st (exc_edge b)
    (exec_body S (seg @ ops) (exec_term S (bterm b)) (enter_block S (bb_params (params b)) (edge_args e) x st))"
  using assms
proof (induction upd b l seg ops g arbitrary: bs e x st rule: split_ops.induct)
  case (2 upd b l seg op g)
  then have "find_block T (target e) = Some (segment_block b l (seg @ [op]) (bterm b))"
    by auto
  from steps_block [OF this, of S "exec_linear S" x st] show ?case
    by simp
next
  case (3 upd b l seg op op' ops g)
  show ?case
  proof (cases "upd op")
    case True
    with "3.prems" obtain n g1 cs where 1: "next_block_name g = Some (n, g1)"
      "split_ops upd b n [] (op' # ops) g1 = Some (cs, g')"
      "bs = segment_block b l (seg @ [op]) (Jump (edge_new n)) # cs"
      by (auto split: option.splits)
    let ?s = "enter_block S (bb_params (params b)) (edge_args e) x st"
    have "find_block T (target e) = Some (segment_block b l (seg @ [op]) (Jump (edge_new n)))"
      using "3.prems"(3,4) by (simp add: 1(3))
    from steps_block [OF this, of S "exec_linear S" x st]
    have first: "steps_to S (exec_linear S) T e x st (exc_edge b)
        (exec_body S (seg @ [op]) (exec_term S (Jump (edge_new n))) ?s)"
      by simp
    have split: "exec_body S (seg @ op # op' # ops) k ?s
        = exec_body S (seg @ [op]) (exec_body S (op' # ops) k) ?s" for k
      using exec_body_append [of S "seg @ [op]" "op' # ops" k ?s] by simp
    show ?thesis
    proof -
      consider (ok) s1 where "\<And>k. exec_body S (seg @ [op]) k ?s = k s1"
        | (thrown) c where "\<And>k. exec_body S (seg @ [op]) k ?s = c"
        using exec_body_cases [of S "seg @ [op]" ?s] by blast
      then show ?thesis
      proof cases
      case (ok s1)
      note run1 = this
      have "steps_to S (exec_linear S) T (edge_new n) None s1 (exc_edge b)
          (exec_body S (op' # ops) (exec_term S (bterm b)) s1)"
        using "3.IH"(1) [OF True 1(1) refl 1(2), of "edge_new n" None s1] "3.prems"(4) by (simp add: 1(3))
      with first show ?thesis unfolding split by (simp add: run1 steps_trans)
    next
      case (thrown c)
      with first show ?thesis unfolding split by simp
    qed
    qed
  next
    case False
    with 3 show ?thesis by simp
  qed
qed simp

lemma split_block_steps:
  assumes "split_block upd b g = Some (bs, g')" "target e = label b" "bb_params (params b) = params b"
    and "\<forall>c\<in>set bs. find_block T (label c) = Some c"
  shows "steps_to S (exec_linear S) T e x st (exc_edge b)
    (exec_linear S b (enter_block S (params b) (edge_args e) x st))"
proof (cases "exc_edge b = None \<or> body b = []")
  case True
  with assms have "find_block T (target e) = Some b" by (auto simp: split_block_def)
  then show ?thesis by (rule steps_block)
next
  case False
  with assms(1) have "split_ops upd b (label b) [] (body b) g = Some (bs, g')" by (simp add: split_block_def)
  from split_ops_steps [OF this _ assms(2,4), of S x st] False assms(3) show ?thesis
    by (simp add: exec_linear_def)
qed

lemma st_map_mem:
  "st_map f xs s = Some (ys, s') \<Longrightarrow> x \<in> set xs \<Longrightarrow> \<exists>u y u'. f x u = Some (y, u') \<and> y \<in> set ys"
  by (induction xs arbitrary: s ys) (fastforce simp: bind_eq_Some_conv)+

lemma split_matches:
  assumes "split_exception_blocks upd bs g = Some (bs', g')"
    and "distinct (map label bs)" "label ` set bs \<subseteq> issued g" "\<Union> (block_targets ` set bs) \<subseteq> issued g"
    and "\<And>b. b \<in> set bs \<Longrightarrow> bb_params (params b) = params b"
  shows "matches S (exec_linear S) bs (exec_linear S) bs' (issued g)"
proof -
  from assms(1) obtain bss where bss: "st_map (split_block upd) bs g = Some (bss, g')" "bs' = concat bss"
    by (auto simp: split_exception_blocks_def bind_eq_Some_conv)
  from split_blocks_labels [OF bss(1) assms(2,3)] obtain ls where dist: "distinct (map label bs')"
    and ls: "set (map label bs') = label ` set bs \<union> set ls" "fresh_after ls g g'"
    unfolding bss(2) by (elim exE conjE)
  show ?thesis unfolding matches_def
  proof (intro allI impI)
    fix e :: block_edge and x st
    assume e: "target e \<in> issued g"
    show "case find_block bs (target e) of
           None \<Rightarrow> find_block bs' (target e) = None
         | Some b \<Rightarrow>
             (let c = exec_linear S b (enter_block S (params b) (edge_args e) x st) in
              steps_to S (exec_linear S) bs' e x st (exc_edge b) c \<and>
              (\<forall>e' x' st'. dispatch (exc_edge b) c = Inl (e', x', st') \<longrightarrow> target e' \<in> issued g))"
    proof (cases "find_block bs (target e)")
      case None
      then have "target e \<notin> label ` set bs" by (auto simp: find_block_None)
      with e ls(2) have "target e \<notin> set (map label bs')" unfolding ls(1) by (auto simp: fresh_after_def)
      then have "find_block bs' (target e) = None" unfolding find_block_None by (metis image_eqI set_map)
      with None show ?thesis by simp
    next
      case (Some b)
      then have b: "b \<in> set bs" "label b = target e" by (auto dest: find_block_Some)
      from st_map_mem [OF bss(1) b(1)] obtain u cs u' where cs: "split_block upd b u = Some (cs, u')" "cs \<in> set bss"
        by blast
      have "\<forall>c\<in>set cs. find_block bs' (label c) = Some c"
        using cs(2) dist unfolding bss(2) by (auto intro!: find_block_distinct)
      from split_block_steps [OF cs(1) b(2) [symmetric] assms(5) [OF b(1)] this]
      have "steps_to S (exec_linear S) bs' e x st (exc_edge b)
          (exec_linear S b (enter_block S (params b) (edge_args e) x st))" .
      moreover have "target e' \<in> issued g" if "dispatch (exc_edge b) (exec_linear S b s) = Inl (e', x', s')" for s e' x' s'
      proof -
        have "block_targets b \<subseteq> issued g" using assms(4) b(1) by blast
        with that show ?thesis
          by (auto simp: dispatch_def block_targets_def successors_edges subset_iff
              split: control.splits option.splits dest!: exec_linear_target)
      qed
      ultimately show ?thesis unfolding Some option.case Let_def by blast
    qed
  qed
qed

section \<open>Totality and shape\<close>

definition isolated :: "('e \<Rightarrow> bool) \<Rightarrow> 'e list \<Rightarrow> bool" where
  "isolated upd ops \<longleftrightarrow> list_all (\<lambda>op. \<not> upd op) (butlast ops)"

definition split_result ::
  "('e \<Rightarrow> bool) \<Rightarrow> nat \<Rightarrow> 'e list \<Rightarrow> function_name_gen \<Rightarrow> (('e, 'e) block list \<times> function_name_gen) option \<Rightarrow> bool" where
  "split_result upd n ops g r \<longleftrightarrow>
     (\<exists>bs g'. r = Some (bs, g') \<and> unat (next_block_id g') \<le> unat (next_block_id g) + n \<and>
        concat (map body bs) = ops \<and> (\<forall>c\<in>set bs. exc_edge c = None \<or> isolated upd (body c)))"

lemma split_resultE:
  assumes "split_result upd n ops g r"
  obtains bs g' where "r = Some (bs, g')" "unat (next_block_id g') \<le> unat (next_block_id g) + n"
    "concat (map body bs) = ops" "\<And>c. c \<in> set bs \<Longrightarrow> exc_edge c = None \<or> isolated upd (body c)"
  using assms unfolding split_result_def by blast

lemma split_ops_result:
  assumes "unat (next_block_id g) + length ops \<le> 2 ^ 32" "ops \<noteq> []" "list_all (\<lambda>op. \<not> upd op) seg"
  shows "split_result upd (length ops) (seg @ ops) g (split_ops upd b l seg ops g)"
  using assms
proof (induction upd b l seg ops g rule: split_ops.induct)
  case (2 upd b l seg op g)
  then show ?case by (auto simp: split_result_def isolated_def)
next
  case (3 upd b l seg op op' ops g)
  show ?case
  proof (cases "upd op")
    case True
    from "3.prems" have "next_block_name g \<noteq> None" by (simp add: next_block_name_panics)
    then obtain n g1 where n: "next_block_name g = Some (n, g1)" by auto
    note nxt = next_block_name_Some(2) [OF n]
    have "split_result upd (length (op' # ops)) ([] @ op' # ops) g1 (split_ops upd b n [] (op' # ops) g1)"
      using "3.prems" by (intro "3.IH"(1) [OF True n refl]) (simp_all add: nxt)
    then show ?thesis
    proof (rule split_resultE)
      fix bs g' assume r: "split_ops upd b n [] (op' # ops) g1 = Some (bs, g')"
        "unat (next_block_id g') \<le> unat (next_block_id g1) + length (op' # ops)"
        "concat (map body bs) = [] @ op' # ops" "\<And>c. c \<in> set bs \<Longrightarrow> exc_edge c = None \<or> isolated upd (body c)"
      have "isolated upd (seg @ [op])" using "3.prems"(3) by (simp add: isolated_def)
      with r True n nxt show ?thesis by (simp add: split_result_def)
    qed
  next
    case False
    with "3.prems" "3.IH"(2) [OF False] show ?thesis
      by (auto simp: split_result_def)
  qed
qed simp

lemma split_block_result:
  assumes "unat (next_block_id g) + length (body b) \<le> 2 ^ 32"
  shows "split_result upd (length (body b)) (body b) g (split_block upd b g)"
proof (cases "exc_edge b = None \<or> body b = []")
  case True
  then show ?thesis by (auto simp: split_block_def split_result_def isolated_def)
next
  case False
  then show ?thesis using split_ops_result [of g "body b" upd "[]" b "label b"] assms
    by (auto simp: split_block_def)
qed

lemma split_blocks_result:
  assumes "unat (next_block_id g) + length (concat (map body bs)) \<le> 2 ^ 32"
  shows "split_result upd (length (concat (map body bs))) (concat (map body bs)) g (split_exception_blocks upd bs g)"
  using assms
proof (induction bs arbitrary: g)
  case (Cons b bs)
  from Cons.prems have "unat (next_block_id g) + length (body b) \<le> 2 ^ 32" by simp
  from split_block_result [OF this, of upd] show ?case
  proof (rule split_resultE)
    fix cs g1 assume 1: "split_block upd b g = Some (cs, g1)" "unat (next_block_id g1) \<le> unat (next_block_id g) + length (body b)"
      "concat (map body cs) = body b" "\<And>c. c \<in> set cs \<Longrightarrow> exc_edge c = None \<or> isolated upd (body c)"
    with Cons.prems have "unat (next_block_id g1) + length (concat (map body bs)) \<le> 2 ^ 32" by simp
    from Cons.IH [OF this] show ?thesis
    proof (rule split_resultE)
      fix ds g2 assume 2: "split_exception_blocks upd bs g1 = Some (ds, g2)"
        "unat (next_block_id g2) \<le> unat (next_block_id g1) + length (concat (map body bs))"
        "concat (map body ds) = concat (map body bs)" "\<And>c. c \<in> set ds \<Longrightarrow> exc_edge c = None \<or> isolated upd (body c)"
      then obtain dss where "st_map (split_block upd) bs g1 = Some (dss, g2)" "ds = concat dss"
        by (auto simp: split_exception_blocks_def bind_eq_Some_conv)
      then have "split_exception_blocks upd (b # bs) g = Some (cs @ ds, g2)"
        by (simp add: split_exception_blocks_def 1(1))
      with 1 2 show ?thesis by (auto simp: split_result_def)
    qed
  qed
qed (simp add: split_exception_blocks_def split_result_def)

section \<open>Properties\<close>

text \<open>C9: Splitting blocks at the instructions that update the exception state does not change what a
  function does: entered at any label it had before, it returns, raises or runs forever exactly as
  it did, whatever the instructions mean.\<close>

theorem split_exception_blocks_equiv:
  assumes "split_exception_blocks upd bs g = Some (bs', g')"
    and "distinct (map label bs)" "label ` set bs \<subseteq> issued g" "\<Union> (block_targets ` set bs) \<subseteq> issued g"
    and "\<And>b. b \<in> set bs \<Longrightarrow> bb_params (params b) = params b" and "target e \<in> issued g"
  shows "(\<exists>n. run_linear S bs n e x st = Some out) \<longleftrightarrow> (\<exists>m. run_linear S bs' m e x st = Some out)"
  by (rule matches_equiv [OF split_matches [OF assms(1-5)] assms(6)])

definition storing_blocks :: "(nat, nat) block list" where
  "storing_blocks =
     [\<lparr>label = BlockLabel 0, body = [3, 2, 5], bterm = Jump (edge_new (BlockLabel 1)), params = [],
       exc_edge = Some (edge_new (BlockLabel 1))\<rparr>,
      \<lparr>label = BlockLabel 1, body = [2, 4], bterm = Return 1, params = [], exc_edge = None\<rparr>]"

definition two_issued :: function_name_gen where
  "two_issued = (function_name_gen_new (function_id_new 0 0))\<lparr>next_block_id := 2\<rparr>"

lemma storing_blocks_split:
  "\<exists>bs g. split_exception_blocks (\<lambda>e. e = 2) storing_blocks two_issued = Some (bs, g)"
proof -
  have "unat (next_block_id two_issued) + length (concat (map body storing_blocks)) \<le> 2 ^ 32"
    by (simp add: two_issued_def storing_blocks_def)
  from split_blocks_result [OF this] show ?thesis by (rule split_resultE) blast
qed

theorem split_exception_blocks_equiv_witness:
  "\<exists>bs g. split_exception_blocks (\<lambda>e. e = 2) storing_blocks two_issued = Some (bs, g) \<and>
    (\<exists>m. run_linear adding_sem bs m (edge_new (BlockLabel 0)) None 0 = Some (Returned 1 17))"
proof -
  obtain bs g where split: "split_exception_blocks (\<lambda>e. e = 2) storing_blocks two_issued = Some (bs, g)"
    using storing_blocks_split by blast
  have issued: "issued two_issued = {l. label_index l < 2}" by (simp add: issued_def two_issued_def)
  have "run_linear adding_sem storing_blocks 2 (edge_new (BlockLabel 0)) None 0 = Some (Returned 1 17)"
    by (simp add: storing_blocks_def adding_sem_def find_block_Cons exec_linear_def dispatch_def numeral_2_eq_2)
  then have runs: "\<exists>n. run_linear adding_sem storing_blocks n (edge_new (BlockLabel 0)) None 0 = Some (Returned 1 17)"
    by (rule exI)
  have side: "distinct (map label storing_blocks)" "label ` set storing_blocks \<subseteq> issued two_issued"
    "\<Union> (block_targets ` set storing_blocks) \<subseteq> issued two_issued" "target (edge_new (BlockLabel 0)) \<in> issued two_issued"
    by (simp_all add: issued storing_blocks_def label_index_def block_targets_def)
  have bb: "bb_params (params b) = params b" if "b \<in> set storing_blocks" for b
    using that by (auto simp: storing_blocks_def bb_params_def)
  have "\<exists>m. run_linear adding_sem bs m (edge_new (BlockLabel 0)) None 0 = Some (Returned 1 17)"
    by (rule iffD1 [OF split_exception_blocks_equiv [OF split side(1-3) bb side(4)] runs])
  with split show ?thesis by blast
qed

text \<open>C20: As long as 32 bits can label a block per instruction, the split succeeds, keeps all
  instructions in their order, and in the result an instruction that updates the exception state is
  the last one of its block whenever that block has a handler.\<close>

theorem split_exception_blocks_isolates:
  assumes "unat (next_block_id g) + length (concat (map body bs)) \<le> 2 ^ 32"
  shows "\<exists>bs' g'. split_exception_blocks upd bs g = Some (bs', g') \<and>
    concat (map body bs') = concat (map body bs) \<and>
    list_all (\<lambda>c. exc_edge c = None \<or> isolated upd (body c)) bs'"
  using split_blocks_result [OF assms, of upd] unfolding split_result_def list_all_iff by blast

theorem split_exception_blocks_isolates_witness:
  "\<exists>bs g. split_exception_blocks (\<lambda>e. e = 2) storing_blocks two_issued = Some (bs, g) \<and>
    concat (map body bs) = [3, 2, 5, 2, 4] \<and>
    list_all (\<lambda>c. exc_edge c = None \<or> isolated (\<lambda>e. e = 2) (body c)) bs"
  using split_exception_blocks_isolates [of two_issued storing_blocks "\<lambda>e. e = 2"]
  by (simp add: two_issued_def storing_blocks_def)

end
