(* ===== verification/Constants.thy ===== *)
theory Constants
  imports Program
begin

text \<open>
  Module constants. \<open>ModuleConstantExtractor\<close> of \<open>passes/name_binding.rs\<close> moves every literal and
  every load of a runtime name into the constants of the module; \<open>CodegenExprNormalizer\<close> of
  \<open>passes/blockpy_to_bb/strings/mod.rs\<close> turns the expressions into the form of the code generator
  and does the same for literals that are left. Both number the constants with 32 bits and panic
  when these run out.
\<close>

section \<open>Extraction\<close>

definition constant_location_expr :: "meta \<Rightarrow> u32 \<Rightarrow> located_core" where
  "constant_location_expr m i =
     CoreOp m (Load \<lparr>located_id = ''__dp_constant'', location = LocConstant i\<rparr>)"

fun is_extracted :: "located_core \<Rightarrow> bool" where
  "is_extracted (CoreLit m l) = True"
| "is_extracted (CoreOp m (Load n)) = located_is_runtime n"
| "is_extracted _ = False"

function extract_expr :: "located_core \<Rightarrow> located_core list \<Rightarrow> (located_core \<times> located_core list) option" where
  "extract_expr e cs =
     (if is_extracted e then
        (if length cs < 2 ^ 32 then Some (constant_location_expr (core_meta e) (of_nat (length cs)), cs @ [e]) else None)
      else (case st_map extract_expr (core_children e) cs of
              None \<Rightarrow> None
            | Some (ys, cs') \<Rightarrow> Some (core_with_children e ys, cs')))"
  by pat_completeness auto
termination
  by (relation "measure (size \<circ> fst)") (simp_all only: wf_measure in_measure comp_apply fst_conv core_child_size)

declare extract_expr.simps [simp del]

definition extract_function ::
  "located_core bp_function \<Rightarrow> located_core list \<Rightarrow> (located_core bp_function \<times> located_core list) option" where
  "extract_function = map_fn_st extract_expr"

text \<open>The assertion that the module has no constants yet is a debug assertion; they are replaced.\<close>

definition extract_module :: "located_core bp_module \<Rightarrow> located_core bp_module option" where
  "extract_module m =
     do { (fs, cs) \<leftarrow> st_map extract_function (callable_defs m) [];
          Some (m\<lparr>callable_defs := fs, module_constants := cs\<rparr>) }"

section \<open>The form of the code generator\<close>

function normalize_expr :: "located_core \<Rightarrow> located_core list \<Rightarrow> (cg_expr \<times> located_core list) option" where
  "normalize_expr e cs =
     (case e of
        CoreLit m l \<Rightarrow>
          (if length cs < 2 ^ 32 then
             Some (CgOp m (Load \<lparr>located_id = ''__dp_constant_'' @ show_nat (length cs),
                                 location = LocConstant (of_nat (length cs))\<rparr>), cs @ [e])
           else None)
      | CoreCellRefForName m n \<Rightarrow> None
      | CoreOp m op \<Rightarrow>
          (case st_map normalize_expr (core_children e) cs of
             None \<Rightarrow> None
           | Some (ys, cs') \<Rightarrow> Some (CgOp m (op_with_children op ys), cs')))"
  by pat_completeness auto
termination
  by (relation "measure (size \<circ> fst)") (simp_all only: wf_measure in_measure comp_apply fst_conv core_child_size)

declare normalize_expr.simps [simp del]

definition normalize_bb_module_strings :: "located_core bp_module \<Rightarrow> cg_expr bp_module option" where
  "normalize_bb_module_strings m =
     do { (fs, cs) \<leftarrow> st_map (map_fn_st normalize_expr) (callable_defs m) [];
          Some \<lparr>mod_name_gen = mod_name_gen m, global_names = global_names m, callable_defs = fs,
                module_constants = module_constants m @ cs, counter_defs = counter_defs m\<rparr> }"

section \<open>Reading constants back\<close>

text \<open>The meaning of the rewritten expressions: a load of a constant stands for the constant.\<close>

definition constant_at :: "located_core list \<Rightarrow> located_name \<Rightarrow> located_core option" where
  "constant_at cs n = (case location n of LocConstant i \<Rightarrow> nth_opt cs (unat i) | _ \<Rightarrow> None)"

fun constant_of :: "located_core list \<Rightarrow> ('e, located_name) operation \<Rightarrow> located_core option" where
  "constant_of cs (Load n) = constant_at cs n"
| "constant_of cs op = None"

fun core_constant :: "located_core list \<Rightarrow> located_core \<Rightarrow> located_core option" where
  "core_constant cs (CoreOp m op) = constant_of cs op"
| "core_constant cs e = None"

function resolve :: "located_core list \<Rightarrow> located_core \<Rightarrow> located_core" where
  "resolve cs e =
     (case core_constant cs e of
        Some c \<Rightarrow> c
      | None \<Rightarrow> core_with_children e (map (resolve cs) (core_children e)))"
  by pat_completeness auto
termination
  by (relation "measure (size \<circ> snd)") (simp_all only: wf_measure in_measure comp_apply snd_conv core_child_size)

declare resolve.simps [simp del]

text \<open>Nodes that exist only for the code generator have no counterpart.\<close>

function resolve_cg :: "located_core list \<Rightarrow> cg_expr \<Rightarrow> located_core option" where
  "resolve_cg cs c =
     (case c of
        CgOp m op \<Rightarrow>
          (case constant_of cs op of
             Some e \<Rightarrow> Some e
           | None \<Rightarrow> map_option (\<lambda>ys. CoreOp m (op_with_children op ys)) (opt_map (resolve_cg cs) (cg_children c)))
      | _ \<Rightarrow> None)"
  by pat_completeness auto
termination
  by (relation "measure (size \<circ> snd)") (simp_all only: wf_measure in_measure comp_apply snd_conv cg_child_size)

declare resolve_cg.simps [simp del]

text \<open>Expressions the extraction starts from: no constants yet.\<close>

definition constant_free :: "located_core \<Rightarrow> bool" where
  "constant_free e \<longleftrightarrow>
     list_all (\<lambda>x. case x of CoreOp m (Load n) \<Rightarrow> as_constant (location n) = None | _ \<Rightarrow> True) (core_preorder e)"

definition cell_refs_resolved :: "'n core_expr \<Rightarrow> bool" where
  "cell_refs_resolved e \<longleftrightarrow>
     list_all (\<lambda>x. case x of CoreCellRefForName m n \<Rightarrow> False | _ \<Rightarrow> True) (core_preorder e)"

definition literal_free :: "'n core_expr \<Rightarrow> bool" where
  "literal_free e \<longleftrightarrow> list_all (\<lambda>x. case x of CoreLit m l \<Rightarrow> False | _ \<Rightarrow> True) (core_preorder e)"

section \<open>Lemmas\<close>

lemma list_all_preorder_child:
  "list_all P (core_preorder e) \<Longrightarrow> x \<in> set (core_children e) \<Longrightarrow> list_all P (core_preorder x)"
  by (subst (asm) core_preorder.simps) (auto simp: list_all_iff)

lemma list_all_preorder_self: "list_all P (core_preorder e) \<Longrightarrow> P e"
  by (subst (asm) core_preorder.simps) simp

lemma list_all_preorder_with:
  "length ys = length (core_children e) \<Longrightarrow>
     list_all P (core_preorder (core_with_children e ys)) \<longleftrightarrow>
       P (core_with_children e ys) \<and> (\<forall>y\<in>set ys. list_all P (core_preorder y))"
  by (simp add: cor.preorder_with_children list_all_iff)

lemma constant_free_child: "constant_free e \<Longrightarrow> x \<in> set (core_children e) \<Longrightarrow> constant_free x"
  unfolding constant_free_def by (rule list_all_preorder_child)

lemma cell_refs_child: "cell_refs_resolved e \<Longrightarrow> x \<in> set (core_children e) \<Longrightarrow> cell_refs_resolved x"
  unfolding cell_refs_resolved_def by (rule list_all_preorder_child)

lemma literal_free_child: "literal_free e \<Longrightarrow> x \<in> set (core_children e) \<Longrightarrow> literal_free x"
  unfolding literal_free_def by (rule list_all_preorder_child)

lemma constant_free_self: "constant_free e \<Longrightarrow> core_constant cs e = None"
proof (cases e)
  case (CoreOp m op)
  assume "constant_free e"
  then have "case e of CoreOp m (Load n) \<Rightarrow> as_constant (location n) = None | _ \<Rightarrow> True"
    unfolding constant_free_def by (rule list_all_preorder_self)
  then show ?thesis
    by (cases op) (auto simp: CoreOp constant_at_def split: name_location.splits)
qed simp_all

lemma constant_at_new:
  "length cs < 2 ^ 32 \<Longrightarrow> extends (cs @ [e]) ds \<Longrightarrow>
     constant_at ds \<lparr>located_id = i, location = LocConstant (of_nat (length cs))\<rparr> = Some e"
  by (auto simp: constant_at_def extends_def nth_opt_def unat_of_nat take_bit_nat_eq_self nth_append)

text \<open>Rebuilding a node twice.\<close>

lemma core_constant_with: "core_constant cs (core_with_children e ys) = core_constant cs e"
proof (cases e)
  case (CoreOp m op)
  then show ?thesis by (cases op) simp_all
qed simp_all

lemma core_with_children_back:
  "length ys = length (core_children e) \<Longrightarrow> core_with_children (core_with_children e ys) (core_children e) = e"
  by (cases e) (simp_all add: op_with_children_twice)

lemma extract_resolves:
  assumes "extract_expr e cs = Some (e', cs')" "constant_free e"
  shows "extends cs cs' \<and> (\<forall>ds. extends cs' ds \<longrightarrow> resolve ds e' = e)"
  using assms
proof (induction e arbitrary: cs e' cs' rule: cor.node_induct)
  case (node e)
  show ?case
  proof (cases "is_extracted e")
    case True
    with node.prems(1) have *: "length cs < 2 ^ 32" "cs' = cs @ [e]"
      "e' = constant_location_expr (core_meta e) (of_nat (length cs))"
      by (auto simp: extract_expr.simps [of e cs] split: if_splits)
    have "resolve ds e' = e" if "extends cs' ds" for ds
      using constant_at_new [OF *(1), of e ds] that
      by (simp add: *(2,3) constant_location_expr_def resolve.simps [of ds "CoreOp _ _"])
    then show ?thesis by (auto simp: *(2) extends_def)
  next
    case False
    with node.prems(1) obtain ys where ys: "st_map extract_expr (core_children e) cs = Some (ys, cs')"
      "e' = core_with_children e ys"
      by (auto simp: extract_expr.simps [of e cs] split: option.splits)
    have "extends cs cs' \<and> (\<forall>ds. extends cs' ds \<longrightarrow> list_all2 (\<lambda>x y. resolve ds y = x) (core_children e) ys)"
      using ys(1)
    proof (rule st_map_rel)
      fix x u y u' assume x: "x \<in> set (core_children e)" "extract_expr x u = Some (y, u')"
      then show "extends u u' \<and> (\<forall>v. extends u' v \<longrightarrow> resolve v y = x)"
        using node.IH node.prems(2) constant_free_child by blast
    qed (rule extends_refl, rule extends_trans)
    then have ext: "extends cs cs'" and kids: "\<And>ds. extends cs' ds \<Longrightarrow> map (resolve ds) ys = core_children e"
      by (auto simp: list_all2_conv_all_nth intro!: nth_equalityI)
    have len: "length ys = length (core_children e)" using ys(1) by (rule st_map_length)
    have "resolve ds e' = e" if "extends cs' ds" for ds
      unfolding ys(2) using kids [OF that] node.prems(2)
      by (subst resolve.simps) (simp add: core_constant_with constant_free_self cor.children_with [OF len]
          core_with_children_back [OF len])
    with ext show ?thesis by blast
  qed
qed

lemma constant_of_with: "constant_of cs (op_with_children op ys) = constant_of cs op"
  by (cases op) simp_all

lemma opt_map_all2: "list_all2 (\<lambda>x y. f y = Some (g x)) xs ys \<Longrightarrow> opt_map f ys = Some (map g xs)"
  by (induction rule: list_all2_induct) simp_all

lemma normalize_resolves:
  assumes "normalize_expr e cs = Some (c, cs')" "literal_free e"
  shows "cs = cs' \<and> (\<forall>ds. resolve_cg ds c = Some (resolve ds e))"
  using assms
proof (induction e arbitrary: cs c cs' rule: cor.node_induct)
  case (node e)
  show ?case
  proof (cases e)
    case (CoreLit m l)
    with node.prems(2) show ?thesis unfolding literal_free_def by (auto dest: list_all_preorder_self)
  next
    case (CoreCellRefForName m n)
    with node.prems(1) show ?thesis by (simp add: normalize_expr.simps [of "CoreCellRefForName m n"])
  next
    case (CoreOp m op)
    with node.prems(1) obtain ys where ys: "st_map normalize_expr (op_children op) cs = Some (ys, cs')"
      "c = CgOp m (op_with_children op ys)"
      by (auto simp: normalize_expr.simps [of "CoreOp m op" cs] split: option.splits)
    have "cs = cs' \<and> (\<forall>v. cs' = v \<longrightarrow> list_all2 (\<lambda>x y. \<forall>ds. resolve_cg ds y = Some (resolve ds x)) (op_children op) ys)"
      using ys(1)
    proof (rule st_map_rel)
      fix x u y u' assume x: "x \<in> set (op_children op)" "normalize_expr x u = Some (y, u')"
      then have "x \<in> set (core_children e)" by (simp add: CoreOp)
      then show "u = u' \<and> (\<forall>v. u' = v \<longrightarrow> (\<forall>ds. resolve_cg ds y = Some (resolve ds x)))"
        using node.IH [OF _ x(2)] node.prems(2) literal_free_child by blast
    qed simp_all
    then have same: "cs = cs'" and kids: "list_all2 (\<lambda>x y. resolve_cg ds y = Some (resolve ds x)) (op_children op) ys" for ds
      by (auto elim: list_all2_mono)
    have len: "length ys = length (op_children op)" using ys(1) by (rule st_map_length)
    have "resolve_cg ds c = Some (resolve ds e)" for ds
      unfolding ys(2) CoreOp using len opt_map_all2 [OF kids [of ds]]
      by (subst resolve_cg.simps, subst resolve.simps)
         (simp add: constant_of_with op_children_with op_with_children_twice split: option.splits)
    with same show ?thesis by blast
  qed
qed

lemma extract_literal_free:
  assumes "extract_expr e cs = Some (e', cs')"
  shows "literal_free e' \<and> (cell_refs_resolved e \<longrightarrow> cell_refs_resolved e')"
  using assms
proof (induction e arbitrary: cs e' cs' rule: cor.node_induct)
  case (node e)
  show ?case
  proof (cases "is_extracted e")
    case True
    with node.prems have "e' = constant_location_expr (core_meta e) (of_nat (length cs))"
      by (auto simp: extract_expr.simps [of e cs] split: if_splits)
    then show ?thesis
      by (simp add: literal_free_def cell_refs_resolved_def constant_location_expr_def core_preorder.simps [of "CoreOp _ _"])
  next
    case False
    with node.prems obtain ys where ys: "st_map extract_expr (core_children e) cs = Some (ys, cs')"
      "e' = core_with_children e ys"
      by (auto simp: extract_expr.simps [of e cs] split: option.splits)
    have len: "length ys = length (core_children e)" using ys(1) by (rule st_map_length)
    have "True \<and> (\<forall>v :: located_core list. True \<longrightarrow> list_all2 (\<lambda>x y. literal_free y \<and> (cell_refs_resolved x \<longrightarrow> cell_refs_resolved y)) (core_children e) ys)"
      by (rule st_map_rel [where R = "\<lambda>_ _. True" and Q = "\<lambda>_ x y. literal_free y \<and> (cell_refs_resolved x \<longrightarrow> cell_refs_resolved y)",
            OF ys(1)]) (use node.IH in blast)+
    then have all: "list_all2 (\<lambda>x y. literal_free y \<and> (cell_refs_resolved x \<longrightarrow> cell_refs_resolved y)) (core_children e) ys"
      by simp
    have kids: "\<forall>y\<in>set ys. literal_free y" "cell_refs_resolved e \<longrightarrow> (\<forall>y\<in>set ys. cell_refs_resolved y)"
      using list_all2_right [OF all] cell_refs_child [of e] by fast+
    have "literal_free e'"
      using kids(1) False unfolding literal_free_def ys(2) list_all_preorder_with [OF len] by (cases e) simp_all
    moreover have "cell_refs_resolved e'" if "cell_refs_resolved e"
    proof -
      from that have "case e of CoreCellRefForName m n \<Rightarrow> False | _ \<Rightarrow> True"
        unfolding cell_refs_resolved_def by (rule list_all_preorder_self)
      with that kids(2) show ?thesis
        unfolding cell_refs_resolved_def ys(2) list_all_preorder_with [OF len] by (cases e) simp_all
    qed
    ultimately show ?thesis by blast
  qed
qed

text \<open>How many constants an expression needs; extracted nodes have no operands.\<close>

definition constants_needed :: "located_core \<Rightarrow> nat" where
  "constants_needed e = length (filter is_extracted (core_preorder e))"

lemma constants_needed_rec:
  "constants_needed e = (if is_extracted e then 1 else sum_list (map constants_needed (core_children e)))"
proof -
  have "is_extracted e \<Longrightarrow> core_children e = []" by (cases e rule: is_extracted.cases) simp_all
  then show ?thesis
    unfolding constants_needed_def [abs_def] core_preorder.simps [of e]
    by (simp add: filter_concat length_concat o_def)
qed

lemma st_map_counted:
  assumes "\<And>x u. x \<in> set xs \<Longrightarrow> length u + c x \<le> N \<Longrightarrow> \<exists>y u'. f x u = Some (y, u') \<and> length u' = length u + c x"
    and "length s + sum_list (map c xs) \<le> N"
  shows "\<exists>ys s'. st_map f xs s = Some (ys, s') \<and> length s' = length s + sum_list (map c xs)"
  using assms
proof (induction xs arbitrary: s)
  case (Cons x xs)
  from Cons.prems(1) [of x s] Cons.prems(2) obtain y u where y: "f x s = Some (y, u)" "length u = length s + c x" by auto
  with Cons.IH [of u] Cons.prems obtain ys s' where "st_map f xs u = Some (ys, s')"
    "length s' = length u + sum_list (map c xs)" by auto
  with y show ?case by simp
qed simp

lemma extract_defined:
  "length cs + constants_needed e \<le> 2 ^ 32 \<Longrightarrow>
     \<exists>e' cs'. extract_expr e cs = Some (e', cs') \<and> length cs' = length cs + constants_needed e"
proof (induction e arbitrary: cs rule: cor.node_induct)
  case (node e)
  show ?case
  proof (cases "is_extracted e")
    case True
    with node.prems show ?thesis by (simp add: extract_expr.simps [of e] constants_needed_rec)
  next
    case False
    then have cnt: "constants_needed e = sum_list (map constants_needed (core_children e))"
      by (simp add: constants_needed_rec)
    obtain ys cs' where "st_map extract_expr (core_children e) cs = Some (ys, cs')"
      "length cs' = length cs + sum_list (map constants_needed (core_children e))"
      using st_map_counted [where f = extract_expr and c = constants_needed and xs = "core_children e" and s = cs]
        node.IH node.prems unfolding cnt by blast
    with False show ?thesis by (simp add: extract_expr.simps [of e] cnt)
  qed
qed

lemma normalize_defined: "cell_refs_resolved e \<Longrightarrow> literal_free e \<Longrightarrow> normalize_expr e cs \<noteq> None"
proof (induction e arbitrary: cs rule: cor.node_induct)
  case (node e)
  show ?case
  proof (cases e)
    case (CoreOp m op)
    have "st_map normalize_expr xs cs \<noteq> None" if "set xs \<subseteq> set (core_children e)" for xs cs
      using that
    proof (induction xs arbitrary: cs)
      case (Cons x xs)
      then have "normalize_expr x cs \<noteq> None"
        using node cell_refs_child [of e x] literal_free_child [of e x] by simp
      then obtain y u where "normalize_expr x cs = Some (y, u)" by auto
      moreover have "st_map normalize_expr xs u \<noteq> None" using Cons by simp
      ultimately show ?case by auto
    qed simp
    from this [of "core_children e" cs] show ?thesis
      by (auto simp: normalize_expr.simps [of "CoreOp m op"] CoreOp)
  qed (use node.prems in \<open>auto simp: cell_refs_resolved_def literal_free_def dest: list_all_preorder_self\<close>)
qed

text \<open>Both traversals over a list of instructions, from an empty list of constants.\<close>

lemma extract_instrs:
  assumes "list_all constant_free xs" "list_all cell_refs_resolved xs"
    and "sum_list (map constants_needed xs) \<le> 2 ^ 32"
  obtains es cs where "st_map extract_expr xs [] = Some (es, cs)" "list_all2 (\<lambda>x y. resolve cs y = x) xs es"
    "\<And>y. y \<in> set es \<Longrightarrow> literal_free y \<and> cell_refs_resolved y"
proof -
  have "\<exists>es cs. st_map extract_expr xs [] = Some (es, cs) \<and>
      length cs = length ([] :: located_core list) + sum_list (map constants_needed xs)"
    by (rule st_map_counted [where N = "2 ^ 32"]) (use extract_defined assms(3) in \<open>simp_all only: list.size add_0\<close>)
  then obtain es cs where es: "st_map extract_expr xs [] = Some (es, cs)" by blast
  have undo: "extends [] cs \<and> (\<forall>ds. extends cs ds \<longrightarrow> list_all2 (\<lambda>x y. resolve ds y = x) xs es)"
    using es
  proof (rule st_map_rel)
    fix x u y u' assume "x \<in> set xs" "extract_expr x u = Some (y, u')"
    with assms(1) show "extends u u' \<and> (\<forall>v. extends u' v \<longrightarrow> resolve v y = x)"
      using extract_resolves [of x u y u'] by (simp add: list_all_iff)
  qed (rule extends_refl, rule extends_trans)
  have "True \<and> (\<forall>v :: located_core list. True \<longrightarrow>
      list_all2 (\<lambda>x y. literal_free y \<and> (cell_refs_resolved x \<longrightarrow> cell_refs_resolved y)) xs es)"
    by (rule st_map_rel [where R = "\<lambda>_ _. True" and Q = "\<lambda>_ x y. literal_free y \<and> (cell_refs_resolved x \<longrightarrow> cell_refs_resolved y)",
          OF es]) (use extract_literal_free in blast)+
  then have "literal_free y \<and> cell_refs_resolved y" if "y \<in> set es" for y
    using list_all2_right [OF _ that] assms(2) unfolding list_all_iff by blast
  with that es undo extends_refl show ?thesis by blast
qed

lemma normalize_instrs:
  assumes "\<And>y. y \<in> set es \<Longrightarrow> literal_free y \<and> cell_refs_resolved y"
  obtains zs where "st_map normalize_expr es [] = Some (zs, [])"
    "list_all2 (\<lambda>y z. \<forall>ds. resolve_cg ds z = Some (resolve ds y)) es zs"
proof -
  have "st_map normalize_expr xs [] \<noteq> None" if "set xs \<subseteq> set es" for xs
    using that
  proof (induction xs)
    case (Cons x xs)
    then have x: "literal_free x" "normalize_expr x [] \<noteq> None" using assms normalize_defined by auto
    then obtain y u where y: "normalize_expr x [] = Some (y, u)" by auto
    with normalize_resolves [OF y x(1)] Cons show ?case by auto
  qed simp
  then obtain zs ds where zs: "st_map normalize_expr es [] = Some (zs, ds)" by fastforce
  have "[] = ds \<and> (\<forall>v. ds = v \<longrightarrow> list_all2 (\<lambda>x y. \<forall>ds. resolve_cg ds y = Some (resolve ds x)) es zs)"
    using zs
  proof (rule st_map_rel)
    fix x u y u' assume "x \<in> set es" "normalize_expr x u = Some (y, u')"
    then show "u = u' \<and> (\<forall>v. u' = v \<longrightarrow> (\<forall>ds. resolve_cg ds y = Some (resolve ds x)))"
      using normalize_resolves [of x u y u'] assms by blast
  qed simp_all
  with that zs show ?thesis by blast
qed

text \<open>The normalizer numbers its constants from zero although they are appended to those the module
  already has: a literal that extraction did not take would be read back as another constant.\<close>

definition late_literal_module :: "located_core bp_module" where
  "late_literal_module =
     \<lparr>mod_name_gen = module_name_gen_new 0, global_names = [],
      callable_defs =
        [\<lparr>fn_id = function_id_new 0 0, fn_name_gen = function_name_gen_new (function_id_new 0 0),
          fn_names = scope_names sample_scope, fn_kind = KFunction, fn_params = [],
          fn_blocks = [\<lparr>label = BlockLabel 0, body = [], bterm = Return (CoreLit synthetic (StringLiteral ''late'')),
                        params = [], exc_edge = None\<rparr>],
          fn_doc = None, fn_layout = None, fn_scope = sample_scope\<rparr>],
      module_constants = [CoreLit synthetic (StringLiteral ''early'')], counter_defs = []\<rparr>"

lemma normalize_ignores_existing_constants:
  "\<exists>m. normalize_bb_module_strings late_literal_module = Some m \<and>
     module_instrs late_literal_module = [CoreLit synthetic (StringLiteral ''late'')] \<and>
     map (resolve_cg (module_constants m)) (module_instrs m) = [Some (CoreLit synthetic (StringLiteral ''early''))]"
  by (simp add: normalize_bb_module_strings_def late_literal_module_def map_fn_st_def map_block_st_def
      normalize_expr.simps [of "CoreLit _ _"] module_instrs_def fn_instrs_def block_instrs_def
      resolve_cg.simps [of _ "CgOp _ _"] constant_at_def nth_opt_def)

section \<open>Properties\<close>



end
