(* ===== verification/Instr_Ids.thy ===== *)
theory Instr_Ids
  imports Program
begin

text \<open>
  \<open>passes/instr_id.rs\<close>: every node of a block gets an id, its block's label and its position in the
  pre-order walk over the instructions and the terminator. The position has 32 bits, and the
  \<open>checked_add\<close> that runs after a node has got its id panics when they are used up.
\<close>

definition with_instr_id :: "block_label \<Rightarrow> u32 \<Rightarrow> cg_expr \<Rightarrow> cg_expr" where
  "with_instr_id l i e = cg_with_meta ((cg_meta e)\<lparr>meta_instr_id := Some (InstrId l i)\<rparr>) e"

function assign_ids :: "block_label \<Rightarrow> cg_expr \<Rightarrow> u32 \<Rightarrow> (cg_expr \<times> u32) option" where
  "assign_ids l e i =
     (if i = - 1 then None
      else (case st_map (assign_ids l) (cg_children e) (i + 1) of
              None \<Rightarrow> None
            | Some (ys, j) \<Rightarrow> Some (cg_with_children (with_instr_id l i e) ys, j)))"
  by pat_completeness auto
termination
  by (relation "measure (\<lambda>(l, e, i). size e)") (simp_all only: wf_measure in_measure prod.case cg_child_size)

declare assign_ids.simps [simp del]

definition assign_block_ids :: "(cg_expr, cg_expr) block \<Rightarrow> (cg_expr, cg_expr) block option" where
  "assign_block_ids b = map_option fst (map_block_st (assign_ids (label b)) b 0)"

definition assign_function_instr_ids :: "cg_expr bp_function \<Rightarrow> cg_expr bp_function option" where
  "assign_function_instr_ids f =
     do { bs \<leftarrow> opt_map assign_block_ids (fn_blocks f); Some (f\<lparr>fn_blocks := bs\<rparr>) }"

definition assign_module_instr_ids :: "cg_expr bp_module \<Rightarrow> cg_expr bp_module option" where
  "assign_module_instr_ids m =
     do { fs \<leftarrow> opt_map assign_function_instr_ids (callable_defs m); Some (m\<lparr>callable_defs := fs\<rparr>) }"

section \<open>The numbering\<close>

text \<open>The nodes a walk over expressions reaches, their ids, and the expressions without ids.\<close>

definition nodes :: "cg_expr list \<Rightarrow> cg_expr list" where
  "nodes es = concat (map cg_preorder es)"

definition node_id :: "cg_expr \<Rightarrow> instr_id option" where
  "node_id e = meta_instr_id (cg_meta e)"

function strip_ids :: "cg_expr \<Rightarrow> cg_expr" where
  "strip_ids e =
     cg_with_children (cg_with_meta ((cg_meta e)\<lparr>meta_instr_id := None\<rparr>) e) (map strip_ids (cg_children e))"
  by pat_completeness auto
termination by (relation "measure size") (simp_all only: wf_measure in_measure cg_child_size)

declare strip_ids.simps [simp del]

definition ids_from :: "block_label \<Rightarrow> nat \<Rightarrow> nat \<Rightarrow> instr_id option list" where
  "ids_from l i n = map (\<lambda>k. Some (InstrId l (of_nat k))) [i ..< i + n]"

lemma nodes_simps [simp]: "nodes [] = []" "nodes (e # es) = cg_preorder e @ nodes es" "nodes (es @ fs) = nodes es @ nodes fs"
  by (simp_all add: nodes_def)

lemma ids_from_Suc: "ids_from l i (Suc n) = Some (InstrId l (of_nat i)) # ids_from l (Suc i) n"
  by (simp add: ids_from_def upt_conv_Cons del: upt_Suc)

lemma ids_from_append: "ids_from l i m @ ids_from l (i + m) n = ids_from l i (m + n)"
  using upt_add_eq_append [of i "i + m" n] by (simp add: ids_from_def add.assoc)

lemma cg_meta_with [simp]: "cg_meta (cg_with_meta m e) = m"
  by (cases e) simp_all

lemma cg_children_with_meta [simp]: "cg_children (cg_with_meta m e) = cg_children e"
  by (cases e) simp_all

lemma unat_next: "i \<noteq> - 1 \<Longrightarrow> unat (i + 1 :: u32) = Suc (unat i)"
proof -
  assume "i \<noteq> - 1"
  then have "unat i \<noteq> 2 ^ 32 - 1" by (simp add: word_unat_eq_iff unsigned_minus_1_eq_mask mask_eq_exp_minus_1)
  moreover have "unat i < 2 ^ 32" using unsigned_less [of i] by simp
  ultimately show ?thesis by (simp add: unat_word_ariths)
qed

lemma cg_meta_children [simp]: "cg_meta (cg_with_children e ys) = cg_meta e"
  by (cases e) simp_all

lemma cg_with_children_twice:
  "length ys = length (cg_children e) \<Longrightarrow> length zs = length (cg_children e) \<Longrightarrow>
     cg_with_children (cg_with_meta m (cg_with_children (cg_with_meta m' e) ys)) zs
       = cg_with_children (cg_with_meta m e) zs"
  by (cases e) (auto simp: op_with_children_twice map_arg_twice map_keyword_twice)

text \<open>What it means that the expressions \<open>es\<close> were numbered from \<open>i\<close>: all went well and the ids are
  consecutive, or the numbers did not suffice.\<close>

definition numbered ::
  "block_label \<Rightarrow> u32 \<Rightarrow> cg_expr list \<Rightarrow> (cg_expr list \<times> u32) option \<Rightarrow> bool" where
  "numbered l i es r \<longleftrightarrow>
     (case r of
        None \<Rightarrow> 2 ^ 32 \<le> unat i + length (nodes es)
      | Some (es', j) \<Rightarrow> unat i + length (nodes es) < 2 ^ 32 \<and> unat j = unat i + length (nodes es) \<and>
          map node_id (nodes es') = ids_from l (unat i) (length (nodes es)) \<and>
          map strip_ids es' = map strip_ids es)"

lemma numbered_list:
  assumes "\<And>e i. e \<in> set es \<Longrightarrow> numbered l i [e] (map_option (\<lambda>(y, j). ([y], j)) (f e i))"
  shows "numbered l i es (st_map f es i)"
  using assms
proof (induction es arbitrary: i)
  case Nil
  have "unat i < 2 ^ 32" using unsigned_less [of i] by simp
  then show ?case by (simp add: numbered_def ids_from_def)
next
  case (Cons e es)
  have e: "numbered l i [e] (map_option (\<lambda>(y, j). ([y], j)) (f e i))" by (rule Cons.prems) simp
  show ?case
  proof (cases "f e i")
    case None
    with e show ?thesis by (simp add: numbered_def)
  next
    case (Some r)
    then obtain y j where y: "f e i = Some (y, j)" by (cases r) auto
    have es: "numbered l j es (st_map f es j)" by (rule Cons.IH) (rule Cons.prems, simp)
    show ?thesis
      using e es y
      by (cases "st_map f es j") (auto simp: numbered_def ids_from_append [symmetric] add.assoc)
  qed
qed

lemma nodes_single: "nodes [e] = e # nodes (cg_children e)"
  by (subst nodes_def) (simp add: cg_preorder.simps [of e] nodes_def)

lemma numbered_expr: "numbered l i [e] (map_option (\<lambda>(y, j). ([y], j)) (assign_ids l e i))"
proof (induction e arbitrary: i rule: cg.node_induct)
  case (node e)
  show ?case
  proof (cases "i = - 1")
    case True
    then have "unat i = 2 ^ 32 - 1" by (simp add: unsigned_minus_1_eq_mask mask_eq_exp_minus_1)
    with True show ?thesis by (simp add: assign_ids.simps [of l e] numbered_def nodes_single del: nodes_simps)
  next
    case False
    then have i1: "unat (i + 1) = Suc (unat i)" by (rule unat_next)
    have kids: "numbered l (i + 1) (cg_children e) (st_map (assign_ids l) (cg_children e) (i + 1))"
      by (rule numbered_list) (rule node.IH)
    show ?thesis
    proof (cases "st_map (assign_ids l) (cg_children e) (i + 1)")
      case None
      with kids False show ?thesis
        by (simp add: assign_ids.simps [of l e] numbered_def nodes_single i1 del: nodes_simps)
    next
      case (Some r)
      then obtain ys j where ys: "st_map (assign_ids l) (cg_children e) (i + 1) = Some (ys, j)" by (cases r) auto
      have len: "length ys = length (cg_children e)" using ys by (rule st_map_length)
      have "cg_children (cg_with_children (with_instr_id l i e) ys) = ys"
        using len by (simp add: with_instr_id_def cg.children_with)
      moreover have "strip_ids (cg_with_children (with_instr_id l i e) ys) = strip_ids e"
        using kids ys len
        by (simp add: strip_ids.simps [of "cg_with_children _ _"] strip_ids.simps [of e] with_instr_id_def
            cg.children_with cg_with_children_twice numbered_def)
      ultimately show ?thesis
        using kids ys False
        by (simp add: assign_ids.simps [of l e] numbered_def nodes_single [of e]
            nodes_single [of "cg_with_children _ _"] i1 ids_from_Suc node_id_def with_instr_id_def del: nodes_simps)
    qed
  qed
qed

lemma numbered_instrs: "numbered l i es (st_map (assign_ids l) es i)"
  by (rule numbered_list) (rule numbered_expr)

lemma opt_map_None: "opt_map f xs = None \<longleftrightarrow> (\<exists>x\<in>set xs. f x = None)"
  by (induction xs) (auto simp: bind_eq_None_conv)

lemma assign_block_ids_cases:
  "case assign_block_ids b of
     None \<Rightarrow> 2 ^ 32 \<le> length (nodes (block_instrs b))
   | Some b' \<Rightarrow> length (nodes (block_instrs b)) < 2 ^ 32 \<and>
       map node_id (nodes (block_instrs b')) = ids_from (label b) 0 (length (nodes (block_instrs b))) \<and>
       map strip_ids (block_instrs b') = map strip_ids (block_instrs b)"
proof (cases "map_block_st (assign_ids (label b)) b 0")
  case None
  then have "st_map (assign_ids (label b)) (block_instrs b) 0 = None"
    by (rule carries_None [OF map_block_st_carries, THEN iffD1])
  with numbered_instrs [of "label b" 0 "block_instrs b"] None show ?thesis
    by (simp add: numbered_def assign_block_ids_def)
next
  case (Some r)
  then obtain b' j where b': "map_block_st (assign_ids (label b)) b 0 = Some (b', j)" by (cases r) auto
  from carriesD [OF map_block_st_carries this] numbered_instrs [of "label b" 0 "block_instrs b"] b' show ?thesis
    by (simp add: numbered_def assign_block_ids_def)
qed

lemma distinct_ids_from: "i + n \<le> 2 ^ 32 \<Longrightarrow> distinct (ids_from l i n)"
proof -
  assume le: "i + n \<le> 2 ^ 32"
  have "inj_on (\<lambda>k. Some (InstrId l (of_nat k))) {i..<i + n}"
  proof (rule inj_onI)
    fix j k assume "j \<in> {i..<i + n}" "k \<in> {i..<i + n}" "Some (InstrId l (of_nat j)) = Some (InstrId l (of_nat k))"
    then have "j < 2 ^ 32" "k < 2 ^ 32" "(of_nat j :: u32) = of_nat k" using le by auto
    moreover have "unat (of_nat n :: u32) = n" if "n < 2 ^ 32" for n
      using that by (simp add: unat_of_nat take_bit_nat_eq_self)
    ultimately have "unat (of_nat j :: u32) = j" "unat (of_nat k :: u32) = k" by blast+
    with \<open>(of_nat j :: u32) = of_nat k\<close> show "j = k" by metis
  qed
  then show ?thesis by (simp add: ids_from_def distinct_map)
qed

lemma ids_from_label: "Some (InstrId l' k) \<in> set (ids_from l i n) \<Longrightarrow> l' = l"
  by (auto simp: ids_from_def)

lemma distinct_block_ids:
  assumes "distinct ls" "list_all2 (\<lambda>l xs. \<exists>n. n < 2 ^ 32 \<and> xs = ids_from l 0 n) ls xss"
  shows "distinct (concat xss)"
proof -
  have "distinct (concat xss) \<and> (\<forall>x\<in>set (concat xss). \<exists>l\<in>set ls. \<exists>k. x = Some (InstrId l k))"
    using assms(2,1)
  proof (induction rule: list_all2_induct)
    case (Cons l ls xs xss)
    then obtain n where n: "n < 2 ^ 32" "xs = ids_from l 0 n" by blast
    have mine: "\<exists>k. x = Some (InstrId l k)" if "x \<in> set xs" for x using that by (auto simp: n(2) ids_from_def)
    with Cons have "set xs \<inter> set (concat xss) = {}" by fastforce
    with Cons n distinct_ids_from [of 0 n l] mine show ?case by auto
  qed simp
  then show ?thesis by blast
qed

section \<open>Properties\<close>

text \<open>C27: Numbering the nodes of a function: if every block has fewer than \<open>2^32\<close> nodes the pass
  succeeds, the nodes of a block in pre-order get the block's label and consecutive positions from
  zero, nothing but the ids changes, and if the labels of the blocks are distinct no two nodes of the
  function have the same id.\<close>

theorem assign_function_instr_ids_spec:
  assumes "list_all (\<lambda>b. length (nodes (block_instrs b)) < 2 ^ 32) (fn_blocks f)" "distinct (map label (fn_blocks f))"
  shows "\<exists>f'. assign_function_instr_ids f = Some f' \<and>
    map (\<lambda>b. map node_id (nodes (block_instrs b))) (fn_blocks f')
      = map (\<lambda>b. ids_from (label b) 0 (length (nodes (block_instrs b)))) (fn_blocks f) \<and>
    map strip_ids (fn_instrs f') = map strip_ids (fn_instrs f) \<and>
    distinct (map node_id (nodes (fn_instrs f')))"
proof -
  let ?ok = "\<lambda>b b'. assign_block_ids b = Some b' \<and>
      map node_id (nodes (block_instrs b')) = ids_from (label b) 0 (length (nodes (block_instrs b))) \<and>
      map strip_ids (block_instrs b') = map strip_ids (block_instrs b)"
  have defined: "\<exists>b'. ?ok b b'" if "b \<in> set (fn_blocks f)" for b
    using assign_block_ids_cases [of b] that assms(1) by (auto simp: list_all_iff split: option.splits)
  then have "opt_map assign_block_ids (fn_blocks f) \<noteq> None" unfolding opt_map_defined by fastforce
  then obtain bs where bs: "opt_map assign_block_ids (fn_blocks f) = Some bs" by auto
  have all: "list_all2 ?ok (fn_blocks f) bs"
    using bs defined unfolding opt_map_Some_iff by (auto simp: list_all2_conv_all_nth) (metis nth_mem option.inject)+
  have ids: "map (\<lambda>b. map node_id (nodes (block_instrs b))) bs
      = map (\<lambda>b. ids_from (label b) 0 (length (nodes (block_instrs b)))) (fn_blocks f)"
    using all by (auto simp: list_all2_conv_all_nth intro!: nth_equalityI)
  have strip: "map strip_ids (concat (map block_instrs bs)) = map strip_ids (concat (map block_instrs (fn_blocks f)))"
    using all by (induction rule: list_all2_induct) simp_all
  have "concat (map (\<lambda>b. map node_id (nodes (block_instrs b))) bs) = map node_id (nodes (concat (map block_instrs bs)))"
    by (induction bs) simp_all
  moreover have "distinct (concat (map (\<lambda>b. map node_id (nodes (block_instrs b))) bs))"
    unfolding ids
  proof (rule distinct_block_ids [OF assms(2)])
    show "list_all2 (\<lambda>l xs. \<exists>n. n < 2 ^ 32 \<and> xs = ids_from l 0 n) (map label (fn_blocks f))
        (map (\<lambda>b. ids_from (label b) 0 (length (nodes (block_instrs b)))) (fn_blocks f))"
      unfolding list.rel_map by (rule list.rel_refl_strong) (use assms(1) in \<open>auto simp: list_all_iff\<close>)
  qed
  ultimately show ?thesis
    using ids strip by (simp add: assign_function_instr_ids_def bs fn_instrs_def)
qed

text \<open>C28: Numbering panics exactly when some block has \<open>2^32\<close> nodes or more.\<close>

theorem assign_function_instr_ids_panics:
  "assign_function_instr_ids f = None \<longleftrightarrow>
     list_ex (\<lambda>b. 2 ^ 32 \<le> length (nodes (block_instrs b))) (fn_blocks f)"
proof -
  have "assign_block_ids b = None \<longleftrightarrow> 2 ^ 32 \<le> length (nodes (block_instrs b))" for b
    using assign_block_ids_cases [of b] by (auto split: option.splits)
  then show ?thesis
    by (simp add: assign_function_instr_ids_def list_ex_iff bind_eq_None_conv opt_map_None)
qed

definition local_load :: "string \<Rightarrow> u32 \<Rightarrow> cg_expr" where
  "local_load n i = CgOp synthetic (Load \<lparr>located_id = n, location = LocLocal i\<rparr>)"

definition adding_function :: "cg_expr bp_function" where
  "adding_function =
     \<lparr>fn_id = function_id_new 0 0, fn_name_gen = function_name_gen_new (function_id_new 0 0),
      fn_names = scope_names sample_scope, fn_kind = KFunction, fn_params = [],
      fn_blocks =
        [\<lparr>label = BlockLabel 0,
          body = [CgOp synthetic (Store \<lparr>located_id = ''y'', location = LocLocal 1\<rparr>
                   (CgOp synthetic (BinOp Add (local_load ''x'' 0) (local_load ''x'' 0))))],
          bterm = Jump (edge_new (BlockLabel 1)), params = [], exc_edge = None\<rparr>,
         \<lparr>label = BlockLabel 1, body = [], bterm = Return (local_load ''y'' 1), params = [], exc_edge = None\<rparr>],
      fn_doc = None, fn_layout = None, fn_scope = sample_scope\<rparr>"

lemma adding_function_nodes:
  "map (\<lambda>b. length (nodes (block_instrs b))) (fn_blocks adding_function) = [4, 1]"
  by (simp add: adding_function_def block_instrs_def local_load_def cg_preorder.simps [of "CgOp _ _"])

theorem assign_function_instr_ids_spec_witness:
  "\<exists>f. assign_function_instr_ids adding_function = Some f \<and>
    map (\<lambda>b. map node_id (nodes (block_instrs b))) (fn_blocks f) =
      [[Some (InstrId (BlockLabel 0) 0), Some (InstrId (BlockLabel 0) 1), Some (InstrId (BlockLabel 0) 2),
        Some (InstrId (BlockLabel 0) 3)], [Some (InstrId (BlockLabel 1) 0)]]"
proof -
  have small: "list_all (\<lambda>b. length (nodes (block_instrs b)) < 2 ^ 32) (fn_blocks adding_function)"
    "distinct (map label (fn_blocks adding_function))"
    and ids: "map (\<lambda>b. ids_from (label b) 0 (length (nodes (block_instrs b)))) (fn_blocks adding_function)
      = [ids_from (BlockLabel 0) 0 4, ids_from (BlockLabel 1) 0 1]"
    using adding_function_nodes by (simp_all add: adding_function_def)
  have four: "ids_from l 0 4 = [Some (InstrId l 0), Some (InstrId l 1), Some (InstrId l 2), Some (InstrId l 3)]"
    "ids_from l 0 1 = [Some (InstrId l 0)]" for l
    by (simp_all add: ids_from_def numeral_eq_Suc)
  from assign_function_instr_ids_spec [OF small] show ?thesis
    unfolding ids four by (elim exE conjE) (rule exI, rule conjI)
qed

end
