(* ===== verification/Eval_Order.thy ===== *)
theory Eval_Order
  imports Program
begin

text \<open>
  \<open>passes/blockpy_generators/core_eval_order.rs\<close>: before generators become state machines, every
  yield inside an expression is moved into a statement of its own that stores it in a temporary.
  Temporaries come from the crate-wide counter (\<open>fresh_name\<close>); the position \<open>tm\<close> that the template
  macro gives their names is a parameter.
\<close>

record hoisted =
  hoist_out :: "y_expr list"
  hoist_cleanup :: "string list"
  hoist_counter :: usize

fun is_yield :: "y_expr \<Rightarrow> bool" where
  "is_yield (YYield m v) = True"
| "is_yield (YYieldFrom m v) = True"
| "is_yield _ = False"

definition expr_contains_yield :: "y_expr \<Rightarrow> bool" where
  "expr_contains_yield e = instr_any y_preorder is_yield e"

definition eval_store :: "meta \<Rightarrow> string \<Rightarrow> y_expr \<Rightarrow> y_expr" where
  "eval_store tm n e = YOp tm (Store (SourceName n) e)"

definition eval_load :: "meta \<Rightarrow> string \<Rightarrow> y_expr" where
  "eval_load tm n = YOp tm (Load (SourceName n))"

definition eval_del :: "meta \<Rightarrow> string \<Rightarrow> y_expr" where
  "eval_del tm n = YOp tm (Del (SourceName n) False)"

text \<open>\<open>hoist_core_expr_if_contains_yield\<close>, after the operands of the expression were treated.\<close>

definition hoist_yield :: "meta \<Rightarrow> y_expr \<times> hoisted \<Rightarrow> y_expr \<times> hoisted" where
  "hoist_yield tm r =
     (let (e, s) = r in
      if expr_contains_yield e then
        (let (n, c) = fresh_name ''eval'' (hoist_counter s) in
         (eval_load tm n,
          s\<lparr>hoist_out := hoist_out s @ [eval_store tm n e], hoist_cleanup := hoist_cleanup s @ [n],
            hoist_counter := c\<rparr>))
      else (e, s))"

function make_eval_order_explicit_in_core_expr :: "meta \<Rightarrow> y_expr \<Rightarrow> hoisted \<Rightarrow> y_expr \<times> hoisted" where
  "make_eval_order_explicit_in_core_expr tm e s =
     (case e of
        YLit m l \<Rightarrow> (e, s)
      | _ \<Rightarrow>
          (let (ys, s') = s_map (\<lambda>x u. hoist_yield tm (make_eval_order_explicit_in_core_expr tm x u))
                            (y_children e) s
           in (y_with_children e ys, s')))"
  by pat_completeness auto
termination
  by (relation "measure (\<lambda>(tm, e, s). size e)") (simp_all only: wf_measure in_measure prod.case y_child_size)

declare make_eval_order_explicit_in_core_expr.simps [simp del]

definition hoist_core_expr_if_contains_yield :: "meta \<Rightarrow> y_expr \<Rightarrow> hoisted \<Rightarrow> y_expr \<times> hoisted" where
  "hoist_core_expr_if_contains_yield tm e s = hoist_yield tm (make_eval_order_explicit_in_core_expr tm e s)"

definition append_stmt_cleanup :: "meta \<Rightarrow> y_expr list \<Rightarrow> string list \<Rightarrow> y_expr list" where
  "append_stmt_cleanup tm out cleanup = out @ map (eval_del tm) (rev cleanup)"

text \<open>The loop over the statements of a block: setup, the statement, and the deletion of its
  temporaries.\<close>

fun make_body_explicit :: "meta \<Rightarrow> y_expr list \<Rightarrow> usize \<Rightarrow> y_expr list \<times> usize" where
  "make_body_explicit tm [] c = ([], c)"
| "make_body_explicit tm (e # es) c =
     (let (e', s) = (if expr_contains_yield e
                     then make_eval_order_explicit_in_core_expr tm e
                            \<lparr>hoist_out = [], hoist_cleanup = [], hoist_counter = c\<rparr>
                     else (e, \<lparr>hoist_out = [], hoist_cleanup = [], hoist_counter = c\<rparr>));
          (rest, c') = make_body_explicit tm es (hoist_counter s)
      in (append_stmt_cleanup tm (hoist_out s @ [e']) (hoist_cleanup s) @ rest, c'))"

fun hoist_term :: "meta \<Rightarrow> y_expr block_term \<Rightarrow> hoisted \<Rightarrow> y_expr block_term \<times> hoisted" where
  "hoist_term tm (Jump e) s = (Jump e, s)"
| "hoist_term tm (IfTerm t a b) s =
     (let (t', s') = hoist_core_expr_if_contains_yield tm t s in (IfTerm t' a b, s'))"
| "hoist_term tm (BranchTable i ts d) s =
     (let (i', s') = hoist_core_expr_if_contains_yield tm i s in (BranchTable i' ts d, s'))"
| "hoist_term tm (Raise None) s = (Raise None, s)"
| "hoist_term tm (Raise (Some x)) s =
     (let (x', s') = hoist_core_expr_if_contains_yield tm x s in (Raise (Some x'), s'))"
| "hoist_term tm (Return v) s =
     (let (v', s') = hoist_core_expr_if_contains_yield tm v s in (Return v', s'))"

definition make_eval_order_explicit_in_core_term ::
  "meta \<Rightarrow> y_expr block_term \<Rightarrow> y_expr list \<Rightarrow> usize \<Rightarrow> y_expr block_term \<times> y_expr list \<times> usize" where
  "make_eval_order_explicit_in_core_term tm t out c =
     (let (t', s) = hoist_term tm t \<lparr>hoist_out = out, hoist_cleanup = [], hoist_counter = c\<rparr>
      in (t', hoist_out s, hoist_counter s))"

definition make_block_explicit ::
  "meta \<Rightarrow> (y_expr, y_expr) block \<Rightarrow> usize \<Rightarrow> (y_expr, y_expr) block \<times> usize" where
  "make_block_explicit tm b c =
     (let (es, c1) = make_body_explicit tm (body b) c;
          (t, es', c2) = make_eval_order_explicit_in_core_term tm (bterm b) es c1
      in (\<lparr>label = label b, body = es', bterm = t, params = params b, exc_edge = exc_edge b\<rparr>, c2))"

definition make_eval_order_explicit_in_core_callable_def ::
  "meta \<Rightarrow> y_expr bp_function \<Rightarrow> usize \<Rightarrow> y_expr bp_function \<times> usize" where
  "make_eval_order_explicit_in_core_callable_def tm f c =
     (let (bs, c') = s_map (make_block_explicit tm) (fn_blocks f) c in (f\<lparr>fn_blocks := bs\<rparr>, c'))"

section \<open>Evaluation order\<close>

text \<open>The nodes of an expression that satisfy \<open>P\<close> in the order in which they are evaluated, operands
  first. A node is identified by its kind and its metadata.\<close>

function post_order :: "(y_expr \<Rightarrow> bool) \<Rightarrow> y_expr \<Rightarrow> y_expr list" where
  "post_order P e = concat (map (post_order P) (y_children e)) @ (if P e then [e] else [])"
  by pat_completeness auto
termination by (relation "measure (size \<circ> snd)") (simp_all only: wf_measure in_measure comp_apply snd_conv y_child_size)

declare post_order.simps [simp del]

datatype node_kind = NodeYield | NodeYieldFrom | NodeOther

fun kind_of_node :: "y_expr \<Rightarrow> node_kind" where
  "kind_of_node (YYield m v) = NodeYield"
| "kind_of_node (YYieldFrom m v) = NodeYieldFrom"
| "kind_of_node _ = NodeOther"

definition trace :: "(y_expr \<Rightarrow> bool) \<Rightarrow> y_expr list \<Rightarrow> (node_kind \<times> meta) list" where
  "trace P es = map (\<lambda>e. (kind_of_node e, y_meta e)) (concat (map (post_order P) es))"

fun is_call :: "y_expr \<Rightarrow> bool" where
  "is_call (YOp m (Call f as ks)) = True"
| "is_call e = False"

definition is_effect :: "y_expr \<Rightarrow> bool" where
  "is_effect e \<longleftrightarrow> is_yield e \<or> is_call e"

text \<open>An expression is ordered if an operand before an operand with a yield is a yield itself or has no
  tracked nodes besides yields.\<close>

fun ordered_operands :: "(y_expr \<Rightarrow> bool) \<Rightarrow> y_expr list \<Rightarrow> bool" where
  "ordered_operands P [] = True"
| "ordered_operands P (e # es) \<longleftrightarrow>
     (is_yield e \<or> list_all (\<lambda>x. is_yield x \<or> \<not> P x) (y_preorder e) \<or> list_all (\<lambda>c. \<not> expr_contains_yield c) es) \<and>
     ordered_operands P es"

definition ordered :: "(y_expr \<Rightarrow> bool) \<Rightarrow> y_expr \<Rightarrow> bool" where
  "ordered P e \<longleftrightarrow> list_all (\<lambda>x. ordered_operands P (y_children x)) (y_preorder e)"

text \<open>The statements the state machine construction expects: no yield at all, a yield of a value
  without yields, or the store of one.\<close>

definition yield_free_operands :: "y_expr \<Rightarrow> bool" where
  "yield_free_operands e \<longleftrightarrow> list_all (\<lambda>c. \<not> expr_contains_yield c) (y_children e)"

fun explicit_stmt :: "y_expr \<Rightarrow> bool" where
  "explicit_stmt (YOp m (Store n e)) \<longleftrightarrow> \<not> expr_contains_yield e \<or> is_yield e \<and> yield_free_operands e"
| "explicit_stmt e \<longleftrightarrow> yield_free_operands e"

section \<open>Lemmas\<close>

lemma contains_yield_rec:
  "expr_contains_yield e \<longleftrightarrow> is_yield e \<or> (\<exists>c\<in>set (y_children e). expr_contains_yield c)"
  unfolding expr_contains_yield_def by (rule yld.instr_any_rec)

lemma trace_simps [simp]:
  "trace P [] = []" "trace P (es @ fs) = trace P es @ trace P fs"
  by (simp_all add: trace_def)

lemma trace_Cons: "trace P (e # es) = trace P [e] @ trace P es"
  by (simp add: trace_def)

lemma trace_node: "trace P [e] = trace P (y_children e) @ (if P e then [(kind_of_node e, y_meta e)] else [])"
  by (simp add: trace_def post_order.simps [of P e])

lemma y_with_frame [simp]:
  "is_yield (y_with_children e ys) = is_yield e" "kind_of_node (y_with_children e ys) = kind_of_node e"
  "y_meta (y_with_children e ys) = y_meta e"
  by (cases e; simp)+

lemma no_yield_nodes [simp]: "\<not> expr_contains_yield (eval_load tm n)" "\<not> expr_contains_yield (eval_del tm n)"
  by (simp_all add: contains_yield_rec [of "YOp tm (Load (SourceName n))"] eval_load_def
      contains_yield_rec [of "YOp tm (Del (SourceName n) False)"] eval_del_def)

lemma ordered_child: "ordered P e \<Longrightarrow> c \<in> set (y_children e) \<Longrightarrow> ordered P c"
  unfolding ordered_def list_all_iff using yld.in_preorder_iff by blast

lemma ordered_operands_self: "ordered P e \<Longrightarrow> ordered_operands P (y_children e)"
  unfolding ordered_def list_all_iff using yld.self_in_preorder by blast

text \<open>An expression without yield is left alone.\<close>

lemma make_rec:
  "make_eval_order_explicit_in_core_expr tm e s =
     (let (ys, s') = s_map (\<lambda>x u. hoist_yield tm (make_eval_order_explicit_in_core_expr tm x u)) (y_children e) s
      in (y_with_children e ys, s'))"
  by (subst make_eval_order_explicit_in_core_expr.simps) (simp split: y_expr.split)

lemma make_hoists:
  "make_eval_order_explicit_in_core_expr tm e s =
     (let (ys, s') = s_map (hoist_core_expr_if_contains_yield tm) (y_children e) s in (y_with_children e ys, s'))"
  unfolding hoist_core_expr_if_contains_yield_def [abs_def] by (rule make_rec)

lemma make_unchanged: "\<not> expr_contains_yield e \<Longrightarrow> make_eval_order_explicit_in_core_expr tm e s = (e, s)"
proof (induction e arbitrary: s rule: yld.node_induct)
  case (node e)
  have free: "\<not> expr_contains_yield c" if "c \<in> set (y_children e)" for c
    using node.prems that contains_yield_rec [of e] by blast
  have "s_map (\<lambda>x u. hoist_yield tm (make_eval_order_explicit_in_core_expr tm x u)) (y_children e) s = (y_children e, s)"
  proof (rule s_map_id)
    fix x u assume x: "x \<in> set (y_children e)"
    show "hoist_yield tm (make_eval_order_explicit_in_core_expr tm x u) = (x, u)"
      by (simp only: node.IH [OF x free [OF x]] hoist_yield_def prod.case Let_def free [OF x] if_False)
  qed
  then show ?case by (simp add: make_rec [of tm e] yld.with_own_children)
qed

lemma set_post_order: "set (post_order P e) = {x \<in> set (y_preorder e). P x}"
proof (induction e rule: yld.node_induct)
  case (node e)
  then show ?case by (auto simp: post_order.simps [of P e] yld.in_preorder_iff [of _ e])
qed

lemma yield_kind: "kind_of_node e = NodeOther \<longleftrightarrow> \<not> is_yield e"
  by (cases e) simp_all

lemma trace_no_yield: "\<not> expr_contains_yield e \<Longrightarrow> k \<in> set (trace P [e]) \<Longrightarrow> fst k = NodeOther"
  by (auto simp: trace_def set_post_order expr_contains_yield_def yld.instr_any_iff yield_kind)

lemma trace_only_yields:
  "list_all (\<lambda>x. is_yield x \<or> \<not> P x) (y_preorder e) \<Longrightarrow> k \<in> set (trace P [e]) \<Longrightarrow> fst k \<noteq> NodeOther"
  by (auto simp: trace_def set_post_order list_all_iff yield_kind)

lemma trace_empty:
  assumes "\<not> expr_contains_yield e" "list_all (\<lambda>x. is_yield x \<or> \<not> P x) (y_preorder e)"
  shows "trace P [e] = []"
proof -
  have "k \<notin> set (trace P [e])" for k
    using trace_no_yield [OF assms(1)] trace_only_yields [OF assms(2)] by blast
  then show ?thesis by (metis list.set_intros(1) neq_Nil_conv)
qed

lemma explicit_if_free: "yield_free_operands e \<Longrightarrow> explicit_stmt e"
  by (cases e rule: explicit_stmt.cases) (simp_all add: yield_free_operands_def)

lemma explicit_deletes: "list_all explicit_stmt (map (eval_del tm) ns)"
  by (simp add: list_all_iff eval_del_def yield_free_operands_def)

lemma is_call_with: "is_call (y_with_children e ys) = is_call e"
  by (cases e rule: is_call.cases) simp_all

text \<open>What the passage of the node kinds \<open>P\<close> through the rewriting needs: rebuilding a node keeps
  its kind, and the code around a temporary has none of them.\<close>

locale tracked_nodes =
  fixes P :: "y_expr \<Rightarrow> bool"
  assumes with_children: "P (y_with_children e ys) = P e"
    and no_load: "\<not> P (YOp m (Load n))" and no_store: "\<not> P (YOp m (Store n v))" and no_del: "\<not> P (YOp m (Del n q))"
begin

text \<open>\<open>treated es s r\<close>: from the state \<open>s\<close> the result \<open>r\<close> has the tracked nodes of \<open>es\<close>, first those of
  the new statements, then its own, and the new statements are explicit.\<close>

definition treated :: "y_expr list \<Rightarrow> hoisted \<Rightarrow> y_expr list \<times> hoisted \<Rightarrow> bool" where
  "treated es s r \<longleftrightarrow>
     (\<exists>new. hoist_out (snd r) = hoist_out s @ new \<and> list_all explicit_stmt new \<and>
        trace P new @ trace P (fst r) = trace P es)"

lemma trace_temporaries [simp]:
  "trace P [eval_load tm n] = []" "trace P [eval_del tm n] = []" "trace P [eval_store tm n e] = trace P [e]"
  by (simp_all add: trace_node [of P "YOp tm _"] eval_load_def eval_del_def eval_store_def no_load no_store no_del)

lemma trace_deletes: "trace P (map (eval_del tm) ns) = []"
proof (induction ns)
  case (Cons n ns)
  have "trace P (map (eval_del tm) (n # ns)) = trace P [eval_del tm n] @ trace P (map (eval_del tm) ns)"
    by (simp only: list.map) (rule trace_Cons)
  with Cons show ?case by simp
qed simp

lemma treated_unchanged: "treated es s (es, s)"
  by (simp add: treated_def)

lemma treated_hoist:
  assumes "treated [e] s ([e'], s')" "yield_free_operands e'"
  shows "\<exists>e'' s''. hoist_yield tm (e', s') = (e'', s'') \<and> treated [e] s ([e''], s'') \<and>
    \<not> expr_contains_yield e'' \<and> (expr_contains_yield e' \<longrightarrow> trace P [e''] = [])"
proof (cases "expr_contains_yield e'")
  case True
  with assms(2) have "is_yield e'" by (auto simp: contains_yield_rec [of e'] yield_free_operands_def list_all_iff)
  obtain n c where "fresh_name ''eval'' (hoist_counter s') = (n, c)" by fastforce
  with True have r: "hoist_yield tm (e', s') = (eval_load tm n,
      s'\<lparr>hoist_out := hoist_out s' @ [eval_store tm n e'], hoist_cleanup := hoist_cleanup s' @ [n], hoist_counter := c\<rparr>)"
    by (simp add: hoist_yield_def)
  have "explicit_stmt (eval_store tm n e')"
    using \<open>is_yield e'\<close> assms(2) by (simp add: eval_store_def)
  moreover from assms(1) obtain new where "hoist_out s' = hoist_out s @ new" "list_all explicit_stmt new"
    "trace P new @ trace P [e'] = trace P [e]" by (auto simp: treated_def)
  ultimately have "treated [e] s ([eval_load tm n], snd (hoist_yield tm (e', s')))"
    unfolding treated_def by (intro exI [of _ "new @ [eval_store tm n e']"]) (simp add: r)
  with r show ?thesis by simp
next
  case False
  with assms show ?thesis by (auto simp: hoist_yield_def)
qed

text \<open>What is left of an operand after hoisting.\<close>

definition operand_treated :: "y_expr \<Rightarrow> hoisted \<Rightarrow> y_expr \<times> hoisted \<Rightarrow> bool" where
  "operand_treated x u r \<longleftrightarrow>
     treated [x] u ([fst r], snd r) \<and> \<not> expr_contains_yield (fst r) \<and>
     (is_yield x \<or> list_all (\<lambda>x. is_yield x \<or> \<not> P x) (y_preorder x) \<longrightarrow> trace P [fst r] = []) \<and>
     (\<not> expr_contains_yield x \<longrightarrow> r = (x, u))"

lemma treated_operands:
  assumes "\<And>x u. x \<in> set xs \<Longrightarrow> operand_treated x u (f x u)" and "ordered_operands P xs"
  shows "treated xs s (s_map f xs s) \<and> list_all (\<lambda>y. \<not> expr_contains_yield y) (fst (s_map f xs s))"
  using assms
proof (induction xs arbitrary: s)
  case (Cons x xs)
  obtain y s1 where fx: "f x s = (y, s1)" by fastforce
  with Cons.prems(1) [of x s] have y: "treated [x] s ([y], s1)" "\<not> expr_contains_yield y"
    "is_yield x \<or> list_all (\<lambda>x. is_yield x \<or> \<not> P x) (y_preorder x) \<longrightarrow> trace P [y] = []"
    by (simp_all add: operand_treated_def)
  obtain ys s2 where fxs: "s_map f xs s1 = (ys, s2)" by fastforce
  with Cons.IH [of s1] Cons.prems have ys: "treated xs s1 (ys, s2)" "list_all (\<lambda>y. \<not> expr_contains_yield y) ys"
    by simp_all
  from y(1) obtain new1 where 1: "hoist_out s1 = hoist_out s @ new1" "list_all explicit_stmt new1"
    "trace P new1 @ trace P [y] = trace P [x]" by (auto simp: treated_def)
  have "treated (x # xs) s (y # ys, s2)"
  proof (cases "list_all (\<lambda>c. \<not> expr_contains_yield c) xs")
    case True
    then have "s_map f xs s1 = (xs, s1)"
      using Cons.prems(1) by (intro s_map_id) (simp add: list_all_iff operand_treated_def)
    with fxs have "ys = xs" "s2 = s1" by simp_all
    have "trace P new1 @ trace P (y # ys) = trace P (x # xs)"
      using 1(3) by (subst (1 2) trace_Cons) (simp add: \<open>ys = xs\<close> flip: append_assoc)
    with 1(1,2) \<open>s2 = s1\<close> show ?thesis unfolding treated_def by auto
  next
    case False
    with Cons.prems(2) have "trace P [y] = []" using y(3) by simp
    from ys(1) obtain new2 where "hoist_out s2 = hoist_out s1 @ new2" "list_all explicit_stmt new2"
      
      and new2: "trace P new2 @ trace P ys = trace P xs" by (auto simp: treated_def)
    then have "hoist_out s2 = hoist_out s @ new1 @ new2" "list_all explicit_stmt (new1 @ new2)"
      using 1(1,2) by simp_all
    moreover have "trace P (new1 @ new2) @ trace P (y # ys) = trace P (x # xs)"
      using \<open>trace P [y] = []\<close> 1(3) new2 by (subst (1 2) trace_Cons) simp
    ultimately show ?thesis unfolding treated_def by auto
  qed
  with y ys fx fxs show ?case by simp
qed (simp add: treated_unchanged)

lemma hoisted_operand:
  assumes "make_eval_order_explicit_in_core_expr tm x u = (x', u')"
    and "treated [x] u ([x'], u')" "yield_free_operands x'" "is_yield x' = is_yield x"
  shows "operand_treated x u (hoist_core_expr_if_contains_yield tm x u)"
proof (cases "expr_contains_yield x")
  case False
  then have "hoist_core_expr_if_contains_yield tm x u = (x, u)" "\<not> is_yield x"
    by (simp_all add: make_unchanged hoist_core_expr_if_contains_yield_def hoist_yield_def contains_yield_rec [of x])
  with False trace_empty [OF False] show ?thesis by (simp add: operand_treated_def treated_unchanged)
next
  case True
  from treated_hoist [OF assms(2,3), of tm] obtain y v where y: "hoist_yield tm (x', u') = (y, v)"
    "treated [x] u ([y], v)" "\<not> expr_contains_yield y" "expr_contains_yield x' \<longrightarrow> trace P [y] = []" by blast
  have "trace P [y] = []" if "is_yield x \<or> list_all (\<lambda>x. is_yield x \<or> \<not> P x) (y_preorder x)"
  proof (cases "expr_contains_yield x'")
    case False
    with that assms(4) have only: "list_all (\<lambda>x. is_yield x \<or> \<not> P x) (y_preorder x)"
      by (auto simp: contains_yield_rec [of x'])
    from y(2) have sub: "set (trace P [y]) \<subseteq> set (trace P [x])"
      unfolding treated_def by (metis Un_upper2 fst_conv set_append)
    have "k \<notin> set (trace P [y])" for k
      using sub trace_no_yield [OF y(3)] trace_only_yields [OF only] by blast
    then show ?thesis by (metis list.set_intros(1) neq_Nil_conv)
  qed (use y(4) in simp)
  with y True assms(1) show ?thesis by (simp add: operand_treated_def hoist_core_expr_if_contains_yield_def)
qed

lemma make_treated:
  assumes "ordered P e"
  shows "treated [e] s (map_prod (\<lambda>x. [x]) id (make_eval_order_explicit_in_core_expr tm e s)) \<and>
    yield_free_operands (fst (make_eval_order_explicit_in_core_expr tm e s)) \<and>
    is_yield (fst (make_eval_order_explicit_in_core_expr tm e s)) = is_yield e"
  using assms
proof (induction e arbitrary: s rule: yld.node_induct)
  case (node e)
  let ?f = "hoist_core_expr_if_contains_yield tm"
  have kids: "operand_treated x u (?f x u)" if x: "x \<in> set (y_children e)" for x u
  proof -
    obtain x' u' where make: "make_eval_order_explicit_in_core_expr tm x u = (x', u')" by fastforce
    with node.IH [OF x ordered_child [OF node.prems x], of u] show ?thesis
      by (intro hoisted_operand [OF make]) simp_all
  qed
  obtain ys s' where map: "s_map ?f (y_children e) s = (ys, s')" by fastforce
  have "treated (y_children e) s (ys, s')" and free: "list_all (\<lambda>y. \<not> expr_contains_yield y) ys"
    using treated_operands [of "y_children e" ?f s, OF kids ordered_operands_self [OF node.prems]] map by simp_all
  then obtain new where new: "hoist_out s' = hoist_out s @ new" "list_all explicit_stmt new"
    "trace P new @ trace P ys = trace P (y_children e)" by (auto simp: treated_def)
  have len: "length ys = length (y_children e)" using map by (rule s_map_length)
  have "treated [e] s ([y_with_children e ys], s')"
  proof -
    have "trace P new @ trace P [y_with_children e ys] = trace P [e]"
      unfolding trace_node [of P e] trace_node [of P "y_with_children e ys"] yld.children_with [OF len]
        with_children y_with_frame append_assoc [symmetric] new(3) by (rule refl)
    with new(1,2) show ?thesis unfolding treated_def fst_conv snd_conv by blast
  qed
  then show ?case
    using free by (simp add: make_hoists [of tm e] map yield_free_operands_def yld.children_with [OF len])
qed

lemma hoist_treated: "ordered P e \<Longrightarrow> operand_treated e s (hoist_core_expr_if_contains_yield tm e s)"
  using make_treated [of e s tm]
  by (cases "make_eval_order_explicit_in_core_expr tm e s") (simp add: hoisted_operand)

lemma hoist_treatedD:
  "hoist_core_expr_if_contains_yield tm e s = (e', s') \<Longrightarrow> ordered P e \<Longrightarrow>
   treated [e] s ([e'], s') \<and> \<not> expr_contains_yield e'"
  using hoist_treated [of e s tm] by (simp add: operand_treated_def)

lemma body_treated:
  assumes "list_all (ordered P) es"
  shows "list_all explicit_stmt (fst (make_body_explicit tm es c)) \<and> trace P (fst (make_body_explicit tm es c)) = trace P es"
  using assms
proof (induction es arbitrary: c)
  case (Cons e es)
  let ?s = "\<lparr>hoist_out = [], hoist_cleanup = [], hoist_counter = c\<rparr>"
  obtain e' s where s: "(if expr_contains_yield e then make_eval_order_explicit_in_core_expr tm e ?s else (e, ?s)) = (e', s)"
    by fastforce
  obtain rest c' where rest: "make_body_explicit tm es (hoist_counter s) = (rest, c')" by fastforce
  with Cons.IH [of "hoist_counter s"] Cons.prems
  have IH: "list_all explicit_stmt rest" "trace P rest = trace P es" by simp_all
  have "treated [e] ?s ([e'], s) \<and> yield_free_operands e'"
  proof (cases "expr_contains_yield e")
    case True
    with make_treated [of e ?s tm] s Cons.prems show ?thesis by simp
  next
    case False
    with s contains_yield_rec [of e] show ?thesis
      by (auto simp: treated_unchanged yield_free_operands_def list_all_iff)
  qed
  then have st: "list_all explicit_stmt (hoist_out s)" "trace P (hoist_out s @ [e']) = trace P [e]" "explicit_stmt e'"
    by (auto simp: treated_def explicit_if_free)
  have "trace P (append_stmt_cleanup tm (hoist_out s @ [e']) (hoist_cleanup s) @ rest) = trace P (e # es)"
    unfolding append_stmt_cleanup_def trace_Cons [of P e es] trace_simps(2) [of P "_ @ _"] st(2) [symmetric]
    by (simp only: trace_simps(2) trace_deletes IH(2) append_Nil2)
  with st IH(1) show ?case
    by (simp add: s rest append_stmt_cleanup_def explicit_deletes)
qed simp

lemma term_treated:
  assumes "list_all (ordered P) (term_exprs t)"
  shows "treated (term_exprs t) s (map_prod term_exprs id (hoist_term tm t s)) \<and>
    list_all (\<lambda>e. \<not> expr_contains_yield e) (term_exprs (fst (hoist_term tm t s))) \<and>
    successors (fst (hoist_term tm t s)) = successors t"
  using assms
  by (cases "(tm, t, s)" rule: hoist_term.cases)
     (auto simp: treated_unchanged dest: hoist_treatedD split: prod.split)

lemma block_treated:
  assumes "list_all (ordered P) (block_instrs b)"
  shows "list_all explicit_stmt (body (fst (make_block_explicit tm b c)))"
    and "list_all (\<lambda>e. \<not> expr_contains_yield e) (term_exprs (bterm (fst (make_block_explicit tm b c))))"
    and "trace P (block_instrs (fst (make_block_explicit tm b c))) = trace P (block_instrs b)"
    and "successors (bterm (fst (make_block_explicit tm b c))) = successors (bterm b)"
proof -
  obtain es c1 where es: "make_body_explicit tm (body b) c = (es, c1)" by fastforce
  with body_treated [of "body b" tm c] assms
  have 1: "list_all explicit_stmt es" "trace P es = trace P (body b)" by (simp_all add: block_instrs_def)
  obtain t s where t: "hoist_term tm (bterm b) \<lparr>hoist_out = es, hoist_cleanup = [], hoist_counter = c1\<rparr> = (t, s)"
    by fastforce
  with term_treated [of "bterm b" "\<lparr>hoist_out = es, hoist_cleanup = [], hoist_counter = c1\<rparr>" tm] assms
  have 2: "treated (term_exprs (bterm b)) \<lparr>hoist_out = es, hoist_cleanup = [], hoist_counter = c1\<rparr> (term_exprs t, s)"
    "list_all (\<lambda>e. \<not> expr_contains_yield e) (term_exprs t)" "successors t = successors (bterm b)"
    by (simp_all add: block_instrs_def)
  have b: "fst (make_block_explicit tm b c) =
      \<lparr>label = label b, body = hoist_out s, bterm = t, params = params b, exc_edge = exc_edge b\<rparr>"
    by (simp add: make_block_explicit_def make_eval_order_explicit_in_core_term_def es t)
  from 1 2 show "list_all explicit_stmt (body (fst (make_block_explicit tm b c)))"
    "list_all (\<lambda>e. \<not> expr_contains_yield e) (term_exprs (bterm (fst (make_block_explicit tm b c))))"
    "trace P (block_instrs (fst (make_block_explicit tm b c))) = trace P (block_instrs b)"
    "successors (bterm (fst (make_block_explicit tm b c))) = successors (bterm b)"
    by (auto simp: b treated_def block_instrs_def)
qed

end

interpretation yields: tracked_nodes is_yield
  by unfold_locales simp_all

interpretation effects: tracked_nodes is_effect
  by unfold_locales (simp_all add: is_effect_def is_call_with)

lemma ordered_yields: "ordered is_yield e"
proof -
  have "ordered_operands is_yield xs" for xs
    by (induction xs) (simp_all add: list_all_iff)
  then show ?thesis by (simp add: ordered_def list_all_iff)
qed

text \<open>Blocks of a function against the rewritten ones, for tracked nodes \<open>P\<close>.\<close>

definition same_order :: "(y_expr \<Rightarrow> bool) \<Rightarrow> y_expr bp_function \<Rightarrow> y_expr bp_function \<Rightarrow> bool" where
  "same_order P f g \<longleftrightarrow>
     list_all2 (\<lambda>b b'. trace P (block_instrs b') = trace P (block_instrs b)) (fn_blocks f) (fn_blocks g)"

definition explicit_block :: "(y_expr, y_expr) block \<Rightarrow> bool" where
  "explicit_block b \<longleftrightarrow>
     list_all explicit_stmt (body b) \<and> list_all (\<lambda>e. \<not> expr_contains_yield e) (term_exprs (bterm b))"

definition frame_of :: "(y_expr, y_expr) block \<Rightarrow> block_label \<times> block_label list \<times> block_param list \<times> block_edge option" where
  "frame_of b = (label b, successors (bterm b), params b, exc_edge b)"

lemma callable_blocks:
  "fn_blocks (fst (make_eval_order_explicit_in_core_callable_def tm f c)) =
     fst (s_map (make_block_explicit tm) (fn_blocks f) c)"
  by (simp add: make_eval_order_explicit_in_core_callable_def_def split: prod.split)

lemma make_block_frame: "frame_of (fst (make_block_explicit tm b c)) = frame_of b"
  using yields.block_treated(4) [of b tm c]
  by (simp add: frame_of_def make_block_explicit_def ordered_yields list_all_iff split: prod.split)

section \<open>Properties\<close>

lemma yields_explicit:
  "list_all explicit_block (fn_blocks (fst (make_eval_order_explicit_in_core_callable_def tm f c))) \<and>
   same_order is_yield f (fst (make_eval_order_explicit_in_core_callable_def tm f c)) \<and>
   map frame_of (fn_blocks (fst (make_eval_order_explicit_in_core_callable_def tm f c))) = map frame_of (fn_blocks f)"
proof -
  let ?bs = "fst (s_map (make_block_explicit tm) (fn_blocks f) c)"
  have all: "list_all2 (\<lambda>b b'. explicit_block b' \<and> trace is_yield (block_instrs b') = trace is_yield (block_instrs b) \<and>
      frame_of b' = frame_of b) (fn_blocks f) ?bs"
  proof (rule s_map_all2, intro conjI)
    fix b u
    have "list_all (ordered is_yield) (block_instrs b)" by (simp add: list_all_iff ordered_yields)
    note b = yields.block_treated [OF this, of tm u]
    show "explicit_block (fst (make_block_explicit tm b u))" using b(1,2) by (simp add: explicit_block_def)
    show "trace is_yield (block_instrs (fst (make_block_explicit tm b u))) = trace is_yield (block_instrs b)" by (rule b(3))
  qed (rule make_block_frame)
  then have "list_all explicit_block ?bs" by (auto simp: list_all_iff dest: list_all2_right)
  moreover have "map frame_of ?bs = map frame_of (fn_blocks f)"
    using all by (induction rule: list_all2_induct) simp_all
  moreover have "same_order is_yield f (fst (make_eval_order_explicit_in_core_callable_def tm f c))"
    unfolding same_order_def callable_blocks using all by (rule list_all2_mono) simp
  ultimately show ?thesis by (simp add: callable_blocks)
qed

text \<open>C29: After the rewriting every statement is free of yields, a single yield of a yield-free value
  or the store of one, every terminator is free of yields, and each block has its yields in the order
  they had before and the label, parameters, successors and exception edge it had before.\<close>

theorem yields_made_explicit:
  "list_all explicit_block (fn_blocks (fst (make_eval_order_explicit_in_core_callable_def tm f c))) \<and>
   same_order is_yield f (fst (make_eval_order_explicit_in_core_callable_def tm f c)) \<and>
   map frame_of (fn_blocks (fst (make_eval_order_explicit_in_core_callable_def tm f c))) = map frame_of (fn_blocks f)"
  by (rule yields_explicit)

text \<open>C30: If in every expression the operands before an operand with a yield are yields or have no
  calls, each block has its calls and yields in the order they had before.\<close>

theorem effects_in_order:
  assumes "list_all (list_all (ordered is_effect) \<circ> block_instrs) (fn_blocks f)"
  shows "same_order is_effect f (fst (make_eval_order_explicit_in_core_callable_def tm f c))"
  unfolding same_order_def callable_blocks
  by (rule s_map_all2, rule effects.block_treated(3)) (use assms in \<open>simp add: list_all_iff\<close>)

definition name_expr :: "string \<Rightarrow> y_expr" where
  "name_expr n = YOp synthetic (Load (SourceName n))"

definition marked :: "nat \<Rightarrow> meta" where
  "marked k = meta_new k (0, 0)"

definition call_expr :: "nat \<Rightarrow> string \<Rightarrow> y_expr list \<Rightarrow> y_expr" where
  "call_expr k n as = YOp (marked k) (Call (name_expr n) (map Positional as) [])"

definition one_statement :: "y_expr \<Rightarrow> y_expr bp_function" where
  "one_statement e =
     \<lparr>fn_id = function_id_new 0 0, fn_name_gen = function_name_gen_new (function_id_new 0 0),
      fn_names = scope_names sample_scope, fn_kind = KGenerator, fn_params = [],
      fn_blocks = [\<lparr>label = BlockLabel 0, body = [e], bterm = Return (name_expr ''None''), params = [], exc_edge = None\<rparr>],
      fn_doc = None, fn_layout = None, fn_scope = sample_scope\<rparr>"

text \<open>\<open>f((yield x), a())\<close> keeps its order; in \<open>f(a(), (yield x))\<close> the call of \<open>a\<close>, which comes first
  in the source, runs after the yield.\<close>

definition yield_then_call :: y_expr where
  "yield_then_call = call_expr 4 ''f'' [YYield (marked 2) (name_expr ''x''), call_expr 3 ''a'' []]"

definition call_then_yield :: y_expr where
  "call_then_yield = call_expr 4 ''f'' [call_expr 3 ''a'' [], YYield (marked 2) (name_expr ''x'')]"

lemma leaf_facts [simp]:
  "y_preorder (name_expr n) = [name_expr n]" "\<not> expr_contains_yield (name_expr n)"
  "post_order is_effect (name_expr n) = []" "y_children (name_expr n) = []" "\<not> is_yield (name_expr n)"
  "\<not> is_effect (name_expr n)"
  by (simp_all add: name_expr_def y_preorder.simps contains_yield_rec [of "YOp _ (Load _)"]
      post_order.simps [of _ "YOp _ (Load _)"] is_effect_def)

lemma temporaries_no_effect:
  "post_order is_effect (eval_load m n) = []" "post_order is_effect (eval_del m n) = []"
  "post_order is_effect (eval_store m n e) = post_order is_effect e"
  by (simp_all add: eval_load_def eval_del_def eval_store_def is_effect_def post_order.simps [of _ "YOp _ _"])

lemma sample_nodes [simp]:
  "y_children (call_expr k n as) = name_expr n # as" "is_effect (call_expr k n as)" "\<not> is_yield (call_expr k n as)"
  "kind_of_node (call_expr k n as) = NodeOther" "y_meta (call_expr k n as) = marked k"
  "expr_contains_yield (call_expr k n as) = list_ex expr_contains_yield as"
  "expr_contains_yield (YYield m v)" "is_effect (YYield m v)"
  by (simp_all add: call_expr_def is_effect_def list_ex_iff o_def contains_yield_rec [of "YYield m v"]
      contains_yield_rec [of "YOp _ (Call _ _ _)"])

theorem effects_in_order_witness:
  "same_order is_effect (one_statement yield_then_call)
     (fst (make_eval_order_explicit_in_core_callable_def synthetic (one_statement yield_then_call) 0))"
  by (rule effects_in_order)
     (simp add: one_statement_def yield_then_call_def block_instrs_def ordered_def
       y_preorder.simps [of "call_expr _ _ _"] y_preorder.simps [of "YYield _ _"])

text \<open>Without the hypothesis the order changes: the code hoists the operands with a yield only.\<close>

lemma call_runs_after_yield:
  "map (trace is_effect \<circ> block_instrs) (fn_blocks (one_statement call_then_yield)) =
     [[(NodeOther, marked 3), (NodeYield, marked 2), (NodeOther, marked 4)]]"
  "map (trace is_effect \<circ> block_instrs)
     (fn_blocks (fst (make_eval_order_explicit_in_core_callable_def synthetic (one_statement call_then_yield) 0))) =
     [[(NodeYield, marked 2), (NodeOther, marked 3), (NodeOther, marked 4)]]"
proof -
  let ?e = "call_expr 4 ''f'' [call_expr 3 ''a'' [], YYield (marked 2) (name_expr ''x'')]"
  obtain n c where nc: "fresh_name ''eval'' 0 = (n, c)" by fastforce
  let ?t = "eval_load synthetic n"
  have free: "\<not> expr_contains_yield (call_expr 3 ''a'' [])" by simp
  have yv: "hoist_core_expr_if_contains_yield synthetic (YYield (marked 2) (name_expr ''x'')) s =
      hoist_yield synthetic (YYield (marked 2) (name_expr ''x''), s)" for s
    by (simp add: hoist_core_expr_if_contains_yield_def make_hoists [of _ "YYield _ _"]) 
       (simp add: hoist_core_expr_if_contains_yield_def make_unchanged hoist_yield_def)
  have unch: "hoist_core_expr_if_contains_yield synthetic (call_expr 3 ''a'' []) s = (call_expr 3 ''a'' [], s)"
    "hoist_core_expr_if_contains_yield synthetic (name_expr m) s = (name_expr m, s)" for s m
    by (simp_all add: hoist_core_expr_if_contains_yield_def make_unchanged hoist_yield_def)
  have mk: "make_eval_order_explicit_in_core_expr synthetic ?e
      \<lparr>hoist_out = [], hoist_cleanup = [], hoist_counter = 0\<rparr> =
      (call_expr 4 ''f'' [call_expr 3 ''a'' [], ?t],
       \<lparr>hoist_out = [eval_store synthetic n (YYield (marked 2) (name_expr ''x''))], hoist_cleanup = [n], hoist_counter = c\<rparr>)"
    by (simp add: make_hoists [of _ ?e] unch yv hoist_yield_def nc) (simp add: call_expr_def)
  note posts = post_order.simps [of _ "call_expr _ _ _"] post_order.simps [of _ "YYield _ _"]
  show "map (trace is_effect \<circ> block_instrs) (fn_blocks (one_statement call_then_yield)) =
     [[(NodeOther, marked 3), (NodeYield, marked 2), (NodeOther, marked 4)]]"
    by (simp add: one_statement_def call_then_yield_def block_instrs_def trace_def posts)
  show "map (trace is_effect \<circ> block_instrs)
     (fn_blocks (fst (make_eval_order_explicit_in_core_callable_def synthetic (one_statement call_then_yield) 0))) =
     [[(NodeYield, marked 2), (NodeOther, marked 3), (NodeOther, marked 4)]]"
    by (simp add: callable_blocks one_statement_def call_then_yield_def make_block_explicit_def mk
        make_eval_order_explicit_in_core_term_def unch append_stmt_cleanup_def block_instrs_def)
       (simp add: trace_def posts temporaries_no_effect)
qed

end
