(* ===== verification/Opt_Block.thy ===== *)
theory Opt_Block
  imports Program Machine
begin

text \<open>
  Optimization fragments of \<open>passes/instrument.rs\<close>: an entry block with the blocks it depends on,
  which replaces an instruction. A fragment is accepted when every path from the entry stays inside
  it until it reaches the fallthrough label and when every block can be reached. The search keeps the
  labels it has reached, the path it is on, and the verdict on every label it has finished.
\<close>

datatype opt_error =
  ReusedLabel block_label
| PathLeaves block_label
| UnreachableDependency block_label block_label

record 'i opt_block =
  opt_entry :: "('i, 'i) block"
  opt_dependencies :: "('i, 'i) block list"

datatype 'i opt_instr = OptInstr 'i | OptBlock "'i opt_block"

record search =
  seen_labels :: "block_label set"
  verdicts :: "block_label \<rightharpoonup> bool"

text \<open>\<open>all\<close> on the successors, which stops at the first one that fails.\<close>

fun all_targets :: "(block_label \<Rightarrow> search \<Rightarrow> bool \<times> search) \<Rightarrow> block_label list \<Rightarrow> search \<Rightarrow> bool \<times> search" where
  "all_targets f [] s = (True, s)"
| "all_targets f (t # ts) s =
     (if is_fallthrough t then all_targets f ts s
      else (let (v, s') = f t s in if v then all_targets f ts s' else (False, s')))"

lemma all_targets_cong [fundef_cong]:
  "ts = us \<Longrightarrow> s = s' \<Longrightarrow> (\<And>t u. t \<in> set us \<Longrightarrow> f t u = g t u) \<Longrightarrow> all_targets f ts s = all_targets g us s'"
proof (induction ts arbitrary: us s s')
  case (Cons t ts)
  then show ?case by (auto split: prod.splits)
qed simp

definition exits :: "'e block_term \<Rightarrow> block_label list option" where
  "exits t = (case t of Raise x \<Rightarrow> None | Return v \<Rightarrow> None | _ \<Rightarrow> Some (successors t))"

text \<open>The blocks of the fragment that are not on the path bound the depth of the search.\<close>

definition off_path :: "('i, 'i) block list \<Rightarrow> block_label list \<Rightarrow> nat" where
  "off_path bs stack = length (filter (\<lambda>b. label b \<notin> set stack) bs)"

lemma off_path_push:
  assumes "find_block bs l = Some b" "l \<notin> set stack"
  shows "off_path bs (l # stack) < off_path bs stack"
proof -
  have b: "b \<in> set bs" "label b = l" using assms(1) by (auto simp: find_block_def find_Some_iff)
  have "filter (\<lambda>b. label b \<notin> set (l # stack)) bs = filter (\<lambda>b. label b \<noteq> l) (filter (\<lambda>b. label b \<notin> set stack) bs)"
    by (simp add: conj_commute)
  moreover have "b \<in> set (filter (\<lambda>b. label b \<notin> set stack) bs)" using b assms(2) by simp
  ultimately show ?thesis unfolding off_path_def using b(2) by (metis (mono_tags, lifting) length_filter_less)
qed

function all_paths_end_in_fallthrough ::
  "('i, 'i) block list \<Rightarrow> block_label list \<Rightarrow> block_label \<Rightarrow> search \<Rightarrow> bool \<times> search" where
  "all_paths_end_in_fallthrough bs stack l s =
     (case verdicts s l of
        Some v \<Rightarrow> (v, s\<lparr>seen_labels := insert l (seen_labels s)\<rparr>)
      | None \<Rightarrow>
          if l \<in> set stack then (False, s)
          else (case find_block bs l of
                  None \<Rightarrow> (False, s)
                | Some b \<Rightarrow>
                    (let s1 = s\<lparr>seen_labels := insert l (seen_labels s)\<rparr>;
                         (v, s2) = (case exits (bterm b) of
                                      None \<Rightarrow> (False, s1)
                                    | Some ts \<Rightarrow> all_targets (all_paths_end_in_fallthrough bs (l # stack)) ts s1)
                     in (v, s2\<lparr>verdicts := (verdicts s2)(l \<mapsto> v)\<rparr>))))"
  by pat_completeness auto
termination
  by (relation "measure (\<lambda>(bs, stack, l, s). off_path bs stack)")
     (auto intro: off_path_push)

declare all_paths_end_in_fallthrough.simps [simp del]

text \<open>The insertion of the blocks into the map by label.\<close>

fun insert_labels :: "block_label list \<Rightarrow> ('i, 'i) block list \<Rightarrow> opt_error + unit" where
  "insert_labels ls [] = Inr ()"
| "insert_labels ls (b # bs) =
     (if label b \<in> set ls then Inl (ReusedLabel (label b)) else insert_labels (label b # ls) bs)"

definition validate_opt_block :: "('i, 'i) block \<Rightarrow> ('i, 'i) block list \<Rightarrow> opt_error + unit" where
  "validate_opt_block entry deps =
     and_then (insert_labels [label entry] deps)
       (let (v, s) = all_paths_end_in_fallthrough (entry # deps) [] (label entry)
                       \<lparr>seen_labels = {}, verdicts = Map.empty\<rparr>
        in if \<not> v then Inl (PathLeaves (label entry))
           else check_all (\<lambda>b. if label b \<notin> seen_labels s then Inl (UnreachableDependency (label b) (label entry))
                                else Inr ()) deps)"

definition opt_block_new :: "('i, 'i) block \<Rightarrow> ('i, 'i) block list \<Rightarrow> opt_error + 'i opt_block" where
  "opt_block_new entry deps =
     (case validate_opt_block entry deps of
        Inl e \<Rightarrow> Inl e
      | Inr _ \<Rightarrow> Inr \<lparr>opt_entry = entry, opt_dependencies = deps\<rparr>)"

text \<open>\<open>OptBlock::replace_fallthrough_target\<close>\<close>

definition replace_fallthrough_in_fragment :: "block_label \<Rightarrow> 'i opt_block \<Rightarrow> 'i opt_block \<times> bool" where
  "replace_fallthrough_in_fragment to f =
     (let (e, r) = replace_fallthrough_target to (opt_entry f);
          ds = map (replace_fallthrough_target to) (opt_dependencies f)
      in (\<lparr>opt_entry = e, opt_dependencies = map fst ds\<rparr>, fold (\<lambda>(_, r') r. r \<or> r') ds r))"

section \<open>What a fragment promises\<close>

text \<open>An edge of a fragment leads to a target other than the fallthrough label.\<close>

definition inner_edges :: "('i, 'i) block list \<Rightarrow> (block_label \<times> block_label) set" where
  "inner_edges bs =
     {(l, t). \<exists>b. find_block bs l = Some b \<and> t \<in> set (successors (bterm b)) \<and> \<not> is_fallthrough t}"

text \<open>Every path from \<open>l\<close> is finite and ends with a jump to the fallthrough label.\<close>

inductive leads_out :: "('i, 'i) block list \<Rightarrow> block_label \<Rightarrow> bool" for bs where
  leads_outI: "find_block bs l = Some b \<Longrightarrow> exits (bterm b) = Some ts \<Longrightarrow>
    (\<And>t. t \<in> set ts \<Longrightarrow> \<not> is_fallthrough t \<Longrightarrow> leads_out bs t) \<Longrightarrow> leads_out bs l"

inductive_simps leads_out_iff: "leads_out bs l"

section \<open>The search\<close>

lemma exits_Some: "exits t = Some ts \<Longrightarrow> ts = successors t"
  by (cases t) (simp_all add: exits_def)

lemma leads_out_edge: "leads_out bs l \<Longrightarrow> (l, t) \<in> inner_edges bs \<Longrightarrow> leads_out bs t"
  unfolding leads_out_iff [of bs l] by (auto simp: inner_edges_def dest: exits_Some)

lemma leads_out_acyclic: "leads_out bs l \<Longrightarrow> (l, l) \<notin> (inner_edges bs)\<^sup>+"
proof (induction rule: leads_out.induct)
  case (leads_outI l b ts)
  show ?case
  proof
    assume "(l, l) \<in> (inner_edges bs)\<^sup>+"
    then obtain t where t: "(l, t) \<in> inner_edges bs" "(t, l) \<in> (inner_edges bs)\<^sup>*"
      by (meson converse_tranclE rtrancl.rtrancl_refl trancl_into_rtrancl)
    then have "(t, t) \<in> (inner_edges bs)\<^sup>+" by (simp add: rtrancl_into_trancl1)
    moreover have "t \<in> set ts" "\<not> is_fallthrough t"
      using t(1) leads_outI(1) exits_Some [OF leads_outI(2)] by (auto simp: inner_edges_def)
    ultimately show False using leads_outI(4) by blast
  qed
qed

definition sound :: "('i, 'i) block list \<Rightarrow> search \<Rightarrow> bool" where
  "sound bs s \<longleftrightarrow>
     (\<forall>l v. verdicts s l = Some v \<longrightarrow>
        v = leads_out bs l \<and> (v \<longrightarrow> (inner_edges bs)\<^sup>* `` {l} \<subseteq> seen_labels s))"

text \<open>The verdict on \<open>l\<close> is right and the labels that were reached are those behind \<open>l\<close>, all of them
  if the verdict is positive.\<close>

definition decided :: "('i, 'i) block list \<Rightarrow> block_label set \<Rightarrow> bool \<Rightarrow> search \<Rightarrow> bool \<times> search \<Rightarrow> bool" where
  "decided bs L good s r \<longleftrightarrow>
     fst r = good \<and> sound bs (snd r) \<and> seen_labels s \<subseteq> seen_labels (snd r) \<and>
     seen_labels (snd r) \<subseteq> seen_labels s \<union> (inner_edges bs)\<^sup>* `` L \<and>
     (fst r \<longrightarrow> (inner_edges bs)\<^sup>* `` L \<subseteq> seen_labels (snd r))"

lemma all_targets_decided:
  assumes "\<And>t u. t \<in> set ts \<Longrightarrow> \<not> is_fallthrough t \<Longrightarrow> sound bs u \<Longrightarrow> decided bs {t} (leads_out bs t) u (f t u)"
    and "sound bs s"
  shows "decided bs {t \<in> set ts. \<not> is_fallthrough t} (\<forall>t\<in>set ts. is_fallthrough t \<or> leads_out bs t) s (all_targets f ts s)"
  using assms
proof (induction ts arbitrary: s)
  case (Cons t ts)
  show ?case
  proof (cases "is_fallthrough t")
    case True
    then have "{u \<in> set (t # ts). \<not> is_fallthrough u} = {u \<in> set ts. \<not> is_fallthrough u}" by auto
    with True Cons.IH [of s] Cons.prems show ?thesis by simp
  next
    case False
    obtain v s' where f: "f t s = (v, s')" by fastforce
    have t: "decided bs {t} (leads_out bs t) s (v, s')" using Cons.prems(1) [of t s] Cons.prems(2) False f by simp
    show ?thesis
    proof (cases v)
      case True
      obtain w s'' where w: "all_targets f ts s' = (w, s'')" by fastforce
      have "sound bs s'" using t by (simp add: decided_def)
      then have "decided bs {u \<in> set ts. \<not> is_fallthrough u} (\<forall>t\<in>set ts. is_fallthrough t \<or> leads_out bs t) s' (w, s'')"
        using Cons.IH [of s'] Cons.prems(1) w by simp
      moreover have "(inner_edges bs)\<^sup>* `` {u \<in> set (t # ts). \<not> is_fallthrough u} =
          (inner_edges bs)\<^sup>* `` {t} \<union> (inner_edges bs)\<^sup>* `` {u \<in> set ts. \<not> is_fallthrough u}"
        using False by auto
      ultimately show ?thesis using t True False f w unfolding decided_def by auto
    next
      case v: False
      with t False f show ?thesis unfolding decided_def by auto
    qed
  qed
qed (simp add: decided_def)

lemma search_decided:
  "sound bs s \<Longrightarrow> (\<And>x. x \<in> set stack \<Longrightarrow> (x, l) \<in> (inner_edges bs)\<^sup>+) \<Longrightarrow>
   decided bs {l} (leads_out bs l) s (all_paths_end_in_fallthrough bs stack l s)"
proof (induction bs stack l s rule: all_paths_end_in_fallthrough.induct)
  case (1 bs stack l s)
  note rec = all_paths_end_in_fallthrough.simps [of bs stack l s]
  show ?case
  proof (cases "verdicts s l")
    case (Some v)
    have "l \<in> (inner_edges bs)\<^sup>* `` {l}" by simp
    with Some "1.prems"(1) show ?thesis unfolding rec decided_def sound_def by auto
  next
    case memo: None
    show ?thesis
    proof (cases "l \<in> set stack")
      case True
      with "1.prems"(2) leads_out_acyclic have "\<not> leads_out bs l" by blast
      with True memo "1.prems"(1) show ?thesis by (simp add: rec decided_def)
    next
      case fresh: False
      show ?thesis
      proof (cases "find_block bs l")
        case None
        then have "\<not> leads_out bs l" by (simp add: leads_out_iff [of bs l])
        with None fresh memo "1.prems"(1) show ?thesis by (simp add: rec decided_def)
      next
        case b: (Some b)
        let ?s1 = "s\<lparr>seen_labels := insert l (seen_labels s)\<rparr>"
        have s1: "sound bs ?s1" using "1.prems"(1) by (auto simp: sound_def)
        show ?thesis
        proof (cases "exits (bterm b)")
          case None
          with b have "\<not> leads_out bs l" by (simp add: leads_out_iff [of bs l])
          with None b fresh memo s1 show ?thesis by (auto simp: rec decided_def sound_def)
        next
          case (Some ts)
          let ?T = "{t \<in> set ts. \<not> is_fallthrough t}"
          have edges: "inner_edges bs `` {l} = ?T"
            using b exits_Some [OF Some] by (auto simp: inner_edges_def)
          have lo: "leads_out bs l \<longleftrightarrow> (\<forall>t\<in>set ts. is_fallthrough t \<or> leads_out bs t)"
            using b Some by (auto simp: leads_out_iff [of bs l])
          obtain v s2 where r: "all_targets (all_paths_end_in_fallthrough bs (l # stack)) ts ?s1 = (v, s2)" by fastforce
          have "decided bs ?T (leads_out bs l) ?s1 (v, s2)"
            unfolding lo r [symmetric]
          proof (rule all_targets_decided [OF _ s1])
            fix t u assume t: "t \<in> set ts" "\<not> is_fallthrough t" and u: "sound bs u"
            then have lt: "(l, t) \<in> inner_edges bs" using edges by auto
            then have "\<And>x. x \<in> set (l # stack) \<Longrightarrow> (x, t) \<in> (inner_edges bs)\<^sup>+"
              using "1.prems"(2) by (auto intro: trancl_into_trancl)
            then show "decided bs {t} (leads_out bs t) u (all_paths_end_in_fallthrough bs (l # stack) t u)"
              using "1.IH" [OF memo fresh b refl Some] t(1) u by blast
          qed
          moreover have "(inner_edges bs)\<^sup>* `` {l} = insert l ((inner_edges bs)\<^sup>* `` ?T)"
            unfolding edges [symmetric] by (auto intro: converse_rtrancl_into_rtrancl elim: converse_rtranclE)
          moreover have "all_paths_end_in_fallthrough bs stack l s = (v, s2\<lparr>verdicts := (verdicts s2)(l \<mapsto> v)\<rparr>)"
            by (simp add: rec memo fresh b Some r)
          ultimately show ?thesis unfolding decided_def sound_def by auto
        qed
      qed
    qed
  qed
qed

section \<open>Validation and replacement\<close>

lemma insert_labels_ok: "insert_labels ls bs = Inr u \<longleftrightarrow> distinct (map label bs) \<and> set ls \<inter> set (map label bs) = {}"
  by (induction ls bs rule: insert_labels.induct) auto

lemma search_spec:
  assumes "all_paths_end_in_fallthrough bs [] l \<lparr>seen_labels = {}, verdicts = Map.empty\<rparr> = (v, s)"
  shows "v \<longleftrightarrow> leads_out bs l" and "v \<Longrightarrow> seen_labels s = (inner_edges bs)\<^sup>* `` {l}"
  using search_decided [of bs "\<lparr>seen_labels = {}, verdicts = Map.empty\<rparr>" "[]" l]
  unfolding assms by (auto simp: decided_def sound_def)

lemma leads_out_has_exit:
  "leads_out bs l \<Longrightarrow> \<exists>b\<in>set bs. \<exists>t\<in>set (successors (bterm b)). is_fallthrough t"
proof (induction rule: leads_out.induct)
  case (leads_outI l b ts)
  have "ts \<noteq> []" using leads_outI(2) by (cases "bterm b") (auto simp: exits_def)
  then obtain t where t: "t \<in> set ts" by (cases ts) auto
  show ?case
  proof (cases "is_fallthrough t")
    case True
    then show ?thesis using t exits_Some [OF leads_outI(2)] find_block_Some [OF leads_outI(1)] by blast
  next
    case False
    then show ?thesis using leads_outI(4) t by blast
  qed
qed

lemma validate_opt_block_iff:
  "validate_opt_block entry deps = Inr () \<longleftrightarrow>
     distinct (map label (entry # deps)) \<and> leads_out (entry # deps) (label entry) \<and>
     label ` set deps \<subseteq> (inner_edges (entry # deps))\<^sup>* `` {label entry}"
proof -
  obtain v s where r: "all_paths_end_in_fallthrough (entry # deps) [] (label entry)
      \<lparr>seen_labels = {}, verdicts = Map.empty\<rparr> = (v, s)" by fastforce
  note spec = search_spec [OF r]
  show ?thesis
  proof (cases v)
    case True
    with spec show ?thesis by (auto simp: validate_opt_block_def insert_labels_ok r image_subset_iff)
  next
    case False
    with spec show ?thesis by (auto simp: validate_opt_block_def r)
  qed
qed

lemma opt_block_new_Inr:
  "opt_block_new entry deps = Inr f \<longleftrightarrow>
     f = \<lparr>opt_entry = entry, opt_dependencies = deps\<rparr> \<and> validate_opt_block entry deps = Inr ()"
  by (auto simp: opt_block_new_def split: sum.splits)

lemma is_fallthrough_iff: "is_fallthrough l \<longleftrightarrow> l = fallthrough"
  by (cases l) (simp add: is_fallthrough_def fallthrough_def)

lemma replaced_any: "fold (\<lambda>(_ :: 'a, r') r. r \<or> r') ds r \<longleftrightarrow> r \<or> list_ex snd ds"
  by (induction ds arbitrary: r) (auto simp: case_prod_beta)

definition fragment_blocks :: "'i opt_block \<Rightarrow> ('i, 'i) block list" where
  "fragment_blocks f = opt_entry f # opt_dependencies f"

lemma replace_fallthrough_sel:
  "bterm (fst (replace_fallthrough_target to b)) = fst (replace_target fallthrough to (bterm b))"
  "snd (replace_fallthrough_target to b) \<longleftrightarrow> fallthrough \<in> set (successors (bterm b))"
  by (simp_all add: replace_fallthrough_target_def case_prod_beta replace_target_changed)

lemma replaced_blocks:
  "fragment_blocks (fst (replace_fallthrough_in_fragment to f)) =
     map (\<lambda>b. fst (replace_fallthrough_target to b)) (fragment_blocks f)"
  "snd (replace_fallthrough_in_fragment to f) \<longleftrightarrow>
     list_ex (\<lambda>b. fallthrough \<in> set (successors (bterm b))) (fragment_blocks f)"
  by (simp_all add: fragment_blocks_def replace_fallthrough_in_fragment_def case_prod_beta replaced_any
      replaced_any [unfolded case_prod_beta] list_ex_iff replace_fallthrough_sel)

section \<open>Properties\<close>

text \<open>C31: The search accepts a fragment exactly when its labels are distinct, every path from its entry
  is finite and ends at the fallthrough label without leaving it, and the entry reaches every block.\<close>

theorem opt_block_new_iff:
  "opt_block_new entry deps = Inr f \<longleftrightarrow>
     f = \<lparr>opt_entry = entry, opt_dependencies = deps\<rparr> \<and>
     distinct (map label (entry # deps)) \<and>
     leads_out (entry # deps) (label entry) \<and>
     label ` set deps \<subseteq> (inner_edges (entry # deps))\<^sup>* `` {label entry}"
  by (simp only: opt_block_new_Inr validate_opt_block_iff)


definition leaving_block :: "(cg_expr, cg_expr) block" where
  "leaving_block = \<lparr>label = BlockLabel 0, body = [], bterm = Jump (edge_new fallthrough), params = [], exc_edge = None\<rparr>"

lemma leaving_block_ok: "opt_block_new leaving_block [] = Inr \<lparr>opt_entry = leaving_block, opt_dependencies = []\<rparr>"
  by (simp add: opt_block_new_def validate_opt_block_def all_paths_end_in_fallthrough.simps find_block_def
      leaving_block_def exits_def is_fallthrough_iff and_then_def)


end
