(* ===== verification/Counters.thy ===== *)
theory Counters
  imports Program
begin

text \<open>
  Counters: \<open>CounterBuilder\<close> of \<open>passes/instrument.rs\<close> numbers the counters of a module after the
  highest number in use, and the passes of \<open>passes/trace/mod.rs\<close> define counters and the
  instructions that increment them. Numbers are \<open>usize\<close> and wrap.
\<close>

record counter_builder =
  builder_defs :: "counter_def list"
  builder_next :: usize

definition counter_builder_new :: "counter_def list \<Rightarrow> counter_builder" where
  "counter_builder_new ds =
     \<lparr>builder_defs = ds, builder_next = (if ds = [] then 0 else foldl max 0 (map counter_id ds) + 1)\<rparr>"

definition define_counter ::
  "counter_scope \<Rightarrow> string \<Rightarrow> counter_site \<Rightarrow> counter_builder \<Rightarrow> usize \<times> counter_builder" where
  "define_counter sc k si cb =
     (builder_next cb,
      \<lparr>builder_defs = builder_defs cb @
         [\<lparr>counter_id = builder_next cb, counter_scope = sc, counter_kind = k, counter_site = si\<rparr>],
       builder_next = builder_next cb + 1\<rparr>)"

definition same_counter :: "counter_scope \<Rightarrow> string \<Rightarrow> counter_site \<Rightarrow> counter_def \<Rightarrow> bool" where
  "same_counter sc k si d \<longleftrightarrow> counter_scope d = sc \<and> counter_kind d = k \<and> counter_site d = si"

definition define_if_missing ::
  "counter_scope \<Rightarrow> string \<Rightarrow> counter_site \<Rightarrow> counter_builder \<Rightarrow> usize \<times> counter_builder" where
  "define_if_missing sc k si cb =
     (case find (same_counter sc k si) (builder_defs cb) of
        Some d \<Rightarrow> (counter_id d, cb)
      | None \<Rightarrow> define_counter sc k si cb)"

section \<open>Block entry counters\<close>

definition count_block_entry ::
  "function_id \<Rightarrow> (cg_expr, cg_expr) block \<Rightarrow> counter_builder \<Rightarrow> (cg_expr, cg_expr) block \<times> counter_builder" where
  "count_block_entry i b cb =
     (let (n, cb') = define_counter CounterThis ''block_entry'' (SiteBlockEntry i (label b)) cb
      in (b\<lparr>body := CgIncrementCounter synthetic n # body b\<rparr>, cb'))"

definition count_function_entries ::
  "cg_expr bp_function \<Rightarrow> counter_builder \<Rightarrow> cg_expr bp_function \<times> counter_builder" where
  "count_function_entries f cb =
     (let (bs, cb') = s_map (count_block_entry (fn_id f)) (fn_blocks f) cb in (f\<lparr>fn_blocks := bs\<rparr>, cb'))"

definition instrument_bb_module_with_block_entry_counters :: "cg_expr bp_module \<Rightarrow> cg_expr bp_module" where
  "instrument_bb_module_with_block_entry_counters m =
     (let (fs, cb) = s_map count_function_entries (callable_defs m) (counter_builder_new (counter_defs m))
      in m\<lparr>callable_defs := fs, counter_defs := builder_defs cb\<rparr>)"

section \<open>Runtime counters\<close>

definition define_missing :: "(counter_scope \<times> string \<times> counter_site) list \<Rightarrow> cg_expr bp_module \<Rightarrow> cg_expr bp_module" where
  "define_missing specs m =
     m\<lparr>counter_defs := builder_defs (fold (\<lambda>(sc, k, si) cb. snd (define_if_missing sc k si cb)) specs
                                       (counter_builder_new (counter_defs m)))\<rparr>"

definition refcount_kinds :: "string list" where
  "refcount_kinds = [''runtime_incref'', ''runtime_decref'']"

definition instrument_bb_module_with_refcount_counters ::
  "cg_expr bp_module \<Rightarrow> counter_scope \<Rightarrow> string + cg_expr bp_module" where
  "instrument_bb_module_with_refcount_counters m sc =
     (case sc of
        CounterThis \<Rightarrow> Inl ''refcount counters do not yet support CounterScope::This; use Function or Global''
      | CounterFunction \<Rightarrow>
          Inr (define_missing (concat (map (\<lambda>f. map (\<lambda>k. (sc, k, SiteRuntime (Some (fn_id f)) None)) refcount_kinds)
                                        (callable_defs m))) m)
      | CounterGlobal \<Rightarrow> Inr (define_missing (map (\<lambda>k. (sc, k, SiteRuntime None None)) refcount_kinds) m))"

definition instrument_bb_module_with_global_load_counters :: "cg_expr bp_module \<Rightarrow> cg_expr bp_module" where
  "instrument_bb_module_with_global_load_counters m =
     define_missing (map (\<lambda>k. (CounterGlobal, k, SiteRuntime None None)) [''global_load_hit'', ''global_load_miss'']) m"

section \<open>Lemmas\<close>

lemma foldl_max_bound: "x \<in> set xs \<Longrightarrow> x \<le> foldl max a xs" "a \<le> foldl max a xs" for x :: usize
  by (induction xs arbitrary: a) (auto intro: order_trans [OF max.cobounded1] order_trans [OF max.cobounded2])

lemma foldl_max_in: "foldl max a xs \<in> insert a (set xs)" for a :: usize
  by (induction xs arbitrary: a) (auto simp: max_def)

text \<open>The room that is left for \<open>n\<close> more counters.\<close>

definition room_for :: "nat \<Rightarrow> counter_def list \<Rightarrow> bool" where
  "room_for n ds \<longleftrightarrow> n \<le> 2 ^ 64 \<and> list_all (\<lambda>d. unat (counter_id d) + n < 2 ^ 64) ds"

definition ids_below :: "nat \<Rightarrow> counter_def list \<Rightarrow> bool" where
  "ids_below n ds \<longleftrightarrow> list_all (\<lambda>d. unat (counter_id d) < n) ds \<and> distinct (map counter_id ds)"

definition defs_for :: "nat \<Rightarrow> (counter_scope \<times> string \<times> counter_site) list \<Rightarrow> counter_def list" where
  "defs_for n specs =
     map (\<lambda>(i, sc, k, si). \<lparr>counter_id = of_nat i, counter_scope = sc, counter_kind = k, counter_site = si\<rparr>)
       (enumerate n specs)"

definition entry_specs :: "cg_expr bp_function \<Rightarrow> (counter_scope \<times> string \<times> counter_site) list" where
  "entry_specs f = map (\<lambda>b. (CounterThis, ''block_entry'', SiteBlockEntry (fn_id f) (label b))) (fn_blocks f)"

definition count_first :: "(cg_expr, cg_expr) block \<Rightarrow> counter_def \<Rightarrow> (cg_expr, cg_expr) block" where
  "count_first b d = b\<lparr>body := CgIncrementCounter synthetic (counter_id d) # body b\<rparr>"

lemma defs_for_simps [simp]: "defs_for n [] = []" "length (defs_for n specs) = length specs"
  "defs_for n ((sc, k, si) # specs) =
     \<lparr>counter_id = of_nat n, counter_scope = sc, counter_kind = k, counter_site = si\<rparr> # defs_for (Suc n) specs"
  by (simp_all add: defs_for_def)

lemma defs_for_append: "defs_for n (xs @ ys) = defs_for n xs @ defs_for (n + length xs) ys"
  by (induction xs arbitrary: n) auto

lemma defs_for_ids: "map counter_id (defs_for n specs) = map of_nat [n ..< n + length specs]"
  by (induction specs arbitrary: n) (auto simp: upt_conv_Cons simp del: upt_Suc)

lemma defs_for_specs: "map (\<lambda>d. (counter_scope d, counter_kind d, counter_site d)) (defs_for n specs) = specs"
  by (induction specs arbitrary: n) auto

lemma count_blocks:
  assumes "builder_next cb = of_nat n"
  shows "s_map (count_block_entry i) bs cb =
    (map2 count_first bs (defs_for n (map (\<lambda>b. (CounterThis, ''block_entry'', SiteBlockEntry i (label b))) bs)),
     \<lparr>builder_defs = builder_defs cb @ defs_for n (map (\<lambda>b. (CounterThis, ''block_entry'', SiteBlockEntry i (label b))) bs),
      builder_next = of_nat (n + length bs)\<rparr>)"
  using assms
proof (induction bs arbitrary: cb n)
  case (Cons b bs)
  let ?d = "\<lparr>counter_id = of_nat n, counter_scope = CounterThis, counter_kind = ''block_entry'',
      counter_site = SiteBlockEntry i (label b)\<rparr>"
  have "count_block_entry i b cb = (count_first b ?d,
      \<lparr>builder_defs = builder_defs cb @ [?d], builder_next = of_nat (Suc n)\<rparr>)"
    using Cons.prems by (simp add: count_block_entry_def define_counter_def count_first_def add.commute)
  moreover note Cons.IH [of "\<lparr>builder_defs = builder_defs cb @ [?d], builder_next = of_nat (Suc n)\<rparr>" "Suc n"]
  ultimately show ?case by simp
qed (cases cb, simp)

lemma count_functions:
  assumes "builder_next cb = of_nat n"
  shows "\<exists>fs'. s_map count_function_entries fs cb =
      (fs', \<lparr>builder_defs = builder_defs cb @ defs_for n (concat (map entry_specs fs)),
             builder_next = of_nat (n + length (concat (map entry_specs fs)))\<rparr>) \<and>
    concat (map fn_blocks fs') = map2 count_first (concat (map fn_blocks fs)) (defs_for n (concat (map entry_specs fs))) \<and>
    list_all2 (\<lambda>f f'. f' = f\<lparr>fn_blocks := fn_blocks f'\<rparr> \<and> length (fn_blocks f') = length (fn_blocks f)) fs fs'"
  using assms
proof (induction fs arbitrary: cb n)
  case (Cons f fs)
  let ?ds = "defs_for n (entry_specs f)"
  let ?cb = "\<lparr>builder_defs = builder_defs cb @ ?ds, builder_next = of_nat (n + length (fn_blocks f))\<rparr>"
  have f: "count_function_entries f cb = (f\<lparr>fn_blocks := map2 count_first (fn_blocks f) ?ds\<rparr>, ?cb)"
    by (simp add: count_function_entries_def count_blocks [OF Cons.prems] entry_specs_def)
  from Cons.IH [of ?cb "n + length (fn_blocks f)"] obtain fs' where fs:
    "s_map count_function_entries fs ?cb =
      (fs', \<lparr>builder_defs = builder_defs ?cb @ defs_for (n + length (fn_blocks f)) (concat (map entry_specs fs)),
             builder_next = of_nat (n + length (fn_blocks f) + length (concat (map entry_specs fs)))\<rparr>)"
    "concat (map fn_blocks fs') = map2 count_first (concat (map fn_blocks fs))
       (defs_for (n + length (fn_blocks f)) (concat (map entry_specs fs)))"
    "list_all2 (\<lambda>f f'. f' = f\<lparr>fn_blocks := fn_blocks f'\<rparr> \<and> length (fn_blocks f') = length (fn_blocks f)) fs fs'"
    by auto
  have len: "length (entry_specs f) = length (fn_blocks f)" by (simp add: entry_specs_def)
  show ?case
    using fs by (simp add: f len defs_for_append zip_append add.assoc del: add_Suc_right)
qed (cases cb, simp)

lemma usize_of_nat: "i < 2 ^ 64 \<Longrightarrow> unat (of_nat i :: usize) = i"
  by (simp add: unsigned_of_nat take_bit_nat_eq_self)

lemma new_ids:
  assumes "n + length specs \<le> 2 ^ 64" "ids_below n ds"
  shows "distinct (map counter_id (ds @ defs_for n specs))"
proof -
  have "inj_on (of_nat :: nat \<Rightarrow> usize) {n ..< n + length specs}"
  proof (rule inj_onI)
    fix i j assume range: "i \<in> {n ..< n + length specs}" "j \<in> {n ..< n + length specs}"
      and eq: "(of_nat i :: usize) = of_nat j"
    from range have "i < n + length specs" "j < n + length specs" by simp_all
    then have "i < 2 ^ 64" "j < 2 ^ 64" using assms(1) by (blast intro: order_less_le_trans)+
    then have "unat (of_nat i :: usize) = i" "unat (of_nat j :: usize) = j" by (simp_all only: usize_of_nat)
    with eq show "i = j" by metis
  qed
  moreover have "counter_id d \<notin> of_nat ` {n ..< n + length specs}" if "d \<in> set ds" for d
  proof
    assume "counter_id d \<in> of_nat ` {n ..< n + length specs}"
    then obtain i where i: "counter_id d = of_nat i" "n \<le> i" "i < n + length specs" by auto
    then have "i < 2 ^ 64" using assms(1) by (blast intro: order_less_le_trans)
    with i(1) have "unat (counter_id d) = i" by (simp only: usize_of_nat)
    with i that assms(2) show False by (auto simp: ids_below_def list_all_iff)
  qed
  ultimately show ?thesis
    using assms(2) unfolding map_append defs_for_ids by (auto simp: ids_below_def distinct_map)
qed

lemma counter_builder_new_next:
  assumes "room_for k ds" "distinct (map counter_id ds)"
  obtains n where "builder_next (counter_builder_new ds) = of_nat n" "ids_below n ds" "n + k \<le> 2 ^ 64"
proof (cases "ds = []")
  case True
  with assms show ?thesis by (intro that [of 0]) (simp_all add: counter_builder_new_def ids_below_def room_for_def)
next
  case False
  let ?m = "foldl max 0 (map counter_id ds)"
  have "?m \<in> set (map counter_id ds)"
  proof -
    obtain d where d: "d \<in> set ds" using False by (cases ds) auto
    then have "counter_id d \<le> ?m" by (intro foldl_max_bound(1)) simp
    then show ?thesis using foldl_max_in [of 0 "map counter_id ds"] d by auto
  qed
  then obtain d where d: "d \<in> set ds" "counter_id d = ?m" by auto
  with assms(1) have "unat ?m + k < 2 ^ 64" by (auto simp: room_for_def list_all_iff)
  moreover have "unat (counter_id d) \<le> unat ?m" if "d \<in> set ds" for d
    using foldl_max_bound(1) [of "counter_id d" "map counter_id ds" 0] that by (simp add: word_le_nat_alt)
  ultimately show ?thesis using assms(2) False
    by (intro that [of "Suc (unat ?m)"])
       (auto simp: counter_builder_new_def ids_below_def list_all_iff less_Suc_eq_le)
qed

section \<open>Defining counters once\<close>

definition has_counters :: "(counter_scope \<times> string \<times> counter_site) list \<Rightarrow> counter_def list \<Rightarrow> bool" where
  "has_counters specs ds \<longleftrightarrow> list_all (\<lambda>(sc, k, si). list_ex (same_counter sc k si) ds) specs"

lemma define_if_missing_present: "list_ex (same_counter sc k si) (builder_defs cb) \<Longrightarrow> snd (define_if_missing sc k si cb) = cb"
  by (cases "find (same_counter sc k si) (builder_defs cb)")
     (auto simp: define_if_missing_def list_ex_iff find_None_iff)

lemma define_if_missing_defs:
  "list_ex (same_counter sc k si) (builder_defs (snd (define_if_missing sc k si cb)))"
  "set (builder_defs cb) \<subseteq> set (builder_defs (snd (define_if_missing sc k si cb)))"
proof -
  have "list_ex (same_counter sc k si) (builder_defs (snd (define_if_missing sc k si cb))) \<and>
    set (builder_defs cb) \<subseteq> set (builder_defs (snd (define_if_missing sc k si cb)))"
  proof (cases "find (same_counter sc k si) (builder_defs cb)")
    case None
    then show ?thesis by (auto simp: define_if_missing_def define_counter_def same_counter_def)
  next
    case (Some d)
    then have "d \<in> set (builder_defs cb)" "same_counter sc k si d" by (auto simp: find_Some_iff)
    with Some show ?thesis by (auto simp: define_if_missing_def list_ex_iff)
  qed
  then show "list_ex (same_counter sc k si) (builder_defs (snd (define_if_missing sc k si cb)))"
    "set (builder_defs cb) \<subseteq> set (builder_defs (snd (define_if_missing sc k si cb)))" by simp_all
qed

lemma fold_define_present:
  "has_counters specs (builder_defs cb) \<Longrightarrow> fold (\<lambda>(sc, k, si) cb. snd (define_if_missing sc k si cb)) specs cb = cb"
  by (induction specs) (auto simp: has_counters_def define_if_missing_present)

lemma fold_define_all:
  "set (builder_defs cb) \<subseteq> set (builder_defs (fold (\<lambda>(sc, k, si) cb. snd (define_if_missing sc k si cb)) specs cb)) \<and>
   has_counters specs (builder_defs (fold (\<lambda>(sc, k, si) cb. snd (define_if_missing sc k si cb)) specs cb))"
proof (induction specs arbitrary: cb)
  case (Cons x specs)
  obtain sc k si where x: "x = (sc, k, si)" by (cases x)
  from Cons.IH [of "snd (define_if_missing sc k si cb)"] define_if_missing_defs [where sc = sc and k = k and si = si and cb = cb]
  show ?case by (auto simp: x has_counters_def list_ex_iff)
qed (simp add: has_counters_def)

lemma define_missing_twice: "define_missing specs (define_missing specs m) = define_missing specs m"
proof -
  have "fold (\<lambda>(sc, k, si) cb. snd (define_if_missing sc k si cb)) specs (counter_builder_new (counter_defs (define_missing specs m)))
      = counter_builder_new (counter_defs (define_missing specs m))"
    using fold_define_all [of "counter_builder_new (counter_defs m)" specs]
    by (intro fold_define_present) (simp add: define_missing_def counter_builder_new_def)
  then have "define_missing specs (define_missing specs m) =
      (define_missing specs m)\<lparr>counter_defs := counter_defs (define_missing specs m)\<rparr>"
    unfolding define_missing_def [of specs "define_missing specs m"] by (simp add: counter_builder_new_def)
  then show ?thesis by simp
qed

section \<open>Properties\<close>

text \<open>The passes that define runtime counters do nothing when they run again, and refuse the scope
  of a single instruction.\<close>

theorem runtime_counters_once:
  "instrument_bb_module_with_global_load_counters (instrument_bb_module_with_global_load_counters m) =
     instrument_bb_module_with_global_load_counters m \<and>
   res_bind (instrument_bb_module_with_refcount_counters m sc) (\<lambda>m'. instrument_bb_module_with_refcount_counters m' sc) =
     instrument_bb_module_with_refcount_counters m sc \<and>
   (isl (instrument_bb_module_with_refcount_counters m sc) \<longleftrightarrow> sc = CounterThis)"
proof -
  have "callable_defs (define_missing specs m) = callable_defs m" for specs by (simp add: define_missing_def)
  then show ?thesis
    by (cases sc) (simp_all add: instrument_bb_module_with_global_load_counters_def define_missing_twice
        instrument_bb_module_with_refcount_counters_def res_bind_def)
qed

text \<open>C33: Entry counters: each block of the module gets one counter of its own, with an id that no other
  counter has, and starts with the instruction that increments it; nothing else changes.\<close>

theorem block_entry_counters_spec:
  assumes "room_for (length (concat (map entry_specs (callable_defs m)))) (counter_defs m)"
    and "distinct (map counter_id (counter_defs m))"
  shows "\<exists>new. let m' = instrument_bb_module_with_block_entry_counters m; fs = callable_defs m; fs' = callable_defs m' in
    counter_defs m' = counter_defs m @ new \<and> distinct (map counter_id (counter_defs m')) \<and>
    map (\<lambda>d. (counter_scope d, counter_kind d, counter_site d)) new = concat (map entry_specs fs) \<and>
    concat (map fn_blocks fs') = map2 count_first (concat (map fn_blocks fs)) new \<and>
    list_all2 (\<lambda>f f'. f' = f\<lparr>fn_blocks := fn_blocks f'\<rparr> \<and> length (fn_blocks f') = length (fn_blocks f)) fs fs'"
proof -
  let ?specs = "concat (map entry_specs (callable_defs m))"
  obtain n where n: "builder_next (counter_builder_new (counter_defs m)) = of_nat n" "ids_below n (counter_defs m)"
    "n + length ?specs \<le> 2 ^ 64" using assms by (rule counter_builder_new_next)
  from count_functions [OF n(1), of "callable_defs m"] obtain fs' where fs:
    "s_map count_function_entries (callable_defs m) (counter_builder_new (counter_defs m)) =
      (fs', \<lparr>builder_defs = builder_defs (counter_builder_new (counter_defs m)) @ defs_for n ?specs,
             builder_next = of_nat (n + length ?specs)\<rparr>)"
    "concat (map fn_blocks fs') = map2 count_first (concat (map fn_blocks (callable_defs m))) (defs_for n ?specs)"
    "list_all2 (\<lambda>f f'. f' = f\<lparr>fn_blocks := fn_blocks f'\<rparr> \<and> length (fn_blocks f') = length (fn_blocks f)) (callable_defs m) fs'"
    by blast
  with fs new_ids [OF n(3,2)] show ?thesis
    by (intro exI [of _ "defs_for n ?specs"])
       (simp add: instrument_bb_module_with_block_entry_counters_def counter_builder_new_def Let_def defs_for_specs)
qed

definition counted_module :: "cg_expr bp_module" where
  "counted_module =
     \<lparr>mod_name_gen = module_name_gen_new 0, global_names = [],
      callable_defs =
        [\<lparr>fn_id = function_id_new 0 0, fn_name_gen = function_name_gen_new (function_id_new 0 0),
          fn_names = scope_names sample_scope, fn_kind = KFunction, fn_params = [],
          fn_blocks = [\<lparr>label = BlockLabel 0, body = [], bterm = Jump (edge_new (BlockLabel 1)), params = [], exc_edge = None\<rparr>,
                       \<lparr>label = BlockLabel 1, body = [], bterm = Raise None, params = [], exc_edge = None\<rparr>],
          fn_doc = None, fn_layout = None, fn_scope = sample_scope\<rparr>],
      module_constants = [],
      counter_defs = [\<lparr>counter_id = 7, counter_scope = CounterGlobal, counter_kind = ''global_load_hit'',
                        counter_site = SiteRuntime None None\<rparr>]\<rparr>"

theorem block_entry_counters_spec_witness:
  "\<exists>new. let m' = instrument_bb_module_with_block_entry_counters counted_module;
     fs = callable_defs counted_module; fs' = callable_defs m' in
    counter_defs m' = counter_defs counted_module @ new \<and> distinct (map counter_id (counter_defs m')) \<and>
    map (\<lambda>d. (counter_scope d, counter_kind d, counter_site d)) new = concat (map entry_specs fs) \<and>
    concat (map fn_blocks fs') = map2 count_first (concat (map fn_blocks fs)) new \<and>
    list_all2 (\<lambda>f f'. f' = f\<lparr>fn_blocks := fn_blocks f'\<rparr> \<and> length (fn_blocks f') = length (fn_blocks f)) fs fs'"
  by (rule block_entry_counters_spec) (simp_all add: counted_module_def room_for_def entry_specs_def)

end
