(* ===== verification/Binding_Rewrite.thy ===== *)
theory Binding_Rewrite
  imports Program
begin

text \<open>
  The first half of \<open>passes/name_binding.rs\<close>: \<open>NameBindingMapper\<close> turns loads, stores and deletions
  of names into the operation that the scope of the callable asks for. Names of class bodies become
  lookups in the class namespace, deletions of locals store a sentinel, and \<open>MakeFunction\<close> becomes
  a call with the cells that the callee captures. The \<open>AtomicNodeIndex\<close> and \<open>TextRange\<close> pair that the
  functions pass around is the metadata it is taken from.
\<close>

section \<open>Building expressions\<close>

text \<open>\<open>Meta::new\<close> on the position of other metadata drops the instruction id.\<close>

definition position_of :: "meta \<Rightarrow> meta" where
  "position_of m = meta_new (node_index m) (text_range m)"

definition should_late_bind_name :: "string \<Rightarrow> callable_scope_info \<Rightarrow> bool" where
  "should_late_bind_name n s \<longleftrightarrow> \<not> is_internal_symbol n \<or> honors_internal_binding n s"

definition core_string_expr :: "meta \<Rightarrow> string \<Rightarrow> core" where
  "core_string_expr m v = CoreLit (position_of m) (StringLiteral v)"

definition core_int_expr :: "meta \<Rightarrow> u64 \<Rightarrow> core" where
  "core_int_expr m v = CoreLit (position_of m) (NumberLiteral (IntLiteral (uint v)))"

definition core_runtime_call :: "string \<Rightarrow> meta \<Rightarrow> core list \<Rightarrow> core" where
  "core_runtime_call f m as =
     CoreOp (position_of m) (Call (CoreOp (position_of m) (Load (RuntimeName f))) (map Positional as) [])"

definition globals_expr :: "meta \<Rightarrow> core" where
  "globals_expr m = core_runtime_call ''globals'' m []"

text \<open>The plain load that \<open>rewrite_global_name_load\<close>, \<open>rewrite_local_name_load\<close> and
  \<open>rewrite_cell_name_load\<close> all build.\<close>

definition name_load :: "string \<Rightarrow> meta \<Rightarrow> core" where
  "name_load n m = CoreOp m (Load (SourceName n))"

definition runtime_name_list :: "string list" where
  "runtime_name_list =
     [''DELETED'', ''NONE'', ''TRUE'', ''FALSE'', ''ELLIPSIS'', ''globals'', ''load_deleted_name'',
      ''class_lookup_global'', ''class_lookup_cell'', ''tuple'', ''make_function'']"

definition core_name_expr :: "string \<Rightarrow> meta \<Rightarrow> core" where
  "core_name_expr n m =
     (if n \<in> set runtime_name_list then CoreOp (position_of m) (Load (RuntimeName n))
      else CoreOp (position_of m) (Load (SourceName n)))"

definition class_namespace_expr :: "meta \<Rightarrow> core" where
  "class_namespace_expr m = core_name_expr ''_dp_class_ns'' m"

definition deleted_sentinel_expr :: "meta \<Rightarrow> core" where
  "deleted_sentinel_expr m = core_name_expr ''DELETED'' m"

definition cell_ref_expr :: "string \<Rightarrow> meta \<Rightarrow> core" where
  "cell_ref_expr n m = CoreCellRefForName (position_of m) n"

fun raw_load_name :: "core \<Rightarrow> string option" where
  "raw_load_name (CoreOp m (Load n)) = Some (unresolved_id n)"
| "raw_load_name _ = None"

fun is_deleted_sentinel_expr :: "core \<Rightarrow> bool" where
  "is_deleted_sentinel_expr (CoreOp m (Load n)) \<longleftrightarrow> is_runtime_symbol n ''DELETED''"
| "is_deleted_sentinel_expr _ \<longleftrightarrow> False"

section \<open>Loads\<close>

definition rewrite_class_name_load_global :: "string \<Rightarrow> meta \<Rightarrow> core" where
  "rewrite_class_name_load_global n m =
     core_runtime_call ''class_lookup_global'' m [class_namespace_expr m, core_string_expr m n, globals_expr m]"

definition rewrite_class_name_load_cell :: "string \<Rightarrow> meta \<Rightarrow> core" where
  "rewrite_class_name_load_cell n m =
     core_runtime_call ''class_lookup_cell'' m [class_namespace_expr m, core_string_expr m n, cell_ref_expr n m]"

definition rewrite_name_load :: "callable_scope_info \<Rightarrow> string \<Rightarrow> meta \<Rightarrow> core" where
  "rewrite_name_load s n m =
     (if is_internal_symbol n \<and> \<not> honors_internal_binding n s then name_load n m
      else if scope_kind s = ScopeClass then
        (case effective_binding_of n LoadPurpose s of
           Some (EffClassBody FallbackCell) \<Rightarrow> rewrite_class_name_load_cell n m
         | Some (EffCell _) \<Rightarrow> name_load n m
         | Some EffGlobal \<Rightarrow> name_load n m
         | Some EffLocal \<Rightarrow> name_load n m
         | Some (EffClassBody FallbackGlobal) \<Rightarrow> rewrite_class_name_load_global n m
         | None \<Rightarrow> rewrite_class_name_load_global n m)
      else (case resolved_load_binding_kind n s of
              BindCell _ \<Rightarrow> name_load n m
            | BindGlobal \<Rightarrow> name_load n m
            | BindLocal \<Rightarrow> name_load n m))"

definition should_rewrite_raw_name_load :: "string \<Rightarrow> callable_scope_info \<Rightarrow> bool" where
  "should_rewrite_raw_name_load n s \<longleftrightarrow>
     should_late_bind_name n s \<or>
     (case effective_binding_of n LoadPurpose s of
        Some EffGlobal \<Rightarrow> True | Some (EffCell _) \<Rightarrow> True | Some (EffClassBody _) \<Rightarrow> True | _ \<Rightarrow> False)"

definition resolve_cell_storage_name :: "callable_scope_info \<Rightarrow> string \<Rightarrow> string option" where
  "resolve_cell_storage_name s n =
     map_option (\<lambda>l. cell_storage_name l s) (logical_name_for_cell_capture_source n s)"

definition bind_load :: "callable_scope_info \<Rightarrow> meta \<Rightarrow> unresolved_name \<Rightarrow> core" where
  "bind_load s m n =
     (case n of
        RuntimeName r \<Rightarrow> CoreOp m (Load (RuntimeName r))
      | SourceName x \<Rightarrow>
          if resolve_cell_storage_name s x \<noteq> None then name_load x m
          else if should_rewrite_raw_name_load x s then rewrite_name_load s x m
          else CoreOp m (Load (SourceName x)))"

section \<open>Stores and deletions\<close>

definition class_namespace_delete :: "string \<Rightarrow> meta \<Rightarrow> core" where
  "class_namespace_delete n m = CoreOp m (DelItem (class_namespace_expr m) (core_string_expr m n))"

definition rewrite_binding_delete :: "string \<Rightarrow> meta \<Rightarrow> callable_scope_info \<Rightarrow> core" where
  "rewrite_binding_delete n m s =
     (if is_cell_binding n s then CoreOp m (Del (SourceName n) False)
      else case binding_target_for_name n StorePurpose s of
        TargetLocal \<Rightarrow> CoreOp m (Store (SourceName n) (deleted_sentinel_expr m))
      | TargetModuleGlobal \<Rightarrow> CoreOp m (Del (SourceName n) False)
      | TargetClassNamespace \<Rightarrow> class_namespace_delete n m)"

definition rewrite_quiet_delete_marker :: "string \<Rightarrow> meta \<Rightarrow> callable_scope_info \<Rightarrow> core" where
  "rewrite_quiet_delete_marker n m s =
     (case binding_kind_of n s of
        Some (BindCell _) \<Rightarrow> CoreOp m (Del (SourceName n) True)
      | _ \<Rightarrow> (case binding_target_for_name n StorePurpose s of
                TargetLocal \<Rightarrow> CoreOp m (Store (SourceName n) (deleted_sentinel_expr m))
              | TargetModuleGlobal \<Rightarrow> CoreOp m (Del (SourceName n) True)
              | TargetClassNamespace \<Rightarrow> class_namespace_delete n m))"

definition rewrite_binding_assign_by_name :: "string \<Rightarrow> core \<Rightarrow> callable_scope_info \<Rightarrow> meta \<Rightarrow> core" where
  "rewrite_binding_assign_by_name n v s m0 =
     (let m = position_of m0; target = SourceName n in
      if is_cell_binding n s then
        (if is_deleted_sentinel_expr v then CoreOp m (Del target False) else CoreOp m (Store target v))
      else case binding_target_for_name n StorePurpose s of
        TargetModuleGlobal \<Rightarrow>
          (if is_deleted_sentinel_expr v then CoreOp m (Del target False) else CoreOp m (Store target v))
      | TargetClassNamespace \<Rightarrow>
          (if is_deleted_sentinel_expr v then class_namespace_delete n m
           else CoreOp m (SetItem (class_namespace_expr m) (core_string_expr m n) v))
      | TargetLocal \<Rightarrow> CoreOp m (Store target v))"

definition semantic_name :: "unresolved_name \<Rightarrow> bool" where
  "semantic_name n \<longleftrightarrow> \<not> unresolved_is_runtime n \<and> \<not> is_internal_symbol (unresolved_id n)"

section \<open>Markers and functions\<close>

fun quiet_delete_marker_target :: "core \<Rightarrow> string option" where
  "quiet_delete_marker_target (CoreOp m (Call f [Positional a] [])) =
     (if raw_load_name f \<noteq> Some ''del_quietly'' then None
      else case a of
        CoreOp m' (Call g bs ks) \<Rightarrow>
          (if ks \<noteq> [] \<or> length bs \<noteq> 2 \<or> raw_load_name g \<noteq> Some ''load_deleted_name'' then raw_load_name a
           else case bs ! 1 of Positional b \<Rightarrow> raw_load_name b | Starred b \<Rightarrow> None)
      | _ \<Rightarrow> raw_load_name a)"
| "quiet_delete_marker_target _ = None"

fun make_function_kind_name :: "function_kind \<Rightarrow> string" where
  "make_function_kind_name KFunction = ''function''"
| "make_function_kind_name KCoroutine = ''coroutine''"
| "make_function_kind_name KGenerator = ''generator''"
| "make_function_kind_name KAsyncGenerator = ''async_generator''"

type_synonym callee_captures = "function_id \<rightharpoonup> cell_capture_binding list"

definition captures_expr :: "callee_captures \<Rightarrow> meta \<Rightarrow> function_id \<Rightarrow> core" where
  "captures_expr caps m i =
     core_runtime_call ''tuple_values'' m
       (map (\<lambda>c. core_runtime_call ''tuple_values'' m
                   [core_string_expr m (capture_logical c), cell_ref_expr (capture_source c) m])
          (unwrap_or [] (caps i)))"

definition make_function_expr :: "callee_captures \<Rightarrow> meta \<Rightarrow> function_id \<Rightarrow> function_kind \<Rightarrow> core \<Rightarrow> core \<Rightarrow> core" where
  "make_function_expr caps m i k defaults annotate =
     core_runtime_call ''make_function'' m
       [core_int_expr m (packed i), core_string_expr m (make_function_kind_name k), captures_expr caps m i,
        defaults, annotate]"

text \<open>The third argument of a class cell lookup is a reference to the cell and is left alone.\<close>

definition is_class_cell_lookup :: "(core, unresolved_name) operation \<Rightarrow> bool" where
  "is_class_cell_lookup op \<longleftrightarrow>
     (case op of Call f as ks \<Rightarrow> ks = [] \<and> length as = 3 \<and> raw_load_name f = Some ''class_lookup_cell'' | _ \<Rightarrow> False)"

definition is_globals_call :: "callable_scope_info \<Rightarrow> (core, unresolved_name) operation \<Rightarrow> bool" where
  "is_globals_call s op \<longleftrightarrow>
     (case op of
        Call f as ks \<Rightarrow> as = [] \<and> ks = [] \<and> raw_load_name f = Some ''globals'' \<and>
          resolved_load_binding_kind ''globals'' s = BindGlobal
      | _ \<Rightarrow> False)"

text \<open>\<open>NameBindingMapper::map_instr\<close>: the operation once its operands \<open>ys\<close> have been mapped, and the
  recursion. An operand that the code does not map is taken from the operation.\<close>

definition bind_operation ::
  "callee_captures \<Rightarrow> callable_scope_info \<Rightarrow> meta \<Rightarrow> (core, unresolved_name) operation \<Rightarrow> core list \<Rightarrow> core" where
  "bind_operation caps s m op ys =
     (case op of
        Store n v \<Rightarrow>
          (if semantic_name n then rewrite_binding_assign_by_name (unresolved_id n) (ys ! 0) s m
           else CoreOp m (op_with_children op ys))
      | Del n quiet \<Rightarrow>
          (if \<not> quiet \<and> semantic_name n then rewrite_binding_delete (unresolved_id n) m s else CoreOp m op)
      | Load n \<Rightarrow> bind_load s m n
      | MakeFunction i k d a \<Rightarrow> make_function_expr caps m i k (ys ! 0) (ys ! 1)
      | _ \<Rightarrow>
          if is_globals_call s op then globals_expr m
          else if is_class_cell_lookup op then CoreOp m (op_with_children op (ys[3 := op_children op ! 3]))
          else CoreOp m (op_with_children op ys))"

function bind_expr :: "callee_captures \<Rightarrow> callable_scope_info \<Rightarrow> core \<Rightarrow> core" where
  "bind_expr caps s e =
     (case quiet_delete_marker_target e of
        Some n \<Rightarrow> rewrite_quiet_delete_marker n (core_meta e) s
      | None \<Rightarrow>
          (case e of
             CoreLit m l \<Rightarrow> e
           | CoreCellRefForName m n \<Rightarrow> cell_ref_expr n m
           | CoreOp m op \<Rightarrow> bind_operation caps s m op (map (bind_expr caps s) (core_children e))))"
  by pat_completeness auto
termination
  by (relation "measure (\<lambda>(caps, s, e). size e)")
     (simp_all only: wf_measure in_measure prod.case core_child_size)

declare bind_expr.simps [simp del]

section \<open>Nodes of rewritten expressions\<close>

definition all_nodes :: "('n core_expr \<Rightarrow> bool) \<Rightarrow> 'n core_expr \<Rightarrow> bool" where
  "all_nodes P e \<longleftrightarrow> list_all P (core_preorder e)"

lemma all_nodes_simps [simp]:
  "all_nodes P (CoreLit m l) \<longleftrightarrow> P (CoreLit m l)"
  "all_nodes P (CoreCellRefForName m n) \<longleftrightarrow> P (CoreCellRefForName m n)"
  "all_nodes P (CoreOp m op) \<longleftrightarrow> P (CoreOp m op) \<and> list_all (all_nodes P) (op_children op)"
  by (simp_all add: all_nodes_def core_preorder.simps [of "CoreLit m l"] core_preorder.simps [of "CoreOp m op"]
      core_preorder.simps [of "CoreCellRefForName m n"] list_all_iff)

lemma all_nodes_rebuilt:
  "length ys = length (op_children op) \<Longrightarrow>
   all_nodes P (CoreOp m (op_with_children op ys)) \<longleftrightarrow>
     P (CoreOp m (op_with_children op ys)) \<and> list_all (all_nodes P) ys"
  by (simp add: op_children_with)

text \<open>What a node may still say about names: no function to make, no access by name to what lives in
  the namespace of a class.\<close>

definition load_bound :: "callable_scope_info \<Rightarrow> string \<Rightarrow> bool" where
  "load_bound s n \<longleftrightarrow>
     is_internal_symbol n \<or> scope_kind s \<noteq> ScopeClass \<or> resolve_cell_storage_name s n \<noteq> None \<or>
     (case effective_binding_of n LoadPurpose s of
        Some EffLocal \<Rightarrow> True | Some EffGlobal \<Rightarrow> True | Some (EffCell _) \<Rightarrow> True | _ \<Rightarrow> False)"

definition store_bound :: "callable_scope_info \<Rightarrow> unresolved_name \<Rightarrow> bool" where
  "store_bound s n \<longleftrightarrow>
     (semantic_name n \<longrightarrow> is_cell_binding (unresolved_id n) s \<or>
        binding_target_for_name (unresolved_id n) StorePurpose s \<noteq> TargetClassNamespace)"

fun bound_node :: "callable_scope_info \<Rightarrow> core \<Rightarrow> bool" where
  "bound_node s (CoreOp m (Load (SourceName n))) \<longleftrightarrow> load_bound s n"
| "bound_node s (CoreOp m (Store n v)) \<longleftrightarrow> store_bound s n"
| "bound_node s (CoreOp m (Del n False)) \<longleftrightarrow> store_bound s n"
| "bound_node s (CoreOp m (MakeFunction i k d a)) \<longleftrightarrow> False"
| "bound_node s e \<longleftrightarrow> True"

text \<open>The cell argument of a class lookup, which the mapper does not enter, is bound already.\<close>

fun lookup_args_bound :: "callable_scope_info \<Rightarrow> core \<Rightarrow> bool" where
  "lookup_args_bound s (CoreOp m (Call f as ks)) \<longleftrightarrow>
     (is_class_cell_lookup (Call f as ks) \<longrightarrow> all_nodes (bound_node s) (arg_expr (as ! 2)))"
| "lookup_args_bound s e \<longleftrightarrow> True"

lemma built_nodes [simp]:
  "all_nodes (bound_node s) (core_string_expr m n)" "all_nodes (bound_node s) (core_int_expr m v)"
  "all_nodes (bound_node s) (cell_ref_expr n m)"
  "all_nodes (bound_node s) (class_namespace_expr m)" "all_nodes (bound_node s) (deleted_sentinel_expr m)"
  "all_nodes (bound_node s) (name_load n m) \<longleftrightarrow> load_bound s n"
  "all_nodes (bound_node s) (core_runtime_call f m as) \<longleftrightarrow> list_all (all_nodes (bound_node s)) as"
  by (auto simp: core_string_expr_def core_int_expr_def cell_ref_expr_def class_namespace_expr_def core_name_expr_def
      runtime_name_list_def deleted_sentinel_expr_def name_load_def core_runtime_call_def load_bound_def
      is_internal_symbol_def starts_with_def o_def list_all_iff)

lemma bound_name_load: "all_nodes (bound_node s) (rewrite_name_load s n m)"
  by (auto simp: rewrite_name_load_def load_bound_def rewrite_class_name_load_cell_def
      rewrite_class_name_load_global_def globals_expr_def split: option.split effective_binding.split
      class_body_fallback.split binding_kind.split)

lemma bound_load: "all_nodes (bound_node s) (bind_load s m n)"
  by (auto simp: bind_load_def bound_name_load load_bound_def should_rewrite_raw_name_load_def
      should_late_bind_name_def split: unresolved_name.split)

lemma bound_binding_delete: "all_nodes (bound_node s) (rewrite_binding_delete n m s)"
  by (auto simp: rewrite_binding_delete_def class_namespace_delete_def store_bound_def split: binding_target.split)

lemma bound_quiet_delete: "all_nodes (bound_node s) (rewrite_quiet_delete_marker n m s)"
  by (auto simp: rewrite_quiet_delete_marker_def class_namespace_delete_def store_bound_def is_cell_binding_def
      split: binding_target.split option.split binding_kind.split)

lemma bound_assign:
  "all_nodes (bound_node s) v \<Longrightarrow> all_nodes (bound_node s) (rewrite_binding_assign_by_name n v s m)"
  by (auto simp: rewrite_binding_assign_by_name_def class_namespace_delete_def store_bound_def Let_def
      split: binding_target.split)

lemma bound_make_function:
  "all_nodes (bound_node s) d \<Longrightarrow> all_nodes (bound_node s) a \<Longrightarrow>
   all_nodes (bound_node s) (make_function_expr caps m i k d a)"
  by (simp add: make_function_expr_def captures_expr_def list_all_iff)

lemma arg_expr_map [simp]: "arg_expr (map_call_arg f a) = f (arg_expr a)"
  by (cases a) simp_all

lemma bound_bind_expr:
  "all_nodes (lookup_args_bound s) e \<Longrightarrow> all_nodes (bound_node s) (bind_expr caps s e)"
proof (induction e rule: cor.node_induct)
  case (node e)
  show ?case
  proof (cases "quiet_delete_marker_target e")
    case (Some n)
    then show ?thesis by (simp add: bind_expr.simps [of caps s e] bound_quiet_delete)
  next
    case quiet: None
    show ?thesis
    proof (cases e)
      case (CoreOp m op)
      let ?ys = "map (bind_expr caps s) (op_children op)"
      have ys: "list_all (all_nodes (bound_node s)) ?ys"
        using node CoreOp by (auto simp: list_all_iff)
      have rec: "bind_expr caps s e = bind_operation caps s m op ?ys"
        using bind_expr.simps [of caps s e]
        by (simp only: quiet option.case, simp only: CoreOp core_expr.case core_children.simps)
      have other: "all_nodes (bound_node s) (CoreOp m (op_with_children op ?ys))"
        if "bound_node s (CoreOp m (op_with_children op ?ys))"
        using that ys by (simp only: all_nodes_rebuilt length_map)
      show ?thesis
      proof (cases op)
        case (Call f as ks)
        show ?thesis
        proof (cases "is_class_cell_lookup op")
          case True
          then have len: "length as = 3" "ks = []" by (simp_all add: Call is_class_cell_lookup_def)
          then obtain a b c where as: "as = [a, b, c]" by (auto simp: length_Suc_conv numeral_3_eq_3)
          have "all_nodes (bound_node s) (arg_expr c)" using node.prems True by (simp add: CoreOp Call as)
          moreover have "\<not> is_globals_call s op" by (simp add: Call as is_globals_call_def)
          ultimately show ?thesis
            using ys True by (simp add: rec bind_operation_def Call as len list_all_iff numeral_3_eq_3)
        next
          case False
          then have "bind_expr caps s e = (if is_globals_call s op then globals_expr m else CoreOp m (op_with_children op ?ys))"
            by (simp only: rec bind_operation_def Call operation.case if_False)
          moreover have "bound_node s (CoreOp m (op_with_children op ?ys))" by (simp add: Call)
          ultimately show ?thesis using other by (simp add: globals_expr_def)
        qed
      next
        case (Store n v)
        with ys show ?thesis by (simp add: rec bind_operation_def bound_assign) (simp add: store_bound_def)
      next
        case (Del n q)
        then show ?thesis by (cases q) (simp_all add: rec bind_operation_def bound_binding_delete store_bound_def)
      next
        case (Load n)
        then show ?thesis by (simp add: rec bind_operation_def bound_load)
      next
        case (MakeFunction i k d a)
        with ys show ?thesis by (simp add: rec bind_operation_def bound_make_function)
      qed (use other in \<open>simp_all add: rec bind_operation_def is_globals_call_def is_class_cell_lookup_def\<close>)
    next
      case (CoreLit m l)
      then show ?thesis by (simp add: bind_expr.simps [of caps s "CoreLit m l"])
    next
      case (CoreCellRefForName m n)
      then show ?thesis by (simp add: bind_expr.simps [of caps s "CoreCellRefForName m n"])
    qed
  qed
qed

section \<open>Properties\<close>


definition class_scope :: callable_scope_info where
  "class_scope = insert_binding ''y'' BindLocal False None (sample_scope\<lparr>scope_kind := ScopeClass\<rparr>)"

definition class_function :: "core bp_function" where
  "class_function =
     \<lparr>fn_id = function_id_new 0 0, fn_name_gen = function_name_gen_new (function_id_new 0 0),
      fn_names = scope_names class_scope, fn_kind = KFunction, fn_params = [],
      fn_blocks = [\<lparr>label = BlockLabel 0,
                    body = [CoreOp synthetic (Store (SourceName ''y'') (CoreOp synthetic (Load (SourceName ''y''))))],
                    bterm = Return (CoreLit synthetic (StringLiteral ''done'')), params = [], exc_edge = None\<rparr>],
      fn_doc = None, fn_layout = None, fn_scope = class_scope\<rparr>"


end
