(* ===== verification/Local_Slots.thy ===== *)
theory Local_Slots
  imports Binding_Rewrite
begin

text \<open>
  Where names live: the second half of \<open>passes/name_binding.rs\<close>. The slots of locals, of captured and
  of owned cells are computed per function, those of globals are handed out by the module, and
  \<open>NameLocator\<close> gives every name its location. A \<open>HashMap\<close> is the association list of its entries; a
  slot number is cut to 32 bits as the code does (\<open>slot as u32\<close>).
\<close>

type_synonym slots = "(string, u32) hmap"

section \<open>Names of a function\<close>

text \<open>\<open>collect_remaining_names_in_expr\<close>, \<open>collect_remaining_names_in_term\<close>\<close>

fun node_name :: "core \<Rightarrow> string list" where
  "node_name (CoreOp m (Load n)) = [unresolved_id n]"
| "node_name (CoreOp m (Store n v)) = [unresolved_id n]"
| "node_name (CoreOp m (Del n q)) = [unresolved_id n]"
| "node_name _ = []"

definition remaining_names_in_expr :: "core \<Rightarrow> string list" where
  "remaining_names_in_expr e = concat (map node_name (core_preorder e))"

fun arg_name :: "block_arg \<Rightarrow> string list" where
  "arg_name (ArgName n) = [n]"
| "arg_name _ = []"

definition remaining_names_in_term :: "core block_term \<Rightarrow> string list" where
  "remaining_names_in_term t =
     concat (map remaining_names_in_expr (term_exprs t)) @
     (case t of Jump e \<Rightarrow> concat (map arg_name (edge_args e)) | _ \<Rightarrow> [])"

definition remaining_names :: "(core, core) block list \<Rightarrow> string set" where
  "remaining_names bs =
     set (concat (map (\<lambda>b. concat (map remaining_names_in_expr (body b)) @ remaining_names_in_term (bterm b)) bs))"

fun stored_name :: "core \<Rightarrow> string list" where
  "stored_name (CoreOp m (Store n v)) = [unresolved_id n]"
| "stored_name (CoreOp m (Del n q)) = [unresolved_id n]"
| "stored_name _ = []"

definition explicitly_stored :: "(core, core) block list \<Rightarrow> string set" where
  "explicitly_stored bs = set (concat (map (\<lambda>b. concat (map stored_name (body b))) bs))"

definition is_remaining_local_name :: "callable_scope_info \<Rightarrow> string set \<Rightarrow> string \<Rightarrow> bool" where
  "is_remaining_local_name s stored n \<longleftrightarrow>
     resolve_cell_storage_name s n = None \<and>
     (if n \<in> stored then
        (case binding_kind_of n s of Some (BindCell _) \<Rightarrow> False | Some BindGlobal \<Rightarrow> False | _ \<Rightarrow> True) \<and>
        binding_target_for_name n StorePurpose s = TargetLocal
      else (case binding_kind_of n s of
              Some BindLocal \<Rightarrow> honors_internal_binding n s
            | Some _ \<Rightarrow> False
            | None \<Rightarrow> has_local_def n s))"

section \<open>Slots\<close>

text \<open>\<open>enumerate\<close> and \<open>collect\<close> into a map.\<close>

definition slot_table :: "string list \<Rightarrow> slots" where
  "slot_table ns = foldl (\<lambda>m (i, n). AList.update n (of_nat i) m) [] (enumerate 0 ns)"

fun add_slot :: "slots \<times> u32 \<Rightarrow> string \<Rightarrow> slots \<times> u32" where
  "add_slot (m, next) n =
     (if map_of m n \<noteq> None then (m, next) else (AList.update n next m, next + 1))"

fun insert_slot :: "slots \<times> u32 \<Rightarrow> string \<Rightarrow> slots \<times> u32" where
  "insert_slot (m, next) n = (AList.update n next m, next + 1)"

definition compute_local_slot_locations_from_analysis :: "core bp_function \<Rightarrow> slots" where
  "compute_local_slot_locations_from_analysis f =
     (let s = fn_scope f; bs = fn_blocks f;
          slots0 = slot_table (spec_names (fn_params f));
          st1 = foldl add_slot (slots0, of_nat (length slots0)) (sorted_list_of_set (owned_cell_storage_names s));
          st2 = foldl add_slot st1 (concat (map (param_names \<circ> params) bs));
          rest = {n \<in> remaining_names bs. map_of (fst st2) n = None \<and>
                                          is_remaining_local_name s (explicitly_stored bs) n}
      in fst (foldl insert_slot st2 (sorted_list_of_set rest)))"

definition ordered_slot_names_from_local_slots :: "slots \<Rightarrow> string list" where
  "ordered_slot_names_from_local_slots m = map fst (sort_key snd m)"

definition collect_local_slot_locations :: "core bp_function \<Rightarrow> slots" where
  "collect_local_slot_locations f =
     (case fn_layout f of
        Some l \<Rightarrow> (if stack_slots l \<noteq> [] then slot_table (stack_slots l)
                   else compute_local_slot_locations_from_analysis f)
      | None \<Rightarrow> compute_local_slot_locations_from_analysis f)"

definition empty_layout :: storage_layout where
  "empty_layout = \<lparr>freevars = [], cellvars = [], runtime_cells = [], stack_slots = []\<rparr>"

definition populate_stack_slots_in_storage_layout :: "slots \<Rightarrow> 'e bp_function \<Rightarrow> 'e bp_function" where
  "populate_stack_slots_in_storage_layout m f =
     f\<lparr>fn_layout := Some (set_stack_slots (ordered_slot_names_from_local_slots m) (unwrap_or empty_layout (fn_layout f)))\<rparr>"

definition ensure_storage_layout_covers_block_params :: "'e bp_function \<Rightarrow> 'e bp_function" where
  "ensure_storage_layout_covers_block_params f =
     (case fn_layout f of
        None \<Rightarrow> f
      | Some l \<Rightarrow> f\<lparr>fn_layout := Some (fold ensure_stack_slot (concat (map (param_names \<circ> params) (fn_blocks f))) l)\<rparr>)"

section \<open>Cells\<close>

definition resolve_captured_cell_source_storage_name :: "callable_scope_info \<Rightarrow> string \<Rightarrow> string option" where
  "resolve_captured_cell_source_storage_name s n =
     do { l \<leftarrow> logical_name_for_cell_capture_source n s;
          if binding_kind_of l s \<noteq> Some (BindCell Capture) then None
          else let source = cell_capture_source_name l s; st = cell_storage_name l s
               in if source = n \<and> source \<noteq> st then Some st else None }"

definition cell_slot_table :: "(string \<times> string) list \<Rightarrow> slots" where
  "cell_slot_table xs =
     foldl (\<lambda>m (i, logical, storage). AList.update logical (of_nat i) (AList.update storage (of_nat i) m)) []
       (enumerate 0 xs)"

definition slot_pairs :: "closure_slot list \<Rightarrow> (string \<times> string) list" where
  "slot_pairs xs = map (\<lambda>x. (logical_name x, storage_name x)) xs"

definition collect_captured_cell_slot_locations :: "core bp_function \<Rightarrow> slots" where
  "collect_captured_cell_slot_locations f =
     (case fn_layout f of None \<Rightarrow> [] | Some l \<Rightarrow> cell_slot_table (slot_pairs (freevars l)))"

definition collect_owned_cell_storage_bindings :: "core bp_function \<Rightarrow> (string \<times> string) list" where
  "collect_owned_cell_storage_bindings f =
     (let from_scope = map (\<lambda>st. (unwrap_or st (logical_name_for_cell_storage st (fn_scope f)), st))
                         (sorted_list_of_set (owned_cell_storage_names (fn_scope f)))
      in case fn_layout f of
           Some l \<Rightarrow> (if cellvars l \<noteq> [] \<or> runtime_cells l \<noteq> [] then slot_pairs (local_cells l) else from_scope)
         | None \<Rightarrow> from_scope)"

definition collect_owned_cell_slot_locations :: "core bp_function \<Rightarrow> slots" where
  "collect_owned_cell_slot_locations f = cell_slot_table (collect_owned_cell_storage_bindings f)"

type_synonym cell_bindings = "(string, string \<times> cell_binding_kind) hmap"

definition bind_capture :: "callable_scope_info \<Rightarrow> cell_bindings \<Rightarrow> closure_slot \<Rightarrow> cell_bindings" where
  "bind_capture s m x =
     AList.update (cell_capture_source_name (logical_name x) s) (storage_name x, Capture)
       (AList.update (storage_name x) (storage_name x, Capture)
         (AList.update (logical_name x) (storage_name x, Capture) m))"

definition bind_owned :: "cell_bindings \<Rightarrow> string \<times> string \<Rightarrow> cell_bindings" where
  "bind_owned m x = (case x of (l, st) \<Rightarrow> AList.update st (st, Owner) (AList.update l (st, Owner) m))"

definition collect_cell_bindings :: "core bp_function \<Rightarrow> cell_bindings" where
  "collect_cell_bindings f =
     (case fn_layout f of
        None \<Rightarrow> []
      | Some l \<Rightarrow> foldl bind_owned (foldl (bind_capture (fn_scope f)) [] (freevars l))
                    (collect_owned_cell_storage_bindings f))"

section \<open>Global slots\<close>

record module_global_slots =
  slot_by_name :: slots
  slot_names :: "string list"

definition no_global_slots :: module_global_slots where
  "no_global_slots = \<lparr>slot_by_name = [], slot_names = []\<rparr>"

definition slot_for :: "string \<Rightarrow> module_global_slots \<Rightarrow> (u32 \<times> module_global_slots) option" where
  "slot_for n g =
     (case map_of (slot_by_name g) n of
        Some i \<Rightarrow> Some (i, g)
      | None \<Rightarrow>
          if length (slot_names g) < 2 ^ 32 then
            Some (of_nat (length (slot_names g)),
                  \<lparr>slot_by_name = AList.update n (of_nat (length (slot_names g))) (slot_by_name g),
                   slot_names = slot_names g @ [n]\<rparr>)
          else None)"

section \<open>The locator\<close>

record locator =
  loc_scope :: callable_scope_info
  exception_param_names :: "string set"
  local_slots :: slots
  captured_cell_slots :: slots
  owned_cell_slots :: slots
  cell_bindings :: cell_bindings

definition resolve_raw_cell_location :: "locator \<Rightarrow> string \<Rightarrow> cell_location option" where
  "resolve_raw_cell_location L n =
     (case resolve_captured_cell_source_storage_name (loc_scope L) n of
        Some st \<Rightarrow> map_option CapturedSource (map_of (captured_cell_slots L) st)
      | None \<Rightarrow>
          (case map_of (cell_bindings L) n of
             Some (st, Owner) \<Rightarrow> map_option Owned (map_of (owned_cell_slots L) st)
           | Some (st, Capture) \<Rightarrow> map_option CapturedSource (map_of (captured_cell_slots L) st)
           | None \<Rightarrow> None))"

definition resolve_cell_ref_location :: "locator \<Rightarrow> string \<Rightarrow> cell_location option" where
  "resolve_cell_ref_location L n =
     (if map_of (cell_bindings L) n \<noteq> None \<or> resolve_captured_cell_source_storage_name (loc_scope L) n \<noteq> None
      then resolve_raw_cell_location L n
      else resolve_raw_cell_location L (cell_ref_source_name n (loc_scope L)))"

definition locate_name :: "locator \<Rightarrow> string \<Rightarrow> module_global_slots \<Rightarrow> (located_name \<times> module_global_slots) option" where
  "locate_name L n g =
     (let at = (\<lambda>loc. Some (\<lparr>located_id = n, location = loc\<rparr>, g)) in
      if n \<in> exception_param_names L then do { i \<leftarrow> map_of (local_slots L) n; at (LocLocal i) }
      else case resolve_captured_cell_source_storage_name (loc_scope L) n of
        Some st \<Rightarrow> do { i \<leftarrow> map_of (captured_cell_slots L) st; at (LocCell (CapturedSource i)) }
      | None \<Rightarrow>
          (case map_of (cell_bindings L) n of
             Some (st, Owner) \<Rightarrow>
               (case (if n \<noteq> st then map_of (local_slots L) n else None) of
                  Some i \<Rightarrow> at (LocLocal i)
                | None \<Rightarrow> do { i \<leftarrow> map_of (owned_cell_slots L) st; at (LocCell (Owned i)) })
           | Some (st, Capture) \<Rightarrow> do { i \<leftarrow> map_of (captured_cell_slots L) st; at (LocCell (Closure i)) }
           | None \<Rightarrow>
               (case map_of (local_slots L) n of
                  Some i \<Rightarrow> at (LocLocal i)
                | None \<Rightarrow> do { (i, g') \<leftarrow> slot_for n g; Some (\<lparr>located_id = n, location = LocGlobal i\<rparr>, g') })))"

fun locate_unresolved_name ::
  "locator \<Rightarrow> unresolved_name \<Rightarrow> module_global_slots \<Rightarrow> (located_name \<times> module_global_slots) option" where
  "locate_unresolved_name L (SourceName n) g = locate_name L n g"
| "locate_unresolved_name L (RuntimeName n) g = Some (\<lparr>located_id = n, location = LocRuntimeName\<rparr>, g)"

definition mark_raw_cell_name :: "locator \<Rightarrow> located_name \<Rightarrow> located_name option" where
  "mark_raw_cell_name L n =
     (case location n of
        LocGlobal i \<Rightarrow>
          (if resolve_captured_cell_source_storage_name (loc_scope L) (located_id n) \<noteq> None \<or>
              map_of (cell_bindings L) (located_id n) \<noteq> None
           then do { c \<leftarrow> resolve_raw_cell_location L (located_id n); Some (n\<lparr>location := LocCell c\<rparr>) }
           else Some n)
      | LocCell (Closure i) \<Rightarrow> Some (n\<lparr>location := LocCell (CapturedSource i)\<rparr>)
      | _ \<Rightarrow> Some n)"

definition mark_raw_cell_store_name :: "locator \<Rightarrow> located_name \<Rightarrow> located_name option" where
  "mark_raw_cell_store_name L n =
     (case (if resolve_cell_storage_name (loc_scope L) (located_id n) \<noteq> None
            then map_of (local_slots L) (located_id n) else None) of
        Some i \<Rightarrow> Some (n\<lparr>location := LocLocal i\<rparr>)
      | None \<Rightarrow> mark_raw_cell_name L n)"

definition mark_unless_runtime ::
  "(located_name \<Rightarrow> located_name option) \<Rightarrow> located_name \<Rightarrow> located_name option" where
  "mark_unless_runtime mark n = (if located_is_runtime n then Some n else mark n)"

definition mark_raw_cell_expr :: "locator \<Rightarrow> located_core \<Rightarrow> located_core option" where
  "mark_raw_cell_expr L e =
     (case e of
        CoreOp m (Load n) \<Rightarrow>
          do { n' \<leftarrow> mark_raw_cell_name L n;
               Some (case as_cell (location n') of
                       Some c \<Rightarrow> CoreOp m (CellRef c)
                     | None \<Rightarrow> CoreOp m (Load n')) }
      | _ \<Rightarrow> Some e)"

fun located_load_name :: "located_core \<Rightarrow> string option" where
  "located_load_name (CoreOp m (Load n)) = Some (located_id n)"
| "located_load_name _ = None"

definition mark_class_lookup ::
  "locator \<Rightarrow> (located_core, located_name) operation \<Rightarrow> (located_core, located_name) operation option" where
  "mark_class_lookup L op =
     (case op of
        Call f [a, b, Positional c] ks \<Rightarrow>
          (if located_load_name f = Some ''class_lookup_cell''
           then do { c' \<leftarrow> mark_raw_cell_expr L c; Some (Call f [a, b, Positional c'] ks) }
           else Some op)
      | _ \<Rightarrow> Some op)"

text \<open>\<open>map_children\<close> on an operation that carries no name.\<close>

definition relocated :: "(core, unresolved_name) operation \<Rightarrow> located_core list \<Rightarrow> (located_core, located_name) operation" where
  "relocated op ys =
     map_operation id (\<lambda>n. \<lparr>located_id = unresolved_id n, location = LocRuntimeName\<rparr>) (op_with_children op ys)"

function locate_expr :: "locator \<Rightarrow> core \<Rightarrow> module_global_slots \<Rightarrow> (located_core \<times> module_global_slots) option" where
  "locate_expr L e g =
     (case e of
        CoreLit m l \<Rightarrow> Some (CoreLit m l, g)
      | CoreCellRefForName m n \<Rightarrow> do { c \<leftarrow> resolve_cell_ref_location L n; Some (CoreOp m (CellRef c), g) }
      | CoreOp m (Load n) \<Rightarrow>
          do { (x, g1) \<leftarrow> locate_unresolved_name L n g;
               x' \<leftarrow> mark_unless_runtime (mark_raw_cell_name L) x;
               Some (CoreOp m (Load x'), g1) }
      | CoreOp m (Store n v) \<Rightarrow>
          do { (x, g1) \<leftarrow> locate_unresolved_name L n g;
               x' \<leftarrow> mark_unless_runtime (mark_raw_cell_store_name L) x;
               (ys, g2) \<leftarrow> st_map (locate_expr L) (core_children e) g1;
               Some (CoreOp m (Store x' (ys ! 0)), g2) }
      | CoreOp m (Del n q) \<Rightarrow>
          do { (x, g1) \<leftarrow> locate_unresolved_name L n g;
               x' \<leftarrow> mark_unless_runtime (mark_raw_cell_store_name L) x;
               Some (CoreOp m (Del x' q), g1) }
      | CoreOp m op \<Rightarrow>
          do { (ys, g1) \<leftarrow> st_map (locate_expr L) (core_children e) g;
               op' \<leftarrow> mark_class_lookup L (relocated op ys);
               Some (CoreOp m op', g1) })"
  by pat_completeness auto
termination
  by (relation "measure (\<lambda>(L, e, g). size e)")
     (simp_all only: wf_measure in_measure prod.case core_child_size)

declare locate_expr.simps [simp del]

definition locator_for :: "core bp_function \<Rightarrow> locator" where
  "locator_for f =
     \<lparr>loc_scope = fn_scope f,
      exception_param_names = set (concat (map (\<lambda>b. case exception_param (params b) of None \<Rightarrow> [] | Some n \<Rightarrow> [n]) (fn_blocks f))),
      local_slots = collect_local_slot_locations f,
      captured_cell_slots = collect_captured_cell_slot_locations f,
      owned_cell_slots = collect_owned_cell_slot_locations f,
      cell_bindings = collect_cell_bindings f\<rparr>"

definition locate_names_in_callable ::
  "core bp_function \<Rightarrow> module_global_slots \<Rightarrow> (located_core bp_function \<times> module_global_slots) option" where
  "locate_names_in_callable f = map_fn_st (locate_expr (locator_for f)) f"


section \<open>The slots of locals are dense\<close>

text \<open>A table that hands out the slots 0, 1, 2, ... in the order of a list of names.\<close>

definition numbered_slots :: "string list \<Rightarrow> slots" where
  "numbered_slots ns = zip ns (map of_nat [0..<length ns])"

lemma numbered_slots_simps [simp]:
  "length (numbered_slots ns) = length ns" "map fst (numbered_slots ns) = ns"
  "map snd (numbered_slots ns) = map of_nat [0..<length ns]"
  by (simp_all add: numbered_slots_def)

lemma numbered_slots_snoc: "numbered_slots (ns @ [n]) = numbered_slots ns @ [(n, of_nat (length ns))]"
  by (simp add: numbered_slots_def)

lemma numbered_slots_None: "map_of (numbered_slots ns) n = None \<longleftrightarrow> n \<notin> set ns"
  by (simp add: map_of_eq_None_iff flip: set_map)

lemma update_new: "n \<notin> fst ` set m \<Longrightarrow> AList.update n i m = m @ [(n, i)]"
  by (induction m) auto

lemma update_numbered:
  "n \<notin> set ns \<Longrightarrow> AList.update n (of_nat (length ns)) (numbered_slots ns) = numbered_slots (ns @ [n])"
  by (simp add: update_new numbered_slots_snoc flip: set_map)

lemma slot_table_snoc: "slot_table (ns @ [n]) = AList.update n (of_nat (length ns)) (slot_table ns)"
  by (simp add: slot_table_def enumerate_append_eq)

lemma slot_table_numbered: "distinct ns \<Longrightarrow> slot_table ns = numbered_slots ns"
proof (induction ns rule: rev_induct)
  case Nil
  show ?case by (simp add: slot_table_def numbered_slots_def)
next
  case (snoc n ns)
  then show ?case by (simp add: slot_table_snoc update_numbered)
qed

definition add_new :: "string list \<Rightarrow> string \<Rightarrow> string list" where
  "add_new ns n = (if n \<in> set ns then ns else ns @ [n])"

lemma add_slot_numbered:
  "add_slot (numbered_slots ns, of_nat (length ns)) n =
     (numbered_slots (add_new ns n), of_nat (length (add_new ns n)))"
  by (simp add: add_new_def numbered_slots_None update_numbered add.commute)

lemma fold_add_slot:
  "foldl add_slot (numbered_slots ns, of_nat (length ns)) xs =
     (numbered_slots (foldl add_new ns xs), of_nat (length (foldl add_new ns xs)))"
  by (induction xs arbitrary: ns) (simp_all only: foldl.simps add_slot_numbered)

lemma fold_add_new:
  "set (foldl add_new ns xs) = set ns \<union> set xs" "distinct ns \<Longrightarrow> distinct (foldl add_new ns xs)"
  "take (length ns) (foldl add_new ns xs) = ns"
proof -
  show "set (foldl add_new ns xs) = set ns \<union> set xs" by (induction xs arbitrary: ns) (auto simp: add_new_def)
  show "distinct ns \<Longrightarrow> distinct (foldl add_new ns xs)" by (induction xs arbitrary: ns) (auto simp: add_new_def)
  have "\<exists>zs. foldl add_new ns xs = ns @ zs"
  proof (induction xs arbitrary: ns)
    case (Cons x xs)
    obtain zs where "foldl add_new (add_new ns x) xs = add_new ns x @ zs" using Cons by blast
    then show ?case by (auto simp: add_new_def [of ns x] split: if_splits)
  qed simp
  then show "take (length ns) (foldl add_new ns xs) = ns" by auto
qed

lemma fold_insert_slot:
  assumes "distinct xs" "set ns \<inter> set xs = {}"
  shows "foldl insert_slot (numbered_slots ns, of_nat (length ns)) xs = (numbered_slots (ns @ xs), of_nat (length (ns @ xs)))"
  using assms
proof (induction xs arbitrary: ns)
  case (Cons x xs)
  then have "insert_slot (numbered_slots ns, of_nat (length ns)) x = (numbered_slots (ns @ [x]), of_nat (length (ns @ [x])))"
    by (simp add: update_numbered add.commute)
  with Cons.IH [of "ns @ [x]"] Cons.prems show ?case by (simp only: foldl.simps) simp
qed simp

text \<open>The names that get a slot, in the order of their slots.\<close>

definition pinned_names :: "core bp_function \<Rightarrow> string list" where
  "pinned_names f =
     foldl add_new (foldl add_new (spec_names (fn_params f)) (sorted_list_of_set (owned_cell_storage_names (fn_scope f))))
       (concat (map (param_names \<circ> params) (fn_blocks f)))"

definition free_local_names :: "core bp_function \<Rightarrow> string set" where
  "free_local_names f =
     {n \<in> remaining_names (fn_blocks f). n \<notin> set (pinned_names f) \<and>
        is_remaining_local_name (fn_scope f) (explicitly_stored (fn_blocks f)) n}"

definition local_names :: "core bp_function \<Rightarrow> string list" where
  "local_names f = pinned_names f @ sorted_list_of_set (free_local_names f)"

lemma finite_free_local_names: "finite (free_local_names f)"
  by (simp add: free_local_names_def remaining_names_def)

lemma distinct_local_names: "distinct (spec_names (fn_params f)) \<Longrightarrow> distinct (local_names f)"
  by (auto simp: local_names_def pinned_names_def fold_add_new finite_free_local_names) (auto simp: free_local_names_def pinned_names_def fold_add_new)

lemma local_slots_numbered:
  assumes "distinct (spec_names (fn_params f))"
  shows "compute_local_slot_locations_from_analysis f = numbered_slots (local_names f)"
proof -
  let ?rest = "sorted_list_of_set (free_local_names f)"
  have "set (pinned_names f) \<inter> set ?rest = {}"
    using finite_free_local_names [of f] by (auto simp: free_local_names_def)
  then show ?thesis
    using assms
    by (simp add: compute_local_slot_locations_from_analysis_def Let_def slot_table_numbered fold_add_slot
        fold_insert_slot numbered_slots_None local_names_def flip: pinned_names_def free_local_names_def)
qed

lemma sort_by_slot: "length ns \<le> 2 ^ 32 \<Longrightarrow> sort_key snd (numbered_slots ns) = numbered_slots ns"
proof (rule sort_key_id_if_sorted)
  assume "length ns \<le> 2 ^ 32"
  then have "sorted_wrt (\<lambda>i j. (of_nat i :: u32) \<le> of_nat j) [0..<length ns]"
    by (auto simp: sorted_wrt_iff_nth_less word_le_nat_alt unat_of_nat take_bit_nat_eq_self)
  then show "sorted (map snd (numbered_slots ns))" by (simp add: sorted_wrt_map)
qed

lemma ordered_names_numbered: "length ns \<le> 2 ^ 32 \<Longrightarrow> ordered_slot_names_from_local_slots (numbered_slots ns) = ns"
  by (simp add: ordered_slot_names_from_local_slots_def sort_by_slot)


section \<open>Names at their places\<close>

definition slot_holds :: "string list \<Rightarrow> u32 \<Rightarrow> string \<Rightarrow> bool" where
  "slot_holds ns i n \<longleftrightarrow> unat i < length ns \<and> ns ! unat i = n"

definition cell_holds :: "(string \<times> string) list \<Rightarrow> u32 \<Rightarrow> string \<Rightarrow> bool" where
  "cell_holds xs i n \<longleftrightarrow> unat i < length xs \<and> (n = fst (xs ! unat i) \<or> n = snd (xs ! unat i))"

text \<open>A captured cell is also known by the name under which the enclosing function provides it.\<close>

definition capture_holds :: "callable_scope_info \<Rightarrow> (string \<times> string) list \<Rightarrow> u32 \<Rightarrow> string \<Rightarrow> bool" where
  "capture_holds s xs i n \<longleftrightarrow>
     cell_holds xs i n \<or> unat i < length xs \<and> n = cell_capture_source_name (fst (xs ! unat i)) s \<or>
     (case resolve_captured_cell_source_storage_name s n of None \<Rightarrow> False | Some st \<Rightarrow> cell_holds xs i st)"

lemma slot_table_holds: "length ns \<le> 2 ^ 32 \<Longrightarrow> map_of (slot_table ns) n = Some i \<Longrightarrow> slot_holds ns i n"
proof (induction ns arbitrary: i rule: rev_induct)
  case (snoc m ns)
  then show ?case
    by (auto simp: slot_table_snoc update_conv' slot_holds_def nth_append unat_of_nat take_bit_nat_eq_self
        split: if_splits)
qed (simp add: slot_table_def)

lemma cell_slot_table_snoc:
  "cell_slot_table (xs @ [(l, st)]) =
     AList.update l (of_nat (length xs)) (AList.update st (of_nat (length xs)) (cell_slot_table xs))"
  by (simp add: cell_slot_table_def enumerate_append_eq)

lemma cell_slot_table_holds: "length xs \<le> 2 ^ 32 \<Longrightarrow> map_of (cell_slot_table xs) n = Some i \<Longrightarrow> cell_holds xs i n"
proof (induction xs arbitrary: i rule: rev_induct)
  case (snoc x xs)
  then show ?case
    by (cases x)
      (auto simp: cell_slot_table_snoc update_conv' cell_holds_def nth_append unat_of_nat take_bit_nat_eq_self
        split: if_splits)
qed (simp add: cell_slot_table_def)

text \<open>Storage names are distinct, and a logical name is the storage name of no other cell.\<close>

definition cells_apart :: "(string \<times> string) list \<Rightarrow> bool" where
  "cells_apart xs \<longleftrightarrow> distinct (map snd xs) \<and> list_all (\<lambda>x. list_all (\<lambda>y. fst x = snd y \<longrightarrow> x = y) xs) xs"

lemma cells_apart_storage:
  assumes "cells_apart xs" "x \<in> set xs" "cell_holds xs i (snd x)"
  shows "xs ! unat i = x"
proof -
  have i: "unat i < length xs" using assms(3) by (simp add: cell_holds_def)
  from assms(3) consider "snd x = fst (xs ! unat i)" | "snd x = snd (xs ! unat i)" by (auto simp: cell_holds_def)
  then show ?thesis
  proof cases
    case 1
    with assms(1,2) i show ?thesis by (auto simp: cells_apart_def list_all_iff dest: nth_mem)
  next
    case 2
    with assms(1,2) i show ?thesis
      by (auto simp: cells_apart_def distinct_map dest!: inj_onD [of snd] dest: nth_mem)
  qed
qed

section \<open>The bindings of cells\<close>

definition known_as :: "callable_scope_info \<Rightarrow> string \<times> string \<Rightarrow> string \<Rightarrow> bool" where
  "known_as s x n \<longleftrightarrow> n = fst x \<or> n = snd x \<or> n = cell_capture_source_name (fst x) s"

definition binding_ok ::
  "callable_scope_info \<Rightarrow> (string \<times> string) list \<Rightarrow> (string \<times> string) list \<Rightarrow> string \<Rightarrow> string \<times> cell_binding_kind \<Rightarrow> bool" where
  "binding_ok s fvs owned n b \<longleftrightarrow>
     (case b of (st, Capture) \<Rightarrow> \<exists>x\<in>set fvs. st = snd x \<and> known_as s x n
      | (st, Owner) \<Rightarrow> \<exists>x\<in>set owned. st = snd x \<and> (n = fst x \<or> n = snd x))"

definition binding_from :: "callable_scope_info \<Rightarrow> (string \<times> string) list \<Rightarrow> (string \<times> string) list \<Rightarrow> cell_bindings \<Rightarrow> bool" where
  "binding_from s fvs owned m \<longleftrightarrow> (\<forall>n b. map_of m n = Some b \<longrightarrow> binding_ok s fvs owned n b)"

lemma binding_from_update:
  "binding_from s fvs owned m \<Longrightarrow> binding_ok s fvs owned n b \<Longrightarrow> binding_from s fvs owned (AList.update n b m)"
  by (auto simp: binding_from_def update_conv')

lemma bind_capture_from:
  assumes "binding_from s fvs owned m" "(logical_name x, storage_name x) \<in> set fvs"
  shows "binding_from s fvs owned (bind_capture s m x)"
  unfolding bind_capture_def
  by (intro binding_from_update assms(1)) (use assms(2) in \<open>auto simp: binding_ok_def known_as_def intro!: bexI\<close>)

lemma bind_owned_from:
  assumes "binding_from s fvs owned m" "x \<in> set owned"
  shows "binding_from s fvs owned (bind_owned m x)"
  unfolding bind_owned_def case_prod_unfold
  by (intro binding_from_update assms(1)) (use assms(2) in \<open>auto simp: binding_ok_def intro!: bexI\<close>)

lemma foldl_invariant: "P m \<Longrightarrow> (\<And>m x. P m \<Longrightarrow> x \<in> set xs \<Longrightarrow> P (f m x)) \<Longrightarrow> P (foldl f m xs)"
  by (induction xs arbitrary: m) auto

lemma cell_bindings_from:
  assumes "fn_layout f = Some l"
  shows "binding_from (fn_scope f) (slot_pairs (freevars l)) (collect_owned_cell_storage_bindings f) (collect_cell_bindings f)"
proof -
  let ?P = "binding_from (fn_scope f) (slot_pairs (freevars l)) (collect_owned_cell_storage_bindings f)"
  have "?P []" by (simp add: binding_from_def)
  then have "?P (foldl (bind_capture (fn_scope f)) [] (freevars l))"
    by (rule foldl_invariant) (auto intro!: bind_capture_from simp: slot_pairs_def)
  then show ?thesis
    unfolding collect_cell_bindings_def assms option.case
    by (rule foldl_invariant) (rule bind_owned_from)
qed


section \<open>Locating one name\<close>

definition sits_at :: "core bp_function \<Rightarrow> storage_layout \<Rightarrow> string list \<Rightarrow> located_name \<Rightarrow> bool" where
  "sits_at f l gs n \<longleftrightarrow>
     (case location n of
        LocLocal i \<Rightarrow> slot_holds (stack_slots l) i (located_id n)
      | LocGlobal i \<Rightarrow> slot_holds gs i (located_id n)
      | LocCell (Owned i) \<Rightarrow> cell_holds (collect_owned_cell_storage_bindings f) i (located_id n)
      | LocCell (Closure i) \<Rightarrow> capture_holds (fn_scope f) (slot_pairs (freevars l)) i (located_id n)
      | LocCell (CapturedSource i) \<Rightarrow> capture_holds (fn_scope f) (slot_pairs (freevars l)) i (located_id n)
      | LocRuntimeName \<Rightarrow> True
      | LocConstant i \<Rightarrow> False)"

definition layout_ready :: "core bp_function \<Rightarrow> storage_layout \<Rightarrow> bool" where
  "layout_ready f l \<longleftrightarrow>
     fn_layout f = Some l \<and> stack_slots l \<noteq> [] \<and> length (stack_slots l) \<le> 2 ^ 32 \<and>
     cells_apart (slot_pairs (freevars l)) \<and> length (freevars l) \<le> 2 ^ 32 \<and>
     cells_apart (collect_owned_cell_storage_bindings f) \<and> length (collect_owned_cell_storage_bindings f) \<le> 2 ^ 32"

definition globals_ok :: "module_global_slots \<Rightarrow> bool" where
  "globals_ok g \<longleftrightarrow>
     distinct (slot_names g) \<and> length (slot_names g) \<le> 2 ^ 32 \<and> fst ` set (slot_by_name g) = set (slot_names g) \<and>
     list_all (\<lambda>(n, i). slot_holds (slot_names g) i n) (slot_by_name g)"

lemma slot_holds_extends: "slot_holds ns i n \<Longrightarrow> extends ns ms \<Longrightarrow> slot_holds ms i n"
  by (auto simp: slot_holds_def extends_def nth_append)

lemma sits_at_extends: "sits_at f l gs n \<Longrightarrow> extends gs hs \<Longrightarrow> sits_at f l hs n"
  by (auto simp: sits_at_def slot_holds_extends split: name_location.splits)

definition located_to :: "core bp_function \<Rightarrow> storage_layout \<Rightarrow> module_global_slots \<Rightarrow> located_name \<Rightarrow> module_global_slots \<Rightarrow> bool" where
  "located_to f l g n g' \<longleftrightarrow> globals_ok g' \<and> extends (slot_names g) (slot_names g') \<and> sits_at f l (slot_names g') n"

lemma slot_for_spec:
  assumes "globals_ok g" "slot_for n g = Some (i, g')"
  shows "globals_ok g' \<and> extends (slot_names g) (slot_names g') \<and> slot_holds (slot_names g') i n"
proof (cases "map_of (slot_by_name g) n")
  case None
  let ?k = "length (slot_names g)"
  from None assms(2) have k: "?k < 2 ^ 32" and i: "i = of_nat ?k"
    and g': "slot_names g' = slot_names g @ [n]" "slot_by_name g' = AList.update n (of_nat ?k) (slot_by_name g)"
    by (auto simp: slot_for_def split: if_splits)
  from None assms(1) have new: "n \<notin> set (slot_names g)" "n \<notin> fst ` set (slot_by_name g)"
    by (auto simp: globals_ok_def map_of_eq_None_iff)
  have at: "slot_holds (slot_names g') i n"
    using k by (simp add: slot_holds_def g' i unat_of_nat take_bit_nat_eq_self)
  have ext: "extends (slot_names g) (slot_names g')" by (simp add: g' extends_def)
  moreover have "list_all (\<lambda>(m, j). slot_holds (slot_names g') j m) (slot_by_name g')"
    using assms(1) at ext by (auto simp: g'(2) update_new [OF new(2)] globals_ok_def list_all_iff i intro: slot_holds_extends)
  ultimately show ?thesis
    using assms(1) at k new by (auto simp: globals_ok_def g' update_new)
next
  case (Some j)
  then have "(n, j) \<in> set (slot_by_name g)" by (rule map_of_SomeD)
  with Some assms show ?thesis by (auto simp: slot_for_def globals_ok_def list_all_iff extends_refl)
qed

lemma captured_slot_holds:
  assumes ready: "layout_ready f l"
    and i: "map_of (collect_captured_cell_slot_locations f) st = Some i"
    and n: "(\<exists>x\<in>set (slot_pairs (freevars l)). st = snd x \<and> known_as (fn_scope f) x n) \<or>
            resolve_captured_cell_source_storage_name (fn_scope f) n = Some st"
  shows "capture_holds (fn_scope f) (slot_pairs (freevars l)) i n"
proof -
  let ?xs = "slot_pairs (freevars l)"
  have st: "cell_holds ?xs i st"
    using ready i by (auto simp: layout_ready_def collect_captured_cell_slot_locations_def slot_pairs_def intro!: cell_slot_table_holds)
  from n show ?thesis
  proof (elim disjE bexE conjE)
    fix x assume x: "x \<in> set ?xs" "st = snd x" "known_as (fn_scope f) x n"
    with st ready have "?xs ! unat i = x" by (auto simp: layout_ready_def intro: cells_apart_storage)
    with x(3) st show ?thesis by (auto simp: capture_holds_def known_as_def cell_holds_def)
  qed (use st in \<open>simp add: capture_holds_def\<close>)
qed

lemma owned_slot_holds:
  assumes ready: "layout_ready f l"
    and i: "map_of (collect_owned_cell_slot_locations f) st = Some i"
    and n: "x \<in> set (collect_owned_cell_storage_bindings f)" "st = snd x" "n = fst x \<or> n = snd x"
  shows "cell_holds (collect_owned_cell_storage_bindings f) i n"
proof -
  have st: "cell_holds (collect_owned_cell_storage_bindings f) i st"
    using ready i by (auto simp: layout_ready_def collect_owned_cell_slot_locations_def intro!: cell_slot_table_holds)
  with n ready have "collect_owned_cell_storage_bindings f ! unat i = x"
    by (auto simp: layout_ready_def intro: cells_apart_storage)
  with n st show ?thesis by (auto simp: cell_holds_def)
qed

lemma local_slot_holds:
  "layout_ready f l \<Longrightarrow> map_of (collect_local_slot_locations f) n = Some i \<Longrightarrow> slot_holds (stack_slots l) i n"
  by (simp add: layout_ready_def collect_local_slot_locations_def slot_table_holds)

lemma locator_sel:
  "loc_scope (locator_for f) = fn_scope f" "local_slots (locator_for f) = collect_local_slot_locations f"
  "captured_cell_slots (locator_for f) = collect_captured_cell_slot_locations f"
  "owned_cell_slots (locator_for f) = collect_owned_cell_slot_locations f"
  "cell_bindings (locator_for f) = collect_cell_bindings f"
  by (simp_all add: locator_for_def)

lemma cell_binding_known:
  assumes "layout_ready f l" "map_of (collect_cell_bindings f) n = Some (st, k)"
  shows "binding_ok (fn_scope f) (slot_pairs (freevars l)) (collect_owned_cell_storage_bindings f) n (st, k)"
  using assms cell_bindings_from [of f l] by (simp add: layout_ready_def binding_from_def)

lemma raw_cell_location_sits:
  assumes ready: "layout_ready f l" and c: "resolve_raw_cell_location (locator_for f) n = Some c"
  shows "sits_at f l gs \<lparr>located_id = n, location = LocCell c\<rparr>"
proof (cases "resolve_captured_cell_source_storage_name (fn_scope f) n")
  case (Some st)
  with c obtain i where "c = CapturedSource i" "map_of (collect_captured_cell_slot_locations f) st = Some i"
    by (auto simp: resolve_raw_cell_location_def locator_sel)
  with captured_slot_holds [OF ready] Some show ?thesis by (simp add: sits_at_def)
next
  case None
  with c obtain st k where b: "map_of (collect_cell_bindings f) n = Some (st, k)"
    by (auto simp: resolve_raw_cell_location_def locator_sel split: option.splits)
  note known = cell_binding_known [OF ready b]
  show ?thesis
  proof (cases k)
    case Owner
    with b c None obtain i where "c = Owned i" "map_of (collect_owned_cell_slot_locations f) st = Some i"
      by (auto simp: resolve_raw_cell_location_def locator_sel)
    with known Owner owned_slot_holds [OF ready] show ?thesis by (auto simp: sits_at_def binding_ok_def)
  next
    case Capture
    with b c None obtain i where "c = CapturedSource i" "map_of (collect_captured_cell_slot_locations f) st = Some i"
      by (auto simp: resolve_raw_cell_location_def locator_sel)
    with known Capture captured_slot_holds [OF ready] show ?thesis by (auto simp: sits_at_def binding_ok_def)
  qed
qed


lemma located_local:
  "layout_ready f l \<Longrightarrow> globals_ok g \<Longrightarrow> map_of (collect_local_slot_locations f) n = Some i \<Longrightarrow>
   located_to f l g \<lparr>located_id = n, location = LocLocal i\<rparr> g"
  by (simp add: located_to_def sits_at_def extends_refl local_slot_holds)

lemma located_cell:
  "globals_ok g \<Longrightarrow> sits_at f l (slot_names g) \<lparr>located_id = n, location = LocCell c\<rparr> \<Longrightarrow>
   located_to f l g \<lparr>located_id = n, location = LocCell c\<rparr> g"
  by (simp add: located_to_def extends_refl)

lemma locate_name_sits:
  assumes ready: "layout_ready f l" and g: "globals_ok g" and x: "locate_name (locator_for f) n g = Some (x, g')"
  shows "located_id x = n \<and> located_to f l g x g'"
proof (cases "n \<in> exception_param_names (locator_for f)")
  case True
  with x obtain i where "map_of (collect_local_slot_locations f) n = Some i" "x = \<lparr>located_id = n, location = LocLocal i\<rparr>" "g' = g"
    by (auto simp: locate_name_def bind_eq_Some_conv) (simp add: locator_sel)
  with located_local [OF ready g] show ?thesis by simp
next
  case plain: False
  show ?thesis
  proof (cases "resolve_captured_cell_source_storage_name (fn_scope f) n")
    case (Some st)
    with plain x obtain i where "map_of (collect_captured_cell_slot_locations f) st = Some i"
      "x = \<lparr>located_id = n, location = LocCell (CapturedSource i)\<rparr>" "g' = g"
      by (auto simp: locate_name_def bind_eq_Some_conv locator_sel)
    with captured_slot_holds [OF ready] Some g show ?thesis by (auto intro!: located_cell simp: sits_at_def)
  next
    case raw: None
    show ?thesis
    proof (cases "map_of (collect_cell_bindings f) n")
      case None
      with plain raw x show ?thesis
        using slot_for_spec [OF g, of n] located_local [OF ready g]
        by (auto simp: locate_name_def bind_eq_Some_conv locator_sel located_to_def sits_at_def split: option.splits)
    next
      case (Some b)
      then obtain st k where b: "map_of (collect_cell_bindings f) n = Some (st, k)" by (cases b) auto
      note known = cell_binding_known [OF ready b, unfolded binding_ok_def]
      show ?thesis
      proof (cases k)
        case Owner
        with plain raw x b known show ?thesis
          using located_local [OF ready g] owned_slot_holds [OF ready, of st] g
          by (auto simp: locate_name_def bind_eq_Some_conv locator_sel sits_at_def intro!: located_cell split: option.splits if_splits)
      next
        case Capture
        with plain raw x b known show ?thesis
          using captured_slot_holds [OF ready, of st] g
          by (fastforce simp: locate_name_def bind_eq_Some_conv locator_sel sits_at_def intro!: located_cell)
      qed
    qed
  qed
qed

lemma mark_raw_cell_name_sits:
  assumes ready: "layout_ready f l" and x: "sits_at f l gs x" and y: "mark_raw_cell_name (locator_for f) x = Some y"
  shows "sits_at f l gs y"
proof -
  have moved: "x\<lparr>location := c\<rparr> = \<lparr>located_id = located_id x, location = c\<rparr>" for c by simp
  show ?thesis
    using x y raw_cell_location_sits [OF ready, of "located_id x"]
    by (auto simp: mark_raw_cell_name_def bind_eq_Some_conv moved split: name_location.splits cell_location.splits if_splits)
       (auto simp: sits_at_def)
qed

lemma mark_raw_cell_store_name_sits:
  assumes ready: "layout_ready f l" and x: "sits_at f l gs x" and y: "mark_raw_cell_store_name (locator_for f) x = Some y"
  shows "sits_at f l gs y"
proof (cases "if resolve_cell_storage_name (fn_scope f) (located_id x) \<noteq> None
              then map_of (collect_local_slot_locations f) (located_id x) else None")
  case None
  then have "mark_raw_cell_name (locator_for f) x = Some y"
    using y unfolding mark_raw_cell_store_name_def locator_sel by (simp only: option.case)
  with ready x show ?thesis by (rule mark_raw_cell_name_sits)
next
  case (Some i)
  then have "y = x\<lparr>location := LocLocal i\<rparr>"
    using y unfolding mark_raw_cell_store_name_def locator_sel by (simp only: option.case option.inject)
  with Some ready show ?thesis by (auto simp: sits_at_def local_slot_holds split: if_splits)
qed

text \<open>What the locator does with the name of a node.\<close>

lemma located_marked:
  assumes ready: "layout_ready f l" and g: "globals_ok g"
    and x: "locate_unresolved_name (locator_for f) n g = Some (x, g')"
    and y: "mark_unless_runtime mark x = Some y"
    and mark: "\<And>gs x y. sits_at f l gs x \<Longrightarrow> mark x = Some y \<Longrightarrow> sits_at f l gs y"
  shows "located_to f l g y g'"
proof (cases n)
  case (SourceName s)
  with x g ready have "located_to f l g x g'" using locate_name_sits by auto
  with y mark show ?thesis by (auto simp: located_to_def mark_unless_runtime_def split: if_splits)
next
  case (RuntimeName s)
  with x y g show ?thesis
    by (auto simp: located_to_def sits_at_def mark_unless_runtime_def located_is_runtime_def extends_refl)
qed


section \<open>Locating the names of an expression\<close>

definition cell_in_layout :: "core bp_function \<Rightarrow> storage_layout \<Rightarrow> cell_location \<Rightarrow> bool" where
  "cell_in_layout f l c \<longleftrightarrow>
     (case c of Owned i \<Rightarrow> unat i < length (collect_owned_cell_storage_bindings f)
      | Closure i \<Rightarrow> unat i < length (freevars l) | CapturedSource i \<Rightarrow> unat i < length (freevars l))"

fun located_node :: "core bp_function \<Rightarrow> storage_layout \<Rightarrow> string list \<Rightarrow> located_core \<Rightarrow> bool" where
  "located_node f l gs (CoreOp m (Load n)) \<longleftrightarrow> sits_at f l gs n"
| "located_node f l gs (CoreOp m (Store n v)) \<longleftrightarrow> sits_at f l gs n"
| "located_node f l gs (CoreOp m (Del n q)) \<longleftrightarrow> sits_at f l gs n"
| "located_node f l gs (CoreOp m (CellRef c)) \<longleftrightarrow> cell_in_layout f l c"
| "located_node f l gs (CoreCellRefForName m n) \<longleftrightarrow> False"
| "located_node f l gs e \<longleftrightarrow> True"

fun unlocated_node :: "core \<Rightarrow> bool" where
  "unlocated_node (CoreOp m (CellRef c)) \<longleftrightarrow> False"
| "unlocated_node e \<longleftrightarrow> True"

lemma located_node_extends: "located_node f l gs e \<Longrightarrow> extends gs hs \<Longrightarrow> located_node f l hs e"
  by (induction f l gs e rule: located_node.induct) (simp_all add: sits_at_extends)

lemma sits_in_layout: "sits_at f l gs \<lparr>located_id = n, location = LocCell c\<rparr> \<Longrightarrow> cell_in_layout f l c"
  by (auto simp: sits_at_def cell_in_layout_def cell_holds_def capture_holds_def slot_pairs_def
      split: cell_location.splits option.splits)

lemma raw_cell_in_layout:
  "layout_ready f l \<Longrightarrow> resolve_raw_cell_location (locator_for f) n = Some c \<Longrightarrow> cell_in_layout f l c"
  using raw_cell_location_sits sits_in_layout by blast

lemma cell_ref_in_layout:
  "layout_ready f l \<Longrightarrow> resolve_cell_ref_location (locator_for f) n = Some c \<Longrightarrow> cell_in_layout f l c"
  by (auto simp: resolve_cell_ref_location_def raw_cell_in_layout split: if_splits)

lemma marked_expr_located:
  assumes ready: "layout_ready f l" and e: "all_nodes (located_node f l gs) e" and y: "mark_raw_cell_expr (locator_for f) e = Some y"
  shows "all_nodes (located_node f l gs) y"
proof (cases "\<exists>m n. e = CoreOp m (Load n)")
  case True
  then obtain m n where n: "e = CoreOp m (Load n)" by blast
  with y obtain z where z: "mark_raw_cell_name (locator_for f) n = Some z"
    "y = (case as_cell (location z) of Some c \<Rightarrow> CoreOp m (CellRef c) | None \<Rightarrow> CoreOp m (Load z))"
    by (auto simp: mark_raw_cell_expr_def bind_eq_Some_conv)
  have "sits_at f l gs z" using mark_raw_cell_name_sits [OF ready _ z(1)] e by (simp add: n)
  then show ?thesis
    using sits_in_layout [of f l gs "located_id z"]
    by (cases z; cases "location z") (auto simp: z(2))
next
  case False
  with y have "y = e" by (auto simp: mark_raw_cell_expr_def split: core_expr.splits operation.splits)
  with e show ?thesis by simp
qed

lemma mark_class_lookup_kids:
  assumes ready: "layout_ready f l" and kids: "list_all (all_nodes (located_node f l gs)) (op_children op)"
    and y: "mark_class_lookup (locator_for f) op = Some op'"
  shows "list_all (all_nodes (located_node f l gs)) (op_children op')"
proof (cases "op' = op")
  case False
  with y obtain g a b c ks c' where op: "op = Call g [a, b, Positional c] ks"
    and c': "mark_raw_cell_expr (locator_for f) c = Some c'" and op': "op' = Call g [a, b, Positional c'] ks"
    by (auto simp: mark_class_lookup_def bind_eq_Some_conv split: operation.splits list.splits call_arg.splits if_splits)
  from kids have "all_nodes (located_node f l gs) c" by (simp add: op)
  with ready c' have "all_nodes (located_node f l gs) c'" by (blast intro: marked_expr_located)
  with kids show ?thesis by (simp add: op op')
qed (use kids in simp)

lemma mark_class_lookup_other: "\<not> (\<exists>g as ks. op = Call g as ks) \<Longrightarrow> mark_class_lookup L op = Some op"
  by (cases op) (simp_all add: mark_class_lookup_def)

lemma mark_class_lookup_call: "mark_class_lookup L (Call g as ks) = Some op' \<Longrightarrow> \<exists>g' as' ks'. op' = Call g' as' ks'"
  by (auto simp: mark_class_lookup_def bind_eq_Some_conv split: list.splits call_arg.splits if_splits)


lemma keyword_expr_map [simp]: "keyword_expr (map_call_keyword f k) = f (keyword_expr k)"
  by (cases k) simp_all

lemma op_children_map: "op_children (map_operation g h op) = map g (op_children op)"
  by (cases op) auto

lemma relocated_children: "length ys = length (op_children op) \<Longrightarrow> op_children (relocated op ys) = ys"
  by (simp add: relocated_def op_children_map op_children_with)

definition located_as ::
  "core bp_function \<Rightarrow> storage_layout \<Rightarrow> module_global_slots \<Rightarrow> located_core \<Rightarrow> module_global_slots \<Rightarrow> bool" where
  "located_as f l g e g' \<longleftrightarrow>
     globals_ok g' \<and> extends (slot_names g) (slot_names g') \<and> all_nodes (located_node f l (slot_names g')) e"

lemma all_located_extends:
  "all_nodes (located_node f l gs) e \<Longrightarrow> extends gs hs \<Longrightarrow> all_nodes (located_node f l hs) e"
  by (auto simp: all_nodes_def list_all_iff located_node_extends)

lemma located_list:
  assumes "st_map (locate_expr (locator_for f)) xs g = Some (ys, g')" "globals_ok g"
    and "\<And>x u y u'. x \<in> set xs \<Longrightarrow> globals_ok u \<Longrightarrow> locate_expr (locator_for f) x u = Some (y, u') \<Longrightarrow> located_as f l u y u'"
  shows "globals_ok g' \<and> extends (slot_names g) (slot_names g') \<and> list_all (all_nodes (located_node f l (slot_names g'))) ys"
proof -
  have "globals_ok g' \<and> extends (slot_names g) (slot_names g') \<and>
    (\<forall>v :: module_global_slots. extends (slot_names g') (slot_names v) \<longrightarrow>
       list_all2 (\<lambda>x. all_nodes (located_node f l (slot_names v))) xs ys)"
    using assms(1,2)
  proof (rule st_map_rel_inv [where I = globals_ok and R = "\<lambda>u v. extends (slot_names u) (slot_names v)"
        and Q = "\<lambda>v x. all_nodes (located_node f l (slot_names v))"])
    fix x u y u' assume "x \<in> set xs" "globals_ok u" "locate_expr (locator_for f) x u = Some (y, u')"
    then have "located_as f l u y u'" by (rule assms(3))
    then show "globals_ok u' \<and> extends (slot_names u) (slot_names u') \<and>
        (\<forall>v :: module_global_slots. extends (slot_names u') (slot_names v) \<longrightarrow> all_nodes (located_node f l (slot_names v)) y)"
      by (auto simp: located_as_def all_located_extends)
  qed (rule extends_refl, erule (1) extends_trans)
  moreover have "list_all P ys" if "list_all2 (\<lambda>x. P) xs ys" for P
    using that by (simp add: list_all2_conv_all_nth list_all_length)
  ultimately show ?thesis using extends_refl by blast
qed

definition nameless :: "('e, 'n) operation \<Rightarrow> bool" where
  "nameless op \<longleftrightarrow> (case op of Load n \<Rightarrow> False | Store n v \<Rightarrow> False | Del n q \<Rightarrow> False | CellRef c \<Rightarrow> False | _ \<Rightarrow> True)"

lemma nameless_marked:
  "nameless op \<Longrightarrow> mark_class_lookup L (relocated op ys) = Some op' \<Longrightarrow> located_node f l gs (CoreOp m op')"
  by (cases op) (auto simp: nameless_def relocated_def mark_class_lookup_other dest!: mark_class_lookup_call)

lemma located_operation:
  assumes ready: "layout_ready f l"
    and ys: "globals_ok g'" "extends (slot_names g) (slot_names g')" "list_all (all_nodes (located_node f l (slot_names g'))) ys"
    and len: "length ys = length (op_children op)"
    and op: "mark_class_lookup (locator_for f) (relocated op ys) = Some op'"
    and named: "nameless op"
  shows "located_as f l g (CoreOp m op') g'"
  using ys mark_class_lookup_kids [OF ready _ op] nameless_marked [OF named op] by (simp add: located_as_def relocated_children len)

lemma locate_expr_located:
  assumes ready: "layout_ready f l"
  shows "locate_expr (locator_for f) e g = Some (e', g') \<Longrightarrow> globals_ok g \<Longrightarrow> all_nodes unlocated_node e \<Longrightarrow> located_as f l g e' g'"
proof (induction e arbitrary: g e' g' rule: cor.node_induct)
  case (node e)
  let ?L = "locator_for f"
  note out = node.prems(1) [unfolded locate_expr.simps [of ?L e g]]
  have kids: "globals_ok u' \<and> extends (slot_names u) (slot_names u') \<and> list_all (all_nodes (located_node f l (slot_names u'))) ys"
    if "st_map (locate_expr ?L) (core_children e) u = Some (ys, u')" "globals_ok u" for u u' ys
    using that
  proof (rule located_list)
    fix x v y v' assume x: "x \<in> set (core_children e)"
    with node.prems(3) have "all_nodes unlocated_node x" by (cases e) (auto simp: list_all_iff)
    then show "globals_ok v \<Longrightarrow> locate_expr ?L x v = Some (y, v') \<Longrightarrow> located_as f l v y v'"
      using node.IH [OF x] by blast
  qed
  show ?case
  proof (cases e)
    case (CoreLit m a)
    with node.prems(2) out show ?thesis by (auto simp: located_as_def extends_refl)
  next
    case (CoreCellRefForName m n)
    with node.prems(2) out cell_ref_in_layout [OF ready] show ?thesis
      by (auto simp: bind_eq_Some_conv located_as_def extends_refl)
  next
    case (CoreOp m op)
    have other: ?thesis if named: "nameless op"
    proof -
      from named CoreOp out obtain ys op' where ys: "st_map (locate_expr ?L) (core_children e) g = Some (ys, g')"
        and op': "mark_class_lookup ?L (relocated op ys) = Some op'" "e' = CoreOp m op'"
        by (cases op) (auto simp: nameless_def bind_eq_Some_conv)
      have "length ys = length (op_children op)" using st_map_length [OF ys] by (simp add: CoreOp)
      with kids [OF ys node.prems(2)] op' named show ?thesis by (auto intro: located_operation [OF ready])
    qed
    show ?thesis
    proof (cases op)
      case (Load n)
      with CoreOp out obtain x y where
        "locate_unresolved_name ?L n g = Some (x, g')" "mark_unless_runtime (mark_raw_cell_name ?L) x = Some y"
        "e' = CoreOp m (Load y)"
        by (auto simp: bind_eq_Some_conv)
      with located_marked [OF ready node.prems(2) _ _ mark_raw_cell_name_sits [OF ready]] show ?thesis
        by (fastforce simp: located_as_def located_to_def)
    next
      case (Del n q)
      with CoreOp out obtain x y where
        "locate_unresolved_name ?L n g = Some (x, g')" "mark_unless_runtime (mark_raw_cell_store_name ?L) x = Some y"
        "e' = CoreOp m (Del y q)"
        by (auto simp: bind_eq_Some_conv)
      with located_marked [OF ready node.prems(2) _ _ mark_raw_cell_store_name_sits [OF ready]] show ?thesis
        by (fastforce simp: located_as_def located_to_def)
    next
      case (Store n v)
      with CoreOp out obtain x y g1 z where x:
        "locate_unresolved_name ?L n g = Some (x, g1)" "mark_unless_runtime (mark_raw_cell_store_name ?L) x = Some y"
        and z: "locate_expr ?L v g1 = Some (z, g')" and e': "e' = CoreOp m (Store y z)"
        by (auto simp: bind_eq_Some_conv)
      have y: "located_to f l g y g1"
        using located_marked [OF ready node.prems(2) x mark_raw_cell_store_name_sits [OF ready]] .
      with node.prems(3) have "located_as f l g1 z g'"
        by (intro node.IH [OF _ z]) (auto simp: CoreOp Store located_to_def)
      with y show ?thesis
        by (auto simp: located_as_def located_to_def e' sits_at_extends intro: extends_trans)
    next
      case (CellRef c)
      with node.prems(3) show ?thesis by (simp add: CoreOp)
    qed (rule other, simp add: nameless_def)+
  qed
qed


section \<open>Properties\<close>


lemma located_names:
  assumes "layout_ready f l" "globals_ok g" "list_all (all_nodes unlocated_node) (fn_instrs f)"
    and "locate_names_in_callable f g = Some (f', g')"
  shows "list_all (all_nodes (located_node f l (slot_names g'))) (fn_instrs f') \<and>
    globals_ok g' \<and> extends (slot_names g) (slot_names g')"
proof -
  have visits: "st_map (locate_expr (locator_for f)) (fn_instrs f) g = Some (fn_instrs f', g')"
    using assms(4) by (auto simp: locate_names_in_callable_def intro: carriesD map_fn_st_carries)
  have "located_as f l u y u'"
    if "x \<in> set (fn_instrs f)" "globals_ok u" "locate_expr (locator_for f) x u = Some (y, u')" for x u y u'
    using that assms(1,3) by (auto simp: list_all_iff intro: locate_expr_located)
  with located_list [OF visits assms(2)] show ?thesis by blast
qed



definition local_scope :: callable_scope_info where
  "local_scope = sample_scope\<lparr>bindings := [(''x'', BindLocal)], cell_storage_names := []\<rparr>"

definition local_layout :: storage_layout where
  "local_layout = \<lparr>freevars = [], cellvars = [], runtime_cells = [], stack_slots = [''x'']\<rparr>"

definition local_function :: "core list \<Rightarrow> storage_layout option \<Rightarrow> core bp_function" where
  "local_function es l =
     \<lparr>fn_id = function_id_new 0 0, fn_name_gen = function_name_gen_new (function_id_new 0 0),
      fn_names = scope_names local_scope, fn_kind = KFunction, fn_params = [],
      fn_blocks = [\<lparr>label = BlockLabel 0, body = es, bterm = Return (CoreLit synthetic (StringLiteral ''done'')),
                    params = [], exc_edge = None\<rparr>],
      fn_doc = None, fn_layout = l, fn_scope = local_scope\<rparr>"

abbreviation copy_global :: core where
  "copy_global \<equiv> CoreOp synthetic (Store (SourceName ''x'') (CoreOp synthetic (Load (SourceName ''print''))))"


lemma local_owned: "collect_owned_cell_storage_bindings (local_function es (Some local_layout)) = []"
  by (simp add: collect_owned_cell_storage_bindings_def local_function_def local_layout_def local_scope_def sample_scope_def
      owned_cell_storage_names_def)


abbreviation located_function :: "core bp_function" where
  "located_function \<equiv> local_function [copy_global] (Some local_layout)"

lemma located_function_ready: "layout_ready located_function local_layout"
  by (simp add: layout_ready_def local_owned cells_apart_def slot_pairs_def) (simp add: local_function_def local_layout_def)

lemma located_function_locates:
  "\<exists>f' g'. locate_names_in_callable located_function no_global_slots = Some (f', g')"
proof -
  let ?L = "locator_for located_function"
  have L: "exception_param_names ?L = {}" "loc_scope ?L = local_scope" "local_slots ?L = [(''x'', 0)]" "cell_bindings ?L = []"
    by (simp_all add: locator_for_def local_function_def exception_param_def collect_local_slot_locations_def
        local_layout_def slot_table_def collect_cell_bindings_def collect_owned_cell_storage_bindings_def
        local_scope_def sample_scope_def owned_cell_storage_names_def)
  have no_cell: "resolve_captured_cell_source_storage_name local_scope n = None" "resolve_cell_storage_name local_scope n = None"
    if "n = ''x'' \<or> n = ''print''" for n
    using that by (auto simp: resolve_captured_cell_source_storage_name_def resolve_cell_storage_name_def
        logical_name_for_cell_capture_source_def logical_name_for_cell_storage_def
        local_scope_def sample_scope_def find_key_def strip_prefix_def starts_with_def)
  have "\<exists>y u'. locate_expr ?L copy_global no_global_slots = Some (y, u')"
    by (simp add: locate_expr.simps [of ?L copy_global] locate_expr.simps [of ?L "CoreOp m (Load n)" for m n]
        locate_name_def L no_cell mark_unless_runtime_def mark_raw_cell_store_name_def mark_raw_cell_name_def
        slot_for_def no_global_slots_def located_is_runtime_def)
  then obtain y u' where "locate_expr ?L copy_global no_global_slots = Some (y, u')" by blast
  then show ?thesis
    by (simp add: locate_names_in_callable_def map_fn_st_def map_block_st_def local_function_def
        locate_expr.simps [of L "CoreLit m l" for L m l])
qed



end
