(* ===== verification/Deleted_Loads.thy ===== *)
theory Deleted_Loads
  imports Local_Slots
begin

text \<open>
  Loads of names that may be deleted or unbound (\<open>passes/name_binding.rs\<close>): the names are collected
  from the stores and deletions of a function, and every load of one becomes a call of
  \<open>load_deleted_name\<close>, which raises if it reads the sentinel. The pass over raw cell loads that follows is
  here too.
\<close>

section \<open>Names of cells\<close>

definition logical_name_for_cell_bound_name :: "callable_scope_info \<Rightarrow> unresolved_name \<Rightarrow> string option" where
  "logical_name_for_cell_bound_name s n =
     (if is_cell_binding (unresolved_id n) s then Some (unresolved_id n)
      else do { st \<leftarrow> resolve_cell_storage_name s (unresolved_id n); logical_name_for_cell_storage st s })"

fun cell_load_logical_name :: "callable_scope_info \<Rightarrow> core \<Rightarrow> string option" where
  "cell_load_logical_name s (CoreOp m (Load n)) = logical_name_for_cell_bound_name s n"
| "cell_load_logical_name s _ = None"

fun store_cell_deleted_logical_name :: "callable_scope_info \<Rightarrow> core \<Rightarrow> string option" where
  "store_cell_deleted_logical_name s (CoreOp m (Store n v)) =
     (if is_deleted_sentinel_expr v then logical_name_for_cell_bound_name s n else None)"
| "store_cell_deleted_logical_name s _ = None"

fun del_deref_logical_name :: "callable_scope_info \<Rightarrow> core \<Rightarrow> string option" where
  "del_deref_logical_name s (CoreOp m (Del n quiet)) =
     (if quiet then None else logical_name_for_cell_bound_name s n)"
| "del_deref_logical_name s _ = None"

fun store_cell_runtime_logical_name :: "callable_scope_info \<Rightarrow> core \<Rightarrow> string option" where
  "store_cell_runtime_logical_name s (CoreOp m (Store n v)) =
     (if is_deleted_sentinel_expr v then None else logical_name_for_cell_bound_name s n)"
| "store_cell_runtime_logical_name s _ = None"

section \<open>Deleted and unbound names\<close>

definition names_of :: "string option \<Rightarrow> string list" where
  "names_of x = (case x of None \<Rightarrow> [] | Some n \<Rightarrow> [n])"

fun semantic_store :: "core \<Rightarrow> (string \<times> core) option" where
  "semantic_store (CoreOp m (Store n v)) = (if semantic_name n then Some (unresolved_id n, v) else None)"
| "semantic_store _ = None"

fun semantic_delete :: "core \<Rightarrow> string option" where
  "semantic_delete (CoreOp m (Del n quiet)) =
     (if \<not> quiet \<and> semantic_name n then Some (unresolved_id n) else None)"
| "semantic_delete _ = None"

definition deleted_names_in_stmt :: "callable_scope_info \<Rightarrow> core \<Rightarrow> string list" where
  "deleted_names_in_stmt s e =
     (case semantic_store e of
        Some (n, v) \<Rightarrow> (if has_local_def n s \<and> is_deleted_sentinel_expr v then [n] else [])
      | None \<Rightarrow> []) @
     (case semantic_delete e of
        Some n \<Rightarrow> (if has_local_def n s then [n] else [])
      | None \<Rightarrow> []) @
     names_of (store_cell_deleted_logical_name s e) @ names_of (del_deref_logical_name s e)"

definition collect_deleted_names_in_blocks :: "callable_scope_info \<Rightarrow> (core, core) block list \<Rightarrow> string set" where
  "collect_deleted_names_in_blocks s bs =
     set (concat (map (\<lambda>b. concat (map (deleted_names_in_stmt s) (body b))) bs))"

definition runtime_bound_names_in_stmt :: "callable_scope_info \<Rightarrow> core \<Rightarrow> string list" where
  "runtime_bound_names_in_stmt s e =
     (case semantic_store e of
        Some (n, v) \<Rightarrow> (if has_local_def n s \<and> \<not> is_deleted_sentinel_expr v then [n] else [])
      | None \<Rightarrow> []) @
     names_of (store_cell_runtime_logical_name s e)"

definition collect_runtime_bound_local_names :: "callable_scope_info \<Rightarrow> (core, core) block list \<Rightarrow> string set" where
  "collect_runtime_bound_local_names s bs =
     set (concat (map (\<lambda>b. concat (map (runtime_bound_names_in_stmt s) (body b))) bs))"

definition collect_always_unbound_local_names :: "core bp_function \<Rightarrow> string set" where
  "collect_always_unbound_local_names f =
     {n \<in> local_defs (fn_scope f).
        n \<notin> set (spec_names (fn_params f)) \<and> \<not> is_internal_symbol n \<and>
        n \<notin> collect_runtime_bound_local_names (fn_scope f) (fn_blocks f) \<and>
        (case effective_binding_of n LoadPurpose (fn_scope f) of
           Some EffLocal \<Rightarrow> True | Some (EffCell _) \<Rightarrow> True | _ \<Rightarrow> False)}"

section \<open>Rewriting the loads\<close>

definition wrap_deleted_name_load_expr :: "string \<Rightarrow> meta \<Rightarrow> core \<Rightarrow> core" where
  "wrap_deleted_name_load_expr l m v = core_runtime_call ''load_deleted_name'' m [core_string_expr m l, v]"

definition logical_name_for_local_location :: "storage_layout \<Rightarrow> u32 \<Rightarrow> string option" where
  "logical_name_for_local_location l i = nth_opt (stack_slots l) (unat i)"

text \<open>\<open>with_helper_arg_mut\<close>: the operand at a position, if there is one, is rewritten.\<close>

definition with_helper_arg :: "nat \<Rightarrow> (core \<Rightarrow> core) \<Rightarrow> core \<Rightarrow> core" where
  "with_helper_arg i f e =
     (if i < length (core_children e)
      then core_with_children e ((core_children e)[i := f (core_children e ! i)]) else e)"

lemma with_helper_arg_cong [fundef_cong]:
  "i = j \<Longrightarrow> e = e' \<Longrightarrow> (\<And>x. x \<in> set (core_children e') \<Longrightarrow> f x = g x) \<Longrightarrow>
   with_helper_arg i f e = with_helper_arg j g e'"
  by (simp add: with_helper_arg_def)

text \<open>The arguments that the recursion passes on: scope, layout, the slots of the locals, the names
  that are deleted somewhere and those that are never bound.\<close>

record load_context =
  lc_scope :: callable_scope_info
  lc_layout :: storage_layout
  lc_slots :: slots
  lc_deleted :: "string set"
  lc_unbound :: "string set"

definition wrap_local_load :: "load_context \<Rightarrow> string \<Rightarrow> meta \<Rightarrow> core \<Rightarrow> core" where
  "wrap_local_load c n m e =
     wrap_deleted_name_load_expr n m (if n \<in> lc_unbound c then deleted_sentinel_expr m else e)"

definition rewrite_deleted_load :: "load_context \<Rightarrow> meta \<Rightarrow> unresolved_name \<Rightarrow> core" where
  "rewrite_deleted_load c m n =
     (let e = CoreOp m (Load n); checked = lc_deleted c \<union> lc_unbound c in
      case (case cell_load_logical_name (lc_scope c) e of
              Some l \<Rightarrow> (if l \<in> checked then Some l else None) | None \<Rightarrow> None) of
        Some l \<Rightarrow> wrap_deleted_name_load_expr l m e
      | None \<Rightarrow>
          if unresolved_id n \<in> checked then wrap_local_load c (unresolved_id n) m e
          else (case n of
                  RuntimeName r \<Rightarrow> e
                | SourceName x \<Rightarrow>
                    (case Option.bind (map_of (lc_slots c) x) (logical_name_for_local_location (lc_layout c)) of
                       Some l \<Rightarrow> (if l \<in> checked then wrap_local_load c l m e else e)
                     | None \<Rightarrow> e)))"

function rewrite_deleted_name_loads_in_expr :: "load_context \<Rightarrow> core \<Rightarrow> core" where
  "rewrite_deleted_name_loads_in_expr c e =
     (case e of
        CoreLit m l \<Rightarrow> e
      | CoreCellRefForName m n \<Rightarrow> e
      | CoreOp m (Load n) \<Rightarrow> rewrite_deleted_load c m n
      | CoreOp m (Store n v) \<Rightarrow> with_helper_arg 1 (rewrite_deleted_name_loads_in_expr c) e
      | CoreOp m (Del n q) \<Rightarrow> e
      | CoreOp m (CellRef l) \<Rightarrow> e
      | CoreOp m op \<Rightarrow> core_with_children e (map (rewrite_deleted_name_loads_in_expr c) (core_children e)))"
  by pat_completeness auto
termination
  by (relation "measure (\<lambda>(c, e). size e)") (simp_all only: wf_measure in_measure prod.case core_child_size)

declare rewrite_deleted_name_loads_in_expr.simps [simp del]

lemma rewrite_deleted_nameless:
  assumes "nameless op"
  shows "rewrite_deleted_name_loads_in_expr c (CoreOp m op) =
    core_with_children (CoreOp m op) (map (rewrite_deleted_name_loads_in_expr c) (core_children (CoreOp m op)))"
  using assms
  by (cases op) (simp_all add: nameless_def rewrite_deleted_name_loads_in_expr.simps [of c "CoreOp m op" for m op])

text \<open>The step of \<open>lower_name_binding_callable\<close> that computes the names and rewrites the blocks;
  \<open>None\<close> is the panic without a layout. The terminator is rewritten by the same function.\<close>

definition load_context_for :: "slots \<Rightarrow> core bp_function \<Rightarrow> load_context option" where
  "load_context_for ls f =
     do { l \<leftarrow> fn_layout f;
          Some \<lparr>lc_scope = fn_scope f, lc_layout = l, lc_slots = ls,
                lc_deleted = collect_deleted_names_in_blocks (fn_scope f) (fn_blocks f),
                lc_unbound = collect_always_unbound_local_names f\<rparr> }"

definition check_deleted_loads :: "slots \<Rightarrow> core bp_function \<Rightarrow> core bp_function option" where
  "check_deleted_loads ls f =
     do { c \<leftarrow> load_context_for ls f;
          Some (if lc_deleted c \<noteq> {} \<or> lc_unbound c \<noteq> {}
                then map_fn (rewrite_deleted_name_loads_in_expr c) f else f) }"

section \<open>Raw cell loads\<close>

function rewrite_raw_cell_loads_in_expr :: "callable_scope_info \<Rightarrow> core \<Rightarrow> core" where
  "rewrite_raw_cell_loads_in_expr s e =
     (case e of
        CoreLit m l \<Rightarrow> e
      | CoreOp m (Load (SourceName n)) \<Rightarrow>
          (case binding_kind_of n s of Some (BindCell k) \<Rightarrow> name_load n m | _ \<Rightarrow> e)
      | CoreOp m op \<Rightarrow>
          (let ys = map (rewrite_raw_cell_loads_in_expr s) (core_children e)
           in if is_class_cell_lookup op then core_with_children e (ys[3 := core_children e ! 3])
              else core_with_children e ys)
      | CoreCellRefForName m n \<Rightarrow> e)"
  by pat_completeness auto
termination
  by (relation "measure (\<lambda>(s, e). size e)") (simp_all only: wf_measure in_measure prod.case core_child_size)

declare rewrite_raw_cell_loads_in_expr.simps [simp del]

fun is_local_cell_init_store :: "core \<Rightarrow> bool" where
  "is_local_cell_init_store (CoreOp m (Store n (CoreOp m' (MakeCell v)))) \<longleftrightarrow> starts_with ''_dp_cell_'' (unresolved_id n)"
| "is_local_cell_init_store _ \<longleftrightarrow> False"

definition rewrite_raw_cell_loads_in_block :: "callable_scope_info \<Rightarrow> (core, core) block \<Rightarrow> (core, core) block" where
  "rewrite_raw_cell_loads_in_block s b =
     b\<lparr>body := map (\<lambda>e. if is_local_cell_init_store e then e else rewrite_raw_cell_loads_in_expr s e) (body b),
       bterm := map_term (rewrite_raw_cell_loads_in_expr s) (bterm b)\<rparr>"

lemma raw_cell_loads_unchanged: "rewrite_raw_cell_loads_in_expr s e = e"
proof (induction e rule: cor.node_induct)
  case (node e)
  show ?case
  proof (cases e)
    case (CoreOp m op)
    have same: "map (rewrite_raw_cell_loads_in_expr s) (core_children e) = core_children e"
      by (rule map_idI) (rule node)
    have other: ?thesis if "\<not> (\<exists>n. op = Load (SourceName n))"
    proof -
      have "rewrite_raw_cell_loads_in_expr s e =
          (let ys = map (rewrite_raw_cell_loads_in_expr s) (core_children e)
           in if is_class_cell_lookup op then core_with_children e (ys[3 := core_children e ! 3])
              else core_with_children e ys)"
        using that rewrite_raw_cell_loads_in_expr.simps [of s e]
        by (cases op) (simp_all only: CoreOp core_expr.case operation.case split: unresolved_name.splits, auto)
      then show ?thesis by (simp only: same Let_def list_update_id cor.with_own_children if_cancel)
    qed
    show ?thesis
    proof (cases "\<exists>n. op = Load (SourceName n)")
      case True
      then show ?thesis
        by (auto simp: CoreOp rewrite_raw_cell_loads_in_expr.simps [of s "CoreOp m (Load n)" for n] name_load_def
            split: option.split binding_kind.split)
    qed (rule other)
  qed (simp_all add: rewrite_raw_cell_loads_in_expr.simps [of s "CoreLit m l" for m l]
      rewrite_raw_cell_loads_in_expr.simps [of s "CoreCellRefForName m n" for m n])
qed

lemma map_term_id: "map_term id t = t"
  by (cases t) (simp_all add: option.map_id)

lemma raw_cell_block_unchanged: "rewrite_raw_cell_loads_in_block s b = b"
proof -
  have "map_term (rewrite_raw_cell_loads_in_expr s) t = t" for t
    using map_term_cong [of t "rewrite_raw_cell_loads_in_expr s" id] by (simp add: raw_cell_loads_unchanged map_term_id)
  then show ?thesis by (simp add: rewrite_raw_cell_loads_in_block_def raw_cell_loads_unchanged cong: if_cong)
qed


section \<open>What the rewritten loads mean\<close>

text \<open>\<open>meaning h\<close> gives every expression a meaning, where \<open>h\<close> gives that of a node from those of its
  operands.\<close>

function meaning :: "(core \<Rightarrow> 'm list \<Rightarrow> 'm) \<Rightarrow> core \<Rightarrow> 'm" where
  "meaning h e = h e (map (meaning h) (core_children e))"
  by pat_completeness auto
termination
  by (relation "measure (\<lambda>(h, e). size e)") (simp_all only: wf_measure in_measure prod.case core_child_size)

declare meaning.simps [simp del]

text \<open>A node means the same with other operands of the same meaning, and a call of \<open>load_deleted_name\<close>
  with a name and an operand checks the operand.\<close>

definition checks_deleted :: "(core \<Rightarrow> 'm list \<Rightarrow> 'm) \<Rightarrow> (string \<Rightarrow> 'm \<Rightarrow> 'm) \<Rightarrow> bool" where
  "checks_deleted h check \<longleftrightarrow>
     (\<forall>e es ys. length es = length (core_children e) \<longrightarrow> h (core_with_children e es) ys = h e ys) \<and>
     (\<forall>m n v y. meaning h v = y \<longrightarrow> meaning h (wrap_deleted_name_load_expr n m v) = check n y)"

text \<open>The check a load needs: the name to report, and whether the name is never bound, in which case the
  sentinel is read instead.\<close>

definition load_check :: "load_context \<Rightarrow> unresolved_name \<Rightarrow> (string \<times> bool) option" where
  "load_check c n =
     (let checked = lc_deleted c \<union> lc_unbound c;
          cell = (case logical_name_for_cell_bound_name (lc_scope c) n of
                    Some l \<Rightarrow> if l \<in> checked then [(l, False)] else [] | None \<Rightarrow> []);
          own = (if unresolved_id n \<in> checked then [(unresolved_id n, unresolved_id n \<in> lc_unbound c)] else []);
          slot = (case n of
                    RuntimeName r \<Rightarrow> []
                  | SourceName x \<Rightarrow>
                      (case map_of (lc_slots c) x of
                         None \<Rightarrow> []
                       | Some i \<Rightarrow>
                           (case logical_name_for_local_location (lc_layout c) i of
                              None \<Rightarrow> [] | Some l \<Rightarrow> if l \<in> checked then [(l, l \<in> lc_unbound c)] else [])))
      in case cell @ own @ slot of [] \<Rightarrow> None | x # xs \<Rightarrow> Some x)"

definition checked_meaning ::
  "load_context \<Rightarrow> (core \<Rightarrow> 'm list \<Rightarrow> 'm) \<Rightarrow> (string \<Rightarrow> 'm \<Rightarrow> 'm) \<Rightarrow> core \<Rightarrow> 'm list \<Rightarrow> 'm" where
  "checked_meaning c h check e ys =
     (case e of
        CoreOp m (Load n) \<Rightarrow>
          (case load_check c n of
             None \<Rightarrow> h e ys
           | Some (l, unbound) \<Rightarrow> check l (if unbound then meaning h (deleted_sentinel_expr m) else h e ys))
      | _ \<Rightarrow> h e ys)"

fun unchecked_load :: "load_context \<Rightarrow> core \<Rightarrow> bool" where
  "unchecked_load c (CoreOp m (Load n)) \<longleftrightarrow> load_check c n = None"
| "unchecked_load c e \<longleftrightarrow> True"

fun plain_store :: "load_context \<Rightarrow> core \<Rightarrow> bool" where
  "plain_store c (CoreOp m (Store n v)) \<longleftrightarrow> all_nodes (unchecked_load c) v"
| "plain_store c e \<longleftrightarrow> True"

lemma checked_other: "(\<And>m n. e \<noteq> CoreOp m (Load n)) \<Longrightarrow> checked_meaning c h check e ys = h e ys"
  by (auto simp: checked_meaning_def split: core_expr.split operation.split)

lemma rewritten_load_meaning:
  assumes "checks_deleted h check"
  shows "meaning h (rewrite_deleted_load c m n) = checked_meaning c h check (CoreOp m (Load n)) []"
proof -
  have load: "meaning h (CoreOp m (Load k)) = h (CoreOp m (Load k)) []" for k
    by (simp add: meaning.simps [of h "CoreOp m (Load k)"])
  have wrap: "meaning h (wrap_deleted_name_load_expr l m v) = check l (meaning h v)" for l v
    using assms by (simp add: checks_deleted_def)
  show ?thesis
    by (cases n)
      (auto simp: rewrite_deleted_load_def checked_meaning_def load_check_def Let_def wrap_local_load_def load wrap
        split: option.splits)
qed

lemma unchecked_meaning: "all_nodes (unchecked_load c) e \<Longrightarrow> meaning (checked_meaning c h check) e = meaning h e"
proof (induction e rule: cor.node_induct)
  case (node e)
  have kids: "map (meaning (checked_meaning c h check)) (core_children e) = map (meaning h) (core_children e)"
    using node by (cases e) (auto simp: list_all_iff)
  have "unchecked_load c e" using node.prems by (cases e) simp_all
  then have "checked_meaning c h check e ys = h e ys" for ys
    by (cases "(c, e)" rule: unchecked_load.cases) (simp_all add: checked_meaning_def)
  with kids show ?case by (simp only: meaning.simps [of _ e])
qed

lemma with_store_value: "with_helper_arg (Suc 0) f (CoreOp m (Store n v)) = CoreOp m (Store n v)"
  by (simp add: with_helper_arg_def)

lemma rewritten_meaning:
  assumes h: "checks_deleted h check"
  shows "all_nodes (plain_store c) e \<Longrightarrow>
    meaning h (rewrite_deleted_name_loads_in_expr c e) = meaning (checked_meaning c h check) e"
proof (induction e rule: cor.node_induct)
  case (node e)
  note rec = rewrite_deleted_name_loads_in_expr.simps [of c e]
  let ?m = "meaning (checked_meaning c h check)" and ?rw = "rewrite_deleted_name_loads_in_expr c"
  have step: "?m e = checked_meaning c h check e (map ?m (core_children e))" by (rule meaning.simps)
  show ?case
  proof (cases e)
    case (CoreLit m l)
    have "?rw e = e" using rec by (simp add: CoreLit)
    with step show ?thesis by (simp add: checked_other CoreLit meaning.simps [of h "CoreLit m l"])
  next
    case (CoreCellRefForName m n)
    have "?rw e = e" using rec by (simp add: CoreCellRefForName)
    with step show ?thesis by (simp add: checked_other CoreCellRefForName meaning.simps [of h "CoreCellRefForName m n"])
  next
    case (CoreOp m op)
    have kids: "map (meaning h) (map ?rw (core_children e)) = map ?m (core_children e)"
      using node CoreOp by (auto simp: list_all_iff)
    have mapped: ?thesis if "nameless op"
    proof -
      have "?rw e = core_with_children e (map ?rw (core_children e))" "\<And>n. op \<noteq> Load n"
        using that by (simp add: CoreOp rewrite_deleted_nameless del: core_children.simps core_with_children.simps)
          (use that in \<open>auto simp: nameless_def\<close>)
      note that = this
      let ?es = "map ?rw (core_children e)"
      have len: "length ?es = length (core_children e)" by simp
      have "meaning h (core_with_children e ?es) = h (core_with_children e ?es) (map (meaning h) ?es)"
        by (subst meaning.simps) (simp only: cor.children_with [OF len])
      also have "\<dots> = h e (map ?m (core_children e))"
        using h len by (simp only: kids checks_deleted_def)
      also have "\<dots> = ?m e" using that(2) by (simp only: step) (rule checked_other [symmetric], simp add: CoreOp)
      finally show ?thesis by (simp only: that(1))
    qed
    have same: ?thesis if "?rw e = e" "core_children e = []" "\<And>n. op \<noteq> Load n"
    proof -
      have "?m e = h e []" using that(2,3) by (simp only: step list.map) (rule checked_other, simp add: CoreOp)
      moreover have "meaning h e = h e []" using that(2) meaning.simps [of h e] by simp
      ultimately show ?thesis by (simp only: that(1))
    qed
    show ?thesis
    proof (cases op)
      case (Load n)
      with rec rewritten_load_meaning [OF h] step show ?thesis by (simp add: CoreOp)
    next
      case (Store n v)
      with node.prems have "?m v = meaning h v" by (auto simp: CoreOp intro: unchecked_meaning)
      moreover have "?rw e = e" using rec by (simp add: CoreOp Store with_store_value)
      moreover have kid: "core_children e = [v]" by (simp add: CoreOp Store)
      have "?m e = h e [?m v]"
        by (simp only: step kid list.map) (rule checked_other, simp add: CoreOp Store)
      moreover have "meaning h e = h e [meaning h v]"
        by (simp only: meaning.simps [of h e]) (simp add: CoreOp Store)
      ultimately show ?thesis by simp
    next
      case (Del n q)
      with rec same show ?thesis by (simp add: CoreOp)
    next
      case (CellRef l)
      with rec same show ?thesis by (simp add: CoreOp)
    qed (rule mapped, simp add: nameless_def)+
  qed
qed


text \<open>Without deleted or unbound names the pass would change nothing.\<close>

lemma no_checks_unchanged:
  assumes "lc_deleted c = {}" "lc_unbound c = {}"
  shows "rewrite_deleted_name_loads_in_expr c e = e"
proof (induction e rule: cor.node_induct)
  case (node e)
  note rec = rewrite_deleted_name_loads_in_expr.simps [of c e]
  have same: "map (rewrite_deleted_name_loads_in_expr c) (core_children e) = core_children e"
    by (rule map_idI) (rule node)
  have load: "rewrite_deleted_load c m n = CoreOp m (Load n)" for m n
    using assms by (cases n) (auto simp: rewrite_deleted_load_def Let_def split: option.splits)
  show ?case
  proof (cases e)
    case (CoreOp m op)
    have mapped: ?thesis if "nameless op"
      using that same by (simp only: CoreOp rewrite_deleted_nameless cor.with_own_children)
    show ?thesis
    proof (cases op)
      case (Load n)
      with rec load show ?thesis by (simp add: CoreOp)
    next
      case (Store n v)
      with rec show ?thesis by (simp add: CoreOp with_store_value)
    next
      case (Del n q)
      with rec show ?thesis by (simp add: CoreOp)
    next
      case (CellRef l)
      with rec show ?thesis by (simp add: CoreOp)
    qed (rule mapped, simp add: nameless_def)+
  qed (use rec in simp_all)
qed

lemma check_deleted_loads_map:
  assumes "load_context_for ls f = Some c"
  shows "check_deleted_loads ls f = Some (map_fn (rewrite_deleted_name_loads_in_expr c) f)"
proof (cases "lc_deleted c = {} \<and> lc_unbound c = {}")
  case True
  then have "map_fn (rewrite_deleted_name_loads_in_expr c) f = map_fn id f"
    by (intro map_fn_cong) (simp add: no_checks_unchanged)
  also have "\<dots> = f" by (simp add: map_fn_def map_blocks_def map_block_def map_term_id map_idI)
  finally show ?thesis using True assms by (simp add: check_deleted_loads_def)
next
  case False
  with assms show ?thesis by (simp add: check_deleted_loads_def)
qed

text \<open>The value of a store is left alone, although it may load a deleted name: a store has its value as
  its only operand, at position 0, and the code asks for position 1.\<close>

lemma stored_value_not_checked:
  "rewrite_deleted_name_loads_in_expr c (CoreOp m (Store n v)) = CoreOp m (Store n v)"
  by (simp add: rewrite_deleted_name_loads_in_expr.simps [of c "CoreOp m (Store n v)"] with_store_value)

section \<open>Properties\<close>


fun leaf_text :: "core \<Rightarrow> string" where
  "leaf_text (CoreOp m (Load n)) = unresolved_id n"
| "leaf_text (CoreLit m (StringLiteral t)) = t"
| "leaf_text _ = []"

definition text_meaning :: "core \<Rightarrow> string list \<Rightarrow> string" where
  "text_meaning e ys = leaf_text e @ concat ys"

lemma text_meaning_checks: "checks_deleted text_meaning (\<lambda>n y. ''load_deleted_name'' @ n @ y)"
proof -
  have "leaf_text (core_with_children e es) = leaf_text e" for e es
  proof (cases e)
    case (CoreOp m op)
    then show ?thesis by (cases op) simp_all
  qed simp_all
  then show ?thesis
    by (simp add: checks_deleted_def text_meaning_def [of "core_with_children e es" for e es]
        wrap_deleted_name_load_expr_def core_runtime_call_def core_string_expr_def meaning.simps [of text_meaning "CoreOp m op" for m op]
        meaning.simps [of text_meaning "CoreLit m l" for m l])
       (simp add: text_meaning_def)
qed

definition deleting_function :: "core bp_function" where
  "deleting_function = local_function
     [CoreOp synthetic (Del (SourceName ''x'') False), CoreOp synthetic (Load (SourceName ''x''))] (Some local_layout)"


end
