(* ===== verification/Cell_Preamble.thy ===== *)
theory Cell_Preamble
  imports Deleted_Loads
begin

text \<open>
  The statements that name binding adds to the blocks of a function (\<open>passes/name_binding.rs\<close>): the
  creation of the cells that the function owns, in front of its entry block, and the copy of an
  exception into its cell, in front of a handler.
\<close>

section \<open>Creating the owned cells\<close>

definition cell_store :: "string \<Rightarrow> core \<Rightarrow> core" where
  "cell_store st v = CoreOp synthetic (Store (SourceName st) (CoreOp synthetic (MakeCell v)))"

definition build_local_cell_init_assign :: "string \<Rightarrow> string \<Rightarrow> bool \<Rightarrow> core" where
  "build_local_cell_init_assign st l is_parameter =
     cell_store st (if is_parameter then core_name_expr l synthetic else deleted_sentinel_expr synthetic)"

definition closure_slot_init_expr :: "closure_slot \<Rightarrow> core option" where
  "closure_slot_init_expr x =
     (case slot_init x of
        InheritedCapture \<Rightarrow> None
      | InitParameter \<Rightarrow> Some (core_name_expr (logical_name x) synthetic)
      | DeletedSentinel \<Rightarrow> Some (deleted_sentinel_expr synthetic)
      | RuntimePcUnstarted \<Rightarrow> Some (CoreLit synthetic (NumberLiteral (IntLiteral 1)))
      | RuntimeAbruptKindFallthrough \<Rightarrow> Some (CoreLit synthetic (NumberLiteral (IntLiteral 0)))
      | RuntimeNone \<Rightarrow> Some (core_name_expr ''NONE'' synthetic)
      | Deferred \<Rightarrow> Some (core_name_expr ''NONE'' synthetic))"

definition build_closure_slot_cell_init_assign :: "closure_slot \<Rightarrow> core option" where
  "build_closure_slot_cell_init_assign x = map_option (cell_store (storage_name x)) (closure_slot_init_expr x)"

definition function_cell_inits :: "core bp_function \<Rightarrow> core list" where
  "function_cell_inits f =
     map (\<lambda>st. let l = unwrap_or st (logical_name_for_cell_storage st (fn_scope f))
               in build_local_cell_init_assign st l (l \<in> set (spec_names (fn_params f))))
       (sorted_list_of_set (owned_cell_storage_names (fn_scope f)))"

definition splice_front :: "core list \<Rightarrow> core bp_function \<Rightarrow> core bp_function option" where
  "splice_front es f =
     (case fn_blocks f of
        [] \<Rightarrow> None
      | b # bs \<Rightarrow> Some (f\<lparr>fn_blocks := b\<lparr>body := es @ body b\<rparr> # bs\<rparr>))"

definition prepend_owned_cell_init_preamble :: "core bp_function \<Rightarrow> core bp_function option" where
  "prepend_owned_cell_init_preamble f =
     (if fn_kind f = KFunction then
        (if owned_cell_storage_names (fn_scope f) = {} then Some f else splice_front (function_cell_inits f) f)
      else do { l \<leftarrow> fn_layout f;
                es \<leftarrow> those (map build_closure_slot_cell_init_assign (local_cells l));
                splice_front es f })"

section \<open>Exceptions in cells\<close>

definition normal_predecessor_exc_param_names :: "('e, 'e) block list \<Rightarrow> block_label \<Rightarrow> string option list" where
  "normal_predecessor_exc_param_names bs l =
     concat (map (\<lambda>b. map (\<lambda>_. exception_param (params b)) (filter ((=) l) (successors (bterm b)))) bs)"

definition sync_exception_param_cell_in_block ::
  "callable_scope_info \<Rightarrow> string option list \<Rightarrow> (core, core) block \<Rightarrow> (core, core) block" where
  "sync_exception_param_cell_in_block s preds b =
     (case exception_param (params b) of
        None \<Rightarrow> b
      | Some n \<Rightarrow>
          (case binding_kind_of n s of
             Some (BindCell k) \<Rightarrow>
               if list_ex (\<lambda>p. p \<noteq> None \<and> p \<noteq> Some n) preds then b
               else b\<lparr>body := CoreOp synthetic (Store (SourceName n) (name_load n synthetic)) # body b\<rparr>
           | _ \<Rightarrow> b))"

text \<open>The loop of \<open>lower_name_binding_callable\<close> over the blocks; the predecessors are computed before it.\<close>

definition sync_and_rewrite_blocks :: "core bp_function \<Rightarrow> core bp_function" where
  "sync_and_rewrite_blocks f =
     f\<lparr>fn_blocks :=
         map (\<lambda>b. rewrite_raw_cell_loads_in_block (fn_scope f)
                   (sync_exception_param_cell_in_block (fn_scope f)
                     (normal_predecessor_exc_param_names (fn_blocks f) (label b)) b))
           (fn_blocks f)\<rparr>"

section \<open>The cells a preamble creates\<close>

text \<open>The name that a statement puts a new cell under.\<close>

fun created_cell :: "core \<Rightarrow> string option" where
  "created_cell (CoreOp m (Store (SourceName st) (CoreOp m' (MakeCell v)))) = Some st"
| "created_cell _ = None"

lemma created_cell_store [simp]: "created_cell (cell_store st v) = Some st"
  by (simp add: cell_store_def)

lemma those_map_Some: "those (map f xs) = Some ys \<longleftrightarrow> list_all2 (\<lambda>x y. f x = Some y) xs ys"
  by (induction xs arbitrary: ys) (auto simp: list_all2_Cons1 split: option.splits)

lemma those_map_None: "those (map f xs) = None \<longleftrightarrow> (\<exists>x\<in>set xs. f x = None)"
  by (induction xs) (auto split: option.splits)

lemma slot_inits_create:
  "those (map build_closure_slot_cell_init_assign xs) = Some es \<Longrightarrow> map created_cell es = map (Some \<circ> storage_name) xs"
  by (induction xs arbitrary: es)
     (auto simp: build_closure_slot_cell_init_assign_def split: option.splits)

lemma function_inits_create:
  "map created_cell (function_cell_inits f) = map Some (sorted_list_of_set (owned_cell_storage_names (fn_scope f)))"
  by (simp add: function_cell_inits_def build_local_cell_init_assign_def Let_def o_def)

lemma slot_init_None: "build_closure_slot_cell_init_assign x = None \<longleftrightarrow> slot_init x = InheritedCapture"
  by (cases "slot_init x") (simp_all add: build_closure_slot_cell_init_assign_def closure_slot_init_expr_def)

definition preamble_cells :: "core bp_function \<Rightarrow> string list" where
  "preamble_cells f =
     (if fn_kind f = KFunction then sorted_list_of_set (owned_cell_storage_names (fn_scope f))
      else (case fn_layout f of None \<Rightarrow> [] | Some l \<Rightarrow> map storage_name (local_cells l)))"

lemma preamble_Some:
  assumes "prepend_owned_cell_init_preamble f = Some f'" "fn_blocks f = b # bs"
  shows "\<exists>es. map created_cell es = map Some (preamble_cells f) \<and> f' = f\<lparr>fn_blocks := b\<lparr>body := es @ body b\<rparr> # bs\<rparr>"
proof (cases "fn_kind f = KFunction")
  case True
  show ?thesis
  proof (cases "owned_cell_storage_names (fn_scope f) = {}")
    case empty: True
    have "f = f\<lparr>fn_blocks := b\<lparr>body := [] @ body b\<rparr> # bs\<rparr>" using assms(2) by (cases f) simp
    with empty True assms(1) show ?thesis by (auto simp: prepend_owned_cell_init_preamble_def preamble_cells_def)
  next
    case False
    with True assms function_inits_create [of f] show ?thesis
      by (auto simp: prepend_owned_cell_init_preamble_def preamble_cells_def splice_front_def)
  qed
next
  case False
  with assms obtain l es where "fn_layout f = Some l" "those (map build_closure_slot_cell_init_assign (local_cells l)) = Some es"
    "f' = f\<lparr>fn_blocks := b\<lparr>body := es @ body b\<rparr> # bs\<rparr>"
    by (auto simp: prepend_owned_cell_init_preamble_def bind_eq_Some_conv splice_front_def)
  with False slot_inits_create [of "local_cells l" es] show ?thesis by (auto simp: preamble_cells_def o_def)
qed

text \<open>A handler whose exception parameter lives in a cell starts by storing the exception in it, unless a
  jump from a block with another exception parameter leads to the handler; every other block stays as it
  was.\<close>

lemma exceptions_synced:
  "fn_blocks (sync_and_rewrite_blocks f) =
     map (\<lambda>b. case exception_param (params b) of
           None \<Rightarrow> b
         | Some n \<Rightarrow>
             if binding_kind_of n (fn_scope f) \<in> {Some (BindCell Owner), Some (BindCell Capture)} \<and>
                list_all (\<lambda>p. exception_param (params p) \<in> {None, Some n})
                  (filter (\<lambda>p. label b \<in> set (successors (bterm p))) (fn_blocks f))
             then b\<lparr>body := CoreOp synthetic (Store (SourceName n) (name_load n synthetic)) # body b\<rparr>
             else b) (fn_blocks f)"
proof -
  have "list_ex (\<lambda>p. p \<noteq> None \<and> p \<noteq> Some n) (normal_predecessor_exc_param_names bs l) \<longleftrightarrow>
      \<not> list_all (\<lambda>p. exception_param (params p) \<in> {None, Some n}) (filter (\<lambda>p. l \<in> set (successors (bterm p))) bs)"
    for n l and bs :: "(core, core) block list"
    by (auto simp: normal_predecessor_exc_param_names_def list_ex_iff list_all_iff)
  then show ?thesis
    by (auto simp: sync_and_rewrite_blocks_def raw_cell_block_unchanged sync_exception_param_cell_in_block_def
        split: option.splits binding_kind.splits)
      (metis cell_binding_kind.exhaust)+
qed

section \<open>Properties\<close>


end
