(* ===== verification/Jump_Args.thy ===== *)
theory Jump_Args
  imports Validate
begin

text \<open>
  \<open>refresh_bb_callable_block_params\<close> and \<open>populate_jump_edge_args\<close> (\<open>passes/name_binding.rs\<close>): the
  parameters of every block are put in the order of their roles, and every jump and exception edge gets
  one argument per parameter of its target.
\<close>

section \<open>Arguments of jumps\<close>

text \<open>The argument for the parameter at a position: the explicit one, if the position is among the last
  that have one; else the parameter of the source with the same name, or the first with the same role.\<close>

definition jump_arg :: "block_param list \<Rightarrow> block_arg list \<Rightarrow> nat \<Rightarrow> nat \<times> block_param \<Rightarrow> block_arg" where
  "jump_arg source explicit start x =
     (case x of (i, p) \<Rightarrow>
        if start \<le> i then explicit ! (i - start)
        else if list_ex (\<lambda>q. param_name q = param_name p) source then ArgName (param_name p)
        else (case find (\<lambda>q. role q = role p) source of
                Some q \<Rightarrow> ArgName (param_name q)
              | None \<Rightarrow> ArgNone))"

definition populate_jump_block :: "('e, 'e) block list \<Rightarrow> ('e, 'e) block \<Rightarrow> ('e, 'e) block" where
  "populate_jump_block bs b =
     (case bterm b of
        Jump e \<Rightarrow>
          (case index_by_label bs (target e) of
             None \<Rightarrow> b
           | Some t \<Rightarrow>
               if params t = [] then b
               else b\<lparr>bterm := Jump (e\<lparr>edge_args :=
                        map (jump_arg (params b) (edge_args e) (length (params t) - length (edge_args e)))
                          (enumerate 0 (params t))\<rparr>)\<rparr>)
      | _ \<Rightarrow> b)"

text \<open>The loop changes the arguments of jumps only and reads the parameters of blocks, so it maps over the
  blocks.\<close>

definition populate_jump_edge_args :: "('e, 'e) block list \<Rightarrow> ('e, 'e) block list" where
  "populate_jump_edge_args bs = map (populate_jump_block bs) bs"

definition refresh_bb_callable_block_params :: "'e bp_function \<Rightarrow> 'e bp_function" where
  "refresh_bb_callable_block_params f =
     f\<lparr>fn_blocks := populate_jump_edge_args (populate_exception_edge_args
         (map (\<lambda>b. b\<lparr>params := bb_params (params b)\<rparr>) (fn_blocks f)))\<rparr>"

section \<open>Every edge fits its target\<close>

lemma populate_jump_frame [simp]:
  "label (populate_jump_block bs b) = label b" "params (populate_jump_block bs b) = params b"
  "exc_edge (populate_jump_block bs b) = exc_edge b" "body (populate_jump_block bs b) = body b"
  by (auto simp: populate_jump_block_def split: block_term.split option.split)

text \<open>The explicit arguments of a jump fit the last parameters of its target.\<close>

definition explicit_fits :: "('e, 'e) block list \<Rightarrow> block_edge \<Rightarrow> bool" where
  "explicit_fits bs e \<longleftrightarrow>
     (case index_by_label bs (target e) of
        None \<Rightarrow> False
      | Some t \<Rightarrow>
          length (edge_args e) \<le> length (params t) \<and>
          list_all2 arg_fits (drop (length (params t) - length (edge_args e)) (params t)) (edge_args e))"

lemma index_by_label_dense: "dense bs \<Longrightarrow> index_by_label bs l = Some t \<Longrightarrow> t \<in> set bs \<and> label t = l"
  by (metis dense_distinct find_block_Some find_block_distinct index_by_label_find)

lemma jump_arg_fits:
  assumes "i < length ps" "length as \<le> length ps" "list_all2 arg_fits (drop (length ps - length as) ps) as"
  shows "arg_fits (ps ! i) (jump_arg source as (length ps - length as) (i, ps ! i))"
proof (cases "length ps - length as \<le> i")
  case True
  let ?j = "i - (length ps - length as)"
  have "arg_fits (drop (length ps - length as) ps ! ?j) (as ! ?j)"
    using list_all2_nthD2 [OF assms(3), of ?j] assms(1,2) True by simp
  with True assms(1) show ?thesis by (simp add: jump_arg_def)
next
  case False
  then show ?thesis by (auto simp: jump_arg_def arg_fits_def split: option.splits)
qed

lemma populated_jump_ok:
  assumes "dense bs" "bterm b = Jump e" "explicit_fits bs e" "bterm (populate_jump_block bs b) = Jump e'"
  shows "edge_ok (populate_jump_edge_args bs) c e' \<and>
    (\<exists>t\<in>set bs. label t = target e' \<and> length (edge_args e') = length (params t))"
proof -
  from assms(3) obtain t where t: "index_by_label bs (target e) = Some t"
    and args: "length (edge_args e) \<le> length (params t)"
      "list_all2 arg_fits (drop (length (params t) - length (edge_args e)) (params t)) (edge_args e)"
    by (auto simp: explicit_fits_def split: option.splits)
  have mem: "t \<in> set bs" "label t = target e" using index_by_label_dense [OF assms(1) t] by auto
  have e': "target e' = target e"
    "edge_args e' = (if params t = [] then edge_args e
       else map (jump_arg (params b) (edge_args e) (length (params t) - length (edge_args e))) (enumerate 0 (params t)))"
    using assms(2,4) t by (auto simp: populate_jump_block_def split: if_splits)
  have fit: "list_all2 arg_fits (params t) (edge_args e')"
    using jump_arg_fits [OF _ args] args by (auto simp: e' list_all2_conv_all_nth nth_enumerate_eq)
  have "populate_jump_block bs t \<in> set (populate_jump_edge_args bs)"
    using mem(1) by (simp add: populate_jump_edge_args_def)
  then have "edge_ok (populate_jump_edge_args bs) c e'"
    unfolding edge_ok_def using mem(2) e'(1) fit
    by (intro bexI [of _ "populate_jump_block bs t"]) (auto intro: exI [of _ "[]"])
  moreover have "length (edge_args e') = length (params t)" using fit by (simp add: list_all2_lengthD)
  ultimately show ?thesis using mem e'(1) by auto
qed

section \<open>Properties\<close>


definition jumping_function :: "nat bp_function" where
  "jumping_function = guarded_function\<lparr>fn_blocks :=
     [\<lparr>label = BlockLabel 0, body = [3], bterm = Jump (edge_new (BlockLabel 1)), params = [],
       exc_edge = Some (edge_new (BlockLabel 1))\<rparr>,
      \<lparr>label = BlockLabel 1, body = [2], bterm = Return 1,
       params = [\<lparr>param_name = ''e'', role = RoleException\<rparr>], exc_edge = None\<rparr>]\<rparr>"


end
