(* ===== verification/Capture_Layouts.thy ===== *)
theory Capture_Layouts
  imports Closure_Layout
begin

text \<open>
  The storage layouts and captures of a whole module (\<open>passes/name_binding.rs\<close>): a function has to
  capture what the functions it makes capture, unless it owns it, so both are computed by a memoized
  depth-first search over the functions that each function makes. The two searches of the code have the
  same shape, \<open>memo_search\<close>; \<open>None\<close> is a panic or a resolution of names that does not end.

  The set \<open>visiting\<close> of the code is a stack: a call that inserts its function removes it before it
  returns, so it is an argument here. The tables from function ids are those of the functions of the
  module, where a later function overrides an earlier one with the same id.
\<close>

section \<open>The functions a function makes\<close>

function make_function_callee_ids_in_expr :: "core \<Rightarrow> function_id list" where
  "make_function_callee_ids_in_expr e =
     (case e of
        CoreOp m (MakeFunction i k d a) \<Rightarrow> [i]
      | _ \<Rightarrow> concat (map make_function_callee_ids_in_expr (core_children e)))"
  by pat_completeness auto
termination by (relation "measure size") (simp_all only: wf_measure in_measure core_child_size)

declare make_function_callee_ids_in_expr.simps [simp del]

definition collect_make_function_callee_ids :: "core bp_function \<Rightarrow> function_id list" where
  "collect_make_function_callee_ids f =
     sorted_list_of_set (set (concat (map make_function_callee_ids_in_expr (fn_instrs f))))"

definition callable_by_id :: "'e bp_function list \<Rightarrow> function_id \<rightharpoonup> 'e bp_function" where
  "callable_by_id fs = map_of (rev (map (\<lambda>f. (fn_id f, f)) fs))"

section \<open>The memoized search\<close>

text \<open>What the search finds at a node: a result, or the nodes it depends on with the result on a cycle,
  whether the memo keeps that, and the function that combines the results.\<close>

datatype ('k, 'r) search_node =
  Known 'r
| Open (on_cycle: 'r) (keep_on_cycle: bool) (needs: "'k list") (combine: "'r list \<Rightarrow> 'r option")

function memo_search ::
  "'k list \<Rightarrow> ('k \<Rightarrow> ('k, 'r) search_node option) \<Rightarrow> 'k set \<Rightarrow> 'k \<Rightarrow> ('k \<rightharpoonup> 'r) \<Rightarrow> ('r \<times> ('k \<rightharpoonup> 'r)) option" where
  "memo_search ids node visiting k memo =
     (case memo k of
        Some r \<Rightarrow> Some (r, memo)
      | None \<Rightarrow>
          if k \<notin> set ids then None
          else case node k of
            None \<Rightarrow> None
          | Some (Known r) \<Rightarrow> Some (r, memo(k \<mapsto> r))
          | Some (Open r keep cs f) \<Rightarrow>
              if k \<in> visiting then Some (r, if keep then memo(k \<mapsto> r) else memo)
              else do { (rs, memo') \<leftarrow> st_map (memo_search ids node (insert k visiting)) cs memo;
                        r' \<leftarrow> f rs;
                        Some (r', memo'(k \<mapsto> r')) })"
  by pat_completeness auto
termination
proof (relation "measure (\<lambda>(ids, node, visiting, k, memo). card (set ids - visiting))")
  fix ids node and visiting :: "'k set" and k memo
  show "wf (measure (\<lambda>(ids, node, visiting, k, memo). card (set ids - visiting)))" by simp
  fix r keep cs f c u
  assume "\<not> k \<notin> set ids" "k \<notin> visiting"
  then have "card (set ids - insert k visiting) < card (set ids - visiting)"
    by (intro psubset_card_mono) auto
  then show "((ids, node, insert k visiting, c, u), ids, node, visiting, k, memo)
      \<in> measure (\<lambda>(ids, node, visiting, k, memo). card (set ids - visiting))" by simp
qed

declare memo_search.simps [simp del]

section \<open>Storage layouts\<close>

text \<open>The captures of the functions that are made, less those that the base layout owns.\<close>

definition inherited_captures :: "callable_scope_info \<Rightarrow> storage_layout option \<Rightarrow> storage_layout option \<Rightarrow> string list" where
  "inherited_captures s base callee =
     (case callee of
        None \<Rightarrow> []
      | Some l \<Rightarrow>
          (let cells = (case base of None \<Rightarrow> [] | Some b \<Rightarrow> cellvars b) in
           filter (\<lambda>n. \<not> (n \<in> set (map logical_name cells) \<or> cell_capture_source_name n s \<in> set (map storage_name cells)))
             (map logical_name (freevars l))))"

definition layout_from_callees :: "core bp_function \<Rightarrow> storage_layout option list \<Rightarrow> storage_layout option" where
  "layout_from_callees f callees =
     (let base = compute_storage_layout_from_scope (core_node unresolved_id) f in
      build_storage_layout_from_capture_names f
        ((case base of None \<Rightarrow> [] | Some l \<Rightarrow> map logical_name (freevars l)) @
         concat (map (inherited_captures (fn_scope f) base) callees))
        (sorted_list_of_set (owned_cell_storage_names (fn_scope f))))"

definition layout_node :: "core bp_function list \<Rightarrow> function_id \<Rightarrow> (function_id, storage_layout option) search_node option" where
  "layout_node fs k =
     map_option (\<lambda>f. case fn_layout f of
         Some l \<Rightarrow> Known (Some l)
       | None \<Rightarrow> Open (compute_storage_layout_from_scope (core_node unresolved_id) f) False
                   (collect_make_function_callee_ids f) (\<lambda>ls. Some (layout_from_callees f ls)))
       (callable_by_id fs k)"

definition compute_callable_storage_layout_for_name_binding ::
  "core bp_function list \<Rightarrow> function_id set \<Rightarrow> function_id \<Rightarrow> (function_id \<rightharpoonup> storage_layout option) \<Rightarrow>
     (storage_layout option \<times> (function_id \<rightharpoonup> storage_layout option)) option" where
  "compute_callable_storage_layout_for_name_binding fs = memo_search (map fn_id fs) (layout_node fs)"

text \<open>\<open>ks\<close> is the order in which the code iterates the keys of a hash map.\<close>

definition ensure_module_storage_layouts ::
  "function_id list \<Rightarrow> core bp_function list \<Rightarrow> core bp_function list option" where
  "ensure_module_storage_layouts ks fs =
     do { (rs, memo) \<leftarrow> st_map (compute_callable_storage_layout_for_name_binding fs {}) ks Map.empty;
          Some (map (\<lambda>f. if fn_layout f = None then f\<lparr>fn_layout := unwrap_or None (memo (fn_id f))\<rparr> else f) fs) }"

section \<open>Captures of the functions a module makes\<close>

definition layout_capture_bindings :: "core bp_function \<Rightarrow> cell_capture_binding list" where
  "layout_capture_bindings f =
     (case fn_layout f of
        Some l \<Rightarrow> map (\<lambda>x. capture_binding (fn_scope f) (logical_name x)) (freevars l)
      | None \<Rightarrow> compute_make_function_capture_bindings_from_scope (core_node unresolved_id) f)"

text \<open>The loop that follows a name to the cell it stands for may not end.\<close>

partial_function (option) resolve_capture_name :: "callable_scope_info \<Rightarrow> string \<Rightarrow> string option" where
  "resolve_capture_name s n =
     (let next = normalize_capture_name s n in
      if next = n then Some n else resolve_capture_name s next)"

definition owned_logical_names :: "callable_scope_info \<Rightarrow> string list" where
  "owned_logical_names s = map fst (filter (\<lambda>(n, b). b = BindCell Owner) (bindings s))"

definition callee_captures :: "callable_scope_info \<Rightarrow> cell_capture_binding list \<Rightarrow> cell_capture_binding list option" where
  "callee_captures s cs =
     do { ns \<leftarrow> those (map (resolve_capture_name s \<circ> capture_logical) cs);
          Some (map (capture_binding s)
            (filter (\<lambda>n. \<not> (n \<in> set (owned_logical_names s) \<or> cell_capture_source_name n s \<in> owned_cell_storage_names s)) ns)) }"

definition captures_from_callees :: "core bp_function \<Rightarrow> cell_capture_binding list list \<Rightarrow> cell_capture_binding list option" where
  "captures_from_callees f callees =
     do { css \<leftarrow> those (map (callee_captures (fn_scope f)) callees);
          Some (dedup_by capture_logical (sort_key (\<lambda>b. (capture_logical b, capture_source b))
            (compute_make_function_capture_bindings_from_scope (core_node unresolved_id) f @ concat css))) }"

definition capture_node ::
  "core bp_function list \<Rightarrow> function_id \<Rightarrow> (function_id, cell_capture_binding list) search_node option" where
  "capture_node fs k =
     map_option (\<lambda>f. if fn_kind f \<noteq> KFunction then Known (layout_capture_bindings f)
         else Open (compute_make_function_capture_bindings_from_scope (core_node unresolved_id) f) True
                (collect_make_function_callee_ids f) (captures_from_callees f))
       (callable_by_id fs k)"

definition compute_callable_make_function_capture_bindings ::
  "core bp_function list \<Rightarrow> function_id set \<Rightarrow> function_id \<Rightarrow> (function_id \<rightharpoonup> cell_capture_binding list) \<Rightarrow>
     (cell_capture_binding list \<times> (function_id \<rightharpoonup> cell_capture_binding list)) option" where
  "compute_callable_make_function_capture_bindings fs = memo_search (map fn_id fs) (capture_node fs)"

definition module_function_captures ::
  "core bp_function list \<Rightarrow> core bp_function \<Rightarrow> (function_id \<rightharpoonup> cell_capture_binding list) \<Rightarrow>
     ((function_id \<times> cell_capture_binding list) \<times> (function_id \<rightharpoonup> cell_capture_binding list)) option" where
  "module_function_captures fs f memo =
     (if scope_kind (fn_scope f) = ScopeClass then
        do { (cs, memo') \<leftarrow> compute_callable_make_function_capture_bindings fs {} (fn_id f) memo;
             Some ((fn_id f, cs), memo') }
      else Some ((fn_id f, layout_capture_bindings f), memo))"

definition compute_module_make_function_capture_names ::
  "core bp_function list \<Rightarrow> (function_id \<rightharpoonup> cell_capture_binding list) option" where
  "compute_module_make_function_capture_names fs =
     do { (xs, memo) \<leftarrow> st_map (module_function_captures fs) fs Map.empty; Some (map_of (rev xs)) }"


section \<open>What the search computes\<close>

text \<open>The plain recursion, which has a value at a node exactly if nothing below it is on a cycle, unknown
  or without a combined result.\<close>

inductive search_value :: "('k \<Rightarrow> ('k, 'r) search_node option) \<Rightarrow> 'k \<Rightarrow> 'r \<Rightarrow> bool"
  for node :: "'k \<Rightarrow> ('k, 'r) search_node option" where
  known: "node k = Some (Known r) \<Longrightarrow> search_value node k r"
| opened: "node k = Some (Open r0 keep cs f) \<Longrightarrow> list_all2 (search_value node) cs rs \<Longrightarrow> f rs = Some r \<Longrightarrow>
    search_value node k r"

definition needs_rel :: "('k \<Rightarrow> ('k, 'r) search_node option) \<Rightarrow> ('k \<times> 'k) set" where
  "needs_rel node = {(c, k). \<exists>r keep cs f. node k = Some (Open r keep cs f) \<and> c \<in> set cs}"

lemma search_value_acc: "search_value node k r \<Longrightarrow> k \<in> Wellfounded.acc (needs_rel node)"
proof (induction rule: search_value.induct)
  case (known k r)
  show ?case by (rule accI) (use known in \<open>simp add: needs_rel_def\<close>)
next
  case (opened k r0 keep cs f rs r)
  show ?case
  proof (rule accI)
    fix c assume "(c, k) \<in> needs_rel node"
    with opened.hyps(1) have "c \<in> set cs" by (auto simp: needs_rel_def)
    with opened.IH show "c \<in> Wellfounded.acc (needs_rel node)" by (auto simp: list_all2_conv_all_nth in_set_conv_nth)
  qed
qed

lemma acc_irrefl: "k \<in> Wellfounded.acc r \<Longrightarrow> (k, k) \<notin> r\<^sup>+"
proof (induction rule: acc.induct)
  case (accI k)
  show ?case
  proof
    assume kk: "(k, k) \<in> r\<^sup>+"
    then obtain c where "(c, k) \<in> r" "(k, c) \<in> r\<^sup>*" by (meson tranclD2)
    moreover from this have "(c, c) \<in> r\<^sup>+" by (simp add: rtrancl_into_trancl2)
    ultimately show False using accI by blast
  qed
qed

lemma search_value_unique: "search_value node k r \<Longrightarrow> search_value node k r' \<Longrightarrow> r = r'"
proof (induction arbitrary: r' rule: search_value.induct)
  case (known k r)
  then show ?case by (auto elim: search_value.cases)
next
  case (opened k r0 keep cs f rs r)
  from opened.prems opened.hyps(1) obtain rs' where rs': "list_all2 (search_value node) cs rs'" "f rs' = Some r'"
    by (auto elim: search_value.cases)
  with opened.IH have "rs = rs'" by (auto simp: list_all2_conv_all_nth intro!: nth_equalityI)
  with rs'(2) opened.hyps(2) show ?case by simp
qed

definition memo_sound :: "('k \<Rightarrow> ('k, 'r) search_node option) \<Rightarrow> ('k \<rightharpoonup> 'r) \<Rightarrow> bool" where
  "memo_sound node memo \<longleftrightarrow> (\<forall>k r. memo k = Some r \<longrightarrow> search_value node k r)"

lemma memo_sound_update: "memo_sound node memo \<Longrightarrow> search_value node k r \<Longrightarrow> memo_sound node (memo(k \<mapsto> r))"
  by (simp add: memo_sound_def)

text \<open>A search that returns the value and leaves a sound memo that knows the node.\<close>

definition finds :: "('k \<Rightarrow> ('k, 'r) search_node option) \<Rightarrow> 'k \<Rightarrow> 'r \<Rightarrow> ('k \<rightharpoonup> 'r) \<Rightarrow> ('r \<times> ('k \<rightharpoonup> 'r)) option \<Rightarrow> bool" where
  "finds node k r memo out \<longleftrightarrow> (\<exists>memo'. out = Some (r, memo') \<and> memo_sound node memo' \<and> memo' k = Some r \<and> memo \<subseteq>\<^sub>m memo')"

lemma st_map_finds:
  assumes "list_all2 (\<lambda>c r. \<forall>memo. memo_sound node memo \<longrightarrow> finds node c r memo (f c memo)) cs rs" "memo_sound node memo"
  shows "\<exists>memo'. st_map f cs memo = Some (rs, memo') \<and> memo_sound node memo' \<and> memo \<subseteq>\<^sub>m memo' \<and>
    list_all2 (\<lambda>c r. memo' c = Some r) cs rs"
  using assms
proof (induction cs rs arbitrary: memo rule: list_all2_induct)
  case (Cons c cs r rs)
  then obtain m1 where m1: "f c memo = Some (r, m1)" "memo_sound node m1" "m1 c = Some r" "memo \<subseteq>\<^sub>m m1"
    by (auto simp: finds_def)
  from Cons.IH [OF m1(2)] obtain m2 where m2: "st_map f cs m1 = Some (rs, m2)" "memo_sound node m2" "m1 \<subseteq>\<^sub>m m2"
    "list_all2 (\<lambda>c r. m2 c = Some r) cs rs" by blast
  from m1(3) m2(3) have "m2 c = Some r" by (metis domI map_le_def)
  with m1 m2 show ?case by (auto intro: map_le_trans)
qed simp

lemma memo_search_finds:
  assumes ids: "\<And>k. node k \<noteq> None \<Longrightarrow> k \<in> set ids"
  shows "search_value node k r \<Longrightarrow> (\<And>v. v \<in> V \<Longrightarrow> (v, k) \<notin> (needs_rel node)\<^sup>*) \<Longrightarrow> memo_sound node memo \<Longrightarrow>
    finds node k r memo (memo_search ids node V k memo)"
proof (induction arbitrary: V memo rule: search_value.induct)
  case (known k r)
  show ?case
  proof (cases "memo k")
    case None
    with known ids [of k] search_value.known [of node k r] show ?thesis
      by (auto simp: memo_search.simps [of ids node V k memo] finds_def map_le_def dom_def intro: memo_sound_update)
  next
    case (Some r')
    with known.prems(2) search_value_unique search_value.known [of node k r] have "r' = r"
      using known.hyps Some by (metis memo_sound_def)
    with Some known.prems(2) show ?thesis by (simp add: memo_search.simps [of ids node V k memo] finds_def)
  qed
next
  case (opened k r0 keep cs f rs r)
  have val: "search_value node k r"
    using opened.hyps opened.IH by (auto intro!: search_value.opened elim: list_all2_mono)
  show ?case
  proof (cases "memo k")
    case None
    have fresh: "k \<notin> V" using opened.prems(1) by blast
    have kids: "list_all2 (\<lambda>c r. \<forall>m. memo_sound node m \<longrightarrow> finds node c r m (memo_search ids node (insert k V) c m)) cs rs"
      unfolding list_all2_conv_all_nth
    proof (intro conjI allI impI)
      show "length cs = length rs" using opened.IH by (rule list_all2_lengthD)
      fix i m assume i: "i < length cs" and m: "memo_sound node m"
      have step: "(cs ! i, k) \<in> needs_rel node" using opened.hyps(1) i by (auto simp: needs_rel_def)
      have "(v, cs ! i) \<notin> (needs_rel node)\<^sup>*" if "v \<in> insert k V" for v
      proof
        assume "(v, cs ! i) \<in> (needs_rel node)\<^sup>*"
        with step have path: "(v, k) \<in> (needs_rel node)\<^sup>+" by (simp add: rtrancl_into_trancl1)
        show False
        proof (cases "v = k")
          case True
          with path acc_irrefl [OF search_value_acc [OF val]] show False by simp
        next
          case False
          with that path opened.prems(1) show False by (auto dest: trancl_into_rtrancl)
        qed
      qed
      with opened.IH i m show "finds node (cs ! i) (rs ! i) m (memo_search ids node (insert k V) (cs ! i) m)"
        by (auto simp: list_all2_conv_all_nth)
    qed
    from st_map_finds [OF kids opened.prems(2)] obtain m' where
      "st_map (memo_search ids node (insert k V)) cs memo = Some (rs, m')" "memo_sound node m'" "memo \<subseteq>\<^sub>m m'"
      by blast
    with None opened.hyps ids [of k] fresh val show ?thesis
      by (auto simp: memo_search.simps [of ids node V k memo] finds_def map_le_def dom_def intro: memo_sound_update)
  next
    case (Some r')
    with opened.prems(2) search_value_unique val have "r' = r" by (metis memo_sound_def)
    with Some opened.prems(2) show ?thesis by (simp add: memo_search.simps [of ids node V k memo] finds_def)
  qed
qed

text \<open>Searching from all nodes, in any order.\<close>

lemma memo_search_all:
  assumes "\<And>k. node k \<noteq> None \<Longrightarrow> k \<in> set ids" "list_all2 (search_value node) ks rs"
  shows "\<exists>memo. st_map (memo_search ids node {}) ks Map.empty = Some (rs, memo) \<and> memo_sound node memo \<and>
    list_all2 (\<lambda>k r. memo k = Some r) ks rs"
proof -
  have "list_all2 (\<lambda>c r. \<forall>m. memo_sound node m \<longrightarrow> finds node c r m (memo_search ids node {} c m)) ks rs"
    using assms(2) by (rule list_all2_mono) (auto intro!: memo_search_finds assms(1))
  moreover have "memo_sound node Map.empty" by (simp add: memo_sound_def)
  ultimately show ?thesis using st_map_finds by blast
qed


section \<open>Modules without cycles\<close>

definition makes :: "core bp_function list \<Rightarrow> (function_id \<times> function_id) set" where
  "makes fs = {(i, fn_id f) | i f. f \<in> set fs \<and> i \<in> set (collect_make_function_callee_ids f)}"

text \<open>Functions with distinct ids that make functions of the module only, and none, however indirectly, makes
  itself.\<close>

definition nested_module :: "core bp_function list \<Rightarrow> bool" where
  "nested_module fs \<longleftrightarrow>
     distinct (map fn_id fs) \<and> acyclic (makes fs) \<and>
     list_all (\<lambda>f. set (collect_make_function_callee_ids f) \<subseteq> fn_id ` set fs) fs"

lemma callable_by_id_distinct:
  "distinct (map fn_id fs) \<Longrightarrow> callable_by_id fs k = Some f \<longleftrightarrow> f \<in> set fs \<and> fn_id f = k"
  by (auto simp: callable_by_id_def map_of_eq_Some_iff distinct_map inj_on_def o_def rev_map [symmetric])

lemma callable_by_id_None: "callable_by_id fs k = None \<longleftrightarrow> k \<notin> fn_id ` set fs"
  by (auto simp: callable_by_id_def map_of_eq_None_iff image_image)

lemma wf_makes: "acyclic (makes fs) \<Longrightarrow> wf (makes fs)"
proof (rule finite_acyclic_wf)
  have "makes fs = (\<Union>f\<in>set fs. (\<lambda>i. (i, fn_id f)) ` set (collect_make_function_callee_ids f))"
    by (auto simp: makes_def)
  then show "finite (makes fs)" by simp
qed

text \<open>Nodes that depend on the functions they make, and combine all results.\<close>

definition follows_makes :: "core bp_function list \<Rightarrow> (function_id \<Rightarrow> (function_id, 'r) search_node option) \<Rightarrow> bool" where
  "follows_makes fs node \<longleftrightarrow>
     (\<forall>k. (node k = None \<longleftrightarrow> callable_by_id fs k = None) \<and>
        (\<forall>f r keep cs h. callable_by_id fs k = Some f \<longrightarrow> node k = Some (Open r keep cs h) \<longrightarrow>
           cs = collect_make_function_callee_ids f \<and> (\<forall>rs. h rs \<noteq> None)))"

lemma nested_values:
  assumes "nested_module fs" "follows_makes fs node" "k \<in> fn_id ` set fs"
  shows "\<exists>r. search_value node k r"
  using assms(3)
proof (induction k rule: wf_induct_rule [OF wf_makes [of fs]])
  case 1
  show ?case using assms(1) by (simp add: nested_module_def)
next
  case (2 k)
  then obtain f where f: "f \<in> set fs" "fn_id f = k" "callable_by_id fs k = Some f"
    using assms(1) callable_by_id_distinct [of fs k] by (auto simp: nested_module_def)
  then obtain n where n: "node k = Some n" using assms(2) by (fastforce simp: follows_makes_def)
  show ?case
  proof (cases n)
    case (Known r)
    with n show ?thesis by (auto intro: search_value.known)
  next
    case (Open r keep cs h)
    with n f(3) assms(2) have cs: "cs = collect_make_function_callee_ids f" and h: "h rs \<noteq> None" for rs
      by (auto simp: follows_makes_def)
    have "\<exists>r. search_value node c r" if "c \<in> set cs" for c
    proof (rule 2(1))
      show "(c, k) \<in> makes fs" using that f cs by (auto simp: makes_def)
      show "c \<in> fn_id ` set fs" using that f(1) cs assms(1) by (auto simp: nested_module_def list_all_iff)
    qed
    then have "\<forall>c\<in>set cs. \<exists>r. search_value node c r" by blast
    then obtain g where "\<forall>c\<in>set cs. search_value node c (g c)" by metis
    then have "list_all2 (search_value node) cs (map g cs)" by (simp add: list_all2_conv_all_nth)
    moreover obtain r' where "h (map g cs) = Some r'" using h by blast
    ultimately show ?thesis using n Open by (auto intro: search_value.opened)
  qed
qed

lemma layout_node_follows: "follows_makes fs (layout_node fs)"
  by (auto simp: follows_makes_def layout_node_def split: option.splits)

section \<open>Layouts provide what is captured below\<close>

lemma built_layout:
  "build_storage_layout_from_capture_names f caps own = Some l \<Longrightarrow>
     logical_name ` set (freevars l) = set caps \<and>
     cellvars l = map (\<lambda>n. \<lparr>logical_name = storage_logical_name (fn_scope f) n, storage_name = n,
         slot_init = (if storage_logical_name (fn_scope f) n \<in> set (spec_names (fn_params f))
                      then InitParameter else DeletedSentinel)\<rparr>)
       (filter (\<lambda>n. \<not> is_runtime_closure_name (storage_logical_name (fn_scope f) n)) own)"
  by (auto simp: build_storage_layout_from_capture_names_def Let_def dedup_id_sort image_image split: if_splits)

lemma built_layout_None:
  "build_storage_layout_from_capture_names f caps own = None \<longleftrightarrow>
     caps = [] \<and> filter (\<lambda>n. \<not> is_runtime_closure_name (storage_logical_name (fn_scope f) n)) own = []"
  by (simp add: build_storage_layout_from_capture_names_def Let_def dedup_id_sort)

definition provides :: "core bp_function \<Rightarrow> string \<Rightarrow> bool" where
  "provides f n \<longleftrightarrow>
     (case fn_layout f of
        None \<Rightarrow> False
      | Some l \<Rightarrow> n \<in> logical_name ` set (freevars l) \<or> n \<in> logical_name ` set (cellvars l) \<or>
          cell_capture_source_name n (fn_scope f) \<in> storage_name ` set (cellvars l))"

lemma layout_from_callees_provides:
  assumes "Some lc \<in> set ls" "x \<in> set (freevars lc)"
  shows "provides (f\<lparr>fn_layout := layout_from_callees f ls\<rparr>) (logical_name x)"
proof -
  let ?own = "sorted_list_of_set (owned_cell_storage_names (fn_scope f))"
  let ?base = "compute_storage_layout_from_scope (core_node unresolved_id) f"
  let ?caps = "(case ?base of None \<Rightarrow> [] | Some l \<Rightarrow> map logical_name (freevars l)) @
         concat (map (inherited_captures (fn_scope f) ?base) ls)"
  have final: "layout_from_callees f ls = build_storage_layout_from_capture_names f ?caps ?own"
    by (simp add: layout_from_callees_def Let_def)
  let ?n = "logical_name x"
  show ?thesis
  proof (cases "?n \<in> set ?caps")
    case True
    then have "?caps \<noteq> []" by (metis empty_iff empty_set)
    then have "layout_from_callees f ls \<noteq> None" unfolding final built_layout_None by blast
    then obtain l where l: "layout_from_callees f ls = Some l" by blast
    with built_layout [OF l [unfolded final]] True show ?thesis by (simp add: provides_def)
  next
    case False
    then have "?n \<notin> set (inherited_captures (fn_scope f) ?base (Some lc))" using assms(1) by auto
    then obtain b where b: "?base = Some b"
      and own: "?n \<in> logical_name ` set (cellvars b) \<or> cell_capture_source_name ?n (fn_scope f) \<in> storage_name ` set (cellvars b)"
      using assms(2) by (cases ?base) (auto simp: inherited_captures_def Let_def)
    note cells = built_layout [OF b [unfolded compute_storage_layout_from_scope_def], THEN conjunct2]
    have "filter (\<lambda>n. \<not> is_runtime_closure_name (storage_logical_name (fn_scope f) n)) ?own \<noteq> []"
      using own unfolding cells by (metis empty_iff empty_set image_empty list.map_disc_iff)
    then have "layout_from_callees f ls \<noteq> None" unfolding final built_layout_None by blast
    then obtain l where l: "layout_from_callees f ls = Some l" by blast
    have "cellvars l = cellvars b" using built_layout [OF l [unfolded final]] cells by simp
    with l own show ?thesis by (simp add: provides_def)
  qed
qed

definition with_layout :: "core bp_function \<Rightarrow> storage_layout option \<Rightarrow> core bp_function" where
  "with_layout f r = (if fn_layout f = None then f\<lparr>fn_layout := r\<rparr> else f)"

lemma layouts_ensured:
  assumes "nested_module fs" "set ks = fn_id ` set fs"
    and val: "\<And>f. f \<in> set fs \<Longrightarrow> search_value (layout_node fs) (fn_id f) (v f)"
  shows "ensure_module_storage_layouts ks fs = Some (map (\<lambda>f. with_layout f (v f)) fs)"
proof -
  have "\<exists>r. search_value (layout_node fs) k r" if "k \<in> set ks" for k
    using that nested_values [OF assms(1) layout_node_follows] assms(2) by blast
  then have "\<forall>k\<in>set ks. \<exists>r. search_value (layout_node fs) k r" by blast
  then obtain g where g: "\<forall>k\<in>set ks. search_value (layout_node fs) k (g k)" by metis
  then have "list_all2 (search_value (layout_node fs)) ks (map g ks)" by (simp add: list_all2_conv_all_nth)
  moreover have "k \<in> set (map fn_id fs)" if "layout_node fs k \<noteq> None" for k
    using that callable_by_id_None [of fs k] by (auto simp: layout_node_def)
  ultimately obtain memo where memo:
    "st_map (compute_callable_storage_layout_for_name_binding fs {}) ks Map.empty = Some (map g ks, memo)"
    "list_all2 (\<lambda>k r. memo k = Some r) ks (map g ks)"
    unfolding compute_callable_storage_layout_for_name_binding_def using memo_search_all by blast
  have "memo (fn_id f) = Some (v f)" if "f \<in> set fs" for f
  proof -
    from that assms(2) have k: "fn_id f \<in> set ks" by auto
    with memo(2) have "memo (fn_id f) = Some (g (fn_id f))" by (auto simp: list_all2_conv_all_nth in_set_conv_nth)
    with g k val [OF that] search_value_unique show ?thesis by metis
  qed
  with memo(1) show ?thesis by (auto simp: ensure_module_storage_layouts_def with_layout_def)
qed


section \<open>Properties\<close>

text \<open>C40: In a module whose functions make functions of the module without cycles, the layouts are computed
  without panic and do not depend on the order in which the hash map of the functions is iterated;
  layouts that exist stay, and the layout that a function gets provides every captured cell of
  the functions it makes, as a capture or as a cell of its own.\<close>

theorem layouts_provide_captures:
  assumes "nested_module fs" "set ks = fn_id ` set fs"
  shows "case ensure_module_storage_layouts ks fs of
      None \<Rightarrow> False
    | Some gs \<Rightarrow>
        ensure_module_storage_layouts (sorted_list_of_set (fn_id ` set fs)) fs = Some gs \<and>
        list_all2 (\<lambda>f g.
          (case fn_layout f of Some l \<Rightarrow> g = f
           | None \<Rightarrow> g = f\<lparr>fn_layout := fn_layout g\<rparr> \<and>
               list_all (\<lambda>i. case map_option fn_layout (callable_by_id gs i) of
                   Some (Some l) \<Rightarrow> list_all (\<lambda>x. provides g (logical_name x)) (freevars l)
                 | Some None \<Rightarrow> True | None \<Rightarrow> False) (collect_make_function_callee_ids f))) fs gs"
proof -
  have "\<exists>r. search_value (layout_node fs) (fn_id f) r" if "f \<in> set fs" for f
    using that nested_values [OF assms(1) layout_node_follows] by blast
  then obtain v where v: "\<And>f. f \<in> set fs \<Longrightarrow> search_value (layout_node fs) (fn_id f) (v f)" by metis
  let ?gs = "map (\<lambda>f. with_layout f (v f)) fs"
  have out: "ensure_module_storage_layouts ks fs = Some ?gs" by (rule layouts_ensured [OF assms v])
  have out2: "ensure_module_storage_layouts (sorted_list_of_set (fn_id ` set fs)) fs = Some ?gs"
    by (rule layouts_ensured [OF assms(1) _ v]) simp_all
  have ids: "distinct (map fn_id fs)" using assms(1) by (simp add: nested_module_def)
  have id_of: "fn_id (with_layout f r) = fn_id f" for f r by (simp add: with_layout_def)
  have known: "fn_layout (with_layout g (v g)) = v g" if "g \<in> set fs" for g
  proof (cases "fn_layout g")
    case (Some l)
    then have "layout_node fs (fn_id g) = Some (Known (Some l))"
      using that ids callable_by_id_distinct [of fs "fn_id g" g] by (simp add: layout_node_def)
    with v [OF that] have "v g = Some l" by (auto elim: search_value.cases)
    with Some show ?thesis by (simp add: with_layout_def)
  qed (simp add: with_layout_def)
  have callee: "\<exists>g\<in>set fs. fn_id g = i \<and> map_option fn_layout (callable_by_id ?gs i) = Some (v g) \<and>
      (fn_layout f = None \<longrightarrow> (\<forall>l x. v g = Some l \<longrightarrow> x \<in> set (freevars l) \<longrightarrow> provides (with_layout f (v f)) (logical_name x)))"
    if f: "f \<in> set fs" and i: "i \<in> set (collect_make_function_callee_ids f)" for f i
  proof -
    from f i assms(1) obtain g where g: "g \<in> set fs" "fn_id g = i" by (auto simp: nested_module_def list_all_iff)
    have "callable_by_id ?gs i = Some (with_layout g (v g))"
      using g ids by (subst callable_by_id_distinct) (auto simp: o_def id_of)
    with known [OF g(1)] have look: "map_option fn_layout (callable_by_id ?gs i) = Some (v g)" by simp
    have "provides (with_layout f (v f)) (logical_name x)"
      if "fn_layout f = None" "v g = Some l" "x \<in> set (freevars l)" for l x
    proof -
      have "layout_node fs (fn_id f) = Some (Open (compute_storage_layout_from_scope (core_node unresolved_id) f) False
          (collect_make_function_callee_ids f) (\<lambda>ls. Some (layout_from_callees f ls)))"
        using f ids that(1) callable_by_id_distinct [of fs "fn_id f" f] by (simp add: layout_node_def)
      with v [OF f] obtain ls where ls: "list_all2 (search_value (layout_node fs)) (collect_make_function_callee_ids f) ls"
        "v f = layout_from_callees f ls" by (auto elim: search_value.cases)
      from ls(1) i obtain r where "r \<in> set ls" "search_value (layout_node fs) i r"
        by (metis in_set_conv_nth list_all2_conv_all_nth)
      with v [OF g(1)] g(2) that(2) search_value_unique have "Some l \<in> set ls" by metis
      from layout_from_callees_provides [OF this that(3), of f] show ?thesis
        using that(1) ls(2) by (simp add: with_layout_def)
    qed
    with g look show ?thesis by blast
  qed
  have "list_all2 (\<lambda>f g.
          (case fn_layout f of Some l \<Rightarrow> g = f
           | None \<Rightarrow> g = f\<lparr>fn_layout := fn_layout g\<rparr> \<and>
               list_all (\<lambda>i. case map_option fn_layout (callable_by_id ?gs i) of
                   Some (Some l) \<Rightarrow> list_all (\<lambda>x. provides g (logical_name x)) (freevars l)
                 | Some None \<Rightarrow> True | None \<Rightarrow> False) (collect_make_function_callee_ids f))) fs ?gs"
    unfolding list_all2_map2 list_all2_same
  proof
    fix f assume f: "f \<in> set fs"
    show "case fn_layout f of Some l \<Rightarrow> with_layout f (v f) = f
           | None \<Rightarrow> with_layout f (v f) = f\<lparr>fn_layout := fn_layout (with_layout f (v f))\<rparr> \<and>
               list_all (\<lambda>i. case map_option fn_layout (callable_by_id ?gs i) of
                   Some (Some l) \<Rightarrow> list_all (\<lambda>x. provides (with_layout f (v f)) (logical_name x)) (freevars l)
                 | Some None \<Rightarrow> True | None \<Rightarrow> False) (collect_make_function_callee_ids f)"
    proof (cases "fn_layout f")
      case None
      have "case map_option fn_layout (callable_by_id ?gs i) of
                   Some (Some l) \<Rightarrow> list_all (\<lambda>x. provides (with_layout f (v f)) (logical_name x)) (freevars l)
                 | Some None \<Rightarrow> True | None \<Rightarrow> False" if "i \<in> set (collect_make_function_callee_ids f)" for i
        using callee [OF f that] None by (auto simp: list_all_iff split: option.splits)
      with None show ?thesis by (simp add: list_all_iff with_layout_def)
    qed (simp add: with_layout_def)
  qed
  with out out2 show ?thesis by simp
qed


definition closure_module :: "core bp_function list" where
  "closure_module =
     [sample_function\<lparr>fn_id := function_id_new 0 1,
        fn_blocks := [\<lparr>label = BlockLabel 0,
          body = [CoreOp synthetic (MakeFunction (function_id_new 0 2) KFunction
                    (CoreLit synthetic (StringLiteral [])) (CoreLit synthetic (StringLiteral [])))],
          bterm = Return (CoreLit synthetic (StringLiteral [])), params = [], exc_edge = None\<rparr>]\<rparr>,
      sample_function\<lparr>fn_id := function_id_new 0 2\<rparr>]"

lemma closure_module_nested: "nested_module closure_module"
proof -
  have ids: "function_id_new 0 1 \<noteq> function_id_new 0 2"
    by (simp add: function_id_new_def)
  have callees: "map collect_make_function_callee_ids closure_module = [[function_id_new 0 2], []]"
    by (simp add: closure_module_def collect_make_function_callee_ids_def fn_instrs_def block_instrs_def sample_function_def
        make_function_callee_ids_in_expr.simps [of "CoreLit m l" for m l]
        make_function_callee_ids_in_expr.simps [of "CoreOp m (MakeFunction i k d a)" for m i k d a])
  then have made: "makes closure_module \<subseteq> {(function_id_new 0 2, function_id_new 0 1)}"
    by (auto simp: makes_def closure_module_def)
  have "acyclic {(function_id_new 0 2, function_id_new 0 1)}"
    using ids by (simp add: acyclic_insert) (simp add: acyclic_def)
  then have "acyclic (makes closure_module)" using made by (rule acyclic_subset)
  with ids callees show ?thesis by (auto simp: nested_module_def closure_module_def)
qed

theorem layouts_provide_captures_witness:
  "ensure_module_storage_layouts [function_id_new 0 1, function_id_new 0 2] closure_module \<noteq> None"
  using layouts_provide_captures [OF closure_module_nested, of "[function_id_new 0 1, function_id_new 0 2]"]
  by (auto simp: closure_module_def split: option.splits)

end
