(* ===== verification/Name_Binding.thy ===== *)
theory Name_Binding
  imports Cell_Preamble Jump_Args Capture_Layouts Constants
begin

text \<open>
  Name binding of a module (\<open>lower_name_binding_in_core_blockpy_module\<close> of \<open>passes/name_binding.rs\<close>):
  the composition of the passes of the theories before, per function and per module. \<open>None\<close> is a panic
  of one of them, or a resolution of capture names that does not end.
\<close>

section \<open>Functions and modules\<close>

definition lower_name_binding_callable ::
  "callee_captures \<Rightarrow> core bp_function \<Rightarrow> module_global_slots \<Rightarrow> (located_core bp_function \<times> module_global_slots) option" where
  "lower_name_binding_callable caps f g =
     (let ls = collect_local_slot_locations f in
      do { f1 \<leftarrow> prepend_owned_cell_init_preamble (map_fn (bind_expr caps (fn_scope f)) f);
           f2 \<leftarrow> check_deleted_loads ls (populate_stack_slots_in_storage_layout ls f1);
           let f3 = f2\<lparr>fn_blocks := rewrite_current_exception_in_core_blocks rewrite_current_exception_core
                        core_current_exception_name (fn_blocks f2)\<rparr>;
           (f4, g') \<leftarrow> locate_names_in_callable (sync_and_rewrite_blocks f3) g;
           Some (ensure_storage_layout_covers_block_params (refresh_bb_callable_block_params f4), g') })"

definition lower_name_binding_in_core_blockpy_module ::
  "function_id list \<Rightarrow> core bp_module \<Rightarrow> located_core bp_module option" where
  "lower_name_binding_in_core_blockpy_module ks m =
     do { fs \<leftarrow> ensure_module_storage_layouts ks (callable_defs m);
          caps \<leftarrow> compute_module_make_function_capture_names fs;
          (gs, g) \<leftarrow> st_map (lower_name_binding_callable caps) fs no_global_slots;
          m' \<leftarrow> extract_module \<lparr>mod_name_gen = mod_name_gen m, global_names = [], callable_defs = gs,
                                module_constants = [], counter_defs = []\<rparr>;
          Some (m'\<lparr>global_names := slot_names g\<rparr>) }"

section \<open>No cell is located before names are\<close>

abbreviation unlocated :: "core \<Rightarrow> bool" where
  "unlocated \<equiv> all_nodes unlocated_node"

lemma built_unlocated [simp]:
  "unlocated (core_string_expr m n)" "unlocated (core_int_expr m v)" "unlocated (cell_ref_expr n m)"
  "unlocated (class_namespace_expr m)" "unlocated (deleted_sentinel_expr m)" "unlocated (name_load n m)"
  "unlocated (core_name_expr n m)" "unlocated (globals_expr m)"
  "unlocated (core_runtime_call f m as) \<longleftrightarrow> list_all unlocated as"
  by (auto simp: core_string_expr_def core_int_expr_def cell_ref_expr_def class_namespace_expr_def core_name_expr_def
      deleted_sentinel_expr_def name_load_def globals_expr_def core_runtime_call_def o_def list_all_iff)

lemma unlocated_node_op [simp]: "unlocated_node (CoreOp m op) \<longleftrightarrow> (\<forall>c. op \<noteq> CellRef c)"
  by (cases op) simp_all

lemma with_children_CellRef [simp]: "op_with_children op ys = CellRef c \<longleftrightarrow> op = CellRef c"
  by (cases op) simp_all

lemma unlocated_op: "unlocated (CoreOp m op) \<longleftrightarrow> (\<forall>c. op \<noteq> CellRef c) \<and> list_all unlocated (op_children op)"
  by simp

lemma unlocated_rebuilt:
  "length ys = length (op_children op) \<Longrightarrow>
   unlocated (CoreOp m (op_with_children op ys)) \<longleftrightarrow> (\<forall>c. op \<noteq> CellRef c) \<and> list_all unlocated ys"
  by (simp add: op_children_with)

lemma unlocated_binding:
  "unlocated (rewrite_name_load s n m)" "unlocated (bind_load s m x)" "unlocated (rewrite_binding_delete n m s)"
  "unlocated (rewrite_quiet_delete_marker n m s)" "unlocated (captures_expr caps m i)"
  "unlocated v \<Longrightarrow> unlocated (rewrite_binding_assign_by_name n v s m)"
  by (auto simp: rewrite_name_load_def bind_load_def rewrite_binding_delete_def rewrite_quiet_delete_marker_def
      rewrite_class_name_load_cell_def rewrite_class_name_load_global_def class_namespace_delete_def
      rewrite_binding_assign_by_name_def captures_expr_def Let_def list_all_iff
      split: option.split effective_binding.split class_body_fallback.split binding_kind.split unresolved_name.split
      binding_target.split)

lemma bind_operation_unlocated:
  assumes "(\<forall>c. op \<noteq> CellRef c)" "list_all unlocated (op_children op)" "list_all unlocated ys"
    and len: "length ys = length (op_children op)"
  shows "unlocated (bind_operation caps s m op ys)"
proof -
  have rebuilt: "unlocated (CoreOp m (op_with_children op zs))"
    if "length zs = length (op_children op)" "list_all unlocated zs" for zs
    using that assms(1) by (simp only: unlocated_rebuilt) simp
  have other: ?thesis
    if "bind_operation caps s m op ys = (if is_globals_call s op then globals_expr m
          else if is_class_cell_lookup op then CoreOp m (op_with_children op (ys[3 := op_children op ! 3]))
          else CoreOp m (op_with_children op ys))"
  proof (cases "is_class_cell_lookup op")
    case True
    then have "3 < length (op_children op)"
      by (auto simp: is_class_cell_lookup_def split: operation.splits)
    with assms(2,3) have "list_all unlocated (ys[3 := op_children op ! 3])"
      by (auto simp: list_all_length nth_list_update len)
    then have "unlocated (CoreOp m (op_with_children op (ys[3 := op_children op ! 3])))"
      by (intro rebuilt) (simp_all add: len)
    with True show ?thesis unfolding that by simp
  next
    case False
    with rebuilt [OF len assms(3)] show ?thesis unfolding that by simp
  qed
  show ?thesis
  proof (cases op)
    case (Store n v)
    with assms(3) len rebuilt [OF len assms(3)] show ?thesis
      by (auto simp: bind_operation_def list_all_length intro!: unlocated_binding)
  next
    case (Del n q)
    then show ?thesis by (simp add: bind_operation_def unlocated_binding)
  next
    case (Load n)
    then show ?thesis by (simp add: bind_operation_def unlocated_binding)
  next
    case (MakeFunction i k d a)
    with len obtain y z where "ys = [y, z]" by (auto simp: length_Suc_conv)
    with assms(3) MakeFunction show ?thesis
      by (simp add: bind_operation_def make_function_expr_def unlocated_binding)
  qed (rule other, simp add: bind_operation_def)+
qed

lemma bind_expr_unlocated: "unlocated e \<Longrightarrow> unlocated (bind_expr caps s e)"
proof (induction e rule: cor.node_induct)
  case (node e)
  note rec = bind_expr.simps [of caps s e]
  show ?case
  proof (cases "quiet_delete_marker_target e")
    case (Some n)
    with rec show ?thesis by (simp add: unlocated_binding)
  next
    case None
    show ?thesis
    proof (cases e)
      case (CoreOp m op)
      from node CoreOp have "list_all unlocated (map (bind_expr caps s) (op_children op))"
        by (auto simp: unlocated_op list_all_iff)
      moreover have "(\<forall>c. op \<noteq> CellRef c)" "list_all unlocated (op_children op)"
        using node.prems CoreOp by (auto simp: unlocated_op)
      moreover have "bind_expr caps s e = bind_operation caps s m op (map (bind_expr caps s) (op_children op))"
        by (simp only: rec None option.case, simp only: CoreOp core_expr.case core_children.simps)
      ultimately show ?thesis by (simp add: bind_operation_unlocated)
    qed (use rec None node.prems in simp_all)
  qed
qed

lemma rewrite_deleted_load_unlocated: "unlocated (rewrite_deleted_load c m n)"
  by (auto simp: rewrite_deleted_load_def wrap_local_load_def wrap_deleted_name_load_expr_def Let_def
      split: option.split unresolved_name.split)

lemma rewrite_deleted_unlocated: "unlocated e \<Longrightarrow> unlocated (rewrite_deleted_name_loads_in_expr c e)"
proof (induction e rule: cor.node_induct)
  case (node e)
  note rec = rewrite_deleted_name_loads_in_expr.simps [of c e]
  show ?case
  proof (cases e)
    case (CoreOp m op)
    show ?thesis
    proof (cases "nameless op")
      case True
      have "list_all unlocated (map (rewrite_deleted_name_loads_in_expr c) (op_children op))"
        using node CoreOp by (auto simp: unlocated_op list_all_iff)
      with True node.prems show ?thesis
        by (simp add: CoreOp rewrite_deleted_nameless op_children_with)
    next
      case False
      with rec node.prems show ?thesis
        by (cases op) (simp_all add: CoreOp nameless_def rewrite_deleted_load_unlocated with_store_value)
    qed
  qed (use rec node.prems in simp_all)
qed

lemma current_exception_unlocated: "unlocated e \<Longrightarrow> unlocated (rewrite_current_exception_core n e)"
proof (induction e rule: cor.node_induct)
  case (node e)
  have "unlocated (core_with_children e (map (rewrite_current_exception_core n) (core_children e)))"
  proof (cases e)
    case (CoreOp m op)
    with node show ?thesis by (auto simp: op_children_with list_all_iff)
  qed (use node.prems in simp_all)
  moreover have "unlocated (core_current_exception_name n)" by (simp add: core_current_exception_name_def)
  ultimately show ?case by (simp add: rewrite_current_exception_core.simps [of n e] Let_def)
qed


section \<open>The stages of a function\<close>

definition unlocated_fn :: "core bp_function \<Rightarrow> bool" where
  "unlocated_fn f \<longleftrightarrow> list_all unlocated (fn_instrs f)"

lemma unlocated_fn_map: "(\<And>e. unlocated e \<Longrightarrow> unlocated (h e)) \<Longrightarrow> unlocated_fn f \<Longrightarrow> unlocated_fn (map_fn h f)"
  by (simp add: unlocated_fn_def map_simps list_all_iff)

lemma unlocated_fn_blocks: "unlocated_fn f \<longleftrightarrow> list_all (\<lambda>b. list_all unlocated (block_instrs b)) (fn_blocks f)"
  by (auto simp: unlocated_fn_def fn_instrs_def list_all_iff)

lemma cell_store_unlocated: "unlocated v \<Longrightarrow> unlocated (cell_store st v)"
  by (simp add: cell_store_def)

lemma slot_init_unlocated: "build_closure_slot_cell_init_assign x = Some e \<Longrightarrow> unlocated e"
  by (cases "slot_init x")
     (auto simp: build_closure_slot_cell_init_assign_def closure_slot_init_expr_def intro!: cell_store_unlocated)

lemma function_inits_unlocated: "list_all unlocated (function_cell_inits f)"
  by (auto simp: function_cell_inits_def build_local_cell_init_assign_def Let_def list_all_iff intro!: cell_store_unlocated)

lemma splice_unlocated:
  "list_all unlocated es \<Longrightarrow> unlocated_fn f \<Longrightarrow> splice_front es f = Some f' \<Longrightarrow> unlocated_fn f'"
  by (auto simp: unlocated_fn_blocks splice_front_def block_instrs_def split: list.splits)

lemma preamble_unlocated:
  assumes "unlocated_fn f" "prepend_owned_cell_init_preamble f = Some f'"
  shows "unlocated_fn f'"
proof (cases "fn_kind f = KFunction")
  case True
  with assms show ?thesis
    by (auto simp: prepend_owned_cell_init_preamble_def intro: splice_unlocated [OF function_inits_unlocated] split: if_splits)
next
  case False
  with assms(2) obtain l es where es: "those (map build_closure_slot_cell_init_assign (local_cells l)) = Some es"
    and f': "splice_front es f = Some f'"
    by (auto simp: prepend_owned_cell_init_preamble_def bind_eq_Some_conv)
  from es have "list_all unlocated es"
    by (auto simp: those_map_Some list_all2_conv_all_nth list_all_length intro: slot_init_unlocated)
  then show ?thesis using assms(1) f' by (rule splice_unlocated)
qed

lemma splice_frame:
  "splice_front es f = Some f' \<Longrightarrow> fn_layout f' = fn_layout f \<and> fn_scope f' = fn_scope f \<and> fn_params f' = fn_params f"
  by (auto simp: splice_front_def split: list.splits)

lemma preamble_frame:
  "prepend_owned_cell_init_preamble f = Some f' \<Longrightarrow>
     fn_layout f' = fn_layout f \<and> fn_scope f' = fn_scope f \<and> fn_params f' = fn_params f"
  by (auto simp: prepend_owned_cell_init_preamble_def bind_eq_Some_conv dest: splice_frame split: if_splits)

lemma current_exception_fn_unlocated:
  assumes "unlocated_fn f"
  shows "unlocated_fn (f\<lparr>fn_blocks := rewrite_current_exception_in_core_blocks rewrite_current_exception_core
    core_current_exception_name (fn_blocks f)\<rparr>)"
proof -
  have trm: "list_all unlocated (term_exprs (rewrite_current_exception_in_term (rewrite_current_exception_core n)
      (core_current_exception_name n) t))" if "list_all unlocated (term_exprs t)" for n t
    using that by (cases "(rewrite_current_exception_core n, core_current_exception_name n, t)"
        rule: rewrite_current_exception_in_term.cases)
      (simp_all add: current_exception_unlocated core_current_exception_name_def)
  have "list_all unlocated (block_instrs (rewrite_current_exception_in_block rewrite_current_exception_core core_current_exception_name b))"
    if "list_all unlocated (block_instrs b)" for b
    using that trm [of "bterm b"]
    by (cases "exception_param (params b)")
      (auto simp: rewrite_current_exception_in_block_def block_instrs_def list.pred_map o_def
        elim!: list.pred_mono_strong intro: current_exception_unlocated)
  with assms show ?thesis
    by (auto simp: unlocated_fn_blocks rewrite_current_exception_in_core_blocks_def list.pred_map o_def elim: list.pred_mono_strong)
qed

lemma sync_unlocated: "unlocated_fn f \<Longrightarrow> unlocated_fn (sync_and_rewrite_blocks f)"
  by (auto simp: unlocated_fn_blocks exceptions_synced block_instrs_def list_all_iff split: option.splits)

lemma owned_bindings_frame:
  "fn_layout f' = Some (set_stack_slots ns l) \<Longrightarrow> fn_layout f = Some l \<Longrightarrow> fn_scope f' = fn_scope f \<Longrightarrow>
   collect_owned_cell_storage_bindings f' = collect_owned_cell_storage_bindings f"
  by (simp add: collect_owned_cell_storage_bindings_def set_stack_slots_def local_cells_def)


lemma located_node_cong:
  assumes "collect_owned_cell_storage_bindings f' = collect_owned_cell_storage_bindings f" "fn_scope f' = fn_scope f"
    "freevars l' = freevars l" "extends (stack_slots l) (stack_slots l')"
  shows "located_node f' l gs e \<Longrightarrow> located_node f l' gs e"
  using assms
  by (induction f' l gs e rule: located_node.induct)
     (auto simp: sits_at_def cell_in_layout_def slot_holds_extends split: name_location.splits cell_location.splits)

lemma ensured_freevars: "freevars (fold ensure_stack_slot ns l) = freevars l"
  by (induction ns arbitrary: l) (simp_all add: ensure_stack_slot_def)

lemma ensured_slot: "extends (stack_slots l) (stack_slots (ensure_stack_slot n l))"
  by (simp add: ensure_stack_slot_def extends_def)

lemma ensured_slots: "extends (stack_slots l) (stack_slots (fold ensure_stack_slot ns l))"
proof (induction ns arbitrary: l)
  case (Cons n ns)
  then show ?case using extends_trans [OF ensured_slot [of l n]] by simp
qed (simp add: extends_refl)

lemma term_exprs_jump_block [simp]: "term_exprs (bterm (populate_jump_block bs b)) = term_exprs (bterm b)"
  by (auto simp: populate_jump_block_def split: block_term.split option.split)

lemma block_instrs_jump [simp]: "block_instrs (populate_jump_block bs b) = block_instrs b"
  by (simp add: block_instrs_def)

lemma block_instrs_exc [simp]: "block_instrs (populate_block bs b) = block_instrs b"
  by (simp add: block_instrs_def)

lemma block_instrs_params [simp]: "block_instrs (b\<lparr>params := ps\<rparr>) = block_instrs b"
  by (simp add: block_instrs_def)

lemma refreshed_instrs: "fn_instrs (refresh_bb_callable_block_params f) = fn_instrs f"
  by (simp add: fn_instrs_def refresh_bb_callable_block_params_def populate_jump_edge_args_def
      populate_exception_edge_args_def o_def)

lemma covered_instrs: "fn_instrs (ensure_storage_layout_covers_block_params f) = fn_instrs f"
  by (simp add: ensure_storage_layout_covers_block_params_def fn_instrs_def split: option.split)

section \<open>Properties\<close>

definition ready_to_bind :: "core bp_function \<Rightarrow> storage_layout \<Rightarrow> bool" where
  "ready_to_bind f l \<longleftrightarrow>
     fn_layout f = Some l \<and> unlocated_fn f \<and>
     collect_local_slot_locations f \<noteq> [] \<and> length (collect_local_slot_locations f) \<le> 2 ^ 32 \<and>
     cells_apart (slot_pairs (freevars l)) \<and> length (freevars l) \<le> 2 ^ 32 \<and>
     cells_apart (collect_owned_cell_storage_bindings f) \<and> length (collect_owned_cell_storage_bindings f) \<le> 2 ^ 32"



lemma located_function_facts:
  "fn_layout located_function = Some local_layout" "fn_scope located_function = local_scope"
  "fn_kind located_function = KFunction" "owned_cell_storage_names local_scope = {}"
  "collect_local_slot_locations located_function = [(''x'', 0)]"
  by (simp_all add: local_function_def collect_local_slot_locations_def local_layout_def slot_table_def
      local_scope_def sample_scope_def owned_cell_storage_names_def)

lemma bound_located_function: "map_fn (bind_expr Map.empty local_scope) located_function = located_function"
proof -
  have position_synthetic: "position_of synthetic = synthetic" by (simp add: position_of_def meta_new_def synthetic_def)
  have scope_fields: "bindings local_scope = [(''x'', BindLocal)]" "effective_store_bindings local_scope = []"
    by (simp_all add: local_scope_def sample_scope_def)
  have "bind_expr Map.empty local_scope (CoreOp synthetic (Load (SourceName ''print''))) = CoreOp synthetic (Load (SourceName ''print''))"
    by (simp add: bind_expr.simps [of _ _ "CoreOp m (Load n)" for m n] bind_operation_def bind_load_def name_load_def
        rewrite_name_load_def should_rewrite_raw_name_load_def local_scope_def sample_scope_def
        split: binding_kind.split)
  then have "bind_expr Map.empty local_scope copy_global = copy_global"
    by (simp add: bind_expr.simps [of _ _ copy_global] bind_operation_def semantic_name_def is_internal_symbol_def
        rewrite_binding_assign_by_name_def is_cell_binding_def binding_kind_of_def binding_target_for_name_def
        target_of_effective_def starts_with_def Let_def
        scope_fields position_synthetic)
  then show ?thesis by (simp add: local_function_def map_fn_def map_blocks_def map_block_def bind_expr.simps [of _ _ "CoreLit m l" for m l])
qed

lemma located_function_kept:
  "populate_stack_slots_in_storage_layout [(''x'', 0)] located_function = located_function"
  by (simp add: populate_stack_slots_in_storage_layout_def local_function_def local_layout_def set_stack_slots_def
      ordered_slot_names_from_local_slots_def)

lemma located_function_checked: "check_deleted_loads [(''x'', 0)] located_function = Some located_function"
proof -
  have "collect_deleted_names_in_blocks local_scope (fn_blocks located_function) = {}"
    by (simp add: collect_deleted_names_in_blocks_def local_function_def deleted_names_in_stmt_def names_of_def
        has_local_def_def local_scope_def sample_scope_def)
  moreover have "collect_always_unbound_local_names located_function = {}"
    by (simp add: collect_always_unbound_local_names_def local_function_def local_scope_def sample_scope_def)
  ultimately show ?thesis
    by (simp add: check_deleted_loads_def load_context_for_def located_function_facts)
qed

lemma located_function_synced:
  "located_function\<lparr>fn_blocks := rewrite_current_exception_in_core_blocks rewrite_current_exception_core
      core_current_exception_name (fn_blocks located_function)\<rparr> = located_function"
  "sync_and_rewrite_blocks located_function = located_function"
  by (simp_all add: local_function_def rewrite_current_exception_in_core_blocks_def rewrite_current_exception_in_block_def
      exception_param_def sync_and_rewrite_blocks_def raw_cell_block_unchanged sync_exception_param_cell_in_block_def)


end
