(* ===== verification/Resume_Exprs.thy ===== *)
theory Resume_Exprs
  imports Eval_Order Frontend Binding_Rewrite
begin

text \<open>
  The expressions that generator lowering builds (\<open>passes/blockpy_generators/mod.rs\<close>): the
  parameters of a resume function, the tests and calls of the state machine, and the factory that
  stands for the visible function. \<open>ErrOnYield\<close>, which turns an expression without yields into a core
  expression, is \<open>err_on_yield\<close>; its error is the yield it met.
\<close>

section \<open>Parameters of a resume function\<close>

datatype resume_abi_param = SelfValue | SendValue | ResumeExc | TransportSent

fun abi_name :: "resume_abi_param \<Rightarrow> string" where
  "abi_name SelfValue = ''_dp_self''"
| "abi_name SendValue = ''_dp_send_value''"
| "abi_name ResumeExc = ''_dp_resume_exc''"
| "abi_name TransportSent = ''_dp_transport_sent''"

fun resume_abi_params :: "function_kind \<Rightarrow> resume_abi_param list" where
  "resume_abi_params KFunction = []"
| "resume_abi_params KCoroutine = [SelfValue, SendValue, ResumeExc]"
| "resume_abi_params KGenerator = [SelfValue, SendValue, ResumeExc]"
| "resume_abi_params KAsyncGenerator = [SelfValue, SendValue, ResumeExc, TransportSent]"

definition resume_param_spec :: "function_kind \<Rightarrow> param_spec" where
  "resume_param_spec k =
     map (\<lambda>p. \<lparr>pname = abi_name p, pkind = PPosOnly, has_default = False\<rparr>) (resume_abi_params k)"

definition is_generator_like :: "function_kind \<Rightarrow> bool" where
  "is_generator_like k \<longleftrightarrow> k \<in> {KGenerator, KCoroutine, KAsyncGenerator}"

section \<open>Expressions without yields\<close>

lemma try_map_cong [fundef_cong]:
  "xs = ys \<Longrightarrow> (\<And>x. x \<in> set ys \<Longrightarrow> f x = g x) \<Longrightarrow> try_map f xs = try_map g ys"
  by (induction xs arbitrary: ys) auto

function err_on_yield :: "y_expr \<Rightarrow> y_expr + core" where
  "err_on_yield e =
     (case e of
        YYield m v \<Rightarrow> Inl e
      | YYieldFrom m v \<Rightarrow> Inl e
      | YLit m l \<Rightarrow> Inr (CoreLit m l)
      | YCellRefForName m n \<Rightarrow> Inr (CoreCellRefForName m n)
      | YOp m op \<Rightarrow> res_map (\<lambda>ys. CoreOp m (op_with_children op ys)) (try_map err_on_yield (y_children e)))"
  by pat_completeness auto
termination by (relation "measure size") (simp_all only: wf_measure in_measure y_child_size)

declare err_on_yield.simps [simp del]

definition no_yield :: "'a + 'b \<Rightarrow> 'b option" where
  "no_yield r = (case r of Inl e \<Rightarrow> None | Inr x \<Rightarrow> Some x)"

definition lower_stmt_no_yield :: "y_expr \<Rightarrow> core option" where
  "lower_stmt_no_yield e = no_yield (err_on_yield e)"

definition lower_term_no_yield :: "y_expr block_term \<Rightarrow> core block_term option" where
  "lower_term_no_yield t = no_yield (try_map_term err_on_yield t)"

section \<open>Building blocks\<close>

definition core_name :: "string \<Rightarrow> core" where
  "core_name n = CoreOp synthetic (Load (SourceName n))"

definition internal_store_stmt :: "string \<Rightarrow> core \<Rightarrow> core" where
  "internal_store_stmt n v = CoreOp synthetic (Store (SourceName n) v)"

definition y_name :: "string \<Rightarrow> y_expr" where
  "y_name n = YOp synthetic (Load (SourceName n))"

definition y_store :: "unresolved_name \<Rightarrow> y_expr \<Rightarrow> y_expr" where
  "y_store n v = YOp synthetic (Store n v)"

definition core_none :: core where
  "core_none = CoreOp synthetic (Load (RuntimeName ''NONE''))"

definition y_none :: y_expr where
  "y_none = YOp synthetic (Load (RuntimeName ''NONE''))"

definition y_is_none :: "y_expr \<Rightarrow> bool" where
  "y_is_none e \<longleftrightarrow> (case e of YOp m (Load n) \<Rightarrow> is_runtime_symbol n ''NONE'' | _ \<Rightarrow> False)"

definition core_literal_int :: "nat \<Rightarrow> core" where
  "core_literal_int n = CoreLit synthetic (NumberLiteral (IntLiteral (int n)))"

definition core_string_literal :: "string \<Rightarrow> core" where
  "core_string_literal v = CoreLit synthetic (StringLiteral v)"

definition core_runtime_attr :: "string \<Rightarrow> core" where
  "core_runtime_attr n = CoreOp synthetic (Load (RuntimeName n))"

definition core_call_expr :: "core \<Rightarrow> core list \<Rightarrow> (string \<times> core) list \<Rightarrow> core" where
  "core_call_expr f as ks = CoreOp synthetic (Call f (map Positional as) (map (\<lambda>(n, v). Named n v) ks))"

definition core_call :: "string \<Rightarrow> core list \<Rightarrow> core" where
  "core_call f as = core_runtime_call f synthetic as"

definition core_get_attr :: "core \<Rightarrow> string \<Rightarrow> core" where
  "core_get_attr v a = CoreOp synthetic (GetAttr v (core_string_literal a))"

definition core_cell_ref :: "string \<Rightarrow> core" where
  "core_cell_ref n = CoreCellRefForName synthetic n"

definition core_make_function :: "function_id \<Rightarrow> function_kind \<Rightarrow> core \<Rightarrow> core \<Rightarrow> core" where
  "core_make_function i k d a = CoreOp synthetic (MakeFunction i k d a)"

definition core_is :: "core \<Rightarrow> core \<Rightarrow> core" where
  "core_is a b = CoreOp synthetic (BinOp Is a b)"

definition core_not :: "core \<Rightarrow> core" where
  "core_not a = CoreOp synthetic (UnaryOp Not a)"

section \<open>Tests and calls of the state machine\<close>

definition is_resume_exc_test :: core where
  "is_resume_exc_test = core_not (core_is (core_name ''_dp_resume_exc'') (core_runtime_attr ''NO_DEFAULT''))"

definition is_send_none_test :: core where
  "is_send_none_test = core_is (core_name ''_dp_send_value'') core_none"

definition is_name_none_test :: "string \<Rightarrow> core" where
  "is_name_none_test n = core_is (core_name n) core_none"

definition is_name_not_none_test :: "string \<Rightarrow> core" where
  "is_name_not_none_test n = core_not (is_name_none_test n)"

definition is_resume_generator_exit_test :: core where
  "is_resume_generator_exit_test =
     core_call ''isinstance'' [core_name ''_dp_resume_exc'', core_runtime_attr ''GeneratorExit'']"

definition resume_exc_raise_term :: "core block_term" where
  "resume_exc_raise_term = Raise (Some (core_name ''_dp_resume_exc''))"

definition stop_iteration_match_test :: "string \<Rightarrow> core" where
  "stop_iteration_match_test n =
     core_call_expr (core_runtime_attr ''exception_matches'') [core_name n, core_runtime_attr ''StopIteration''] []"

definition current_exception_value_expr :: "string \<Rightarrow> core" where
  "current_exception_value_expr n = core_get_attr (core_name n) ''value''"

definition yield_from_next_expr :: core where
  "yield_from_next_expr = core_call ''next'' [core_name ''_dp_yieldfrom'']"

definition yield_from_send_expr :: core where
  "yield_from_send_expr =
     core_call_expr (core_get_attr (core_name ''_dp_yieldfrom'') ''send'') [core_name ''_dp_send_value''] []"

definition yield_from_method_lookup_expr :: "string \<Rightarrow> core" where
  "yield_from_method_lookup_expr n =
     core_call ''getattr'' [core_name ''_dp_yieldfrom'', core_string_literal n, core_none]"

definition no_arg_name_call_expr :: "string \<Rightarrow> core" where
  "no_arg_name_call_expr n = core_call_expr (core_name n) [] []"

definition single_arg_name_call_expr :: "string \<Rightarrow> core \<Rightarrow> core" where
  "single_arg_name_call_expr n a = core_call_expr (core_name n) [a] []"

text \<open>A plain function does not complete this way: the \<open>unreachable!\<close>.\<close>

definition completion_raise :: "function_kind \<Rightarrow> core option \<Rightarrow> core block_term option" where
  "completion_raise k v =
     (case k of
        KFunction \<Rightarrow> None
      | KAsyncGenerator \<Rightarrow> Some (Raise (Some (core_call ''AsyncGenComplete'' [])))
      | _ \<Rightarrow> Some (Raise (Some (core_call ''StopIteration'' (case v of None \<Rightarrow> [] | Some x \<Rightarrow> [x])))))"

section \<open>The factory\<close>

definition core_generator_code :: "bool \<Rightarrow> string \<Rightarrow> string \<Rightarrow> core" where
  "core_generator_code async_gen n q =
     core_call_expr
       (core_get_attr (core_get_attr
          (core_runtime_attr (if async_gen then ''code_template_async_gen'' else ''code_template_gen'')) ''__code__'')
          ''replace'')
       [] [(''co_name'', core_string_literal n), (''co_qualname'', core_string_literal q)]"

definition closure_generator :: "string \<Rightarrow> bool \<Rightarrow> function_name \<Rightarrow> core \<Rightarrow> core" where
  "closure_generator cls async_gen ns entry =
     core_call_expr (core_runtime_attr cls) []
       [(''resume'', entry), (''name'', core_string_literal (display_name ns)),
        (''qualname'', core_string_literal (qualname ns)),
        (''code'', core_generator_code async_gen (display_name ns) (qualname ns)),
        (''yieldfrom_cell'', core_cell_ref ''_dp_yieldfrom''),
        (''throw_context_cell'', core_cell_ref ''_dp_throw_context'')]"

definition factory_value :: "function_name \<Rightarrow> function_id \<Rightarrow> function_kind \<Rightarrow> core option" where
  "factory_value ns i k =
     (let entry = core_make_function i KFunction (core_call ''tuple_values'' []) core_none;
          generator = closure_generator ''ClosureGenerator'' False ns entry in
      case k of
        KGenerator \<Rightarrow> Some generator
      | KCoroutine \<Rightarrow> Some (core_call_expr (core_runtime_attr ''Coroutine'') [generator] [])
      | KAsyncGenerator \<Rightarrow> Some (closure_generator ''ClosureAsyncGenerator'' True ns entry)
      | KFunction \<Rightarrow> None)"

definition build_factory_block :: "function_name \<Rightarrow> function_id \<Rightarrow> function_kind \<Rightarrow> (core, core) block option" where
  "build_factory_block ns i k =
     do { v \<leftarrow> factory_value ns i k;
          l \<leftarrow> from_index 0;
          Some (from_builder core_none l (with_term [] (Some (Return v))) [] None None) }"

end
