(* ===== verification/Generator_Layout.thy ===== *)
theory Generator_Layout
  imports Closure_Layout Resume_Exprs
begin

text \<open>
  Where a generator keeps its state (\<open>passes/blockpy_generators/mod.rs\<close>): every name that a
  suspended generator may need lives in a cell, either inherited, owned, or one of the cells of the
  runtime. The names a statement assigns are collected in a \<open>HashSet\<close>; the order in which such a set
  is iterated is the argument \<open>order\<close>. One function of the set is general enough: a second statement
  with the same set adds nothing.
\<close>

section \<open>Names of the state\<close>

definition generator_state_logical_name :: "callable_scope_info \<Rightarrow> string \<Rightarrow> string" where
  "generator_state_logical_name s n = unwrap_or n (logical_name_for_cell_storage n s)"

definition generator_state_storage_name :: "callable_scope_info \<Rightarrow> string \<Rightarrow> string" where
  "generator_state_storage_name s n = cell_storage_name (generator_state_logical_name s n) s"

definition runtime_init :: "string \<Rightarrow> closure_init option" where
  "runtime_init n =
     (if n = ''_dp_pc'' then Some RuntimePcUnstarted
      else if starts_with ''_dp_try_abrupt_kind_'' n then Some RuntimeAbruptKindFallthrough
      else if n = ''_dp_yieldfrom'' \<or> n = ''_dp_throw_context'' then Some RuntimeNone
      else None)"

definition assigned_names :: "y_expr \<Rightarrow> string set" where
  "assigned_names e = (\<Union>x\<in>set (y_preorder e). set (root_defined_names y_node x))"

definition assigned_names_in_term :: "y_expr block_term \<Rightarrow> string set" where
  "assigned_names_in_term t = (\<Union>e\<in>set (term_exprs t). assigned_names e)"

definition push_new :: "string list \<Rightarrow> string list \<Rightarrow> string list" where
  "push_new ns st = fold (\<lambda>n st. if n \<in> set st then st else st @ [n]) ns st"

definition collect_state_vars :: "(string set \<Rightarrow> string list) \<Rightarrow> string list \<Rightarrow> (y_expr, y_expr) block list \<Rightarrow> string list" where
  "collect_state_vars order ps bs =
     fold (\<lambda>b st.
         push_new (order (assigned_names_in_term (bterm b)))
           (fold (\<lambda>e. push_new (order (assigned_names e))) (body b)
             (push_new ((case exception_param (params b) of None \<Rightarrow> [] | Some n \<Rightarrow> [n]) @ map param_name (params b)) st)))
       bs ps"

definition injected_exception_names :: "('s, 'e) block list \<Rightarrow> string list" where
  "injected_exception_names bs = List.map_filter (\<lambda>b. exception_param (params b)) bs"

section \<open>The layout\<close>

definition add_state_slot ::
  "callable_scope_info \<Rightarrow> string list \<Rightarrow> string list \<Rightarrow> string list \<Rightarrow> string \<Rightarrow> string set \<times> storage_layout \<Rightarrow> string set \<times> storage_layout" where
  "add_state_slot s ps captures injected n r =
     (let (seen, l) = r; logical = generator_state_logical_name s n; storage = generator_state_storage_name s n;
          slot = (\<lambda>i. \<lparr>logical_name = logical, storage_name = storage, slot_init = i\<rparr>)
      in if storage \<in> seen then (seen, l)
         else (insert storage seen,
           case runtime_init logical of
             Some i \<Rightarrow> l\<lparr>runtime_cells := runtime_cells l @ [slot i]\<rparr>
           | None \<Rightarrow>
               if n \<in> set captures \<or> logical \<in> set captures \<or> storage \<in> set captures
               then l\<lparr>freevars := freevars l @ [slot InheritedCapture]\<rparr>
               else l\<lparr>cellvars := cellvars l @
                        [slot (if logical \<in> set injected then DeletedSentinel
                               else if logical \<in> set ps then InitParameter else Deferred)]\<rparr>))"

definition no_cells :: storage_layout where
  "no_cells = \<lparr>freevars = [], cellvars = [], runtime_cells = [], stack_slots = []\<rparr>"

definition build_blockpy_storage_layout ::
  "callable_scope_info \<Rightarrow> string list \<Rightarrow> string list \<Rightarrow> string list \<Rightarrow> string list \<Rightarrow> storage_layout" where
  "build_blockpy_storage_layout s ps state captures injected =
     snd (fold (add_state_slot s ps captures injected) state ({}, no_cells))"

definition generator_captures :: "y_expr bp_function \<Rightarrow> string list" where
  "generator_captures f =
     map logical_name (freevars (unwrap_or no_cells (compute_storage_layout_from_scope y_node f)))"

definition generator_local_cells :: "y_expr bp_function \<Rightarrow> string list" where
  "generator_local_cells f =
     map storage_name (cellvars (unwrap_or no_cells (compute_storage_layout_from_scope y_node f)))"

definition generator_state_vars :: "(string set \<Rightarrow> string list) \<Rightarrow> y_expr bp_function \<Rightarrow> string list" where
  "generator_state_vars order f =
     push_new [''_dp_pc'', ''_dp_yieldfrom'', ''_dp_throw_context'']
       (push_new (map (generator_state_logical_name (fn_scope f)) (generator_local_cells f))
         (push_new (injected_exception_names (fn_blocks f))
           (push_new (generator_captures f)
             (collect_state_vars order (spec_names (fn_params f)) (fn_blocks f)))))"

definition build_generator_storage_layout :: "(string set \<Rightarrow> string list) \<Rightarrow> y_expr bp_function \<Rightarrow> storage_layout" where
  "build_generator_storage_layout order f =
     build_blockpy_storage_layout (fn_scope f) (spec_names (fn_params f)) (generator_state_vars order f)
       (generator_captures f) (injected_exception_names (fn_blocks f))"

section \<open>The scope of the resume function\<close>

definition persistent_generator_state_order :: "storage_layout \<Rightarrow> string list" where
  "persistent_generator_state_order l =
     map logical_name (freevars l) @ map logical_name (cellvars l) @ map logical_name (runtime_cells l)"

text \<open>The filter keeps the first of equal names.\<close>

definition ordered_resume_binding_logical_names :: "string list \<Rightarrow> string list" where
  "ordered_resume_binding_logical_names ns = push_new ns []"

definition resume_closure_bindings :: "callable_scope_info \<Rightarrow> string list \<Rightarrow> (string \<times> string) list" where
  "resume_closure_bindings s ns = map (\<lambda>n. (n, cell_capture_source_name n s)) ns"

definition resume_state_uses_standard_name_binding :: "string \<Rightarrow> bool" where
  "resume_state_uses_standard_name_binding n \<longleftrightarrow> \<not> starts_with ''_dp_cell_'' n"

definition augment_resume_semantic_for_standard_name_binding ::
  "(string \<times> string) list \<Rightarrow> callable_scope_info \<Rightarrow> callable_scope_info" where
  "augment_resume_semantic_for_standard_name_binding bs s =
     fold (\<lambda>(n, source) s.
         if resume_state_uses_standard_name_binding n
         then insert_binding_with_cell_names n (BindCell Capture) (is_internal_symbol n) (Some n) (Some source) s
         else s) bs s"

section \<open>Lemmas\<close>

lemma set_push_new [simp]: "set (push_new ns st) = set ns \<union> set st"
  unfolding push_new_def by (induction ns arbitrary: st) auto

lemma distinct_push_new: "distinct st \<Longrightarrow> distinct (push_new ns st)"
  unfolding push_new_def by (induction ns arbitrary: st) auto

lemma finite_assigned [simp]: "finite (assigned_names e)" "finite (assigned_names_in_term t)"
  by (simp_all add: assigned_names_def assigned_names_in_term_def)

text \<open>An iteration order lists the elements of every finite set.\<close>

definition iteration_order :: "(string set \<Rightarrow> string list) \<Rightarrow> bool" where
  "iteration_order order \<longleftrightarrow> (\<forall>S. finite S \<longrightarrow> set (order S) = S)"

definition block_names :: "(y_expr, y_expr) block \<Rightarrow> string set" where
  "block_names b = set_option (exception_param (params b)) \<union> param_name ` set (params b) \<union>
     (\<Union>e\<in>set (body b). assigned_names e) \<union> assigned_names_in_term (bterm b)"

lemma set_collect_state_vars:
  assumes "iteration_order order"
  shows "set (collect_state_vars order ps bs) = set ps \<union> (\<Union>b\<in>set bs. block_names b)"
proof -
  have order: "set (order S) = S" if "finite S" for S using assms that by (simp add: iteration_order_def)
  have es: "set (fold (\<lambda>e. push_new (order (assigned_names e))) es st) = (\<Union>e\<in>set es. assigned_names e) \<union> set st" for es st
    by (induction es arbitrary: st) (auto simp: order)
  show ?thesis unfolding collect_state_vars_def
  proof (induction bs arbitrary: ps)
    case (Cons b bs)
    show ?case unfolding fold_Cons comp_apply Cons.IH
      by (auto simp: es order block_names_def split: option.split)
  qed simp
qed

text \<open>The names of the state, as logical names.\<close>

definition generator_state_names :: "y_expr bp_function \<Rightarrow> string set" where
  "generator_state_names f =
     generator_state_logical_name (fn_scope f) `
       (set (spec_names (fn_params f)) \<union> (\<Union>b\<in>set (fn_blocks f). block_names b) \<union> set (generator_captures f) \<union>
        generator_state_logical_name (fn_scope f) ` set (generator_local_cells f) \<union>
        {''_dp_pc'', ''_dp_yieldfrom'', ''_dp_throw_context''})"

lemma injected_in_block: "n \<in> set (injected_exception_names bs) \<Longrightarrow> \<exists>b\<in>set bs. n \<in> set_option (exception_param (params b))"
  by (auto simp: injected_exception_names_def map_filter_def)

lemma generator_state_vars_names:
  "iteration_order order \<Longrightarrow>
     generator_state_logical_name (fn_scope f) ` set (generator_state_vars order f) = generator_state_names f"
  by (auto simp: generator_state_vars_def generator_state_names_def set_collect_state_vars block_names_def
      dest!: injected_in_block)

text \<open>The slot of a name.\<close>

definition state_slot :: "callable_scope_info \<Rightarrow> closure_init \<Rightarrow> string \<Rightarrow> closure_slot" where
  "state_slot s i n = \<lparr>logical_name = n, storage_name = cell_storage_name n s, slot_init = i\<rparr>"

definition cell_init :: "string list \<Rightarrow> string list \<Rightarrow> string \<Rightarrow> closure_init" where
  "cell_init ps injected n =
     (if n \<in> set injected then DeletedSentinel else if n \<in> set ps then InitParameter else Deferred)"

definition layout_slots :: "storage_layout \<Rightarrow> closure_slot list" where
  "layout_slots l = freevars l @ cellvars l @ runtime_cells l"

text \<open>\<open>holds_state s ps cs inj N l\<close>: the layout has exactly one slot for every name of \<open>N\<close>: a cell of the
  runtime, an inherited cell, or an owned cell with the right first value.\<close>

definition holds_state ::
  "callable_scope_info \<Rightarrow> string list \<Rightarrow> string set \<Rightarrow> string list \<Rightarrow> string set \<Rightarrow> storage_layout \<Rightarrow> bool" where
  "holds_state s ps cs injected N l \<longleftrightarrow>
     distinct (map storage_name (layout_slots l)) \<and> stack_slots l = [] \<and>
     set (runtime_cells l) = {state_slot s i n |i n. n \<in> N \<and> runtime_init n = Some i} \<and>
     set (freevars l) = state_slot s InheritedCapture ` {n \<in> N. runtime_init n = None \<and> n \<in> cs} \<and>
     set (cellvars l) = (\<lambda>n. state_slot s (cell_init ps injected n) n) ` {n \<in> N. runtime_init n = None \<and> n \<notin> cs}"

definition cell_names_unique :: "callable_scope_info \<Rightarrow> bool" where
  "cell_names_unique s \<longleftrightarrow> cell_names_ok (cell_storage_names s)"

lemma logical_of_storage:
  assumes "cell_names_unique s"
  shows "generator_state_logical_name s (cell_storage_name n s) = n"
proof -
  let ?m = "cell_storage_names s"
  have ok: "distinct (map snd ?m)" and own: "\<And>n st. (n, st) \<in> set ?m \<Longrightarrow> case strip_prefix ''_dp_cell_'' st of None \<Rightarrow> True | Some l \<Rightarrow> l = n"
    using assms by (auto simp: cell_names_unique_def cell_names_ok_def list_all_iff)
  show ?thesis
  proof (cases "map_of ?m n")
    case None
    then show ?thesis by (simp add: generator_state_logical_name_def cell_storage_name_def logical_name_for_cell_storage_def scope_simps)
  next
    case (Some v)
    then have v: "(n, v) \<in> set ?m" by (rule map_of_SomeD)
    show ?thesis using own [OF v] find_key_unique [OF v ok] Some
      by (auto simp: generator_state_logical_name_def cell_storage_name_def logical_name_for_cell_storage_def split: option.splits)
  qed
qed

lemma storage_injective: "cell_names_unique s \<Longrightarrow> cell_storage_name a s = cell_storage_name b s \<longleftrightarrow> a = b"
  by (metis logical_of_storage)

definition logical_names :: "callable_scope_info \<Rightarrow> string list \<Rightarrow> bool" where
  "logical_names s cs \<longleftrightarrow> list_all (\<lambda>n. generator_state_logical_name s n = n) cs"

lemma capture_tests:
  assumes "cell_names_unique s" "logical_names s cs"
  shows "n \<in> set cs \<or> generator_state_logical_name s n \<in> set cs \<or> generator_state_storage_name s n \<in> set cs \<longleftrightarrow>
    generator_state_logical_name s n \<in> set cs"
  using assms logical_of_storage [OF assms(1)]
  by (auto simp: logical_names_def list_all_iff generator_state_storage_name_def)

text \<open>Each step keeps the layout right for the names so far.\<close>

lemma add_state_slot_holds:
  assumes "cell_names_unique s" "logical_names s cs" "holds_state s ps (set cs) injected N l" "seen = (\<lambda>n. cell_storage_name n s) ` N"
    and "add_state_slot s ps cs injected n (seen, l) = (seen', l')"
  shows "holds_state s ps (set cs) injected (insert (generator_state_logical_name s n) N) l' \<and>
    seen' = (\<lambda>n. cell_storage_name n s) ` insert (generator_state_logical_name s n) N"
proof -
  let ?n = "generator_state_logical_name s n"
  have old: "storage_name ` set (layout_slots l) \<subseteq> seen"
    using assms(3,4) by (auto simp: holds_state_def layout_slots_def state_slot_def)
  have seen: "generator_state_storage_name s n \<in> seen \<longleftrightarrow> ?n \<in> N"
    using storage_injective [OF assms(1)] by (auto simp: assms(4) generator_state_storage_name_def)
  show ?thesis
  proof (cases "?n \<in> N")
    case True
    then have "seen' = seen" "l' = l" using assms(5) seen by (simp_all add: add_state_slot_def Let_def)
    then show ?thesis using assms(3,4) True by (simp add: insert_absorb)
  next
    case False
    then have new: "cell_storage_name ?n s \<notin> storage_name ` set (layout_slots l)"
      using seen old by (auto simp: generator_state_storage_name_def)
    have "seen' = insert (generator_state_storage_name s n) seen" using False seen assms(5) by (simp add: add_state_slot_def Let_def)
    moreover have "l' = (case runtime_init ?n of
        Some i \<Rightarrow> l\<lparr>runtime_cells := runtime_cells l @ [state_slot s i ?n]\<rparr>
      | None \<Rightarrow> if ?n \<in> set cs then l\<lparr>freevars := freevars l @ [state_slot s InheritedCapture ?n]\<rparr>
               else l\<lparr>cellvars := cellvars l @ [state_slot s (cell_init ps injected ?n) ?n]\<rparr>)"
      using False seen assms(5) capture_tests [OF assms(1,2), of n]
      by (cases "runtime_init ?n")
        (auto simp: add_state_slot_def Let_def state_slot_def generator_state_storage_name_def cell_init_def)
    ultimately show ?thesis
      using assms(3,4) new
      by (cases "runtime_init ?n"; cases "?n \<in> set cs")
        (auto simp: holds_state_def layout_slots_def generator_state_storage_name_def state_slot_def)
  qed
qed

lemma build_layout_holds:
  assumes "cell_names_unique s" "logical_names s cs"
  shows "holds_state s ps (set cs) injected (generator_state_logical_name s ` set ns) (build_blockpy_storage_layout s ps ns cs injected)"
proof -
  have steps: "holds_state s ps (set cs) injected (generator_state_logical_name s ` set ns \<union> N) (snd (fold (add_state_slot s ps cs injected) ns (seen, l)))"
    if "holds_state s ps (set cs) injected N l" "seen = (\<lambda>n. cell_storage_name n s) ` N" for N l seen
    using that
  proof (induction ns arbitrary: N l seen)
    case (Cons n ns)
    obtain seen' l' where step: "add_state_slot s ps cs injected n (seen, l) = (seen', l')" by fastforce
    note more = add_state_slot_holds [OF assms Cons.prems step]
    show ?case using Cons.IH [OF conjunct1 [OF more] conjunct2 [OF more]] by (simp add: step)
  qed simp
  have start: "holds_state s ps (set cs) injected {} no_cells"
    by (simp add: holds_state_def no_cells_def layout_slots_def)
  show ?thesis using steps [OF start] by (simp add: build_blockpy_storage_layout_def)
qed

lemma generator_layout_holds:
  assumes "iteration_order order" "cell_names_unique (fn_scope f)" "logical_names (fn_scope f) (generator_captures f)"
  shows "holds_state (fn_scope f) (spec_names (fn_params f)) (set (generator_captures f)) (injected_exception_names (fn_blocks f))
    (generator_state_names f) (build_generator_storage_layout order f)"
  using build_layout_holds [OF assms(2,3)] generator_state_vars_names [OF assms(1)]
  unfolding build_generator_storage_layout_def by metis

text \<open>The persistent names are the names of the state, each once.\<close>

lemma persistent_names:
  assumes "cell_names_unique s" "holds_state s ps cs injected N l"
  shows "distinct (persistent_generator_state_order l)" "set (persistent_generator_state_order l) = N"
proof -
  have sel: "logical_name (state_slot s i n) = n" "storage_name (state_slot s i n) = cell_storage_name n s" for i n
    by (simp_all add: state_slot_def)
  have names: "persistent_generator_state_order l = map logical_name (layout_slots l)"
    by (simp add: persistent_generator_state_order_def layout_slots_def)
  have "storage_name x = cell_storage_name (logical_name x) s" if "x \<in> set (layout_slots l)" for x
    using that assms(2) by (auto simp: holds_state_def layout_slots_def sel)
  then have "map storage_name (layout_slots l) = map (\<lambda>n. cell_storage_name n s) (map logical_name (layout_slots l))"
    by simp
  then show "distinct (persistent_generator_state_order l)"
    using assms(2) unfolding names holds_state_def by (metis distinct_map)
  have runtime: "logical_name ` {state_slot s i n |i n. n \<in> N \<and> runtime_init n = Some i} = {n \<in> N. runtime_init n \<noteq> None}"
    by (force simp: sel image_iff)
  have "set (persistent_generator_state_order l) =
      logical_name ` set (freevars l) \<union> logical_name ` set (cellvars l) \<union> logical_name ` set (runtime_cells l)"
    by (auto simp: persistent_generator_state_order_def)
  also have "\<dots> = {n \<in> N. runtime_init n = None \<and> n \<in> cs} \<union> {n \<in> N. runtime_init n = None \<and> n \<notin> cs} \<union> {n \<in> N. runtime_init n \<noteq> None}"
    using assms(2) by (simp only: holds_state_def runtime image_image sel image_ident)
  finally
  show "set (persistent_generator_state_order l) = N" by blast
qed

section \<open>The scope of the resume function\<close>

lemma ordered_names: "distinct ns \<Longrightarrow> ordered_resume_binding_logical_names ns = ns"
proof -
  have "push_new ns st = st @ ns" if "distinct (st @ ns)" for st
    using that
  proof (induction ns arbitrary: st)
    case (Cons n ns)
    then have "push_new (n # ns) st = push_new ns (st @ [n])" "distinct ((st @ [n]) @ ns)" by (auto simp: push_new_def)
    with Cons.IH [of "st @ [n]"] show ?case by simp
  qed (simp add: push_new_def)
  then show "distinct ns \<Longrightarrow> ?thesis" by (simp add: ordered_resume_binding_logical_names_def)
qed

text \<open>The names of the state that do not look like cells are captured cells of the resume function, each
  under its own name.\<close>

lemma insert_cell_names:
  "binding_kind_of m (insert_binding_with_cell_names n b h (Some st) (Some src) s) =
     (if m = n then Some b else binding_kind_of m s)"
  "cell_storage_name m (insert_binding_with_cell_names n b h (Some st) (Some src) s) =
     (if m = n then st else cell_storage_name m s)"
  "cell_capture_source_name m (insert_binding_with_cell_names n b h (Some st) (Some src) s) =
     (if m = n then src else cell_capture_source_name m s)"
  by (simp_all add: insert_binding_with_cell_names_def binding_kind_of_def cell_storage_name_def cell_capture_source_name_def
      set_opt_def update_conv')

lemma augmented_scope:
  assumes "distinct (map fst bs)"
  shows "binding_kind_of n (augment_resume_semantic_for_standard_name_binding bs s) =
      (if n \<in> fst ` set bs \<and> resume_state_uses_standard_name_binding n then Some (BindCell Capture) else binding_kind_of n s)"
    "cell_storage_name n (augment_resume_semantic_for_standard_name_binding bs s) =
      (if n \<in> fst ` set bs \<and> resume_state_uses_standard_name_binding n then n else cell_storage_name n s)"
    "cell_capture_source_name n (augment_resume_semantic_for_standard_name_binding bs s) =
      (case map_of bs n of Some src \<Rightarrow> if resume_state_uses_standard_name_binding n then src else cell_capture_source_name n s
       | None \<Rightarrow> cell_capture_source_name n s)"
proof -
  have "binding_kind_of n (augment_resume_semantic_for_standard_name_binding bs s) =
      (if n \<in> fst ` set bs \<and> resume_state_uses_standard_name_binding n then Some (BindCell Capture) else binding_kind_of n s) \<and>
    cell_storage_name n (augment_resume_semantic_for_standard_name_binding bs s) =
      (if n \<in> fst ` set bs \<and> resume_state_uses_standard_name_binding n then n else cell_storage_name n s) \<and>
    cell_capture_source_name n (augment_resume_semantic_for_standard_name_binding bs s) =
      (case map_of bs n of Some src \<Rightarrow> if resume_state_uses_standard_name_binding n then src else cell_capture_source_name n s
       | None \<Rightarrow> cell_capture_source_name n s)"
    using assms
  proof (induction bs arbitrary: s)
    case (Cons b bs)
    obtain k v where b: "b = (k, v)" by fastforce
    have "augment_resume_semantic_for_standard_name_binding (b # bs) s =
        augment_resume_semantic_for_standard_name_binding bs
          (if resume_state_uses_standard_name_binding k
           then insert_binding_with_cell_names k (BindCell Capture) (is_internal_symbol k) (Some k) (Some v) s else s)"
      by (simp add: augment_resume_semantic_for_standard_name_binding_def b)
    moreover have "map_of bs k = None" using Cons.prems by (simp add: b map_of_eq_None_iff)
    ultimately show ?case using Cons by (auto simp: b insert_cell_names split: option.split)
  qed (simp add: augment_resume_semantic_for_standard_name_binding_def)
  then show "binding_kind_of n (augment_resume_semantic_for_standard_name_binding bs s) =
      (if n \<in> fst ` set bs \<and> resume_state_uses_standard_name_binding n then Some (BindCell Capture) else binding_kind_of n s)"
    "cell_storage_name n (augment_resume_semantic_for_standard_name_binding bs s) =
      (if n \<in> fst ` set bs \<and> resume_state_uses_standard_name_binding n then n else cell_storage_name n s)"
    "cell_capture_source_name n (augment_resume_semantic_for_standard_name_binding bs s) =
      (case map_of bs n of Some src \<Rightarrow> if resume_state_uses_standard_name_binding n then src else cell_capture_source_name n s
       | None \<Rightarrow> cell_capture_source_name n s)" by blast+
qed

text \<open>A function whose scope captures a cell has a layout.\<close>

lemma capturing_scope_layout:
  assumes "binding_kind_of n (fn_scope f) = Some (BindCell Capture)"
  shows "compute_storage_layout_from_scope N f \<noteq> None"
proof -
  let ?refs = "sorted_list_of_set (cell_ref_names (collect_blocks N (fn_blocks f)))"
  have "(n, BindCell Capture) \<in> set (bindings (fn_scope f))" using assms by (auto simp: binding_kind_of_def dest: map_of_SomeD)
  then have "n \<in> set (captured_cell_logical_names (fn_scope f))"
    by (force simp: captured_cell_logical_names_def)
  then have "normalize_capture_name (fn_scope f) n \<in> set (capture_names f ?refs)" by (auto simp: capture_names_def)
  then have "normalize_capture_name (fn_scope f) n \<in>
      set (map capture_logical (compute_make_function_capture_bindings_from_scope N f))"
    by (simp add: compute_make_function_capture_bindings_from_scope_def make_function_capture_bindings_eq o_def)
  then have "dedup_by id (sort (map capture_logical (compute_make_function_capture_bindings_from_scope N f))) \<noteq> []"
    unfolding dedup_id_sort by (metis empty_iff finite_set list.set(1) set_sorted_list_of_set)
  then show ?thesis
    by (simp add: compute_storage_layout_from_scope_def build_storage_layout_from_capture_names_def Let_def)
qed

end
