(* ===== verification/Resume_Blocks.thy ===== *)
theory Resume_Blocks
  imports Resume_Exprs
begin

text \<open>
  The blocks of a resume function (\<open>lower_resume_blocks\<close> of \<open>passes/blockpy_generators/mod.rs\<close>). The
  body of a generator is cut at its yields; every cut gets a number, the program counter, and the
  entry block of the resume function branches to the block after the cut.

  \<open>None\<close> is a panic: labels run out, a label is unknown, or a yield is nested in an expression. The
  functions that emit a yield end with a call of \<open>lower_resume_fragment\<close>; here they return the
  arguments of that call. The counter \<open>next_resume_pc\<close> does not overflow before the labels run out.
\<close>

section \<open>Sites of yields\<close>

datatype yield_site =
  ExprYield "y_expr option"
| AssignYield unresolved_name "y_expr option"
| ReturnYield "y_expr option"
| ExprYieldFrom y_expr
| AssignYieldFrom unresolved_name y_expr
| ReturnYieldFrom y_expr

definition explicit_yield_value :: "y_expr \<Rightarrow> y_expr option" where
  "explicit_yield_value v = (if y_is_none v then None else Some v)"

fun stmt_yield_site :: "y_expr \<Rightarrow> yield_site option" where
  "stmt_yield_site (YYield m v) = Some (ExprYield (explicit_yield_value v))"
| "stmt_yield_site (YYieldFrom m v) = Some (ExprYieldFrom v)"
| "stmt_yield_site (YOp m (Store n (YYield m' v))) = Some (AssignYield n (explicit_yield_value v))"
| "stmt_yield_site (YOp m (Store n (YYieldFrom m' v))) = Some (AssignYieldFrom n v)"
| "stmt_yield_site _ = None"

fun term_yield_site :: "y_expr block_term \<Rightarrow> yield_site option" where
  "term_yield_site (Return (YYield m v)) = Some (ReturnYield (explicit_yield_value v))"
| "term_yield_site (Return (YYieldFrom m v)) = Some (ReturnYieldFrom v)"
| "term_yield_site _ = None"

fun first_site :: "y_expr list \<Rightarrow> (y_expr list \<times> yield_site \<times> y_expr list) option" where
  "first_site [] = None"
| "first_site (e # es) =
     (case stmt_yield_site e of
        Some s \<Rightarrow> Some ([], s, es)
      | None \<Rightarrow> map_option (\<lambda>(pre, s, post). (e # pre, s, post)) (first_site es))"

definition yield_value_expr :: "y_expr option \<Rightarrow> core option" where
  "yield_value_expr v = (case v of None \<Rightarrow> Some core_none | Some e \<Rightarrow> lower_stmt_no_yield e)"

section \<open>The state of the lowering\<close>

record resume_state =
  rs_kind :: function_kind
  rs_gen :: function_name_gen
  next_resume_pc :: nat
  rs_blocks :: "(core, core) block list"
  rs_exc_edges :: "block_label \<rightharpoonup> block_label option"
  target_arg_indices :: "block_label \<rightharpoonup> nat list"
  resume_targets :: "(nat \<times> block_label) list"
  exhausted_label :: block_label

definition resume_state_new ::
  "function_name_gen \<Rightarrow> function_kind \<Rightarrow> (block_label \<rightharpoonup> nat list) \<Rightarrow> resume_state option" where
  "resume_state_new g k indices =
     do { (l, g') \<leftarrow> next_block_name g;
          Some \<lparr>rs_kind = k, rs_gen = g', next_resume_pc = 2, rs_blocks = [], rs_exc_edges = Map.empty,
                target_arg_indices = indices, resume_targets = [], exhausted_label = l\<rparr> }"

definition fresh_label :: "resume_state \<Rightarrow> (block_label \<times> resume_state) option" where
  "fresh_label s = do { (l, g) \<leftarrow> next_block_name (rs_gen s); Some (l, s\<lparr>rs_gen := g\<rparr>) }"

definition fresh_resume_target :: "resume_state \<Rightarrow> (nat \<times> block_label \<times> resume_state) option" where
  "fresh_resume_target s =
     do { (l, s') \<leftarrow> fresh_label (s\<lparr>next_resume_pc := next_resume_pc s + 1\<rparr>);
          Some (next_resume_pc s, l, s'\<lparr>resume_targets := resume_targets s' @ [(next_resume_pc s, l)]\<rparr>) }"

definition fresh_temp :: "string \<Rightarrow> resume_state \<Rightarrow> string \<times> resume_state" where
  "fresh_temp p s = (let (n, g) = next_tmp_name p (rs_gen s) in (n, s\<lparr>rs_gen := g\<rparr>))"

definition active_exception :: "block_param list \<Rightarrow> core" where
  "active_exception ps = (case exception_param ps of Some n \<Rightarrow> core_name n | None \<Rightarrow> core_none)"

definition push_block :: "(core, core) block \<Rightarrow> block_label option \<Rightarrow> resume_state \<Rightarrow> resume_state" where
  "push_block b x s =
     s\<lparr>rs_blocks := rs_blocks s @
         [b\<lparr>body := internal_store_stmt ''_dp_throw_context'' (active_exception (params b)) # body b\<rparr>],
       rs_exc_edges := (rs_exc_edges s)(label b \<mapsto> x)\<rparr>"

definition plain_block :: "block_label \<Rightarrow> core list \<Rightarrow> core block_term \<Rightarrow> block_param list \<Rightarrow> (core, core) block" where
  "plain_block l es t ps = \<lparr>label = l, body = es, bterm = t, params = ps, exc_edge = None\<rparr>"

definition prune_term_target_args :: "resume_state \<Rightarrow> core block_term \<Rightarrow> core block_term" where
  "prune_term_target_args s t =
     (case t of
        Jump e \<Rightarrow>
          (case target_arg_indices s (target e) of
             None \<Rightarrow> t
           | Some is \<Rightarrow>
               if edge_args e = [] then t
               else Jump (e\<lparr>edge_args := map ((!) (edge_args e)) (filter (\<lambda>i. i < length (edge_args e)) is)\<rparr>))
      | _ \<Rightarrow> t)"

definition push_completion_raise_block ::
  "block_label \<Rightarrow> core list \<Rightarrow> core option \<Rightarrow> block_param list \<Rightarrow> block_label option \<Rightarrow> resume_state \<Rightarrow> resume_state option" where
  "push_completion_raise_block l es v ps x s =
     do { (c, s1) \<leftarrow> fresh_label s;
          t \<leftarrow> completion_raise (rs_kind s1) v;
          Some (push_block (plain_block c [] t ps) None
                 (push_block (plain_block l es (Jump (edge_new c)) ps) x s1)) }"

definition explicit_jump_args_for_params :: "block_param list \<Rightarrow> block_arg list" where
  "explicit_jump_args_for_params ps = map (\<lambda>p. ArgName (param_name p)) ps"

section \<open>Plain yields\<close>

type_synonym fragment = "block_label \<times> y_expr list \<times> y_expr block_term"

definition emit_resume_after_yield ::
  "block_label \<Rightarrow> unresolved_name option \<Rightarrow> y_expr list \<Rightarrow> y_expr block_term \<Rightarrow> block_param list \<Rightarrow>
     block_label option \<Rightarrow> resume_state \<Rightarrow> (resume_state \<times> fragment) option" where
  "emit_resume_after_yield resume_l dest tail_body tail_term ps x s =
     do { (raise_l, s1) \<leftarrow> fresh_label s;
          (continue_l, s2) \<leftarrow> fresh_label s1;
          Some (push_block (plain_block raise_l [] resume_exc_raise_term ps) x
                 (push_block (plain_block resume_l [] (IfTerm is_resume_exc_test raise_l continue_l) ps) x s2),
                continue_l,
                (case dest of None \<Rightarrow> tail_body | Some n \<Rightarrow> y_store n (y_name ''_dp_send_value'') # tail_body),
                tail_term) }"

definition emit_yield ::
  "block_label \<Rightarrow> core list \<Rightarrow> y_expr option \<Rightarrow> unresolved_name option \<Rightarrow> y_expr list \<Rightarrow> y_expr block_term \<Rightarrow>
     block_param list \<Rightarrow> block_label option \<Rightarrow> resume_state \<Rightarrow> (resume_state \<times> fragment) option" where
  "emit_yield l pre v dest tail_body tail_term ps x s =
     do { (pc, resume_l, s1) \<leftarrow> fresh_resume_target s;
          v' \<leftarrow> yield_value_expr v;
          emit_resume_after_yield resume_l dest tail_body tail_term ps x
            (push_block (plain_block l
               (pre @ [internal_store_stmt ''_dp_pc'' (core_literal_int pc), internal_store_stmt ''_dp_yieldfrom'' core_none])
               (Return v') ps) x s1) }"

section \<open>Delegation\<close>

record delegate_labels =
  send_dispatch :: block_label
  exc_dispatch :: block_label
  next_call :: block_label
  send_call :: block_label
  throw_lookup :: block_label
  throw_call :: block_label
  close_lookup :: block_label
  close_call :: block_label
  raise_resume_exc :: block_label
  call_except :: block_label
  stopiter :: block_label
  non_stopiter :: block_label

definition fresh_delegate_labels :: "resume_state \<Rightarrow> (delegate_labels \<times> resume_state) option" where
  "fresh_delegate_labels s0 =
     do { (send_d, s1) \<leftarrow> fresh_label s0; (exc_d, s2) \<leftarrow> fresh_label s1;
          (next_c, s3) \<leftarrow> fresh_label s2; (send_c, s4) \<leftarrow> fresh_label s3;
          (throw_l, s5) \<leftarrow> fresh_label s4; (throw_c, s6) \<leftarrow> fresh_label s5;
          (close_l, s7) \<leftarrow> fresh_label s6; (close_c, s8) \<leftarrow> fresh_label s7;
          (reraise, s9) \<leftarrow> fresh_label s8; (exc, s10) \<leftarrow> fresh_label s9;
          (stop, s11) \<leftarrow> fresh_label s10; (non_stop, s12) \<leftarrow> fresh_label s11;
          Some (\<lparr>send_dispatch = send_d, exc_dispatch = exc_d, next_call = next_c, send_call = send_c,
                 throw_lookup = throw_l, throw_call = throw_c, close_lookup = close_l, close_call = close_c,
                 raise_resume_exc = reraise, call_except = exc, stopiter = stop, non_stopiter = non_stop\<rparr>, s12) }"

record delegate_temps =
  yielded_value :: string
  throw_name :: string
  close_name :: string
  caught_exc_name :: string

definition fresh_delegate_temps :: "resume_state \<Rightarrow> delegate_temps \<times> resume_state" where
  "fresh_delegate_temps s0 =
     (let (yielded, s1) = fresh_temp ''yield_from_value'' s0; (throw, s2) = fresh_temp ''yield_from_throw'' s1;
          (close, s3) = fresh_temp ''yield_from_close'' s2; (caught, s4) = fresh_temp ''yield_from_exc'' s3
      in (\<lparr>yielded_value = yielded, throw_name = throw, close_name = close, caught_exc_name = caught\<rparr>, s4))"

definition push_blocks :: "((core, core) block \<times> block_label option) list \<Rightarrow> resume_state \<Rightarrow> resume_state" where
  "push_blocks bs s = fold (\<lambda>(b, x). push_block b x) bs s"

text \<open>The blocks that run the delegate, in the order in which they are pushed: \<open>d\<close> is entered with the
  sent value or exception, \<open>y\<close> returns what the delegate yielded, and \<open>e\<close> continues when it is done.\<close>

definition delegate_blocks ::
  "delegate_labels \<Rightarrow> nat \<Rightarrow> block_label \<Rightarrow> block_label \<Rightarrow> block_label \<Rightarrow> delegate_temps \<Rightarrow>
     block_param list \<Rightarrow> block_label option \<Rightarrow> ((core, core) block \<times> block_label option) list" where
  "delegate_blocks L pc d y e T ps x =
     (let caught_ps = set_exception_param (caught_exc_name T) ps;
          receive = (\<lambda>v. internal_store_stmt (yielded_value T) v);
          throw = throw_name T; close = close_name T; caught = caught_exc_name T in
      [(plain_block d [] (IfTerm is_resume_exc_test (exc_dispatch L) (send_dispatch L)) ps, x),
       (plain_block (send_dispatch L) [] (IfTerm is_send_none_test (next_call L) (send_call L)) ps, x),
       (plain_block (next_call L) [receive yield_from_next_expr] (Jump (edge_new y)) ps, Some (call_except L)),
       (plain_block (send_call L) [receive yield_from_send_expr] (Jump (edge_new y)) ps, Some (call_except L)),
       (plain_block (exc_dispatch L) [] (IfTerm is_resume_generator_exit_test (close_lookup L) (throw_lookup L)) ps, x),
       (plain_block (close_lookup L) [internal_store_stmt close (yield_from_method_lookup_expr ''close'')]
          (IfTerm (is_name_not_none_test close) (close_call L) (raise_resume_exc L)) ps, x),
       (plain_block (close_call L) [no_arg_name_call_expr close] (Jump (edge_new (raise_resume_exc L))) ps, x),
       (plain_block (throw_lookup L) [internal_store_stmt throw (yield_from_method_lookup_expr ''throw'')]
          (IfTerm (is_name_none_test throw) (raise_resume_exc L) (throw_call L)) ps, x),
       (plain_block (throw_call L) [receive (single_arg_name_call_expr throw (core_name ''_dp_resume_exc''))]
          (Jump (edge_new y)) ps, Some (call_except L)),
       (plain_block (call_except L) [] (IfTerm (stop_iteration_match_test caught) (stopiter L) (non_stopiter L)) caught_ps, x),
       (plain_block (stopiter L) [receive (current_exception_value_expr caught)]
          (Jump (edge_with_args e (explicit_jump_args_for_params ps))) caught_ps, x),
       (plain_block (non_stopiter L) [] (Raise (Some (core_name caught))) caught_ps, x),
       (plain_block y [internal_store_stmt ''_dp_pc'' (core_literal_int pc)] (Return (core_name (yielded_value T))) ps, x),
       (plain_block (raise_resume_exc L) [] resume_exc_raise_term ps, x)])"

definition returns_delegate_value :: "y_expr block_term \<Rightarrow> bool" where
  "returns_delegate_value t \<longleftrightarrow>
     (case t of Return (YOp m (Load n)) \<Rightarrow> unresolved_id n = ''_dp_yield_from_value'' | _ \<Rightarrow> False)"

definition emit_yield_from_site ::
  "block_label \<Rightarrow> core list \<Rightarrow> y_expr \<Rightarrow> unresolved_name option \<Rightarrow> y_expr list \<Rightarrow> y_expr block_term \<Rightarrow>
     block_param list \<Rightarrow> block_label option \<Rightarrow> resume_state \<Rightarrow> (resume_state \<times> fragment) option" where
  "emit_yield_from_site l pre v dest tail_body tail_term ps x s =
     do { (pc, d, s1) \<leftarrow> fresh_resume_target s;
          (L, s2) \<leftarrow> fresh_delegate_labels s1;
          v' \<leftarrow> lower_stmt_no_yield v;
          (T, s6) \<leftarrow> Some (fresh_delegate_temps s2);
          (y, s7) \<leftarrow> fresh_label (push_block (plain_block l
             (pre @ [internal_store_stmt ''_dp_yieldfrom'' (core_call ''iter'' [v']),
                     internal_store_stmt ''_dp_pc'' (core_literal_int pc)]) (Jump (edge_new d)) ps) x s6);
          (e, s8) \<leftarrow> fresh_label s7;
          Some (push_blocks (delegate_blocks L pc d y e T ps x) s8, e,
                y_store (SourceName ''_dp_yieldfrom'') y_none #
                (case dest of
                   Some n \<Rightarrow> [y_store n (y_name (yielded_value T))]
                 | None \<Rightarrow> if returns_delegate_value tail_term
                          then [y_store (SourceName ''_dp_yield_from_value'') (y_name (yielded_value T))] else [])
                @ tail_body,
                tail_term) }"

section \<open>Fragments\<close>

definition emit_yield_site ::
  "block_label \<Rightarrow> core list \<Rightarrow> yield_site \<Rightarrow> y_expr list \<Rightarrow> y_expr block_term \<Rightarrow> block_param list \<Rightarrow>
     block_label option \<Rightarrow> resume_state \<Rightarrow> (resume_state \<times> fragment) option" where
  "emit_yield_site l pre site tail_body tail_term ps x s =
     (case site of
        ExprYield v \<Rightarrow> emit_yield l pre v None tail_body tail_term ps x s
      | AssignYield n v \<Rightarrow> emit_yield l pre v (Some n) tail_body tail_term ps x s
      | ReturnYield v \<Rightarrow> emit_yield l pre v None [] (Return (y_name ''_dp_send_value'')) ps x s
      | ExprYieldFrom v \<Rightarrow> emit_yield_from_site l pre v None tail_body tail_term ps x s
      | AssignYieldFrom n v \<Rightarrow> emit_yield_from_site l pre v (Some n) tail_body tail_term ps x s
      | ReturnYieldFrom v \<Rightarrow>
          emit_yield_from_site l pre v None [] (Return (y_name ''_dp_yield_from_value'')) ps x s)"

definition lower_last_fragment ::
  "block_label \<Rightarrow> y_expr list \<Rightarrow> y_expr block_term \<Rightarrow> block_param list \<Rightarrow> block_label option \<Rightarrow>
     resume_state \<Rightarrow> resume_state option" where
  "lower_last_fragment l es t ps x s =
     do { es' \<leftarrow> opt_map lower_stmt_no_yield es;
          case t of
            Return v \<Rightarrow> do { v' \<leftarrow> lower_stmt_no_yield v; push_completion_raise_block l es' (Some v') ps x s }
          | _ \<Rightarrow> do { t' \<leftarrow> lower_term_no_yield t;
                    Some (push_block (plain_block l es' (prune_term_target_args s t') ps) x s) } }"

text \<open>The site to cut at, with the statements before it and what is left after it.\<close>

definition next_site ::
  "y_expr list \<Rightarrow> y_expr block_term \<Rightarrow> (y_expr list \<times> yield_site \<times> y_expr list \<times> y_expr block_term) option" where
  "next_site es t =
     (case first_site es of
        Some (pre, site, post) \<Rightarrow> Some (pre, site, post, t)
      | None \<Rightarrow> map_option (\<lambda>site. (es, site, [], Return y_none)) (term_yield_site t))"

definition sites :: "y_expr list \<Rightarrow> y_expr block_term \<Rightarrow> nat" where
  "sites es t = length (filter (\<lambda>e. stmt_yield_site e \<noteq> None) es) + (if term_yield_site t = None then 0 else 1)"

lemma stored_name_no_site [simp]: "stmt_yield_site (y_store n (y_name m)) = None" "stmt_yield_site (y_store n y_none) = None"
  by (simp_all add: y_store_def y_name_def y_none_def)

lemma returned_name_no_site [simp]: "term_yield_site (Return (y_name m)) = None" "term_yield_site (Return y_none) = None"
  by (simp_all add: y_name_def y_none_def)

lemma first_site_Some: "first_site es = Some (pre, s, post) \<Longrightarrow>
    \<exists>e. es = pre @ e # post \<and> stmt_yield_site e = Some s \<and> list_all (\<lambda>e. stmt_yield_site e = None) pre"
  by (induction es arbitrary: pre) (auto split: option.splits)

lemma first_site_None: "first_site es = None \<longleftrightarrow> list_all (\<lambda>e. stmt_yield_site e = None) es"
  by (induction es) (auto split: option.splits)

lemma emit_yield_tail:
  "emit_yield l pre v dest es t ps x s = Some (s', l', es', t') \<Longrightarrow> sites es' t' = sites es t"
  by (auto simp: emit_yield_def emit_resume_after_yield_def bind_eq_Some_conv sites_def split: option.splits)

lemma emit_yield_from_SomeE:
  assumes "emit_yield_from_site l pre v dest es t ps x s = Some (s', e, es', t')"
  obtains pc d s1 L s2 v' T s6 y s7 s8 where "fresh_resume_target s = Some (pc, d, s1)"
    "fresh_delegate_labels s1 = Some (L, s2)" "lower_stmt_no_yield v = Some v'" "fresh_delegate_temps s2 = (T, s6)"
    "fresh_label (push_block (plain_block l
       (pre @ [internal_store_stmt ''_dp_yieldfrom'' (core_call ''iter'' [v']),
               internal_store_stmt ''_dp_pc'' (core_literal_int pc)]) (Jump (edge_new d)) ps) x s6) = Some (y, s7)"
    "fresh_label s7 = Some (e, s8)" "s' = push_blocks (delegate_blocks L pc d y e T ps x) s8"
    "es' = y_store (SourceName ''_dp_yieldfrom'') y_none #
       (case dest of Some n \<Rightarrow> [y_store n (y_name (yielded_value T))]
        | None \<Rightarrow> if returns_delegate_value t
                 then [y_store (SourceName ''_dp_yield_from_value'') (y_name (yielded_value T))] else []) @ es"
    "t' = t"
proof -
  obtain pc d s1 L s2 v' where a: "fresh_resume_target s = Some (pc, d, s1)" "fresh_delegate_labels s1 = Some (L, s2)"
    "lower_stmt_no_yield v = Some v'"
    using assms by (auto simp: emit_yield_from_site_def bind_eq_Some_conv)
  obtain T s6 where T: "fresh_delegate_temps s2 = (T, s6)" by (cases "fresh_delegate_temps s2")
  show thesis
    using assms by (auto simp: emit_yield_from_site_def bind_eq_Some_conv a T intro: that [OF a T])
qed

lemma emit_yield_from_tail:
  "emit_yield_from_site l pre v dest es t ps x s = Some (s', l', es', t') \<Longrightarrow> sites es' t' = sites es t"
  by (erule emit_yield_from_SomeE) (simp add: sites_def split: option.split)

lemma emit_tail:
  "emit_yield_site l pre site es t ps x s = Some (s', l', es', t') \<Longrightarrow> sites es' t' \<le> sites es t"
  by (cases site) (auto simp: emit_yield_site_def sites_def dest!: emit_yield_tail emit_yield_from_tail)

lemma next_site_less:
  assumes "next_site es t = Some (pre, site, post, t')"
  shows "sites post t' < sites es t"
proof (cases "first_site es")
  case None
  with assms show ?thesis by (auto simp: next_site_def sites_def first_site_None list_all_iff filter_empty_conv)
next
  case (Some r)
  with assms have "first_site es = Some (pre, site, post)" "t' = t"
    by (cases r, simp add: next_site_def)+
  from first_site_Some [OF this(1)] this(2) show ?thesis by (auto simp: sites_def list_all_iff)
qed

function lower_resume_fragment ::
  "block_label \<Rightarrow> y_expr list \<Rightarrow> y_expr block_term \<Rightarrow> block_param list \<Rightarrow> block_label option \<Rightarrow>
     resume_state \<Rightarrow> resume_state option" where
  "lower_resume_fragment l es t ps x s =
     (case next_site es t of
        None \<Rightarrow> lower_last_fragment l es t ps x s
      | Some (pre, site, post, t') \<Rightarrow>
          do { pre' \<leftarrow> opt_map lower_stmt_no_yield pre;
               (s', l', es', t'') \<leftarrow> emit_yield_site l pre' site post t' ps x s;
               lower_resume_fragment l' es' t'' ps x s' })"
  by pat_completeness auto
termination
  by (relation "measure (\<lambda>(l, es, t, ps, x, s). sites es t)")
     (auto dest!: emit_tail next_site_less)

declare lower_resume_fragment.simps [simp del]

end
