(* ===== verification/Resume_Function.thy ===== *)
theory Resume_Function
  imports Resume_Blocks
begin

text \<open>
  The resume function of a generator (\<open>lower_resume_blocks\<close> of
  \<open>passes/blockpy_generators/mod.rs\<close>): the blocks of the generator get new labels, every block is cut
  at its yields, and the entry block branches on the program counter.
\<close>

section \<open>Blocks\<close>

definition generator_resume_declared_param_indices :: "function_kind \<Rightarrow> block_param list \<Rightarrow> nat list" where
  "generator_resume_declared_param_indices k ps =
     filter (\<lambda>i. role (ps ! i) = RoleException \<or> role (ps ! i) = RoleAbruptKind \<or> role (ps ! i) = RoleAbruptPayload \<or>
               param_name (ps ! i) \<in> set (map abi_name (resume_abi_params k)))
       [0..<length ps]"

definition generator_resume_declared_params :: "function_kind \<Rightarrow> block_param list \<Rightarrow> block_param list" where
  "generator_resume_declared_params k ps =
     map snd (filter (\<lambda>(i, p). i \<in> set (generator_resume_declared_param_indices k ps)) (enumerate 0 ps))"

text \<open>The labels of the blocks of the resume function, and the exception targets by new label.\<close>

definition resume_relabel :: "('s, 'e) block list \<Rightarrow> block_label list \<Rightarrow> block_label \<rightharpoonup> block_label" where
  "resume_relabel bs ls = map_of (rev (zip (map label bs) ls))"

definition remapped_exception_edge ::
  "(block_label \<rightharpoonup> block_label) \<Rightarrow> block_label \<times> block_label option \<Rightarrow> (block_label \<times> block_label option) option" where
  "remapped_exception_edge m x =
     do { l \<leftarrow> m (fst x);
          t \<leftarrow> (case snd x of None \<Rightarrow> Some None | Some t \<Rightarrow> map_option Some (m t));
          Some (l, t) }"

definition remapped_exception_edges ::
  "(block_label \<rightharpoonup> block_label) \<Rightarrow> ('s, 'e) block list \<Rightarrow> (block_label \<rightharpoonup> block_label option) option" where
  "remapped_exception_edges m bs =
     do { xs \<leftarrow> opt_map (\<lambda>b. remapped_exception_edge m (label b, unwrap_or None (lowered_exception_edges bs (label b)))) bs;
          Some (map_of xs) }"

definition lower_resume_block ::
  "(block_label \<rightharpoonup> block_label) \<Rightarrow> (block_label \<rightharpoonup> block_label option) \<Rightarrow> (y_expr, y_expr) block \<Rightarrow>
     resume_state \<Rightarrow> resume_state option" where
  "lower_resume_block m x b s =
     do { l \<leftarrow> m (label b);
          t \<leftarrow> relabel_targets m (bterm b);
          lower_resume_fragment l (body b) t (generator_resume_declared_params (rs_kind s) (params b))
            (unwrap_or None (x l)) s }"

fun lower_resume_queue ::
  "(block_label \<rightharpoonup> block_label) \<Rightarrow> (block_label \<rightharpoonup> block_label option) \<Rightarrow> (y_expr, y_expr) block list \<Rightarrow>
     resume_state \<Rightarrow> resume_state option" where
  "lower_resume_queue m x [] s = Some s"
| "lower_resume_queue m x (b # bs) s = do { s' \<leftarrow> lower_resume_block m x b s; lower_resume_queue m x bs s' }"

definition dispatch_targets :: "resume_state \<Rightarrow> block_label list" where
  "dispatch_targets s =
     fold (\<lambda>(pc, l) ts. ts[pc := l]) (resume_targets s)
       (replicate ((if resume_targets s = [] then 1 else Max (set (map fst (resume_targets s)))) + 1) (exhausted_label s))"

definition declared_param_indices_by_label ::
  "function_kind \<Rightarrow> (block_label \<rightharpoonup> block_label) \<Rightarrow> ('s, 'e) block list \<Rightarrow> (block_label \<rightharpoonup> nat list) option" where
  "declared_param_indices_by_label k m bs =
     do { xs \<leftarrow> opt_map (\<lambda>b. do { l \<leftarrow> m (label b); Some (l, generator_resume_declared_param_indices k (params b)) }) bs;
          Some (map_of (rev xs)) }"

definition lower_resume_blocks ::
  "y_expr bp_function \<Rightarrow> function_name_gen \<Rightarrow>
     ((core, core) block list \<times> (block_label \<rightharpoonup> block_label option) \<times> block_label \<times> function_name_gen) option" where
  "lower_resume_blocks f g =
     do { (ls, g1) \<leftarrow> next_block_names (length (fn_blocks f)) g;
          let m = resume_relabel (fn_blocks f) ls;
          indices \<leftarrow> declared_param_indices_by_label (fn_kind f) m (fn_blocks f);
          x \<leftarrow> remapped_exception_edges m (fn_blocks f);
          entry \<leftarrow> entry_block f;
          entry_l \<leftarrow> m (label entry);
          s0 \<leftarrow> resume_state_new g1 (fn_kind f) indices;
          s1 \<leftarrow> lower_resume_queue m x (fn_blocks f) (s0\<lparr>resume_targets := [(1, entry_l)]\<rparr>);
          (d, s2) \<leftarrow> fresh_label s1;
          done_term \<leftarrow> completion_raise (rs_kind s2) None;
          let edges = (rs_exc_edges s2)(d \<mapsto> None, exhausted_label s2 \<mapsto> None);
          Some (attach_exception_edges_to_blocks
                  (plain_block d [] (BranchTable (core_name ''_dp_pc'') (dispatch_targets s2) (exhausted_label s2)) []
                   # rs_blocks s2 @ [plain_block (exhausted_label s2) [] done_term []]) edges,
                edges, d, rs_gen s2) }"

section \<open>Parameters\<close>

text \<open>Every parameter of a block has one of the three roles, so all of them are kept.\<close>

lemma declared_indices_all: "generator_resume_declared_param_indices k ps = [0..<length ps]"
proof -
  have "role p = RoleException \<or> role p = RoleAbruptKind \<or> role p = RoleAbruptPayload" for p
    by (cases "role p") simp_all
  then show ?thesis unfolding generator_resume_declared_param_indices_def by (intro filter_True) blast
qed

lemma declared_params_all: "generator_resume_declared_params k ps = ps"
proof -
  have "filter (\<lambda>(i, p). i < length ps) (enumerate 0 ps) = enumerate 0 ps"
    by (rule filter_True) (auto simp: in_set_enumerate_eq)
  then show ?thesis by (simp add: generator_resume_declared_params_def declared_indices_all)
qed

section \<open>The state while it grows\<close>

text \<open>\<open>P\<close> are the labels that were handed out and have no block yet, \<open>K\<close> labels that get one elsewhere.\<close>

definition block_labels :: "resume_state \<Rightarrow> block_label set" where
  "block_labels s = set (map label (rs_blocks s))"

definition goes_to :: "resume_state \<Rightarrow> (core, core) block \<Rightarrow> block_label set" where
  "goes_to s b = set (successors (bterm b)) \<union> set_option (unwrap_or None (rs_exc_edges s (label b)))"

definition resume_inv :: "block_label set \<Rightarrow> block_label set \<Rightarrow> resume_state \<Rightarrow> bool" where
  "resume_inv K P s \<longleftrightarrow>
     distinct (map label (rs_blocks s)) \<and> block_labels s \<inter> P = {} \<and> block_labels s \<union> P \<union> K \<subseteq> issued (rs_gen s) \<and>
     (\<forall>b\<in>set (rs_blocks s). goes_to s b \<subseteq> block_labels s \<union> P \<union> K) \<and>
     (\<forall>b\<in>set (rs_blocks s). rs_exc_edges s (label b) \<noteq> None) \<and>
     0 < next_resume_pc s \<and> map fst (resume_targets s) = [1..<next_resume_pc s] \<and>
     snd ` set (resume_targets s) \<subseteq> block_labels s \<union> P \<union> K"

text \<open>What a step of the lowering keeps.\<close>

definition grows :: "resume_state \<Rightarrow> resume_state \<Rightarrow> bool" where
  "grows s s' \<longleftrightarrow>
     (\<exists>bs. rs_blocks s' = rs_blocks s @ bs) \<and> (\<exists>rts. resume_targets s' = resume_targets s @ rts) \<and>
     (\<forall>b\<in>set (rs_blocks s). rs_exc_edges s' (label b) = rs_exc_edges s (label b)) \<and>
     rs_kind s' = rs_kind s \<and> exhausted_label s' = exhausted_label s \<and> target_arg_indices s' = target_arg_indices s"

lemma grows_refl [simp]: "grows s s"
  by (simp add: grows_def)

lemma grows_trans [trans]: "grows s s' \<Longrightarrow> grows s' s'' \<Longrightarrow> grows s s''"
  by (fastforce simp: grows_def)

definition with_context :: "(core, core) block \<Rightarrow> (core, core) block" where
  "with_context b = b\<lparr>body := internal_store_stmt ''_dp_throw_context'' (active_exception (params b)) # body b\<rparr>"

lemma with_context_sel [simp]:
  "label (with_context b) = label b" "bterm (with_context b) = bterm b" "params (with_context b) = params b"
  by (simp_all add: with_context_def)

lemma plain_block_sel [simp]:
  "label (plain_block l es t ps) = l" "bterm (plain_block l es t ps) = t" "params (plain_block l es t ps) = ps"
  "body (plain_block l es t ps) = es" "exc_edge (plain_block l es t ps) = None"
  by (simp_all add: plain_block_def)

lemma push_block_eq:
  "push_block b x s = s\<lparr>rs_blocks := rs_blocks s @ [with_context b], rs_exc_edges := (rs_exc_edges s)(label b \<mapsto> x)\<rparr>"
  by (simp add: push_block_def with_context_def)

lemma push_block_inv:
  assumes "resume_inv K P s" "label b \<in> P" "set (successors (bterm b)) \<union> set_option x \<subseteq> block_labels s \<union> P \<union> K"
  shows "resume_inv K (P - {label b}) (push_block b x s) \<and> grows s (push_block b x s)"
proof -
  let ?s = "push_block b x s"
  have new: "label b \<notin> block_labels s" using assms(1,2) by (auto simp: resume_inv_def)
  have labels: "block_labels ?s = insert (label b) (block_labels s)"
    by (simp add: block_labels_def push_block_eq)
  have exc: "rs_exc_edges ?s (label c) = rs_exc_edges s (label c)" if "c \<in> set (rs_blocks s)" for c
  proof -
    have "label c \<noteq> label b" using that new unfolding block_labels_def set_map by (metis imageI)
    then show ?thesis by (simp add: push_block_eq)
  qed
  then have "goes_to ?s c = goes_to s c" if "c \<in> set (rs_blocks s)" for c
    using that by (simp add: goes_to_def)
  moreover have "goes_to ?s (with_context b) = set (successors (bterm b)) \<union> set_option x"
    by (simp add: goes_to_def push_block_eq)
  moreover have "set (rs_blocks ?s) = insert (with_context b) (set (rs_blocks s))" by (simp add: push_block_eq)
  ultimately have "\<forall>c\<in>set (rs_blocks ?s). goes_to ?s c \<subseteq> block_labels ?s \<union> (P - {label b}) \<union> K"
    using assms(1,3) labels by (auto simp: resume_inv_def)
  moreover have "distinct (map label (rs_blocks ?s))" "rs_gen ?s = rs_gen s" "resume_targets ?s = resume_targets s"
    "next_resume_pc ?s = next_resume_pc s" "\<forall>c\<in>set (rs_blocks ?s). rs_exc_edges ?s (label c) \<noteq> None"
    using assms(1) new by (auto simp: resume_inv_def push_block_eq block_labels_def)
  ultimately have "resume_inv K (P - {label b}) ?s"
    using assms(1,2) new labels unfolding resume_inv_def by auto
  moreover have "grows s ?s" unfolding grows_def using exc by (auto simp: push_block_eq)
  ultimately show ?thesis ..
qed

lemma fresh_label_inv:
  assumes "resume_inv K P s" "fresh_label s = Some (l, s')"
  shows "resume_inv K (insert l P) s' \<and> grows s s' \<and> l \<notin> block_labels s \<union> P \<union> K"
proof -
  from assms(2) obtain g where g: "next_block_name (rs_gen s) = Some (l, g)" "s' = s\<lparr>rs_gen := g\<rparr>"
    by (auto simp: fresh_label_def bind_eq_Some_conv)
  have "goes_to s' b = goes_to s b" for b by (simp add: goes_to_def g(2))
  moreover have "block_labels s' = block_labels s" by (simp add: block_labels_def g(2))
  ultimately show ?thesis
    using assms(1) next_block_name_fresh [OF g(1)]
    unfolding resume_inv_def grows_def g(2) by auto
qed

text \<open>Pushing several blocks, each for a pending label.\<close>

lemma push_blocks_inv:
  assumes "resume_inv K P s" "distinct (map (label \<circ> fst) bs)" "label ` fst ` set bs \<subseteq> P"
    and "\<forall>(b, x)\<in>set bs. set (successors (bterm b)) \<union> set_option x \<subseteq> block_labels s \<union> P \<union> K"
  shows "resume_inv K (P - label ` fst ` set bs) (push_blocks bs s) \<and> grows s (push_blocks bs s) \<and>
    (\<forall>(b, x)\<in>set bs. with_context b \<in> set (rs_blocks (push_blocks bs s)) \<and>
       rs_exc_edges (push_blocks bs s) (label b) = Some x)"
  using assms
proof (induction bs arbitrary: s P)
  case (Cons c bs)
  obtain b x where c: "c = (b, x)" by fastforce
  let ?s = "push_block b x s"
  have 1: "resume_inv K (P - {label b}) ?s" "grows s ?s"
    using push_block_inv [OF Cons.prems(1), of b x] Cons.prems(3,4) by (auto simp: c)
  have labels: "block_labels ?s = insert (label b) (block_labels s)" by (simp add: block_labels_def push_block_eq)
  have same: "block_labels ?s \<union> (P - {label b}) \<union> K = block_labels s \<union> P \<union> K"
    using Cons.prems(3) labels by (auto simp: c)
  have "\<forall>(d, y)\<in>set bs. set (successors (bterm d)) \<union> set_option y \<subseteq> block_labels ?s \<union> (P - {label b}) \<union> K"
    unfolding same using Cons.prems(4) by simp
  moreover have "label ` fst ` set bs \<subseteq> P - {label b}" using Cons.prems(2,3) by (auto simp: c image_iff)
  ultimately have IH: "resume_inv K (P - {label b} - label ` fst ` set bs) (push_blocks bs ?s)"
    "grows ?s (push_blocks bs ?s)"
    "\<forall>(b, x)\<in>set bs. with_context b \<in> set (rs_blocks (push_blocks bs ?s)) \<and>
       rs_exc_edges (push_blocks bs ?s) (label b) = Some x"
    using Cons.IH [OF 1(1)] Cons.prems(2) by (simp_all add: c)
  have "with_context b \<in> set (rs_blocks ?s)" "rs_exc_edges ?s (label b) = Some x"
    by (simp_all add: push_block_eq)
  with IH(2) have "with_context b \<in> set (rs_blocks (push_blocks bs ?s))"
    "rs_exc_edges (push_blocks bs ?s) (label b) = Some x"
    unfolding grows_def by (metis UnCI set_append, metis with_context_sel(1))
  moreover have "push_blocks (c # bs) s = push_blocks bs ?s" by (simp add: push_blocks_def c)
  moreover have "P - label ` fst ` set (c # bs) = P - {label b} - label ` fst ` set bs" by (auto simp: c)
  moreover have "grows s (push_blocks bs ?s)" using 1(2) IH(2) by (rule grows_trans)
  ultimately show ?case using IH by (simp add: c)
qed (simp add: push_blocks_def)

section \<open>What the steps do\<close>

definition pushed :: "resume_state \<Rightarrow> (core, core) block \<Rightarrow> block_label option \<Rightarrow> bool" where
  "pushed s b x \<longleftrightarrow> with_context b \<in> set (rs_blocks s) \<and> rs_exc_edges s (label b) = Some x"

lemma pushed_grows: "pushed s b x \<Longrightarrow> grows s s' \<Longrightarrow> pushed s' b x"
  unfolding pushed_def grows_def by (metis UnCI set_append with_context_sel(1))

lemma target_grows: "r \<in> set (resume_targets s) \<Longrightarrow> grows s s' \<Longrightarrow> r \<in> set (resume_targets s')"
  by (auto simp: grows_def)

lemma push_block_pushed: "pushed (push_block b x s) b x"
  by (simp add: pushed_def push_block_eq)

lemma push_block_frame [simp]:
  "next_resume_pc (push_block b x s) = next_resume_pc s" "resume_targets (push_block b x s) = resume_targets s"
  "rs_kind (push_block b x s) = rs_kind s" "rs_gen (push_block b x s) = rs_gen s"
  by (simp_all add: push_block_eq)

lemma fresh_label_frame:
  "fresh_label s = Some (l, s') \<Longrightarrow> rs_blocks s' = rs_blocks s \<and> next_resume_pc s' = next_resume_pc s \<and>
     resume_targets s' = resume_targets s \<and> rs_kind s' = rs_kind s \<and> block_labels s' = block_labels s"
  by (auto simp: fresh_label_def bind_eq_Some_conv block_labels_def)

lemma fresh_resume_target_inv:
  assumes "resume_inv K P s" "fresh_resume_target s = Some (pc, l, s')"
  shows "resume_inv K (insert l P) s' \<and> grows s s' \<and> l \<notin> block_labels s \<union> P \<union> K \<and>
    pc = next_resume_pc s \<and> (pc, l) \<in> set (resume_targets s') \<and> block_labels s' = block_labels s"
proof -
  obtain g where g: "next_block_name (rs_gen s) = Some (l, g)" "pc = next_resume_pc s"
    "s' = s\<lparr>next_resume_pc := pc + 1, rs_gen := g, resume_targets := resume_targets s @ [(pc, l)]\<rparr>"
    using assms(2) by (auto simp: fresh_resume_target_def fresh_label_def bind_eq_Some_conv)
  have same: "goes_to s' b = goes_to s b" "block_labels s' = block_labels s" for b
    by (simp_all add: goes_to_def block_labels_def g(3))
  have fresh: "issued g = insert l (issued (rs_gen s))" "l \<notin> issued (rs_gen s)"
    using next_block_name_fresh [OF g(1)] by auto
  have "resume_inv K (insert l P) s'"
    using assms(1) fresh unfolding resume_inv_def same by (auto simp: g)
  moreover have "grows s s'" unfolding grows_def by (simp add: g(3))
  ultimately show ?thesis using assms(1) fresh same g by (auto simp: resume_inv_def)
qed

lemma fresh_temps_inv:
  assumes "resume_inv K P s" "fresh_delegate_temps s = (T, s')"
  shows "resume_inv K P s' \<and> grows s s' \<and> block_labels s' = block_labels s \<and> next_resume_pc s' = next_resume_pc s"
proof -
  have step: "resume_inv K P s2 \<and> grows s1 s2 \<and> block_labels s2 = block_labels s1 \<and> next_resume_pc s2 = next_resume_pc s1"
    if "resume_inv K P s1" "fresh_temp p s1 = (n, s2)" for s1 p n s2
  proof -
    from that(2) have s2: "s2 = s1\<lparr>rs_gen := snd (next_tmp_name p (rs_gen s1))\<rparr>"
      by (auto simp: fresh_temp_def split: prod.splits)
    have "issued (snd (next_tmp_name p (rs_gen s1))) = issued (rs_gen s1)"
      by (simp add: issued_def next_tmp_name_def)
    moreover have "goes_to s2 b = goes_to s1 b" for b by (simp add: goes_to_def s2)
    moreover have "block_labels s2 = block_labels s1" by (simp add: block_labels_def s2)
    ultimately show ?thesis using that(1) unfolding resume_inv_def grows_def by (simp add: s2)
  qed
  obtain a s1 b s2 c s3 d where t: "fresh_temp ''yield_from_value'' s = (a, s1)" "fresh_temp ''yield_from_throw'' s1 = (b, s2)"
    "fresh_temp ''yield_from_close'' s2 = (c, s3)" "fresh_temp ''yield_from_exc'' s3 = (d, s')"
    using assms(2) by (auto simp: fresh_delegate_temps_def split: prod.splits)
  from step [OF assms(1) t(1)] step [OF _ t(2)] step [OF _ t(3)] step [OF _ t(4)] show ?thesis
    by (metis grows_trans)
qed

definition delegate_label_list :: "delegate_labels \<Rightarrow> block_label list" where
  "delegate_label_list L =
     [send_dispatch L, exc_dispatch L, next_call L, send_call L, throw_lookup L, throw_call L, close_lookup L,
      close_call L, raise_resume_exc L, call_except L, stopiter L, non_stopiter L]"

lemma fresh_labels_inv:
  assumes "resume_inv K P s" "st_map (\<lambda>_. fresh_label) xs s = Some (ls, s')"
  shows "resume_inv K (set ls \<union> P) s' \<and> grows s s' \<and> distinct ls \<and> set ls \<inter> (block_labels s \<union> P \<union> K) = {} \<and>
    block_labels s' = block_labels s \<and> next_resume_pc s' = next_resume_pc s"
  using assms
proof (induction xs arbitrary: P s ls)
  case (Cons y xs)
  from Cons.prems(2) obtain l s1 ls' where 1: "fresh_label s = Some (l, s1)"
    "st_map (\<lambda>_. fresh_label) xs s1 = Some (ls', s')" "ls = l # ls'" by (rule st_map_ConsE)
  note a = fresh_label_inv [OF Cons.prems(1) 1(1)] and f = fresh_label_frame [OF 1(1)]
  from a have "resume_inv K (insert l P) s1" by blast
  from Cons.IH [OF this 1(2)] a f show ?case
    unfolding 1(3) by (auto intro: grows_trans)
qed simp

lemma delegate_labels_fresh:
  "fresh_delegate_labels s = Some (L, s') \<Longrightarrow>
     st_map (\<lambda>_. fresh_label) (replicate 12 ()) s = Some (delegate_label_list L, s')"
  by (auto simp: fresh_delegate_labels_def delegate_label_list_def numeral_eq_Suc bind_eq_Some_conv)

lemma emit_yield_inv:
  assumes "resume_inv K P s" "l \<in> P" "set_option x \<subseteq> K"
    and "emit_yield l pre v dest es t ps x s = Some (s', l', es', t')"
  obtains v' resume_l raise_l where "resume_inv K (insert l' (P - {l})) s'" "grows s s'" "l' \<notin> P"
    "yield_value_expr v = Some v'" "(next_resume_pc s, resume_l) \<in> set (resume_targets s')"
    "pushed s' (plain_block l (pre @ [internal_store_stmt ''_dp_pc'' (core_literal_int (next_resume_pc s)),
        internal_store_stmt ''_dp_yieldfrom'' core_none]) (Return v') ps) x"
    "pushed s' (plain_block resume_l [] (IfTerm is_resume_exc_test raise_l l') ps) x"
    "pushed s' (plain_block raise_l [] resume_exc_raise_term ps) x"
    "es' = (case dest of None \<Rightarrow> es | Some n \<Rightarrow> y_store n (y_name ''_dp_send_value'') # es)" "t' = t"
proof -
  let ?first = "\<lambda>pc v'. plain_block l (pre @ [internal_store_stmt ''_dp_pc'' (core_literal_int pc),
      internal_store_stmt ''_dp_yieldfrom'' core_none]) (Return v') ps"
  let ?rest = "\<lambda>r a. [(plain_block r [] (IfTerm is_resume_exc_test a l') ps, x), (plain_block a [] resume_exc_raise_term ps, x)]"
  obtain pc r s1 v' a s2 s3 where d: "fresh_resume_target s = Some (pc, r, s1)" "yield_value_expr v = Some v'"
    "fresh_label (push_block (?first pc v') x s1) = Some (a, s2)" "fresh_label s2 = Some (l', s3)"
    "s' = push_blocks (?rest r a) s3"
    "es' = (case dest of None \<Rightarrow> es | Some n \<Rightarrow> y_store n (y_name ''_dp_send_value'') # es)" "t' = t"
    using assms(4) by (auto simp: emit_yield_def emit_resume_after_yield_def bind_eq_Some_conv push_blocks_def)
  note 1 = fresh_resume_target_inv [OF assms(1) d(1)]
  have 2: "resume_inv K (insert r P - {l}) (push_block (?first pc v') x s1)" "grows s1 (push_block (?first pc v') x s1)"
    using push_block_inv [of K "insert r P" s1 "?first pc v'" x] 1 assms(2,3) by auto
  note 3 = fresh_label_inv [OF 2(1) d(3)]
  note 4 = fresh_label_inv [OF conjunct1 [OF 3] d(4)]
  have rl: "r \<noteq> l" using 1 assms(2) by auto
  have labels: "block_labels (push_block (?first pc v') x s1) = insert l (block_labels s)"
    using 1 by (simp add: block_labels_def push_block_eq)
  have ne: "r \<noteq> a" "l' \<noteq> a" "l' \<noteq> r" using 3 4 rl fresh_label_frame [OF d(3)] by auto
  have "resume_inv K (insert l' (insert a (insert r P - {l})) - label ` fst ` set (?rest r a)) (push_blocks (?rest r a) s3) \<and>
    grows s3 (push_blocks (?rest r a) s3) \<and> (\<forall>(b, y)\<in>set (?rest r a). pushed (push_blocks (?rest r a) s3) b y)"
    unfolding pushed_def
    by (rule push_blocks_inv [OF conjunct1 [OF 4]])
      (use rl ne assms(3) in \<open>auto simp: resume_exc_raise_term_def\<close>)
  moreover have "insert l' (insert a (insert r P - {l})) - label ` fst ` set (?rest r a) = insert l' (P - {l})"
  proof -
    have "a \<notin> P" "r \<notin> P" "l' \<noteq> l" "a \<noteq> l" using 1 3 4 labels fresh_label_frame [OF d(3)] by auto
    with ne rl show ?thesis by auto
  qed
  moreover have "l' \<notin> P" using 4 labels fresh_label_frame [OF d(3)] by auto
  ultimately have 5: "l' \<notin> P" "resume_inv K (insert l' (P - {l})) s'" "grows s3 s'"
    "pushed s' (plain_block r [] (IfTerm is_resume_exc_test a l') ps) x" "pushed s' (plain_block a [] resume_exc_raise_term ps) x"
    by (simp_all add: d(5))
  have g: "grows (push_block (?first pc v') x s1) s'" using 3 4 5(3) by (meson grows_trans)
  with 1 2(2) have "grows s1 s'" "grows s s'" by (meson grows_trans)+
  moreover have "pushed s' (?first pc v') x" by (rule pushed_grows [OF push_block_pushed g])
  ultimately show thesis
    using that [of v' r a] 1 5 d(2,6,7) target_grows [of "(pc, r)" s1 s'] by blast
qed

lemma delegate_blocks_labels:
  "map (label \<circ> fst) (delegate_blocks L pc d y e T ps x) =
     [d, send_dispatch L, next_call L, send_call L, exc_dispatch L, close_lookup L, close_call L, throw_lookup L,
      throw_call L, call_except L, stopiter L, non_stopiter L, y, raise_resume_exc L]"
  by (simp add: delegate_blocks_def Let_def)

lemma delegate_blocks_targets:
  assumes "(b, z) \<in> set (delegate_blocks L pc d y e T ps x)"
  shows "set (successors (bterm b)) \<union> set_option z \<subseteq> set (delegate_label_list L) \<union> {y, e} \<union> set_option x"
  using assms by (auto simp: delegate_blocks_def Let_def delegate_label_list_def resume_exc_raise_term_def edge_with_args_def)

lemma emit_yield_from_inv:
  assumes "resume_inv K P s" "l \<in> P" "set_option x \<subseteq> K"
    and "emit_yield_from_site l pre v dest es t ps x s = Some (s', e, es', t')"
  obtains v' d L T y where "resume_inv K (insert e (P - {l})) s'" "grows s s'" "e \<notin> P" "lower_stmt_no_yield v = Some v'"
    "(next_resume_pc s, d) \<in> set (resume_targets s')"
    "pushed s' (plain_block l (pre @ [internal_store_stmt ''_dp_yieldfrom'' (core_call ''iter'' [v']),
        internal_store_stmt ''_dp_pc'' (core_literal_int (next_resume_pc s))]) (Jump (edge_new d)) ps) x"
    "\<forall>(b, z)\<in>set (delegate_blocks L (next_resume_pc s) d y e T ps x). pushed s' b z"
    "es' = y_store (SourceName ''_dp_yieldfrom'') y_none #
       (case dest of Some n \<Rightarrow> [y_store n (y_name (yielded_value T))]
        | None \<Rightarrow> if returns_delegate_value t
                 then [y_store (SourceName ''_dp_yield_from_value'') (y_name (yielded_value T))] else []) @ es"
    "t' = t"
  using assms(4)
proof (rule emit_yield_from_SomeE)
  fix pc d s1 L s2 v' T s6 y s7 s8
  let ?first = "plain_block l (pre @ [internal_store_stmt ''_dp_yieldfrom'' (core_call ''iter'' [v']),
      internal_store_stmt ''_dp_pc'' (core_literal_int pc)]) (Jump (edge_new d)) ps"
  let ?bs = "delegate_blocks L pc d y e T ps x"
  let ?LL = "set (delegate_label_list L)"
  assume a: "fresh_resume_target s = Some (pc, d, s1)" "fresh_delegate_labels s1 = Some (L, s2)"
    "lower_stmt_no_yield v = Some v'" "fresh_delegate_temps s2 = (T, s6)"
    "fresh_label (push_block ?first x s6) = Some (y, s7)" "fresh_label s7 = Some (e, s8)"
    "s' = push_blocks ?bs s8"
    and tail: "es' = y_store (SourceName ''_dp_yieldfrom'') y_none #
       (case dest of Some n \<Rightarrow> [y_store n (y_name (yielded_value T))]
        | None \<Rightarrow> if returns_delegate_value t
                 then [y_store (SourceName ''_dp_yield_from_value'') (y_name (yielded_value T))] else []) @ es"
      "t' = t"
  note 1 = fresh_resume_target_inv [OF assms(1) a(1)]
  note 2 = fresh_labels_inv [OF conjunct1 [OF 1] delegate_labels_fresh [OF a(2)]]
  note 3 = fresh_temps_inv [OF conjunct1 [OF 2] a(4)]
  let ?P = "?LL \<union> insert d P"
  have 4: "resume_inv K (?P - {l}) (push_block ?first x s6)" "grows s6 (push_block ?first x s6)"
    using push_block_inv [of K ?P s6 ?first x] 3 assms(2,3) by auto
  note 5 = fresh_label_inv [OF 4(1) a(5)]
  note 6 = fresh_label_inv [OF conjunct1 [OF 5] a(6)]
  have labels: "block_labels (push_block ?first x s6) = insert l (block_labels s)"
    using 1 2 3 by (simp add: block_labels_def push_block_eq)
  have d: "d \<noteq> l" "d \<notin> P" using 1 assms(2) by auto
  have LL: "?LL \<inter> insert d P = {}" "distinct (delegate_label_list L)" "l \<notin> ?LL" "d \<notin> ?LL" using 2 assms(2) by auto
  have y: "y \<noteq> l" "y \<notin> P" "y \<notin> ?LL" "y \<noteq> d" using 5 labels d LL by auto
  have e: "e \<noteq> l" "e \<notin> P" "e \<notin> ?LL" "e \<noteq> d" "e \<noteq> y" using 6 labels d LL fresh_label_frame [OF a(5)] by auto
  have bs: "set (map (label \<circ> fst) ?bs) = insert d (insert y ?LL)" "distinct (map (label \<circ> fst) ?bs)"
    unfolding delegate_blocks_labels using LL(2,4) y e by (auto simp: delegate_label_list_def)
  have images: "label ` fst ` set ?bs = insert d (insert y ?LL)" using bs(1) by (simp add: image_image)
  have "resume_inv K (insert e (insert y (?P - {l})) - label ` fst ` set ?bs) (push_blocks ?bs s8) \<and>
      grows s8 (push_blocks ?bs s8) \<and>
      (\<forall>(b, z)\<in>set ?bs. with_context b \<in> set (rs_blocks (push_blocks ?bs s8)) \<and>
         rs_exc_edges (push_blocks ?bs s8) (label b) = Some z)"
  proof (rule push_blocks_inv [OF conjunct1 [OF 6] bs(2)])
    show "label ` fst ` set ?bs \<subseteq> insert e (insert y (?P - {l}))"
      unfolding images using d(1) LL(3) by auto
    show "\<forall>(b, z)\<in>set ?bs. set (successors (bterm b)) \<union> set_option z
        \<subseteq> block_labels s8 \<union> insert e (insert y (?P - {l})) \<union> K"
      using delegate_blocks_targets [of _ _ L pc d y e T ps x] assms(3) LL(3) by fastforce
  qed
  moreover have "insert e (insert y (?P - {l})) - label ` fst ` set ?bs = insert e (P - {l})"
    unfolding images using d LL y e by auto
  ultimately have 7: "resume_inv K (insert e (P - {l})) s'" "grows s8 s'" "\<forall>(b, z)\<in>set ?bs. pushed s' b z"
    by (simp_all add: a(7) pushed_def)
  have g: "grows (push_block ?first x s6) s'" using 5 6 7(2) by (meson grows_trans)
  with 1 2 3 4(2) have "grows s1 s'" "grows s s'" by (meson grows_trans)+
  moreover have "pushed s' ?first x" by (rule pushed_grows [OF push_block_pushed g])
  ultimately show thesis
    using that [of v' d L y T] 1 7 e(2) a(3) tail target_grows [of "(pc, d)" s1 s'] by blast
qed

section \<open>Fragments\<close>

lemma no_yield_Some: "no_yield r = Some x \<longleftrightarrow> r = Inr x"
  by (auto simp: no_yield_def split: sum.split)

lemma try_map_term_successors: "try_map_term f t = Inr t' \<Longrightarrow> successors t' = successors t"
  by (cases "(f, t)" rule: try_map_term.cases) (auto simp: res_map_def res_bind_def split: sum.splits)

lemma lowered_term_successors: "lower_term_no_yield t = Some t' \<Longrightarrow> successors t' = successors t"
  by (simp add: lower_term_no_yield_def no_yield_Some try_map_term_successors)

lemma pruned_successors [simp]: "successors (prune_term_target_args s t) = successors t"
  by (auto simp: prune_term_target_args_def split: block_term.split option.split)

lemma completion_successors: "completion_raise k v = Some t \<Longrightarrow> successors t = []"
  by (cases k) (auto simp: completion_raise_def)

definition finished :: "resume_state \<Rightarrow> resume_state \<Rightarrow> block_label \<Rightarrow> y_expr list \<Rightarrow> y_expr block_term \<Rightarrow>
    block_param list \<Rightarrow> block_label option \<Rightarrow> bool" where
  "finished s s' l es t ps x \<longleftrightarrow>
     (\<exists>es'. opt_map lower_stmt_no_yield es = Some es' \<and>
        (case t of
           Return v \<Rightarrow>
             (\<exists>v' c ct. lower_stmt_no_yield v = Some v' \<and> completion_raise (rs_kind s) (Some v') = Some ct \<and>
                pushed s' (plain_block l es' (Jump (edge_new c)) ps) x \<and> pushed s' (plain_block c [] ct ps) None)
         | _ \<Rightarrow> (\<exists>t'. lower_term_no_yield t = Some t' \<and>
                pushed s' (plain_block l es' (prune_term_target_args s t') ps) x)))"

lemma lower_last_inv:
  assumes "resume_inv K P s" "l \<in> P" "set_option x \<union> set (successors t) \<subseteq> K"
    and "lower_last_fragment l es t ps x s = Some s'"
  shows "resume_inv K (P - {l}) s' \<and> grows s s' \<and> finished s s' l es t ps x"
proof (cases "\<exists>v. t = Return v")
  case True
  then obtain v where t: "t = Return v" by blast
  with assms(4) obtain es' v' c s1 ct where d: "opt_map lower_stmt_no_yield es = Some es'" "lower_stmt_no_yield v = Some v'"
    "fresh_label s = Some (c, s1)" "completion_raise (rs_kind s1) (Some v') = Some ct"
    "s' = push_blocks [(plain_block l es' (Jump (edge_new c)) ps, x), (plain_block c [] ct ps, None)] s1"
    by (auto simp: lower_last_fragment_def push_completion_raise_block_def bind_eq_Some_conv push_blocks_def)
  let ?bs = "[(plain_block l es' (Jump (edge_new c)) ps, x), (plain_block c [] ct ps, None)]"
  note 1 = fresh_label_inv [OF assms(1) d(3)]
  have ne: "c \<noteq> l" "c \<notin> P" using 1 assms(2) by auto
  have "resume_inv K (insert c P - label ` fst ` set ?bs) (push_blocks ?bs s1) \<and> grows s1 (push_blocks ?bs s1) \<and>
      (\<forall>(b, y)\<in>set ?bs. with_context b \<in> set (rs_blocks (push_blocks ?bs s1)) \<and>
         rs_exc_edges (push_blocks ?bs s1) (label b) = Some y)"
    by (rule push_blocks_inv [OF conjunct1 [OF 1]])
      (use ne assms(2,3) completion_successors [OF d(4)] in auto)
  moreover have "insert c P - label ` fst ` set ?bs = P - {l}" using ne by auto
  ultimately have "resume_inv K (P - {l}) s'" "grows s1 s'" "pushed s' (plain_block l es' (Jump (edge_new c)) ps) x"
    "pushed s' (plain_block c [] ct ps) None"
    by (simp_all add: d(5) pushed_def)
  moreover from this 1 have "grows s s'" by (meson grows_trans)
  moreover have "rs_kind s1 = rs_kind s" using 1 by (simp add: grows_def)
  ultimately show ?thesis using d(1,2,4) by (auto simp: finished_def t)
next
  case False
  then obtain es' t' where d: "opt_map lower_stmt_no_yield es = Some es'" "lower_term_no_yield t = Some t'"
    "s' = push_block (plain_block l es' (prune_term_target_args s t') ps) x s"
    using assms(4) by (cases t) (auto simp: lower_last_fragment_def bind_eq_Some_conv)
  let ?b = "plain_block l es' (prune_term_target_args s t') ps"
  have "resume_inv K (P - {label ?b}) (push_block ?b x s) \<and> grows s (push_block ?b x s)"
    by (rule push_block_inv [OF assms(1)]) (use assms(2,3) lowered_term_successors [OF d(2)] in auto)
  moreover have "pushed s' ?b x" by (simp add: d(3) push_block_pushed)
  moreover have "finished s s' l es t ps x" if "pushed s' ?b x"
    using that d(1,2) False by (auto simp: finished_def split: block_term.split)
  ultimately show ?thesis by (simp add: d(3))
qed

lemma pushed_label: "pushed s b x \<Longrightarrow> label b \<in> block_labels s"
  unfolding pushed_def block_labels_def by (metis image_eqI set_map with_context_sel(1))

lemma grows_labels: "grows s s' \<Longrightarrow> block_labels s \<subseteq> block_labels s'"
  by (auto simp: grows_def block_labels_def)

lemma finished_label: "finished s s' l es t ps x \<Longrightarrow> l \<in> block_labels s'"
  by (cases t) (auto simp: finished_def dest: pushed_label)

lemma emit_yield_keeps:
  assumes "resume_inv K P s" "l \<in> P" "set_option x \<subseteq> K" "emit_yield l pre v dest es t ps x s = Some (s', l', es', t')"
  shows "resume_inv K (insert l' (P - {l})) s' \<and> grows s s' \<and> l' \<notin> P \<and> l \<in> block_labels s' \<and> t' = t"
  by (rule emit_yield_inv [OF assms]) (use pushed_label in fastforce)

lemma emit_yield_from_keeps:
  assumes "resume_inv K P s" "l \<in> P" "set_option x \<subseteq> K"
    "emit_yield_from_site l pre v dest es t ps x s = Some (s', l', es', t')"
  shows "resume_inv K (insert l' (P - {l})) s' \<and> grows s s' \<and> l' \<notin> P \<and> l \<in> block_labels s' \<and> t' = t"
  by (rule emit_yield_from_inv [OF assms]) (use pushed_label in fastforce)

lemma emit_yield_site_inv:
  assumes "resume_inv K P s" "l \<in> P" "set_option x \<union> set (successors t) \<subseteq> K"
    and "emit_yield_site l pre site es t ps x s = Some (s', l', es', t')"
  shows "resume_inv K (insert l' (P - {l})) s' \<and> grows s s' \<and> l' \<notin> P \<and> l \<in> block_labels s' \<and>
    set (successors t') \<subseteq> K"
proof -
  have x: "set_option x \<subseteq> K" using assms(3) by simp
  note keeps = emit_yield_keeps [OF assms(1,2) x] emit_yield_from_keeps [OF assms(1,2) x]
  show ?thesis using assms(3,4) by (cases site) (auto simp: emit_yield_site_def dest!: keeps)
qed

lemma next_site_successors:
  "next_site es t = Some (pre, site, post, t') \<Longrightarrow> set (successors t') \<subseteq> set (successors t)"
  by (auto simp: next_site_def split: option.splits)

lemma fragment_inv:
  assumes "resume_inv K P s" "l \<in> P" "set_option x \<union> set (successors t) \<subseteq> K"
    and "lower_resume_fragment l es t ps x s = Some s'"
  shows "resume_inv K (P - {l}) s' \<and> grows s s' \<and> l \<in> block_labels s'"
  using assms
proof (induction l es t ps x s arbitrary: P rule: lower_resume_fragment.induct)
  case (1 l es t ps x s)
  show ?case
  proof (cases "next_site es t")
    case None
    with "1.prems" show ?thesis
      using lower_last_inv [OF "1.prems"(1-3)] by (auto dest!: finished_label simp add: lower_resume_fragment.simps [of l es t])
  next
    case (Some r)
    obtain pre site post t1 where r: "next_site es t = Some (pre, site, post, t1)" using Some by (cases r) simp
    with "1.prems"(4) obtain pre' s1 l1 es1 t2 where d: "opt_map lower_stmt_no_yield pre = Some pre'"
      "emit_yield_site l pre' site post t1 ps x s = Some (s1, l1, es1, t2)"
      "lower_resume_fragment l1 es1 t2 ps x s1 = Some s'"
      by (auto simp: lower_resume_fragment.simps [of l es t] bind_eq_Some_conv)
    have "set_option x \<union> set (successors t1) \<subseteq> K" using next_site_successors [OF r] "1.prems"(3) by auto
    note 2 = emit_yield_site_inv [OF "1.prems"(1,2) this d(2)]
    then have "set_option x \<union> set (successors t2) \<subseteq> K" using "1.prems"(3) by auto
    note 3 = "1.IH" [OF r refl refl refl d(1,2) refl refl refl conjunct1 [OF 2] insertI1 this d(3)]
    have "insert l1 (P - {l}) - {l1} = P - {l}" using 2 by auto
    moreover have "grows s s'" using 2 3 by (meson grows_trans)
    moreover have "l \<in> block_labels s'" using 2 3 grows_labels by blast
    ultimately show ?thesis using 3 by simp
  qed
qed

section \<open>All blocks\<close>

lemma opt_map_set: "opt_map f xs = Some ys \<Longrightarrow> y \<in> set ys \<Longrightarrow> \<exists>x\<in>set xs. f x = Some y"
  by (auto simp: opt_map_Some_iff list_all2_conv_all_nth in_set_conv_nth Bex_def)

lemma relabel_targets_ran: "relabel_targets m t = Some t' \<Longrightarrow> set (successors t') \<subseteq> ran m"
  by (cases "(m, t)" rule: relabel_targets.cases)
    (auto simp: relabel_edge_def bind_eq_Some_conv ran_def dest!: opt_map_set)

lemma queue_inv:
  assumes "resume_inv K P s" "map (m \<circ> label) bs = map Some ls" "distinct ls" "set ls \<subseteq> P"
    and "ran m \<subseteq> K" "\<And>l. set_option (unwrap_or None (x l)) \<subseteq> K" "lower_resume_queue m x bs s = Some s'"
  shows "resume_inv K (P - set ls) s' \<and> grows s s' \<and> set ls \<subseteq> block_labels s'"
  using assms
proof (induction bs arbitrary: ls P s)
  case (Cons b bs)
  from Cons.prems(2) obtain l ls' where ls: "ls = l # ls'" "m (label b) = Some l" "map (m \<circ> label) bs = map Some ls'"
    by (cases ls) (auto simp: o_def)
  from Cons.prems(7) obtain s1 t where 1: "relabel_targets m (bterm b) = Some t"
    "lower_resume_fragment l (body b) t (generator_resume_declared_params (rs_kind s) (params b)) (unwrap_or None (x l)) s = Some s1"
    "lower_resume_queue m x bs s1 = Some s'"
    by (auto simp: lower_resume_block_def ls(2) bind_eq_Some_conv)
  have "set_option (unwrap_or None (x l)) \<union> set (successors t) \<subseteq> K"
    using Cons.prems(5,6) relabel_targets_ran [OF 1(1)] by blast
  moreover have "l \<in> P" using Cons.prems(4) ls(1) by simp
  ultimately have 2: "resume_inv K (P - {l}) s1 \<and> grows s s1 \<and> l \<in> block_labels s1"
    using fragment_inv [OF Cons.prems(1) _ _ 1(2)] by blast
  moreover have "distinct ls'" "set ls' \<subseteq> P - {l}" using Cons.prems(3,4) ls(1) by auto
  ultimately have 3: "resume_inv K (P - {l} - set ls') s' \<and> grows s1 s' \<and> set ls' \<subseteq> block_labels s'"
    using Cons.IH [OF _ ls(3) _ _ Cons.prems(5,6) 1(3)] by blast
  have "P - {l} - set ls' = P - set ls" unfolding ls(1) by auto
  moreover have "grows s s'" using 2 3 by (meson grows_trans)
  moreover have "set ls \<subseteq> block_labels s'" using 2 3 grows_labels [of s1 s'] unfolding ls(1) by auto
  ultimately show ?case using 3 by simp
qed simp

lemma targets_filled:
  "map fst rts = [n..<n + length rts] \<Longrightarrow> length ts = n + length rts \<Longrightarrow>
     fold (\<lambda>(pc, l) ts. ts[pc := l]) rts ts = take n ts @ map snd rts"
proof (induction rts arbitrary: n ts)
  case (Cons r rts)
  obtain pc l where r: "r = (pc, l)" by fastforce
  with Cons.prems(1) have pc: "pc = n" and rest: "map fst rts = [Suc n..<Suc n + length rts]"
    using upt_conv_Cons [of n "n + Suc (length rts)"] by (simp_all del: upt_Suc)
  have "take (Suc n) (ts[n := l]) = take n ts @ [l]"
    using Cons.prems(2) by (simp add: take_Suc_conv_app_nth)
  with Cons.IH [OF rest, of "ts[n := l]"] Cons.prems(2) show ?case by (simp add: r pc)
qed simp

text \<open>The table has the label of a finished generator at 0 and the target of every program counter at its
  position.\<close>

lemma dispatch_targets_eq:
  assumes "map fst (resume_targets s) = [1..<next_resume_pc s]" "1 < next_resume_pc s"
  shows "dispatch_targets s = exhausted_label s # map snd (resume_targets s)"
proof -
  have len: "length (resume_targets s) = next_resume_pc s - 1" using assms(1) by (metis length_map length_upt)
  have ne: "resume_targets s \<noteq> []" using len assms(2) by auto
  have "Max (set (map fst (resume_targets s))) = next_resume_pc s - 1"
    unfolding assms(1) using assms(2) by (intro Max_eqI) auto
  then have "dispatch_targets s =
      fold (\<lambda>(pc, l) ts. ts[pc := l]) (resume_targets s) (replicate (next_resume_pc s) (exhausted_label s))"
    using ne assms(2) unfolding dispatch_targets_def by simp
  also have "\<dots> = take 1 (replicate (next_resume_pc s) (exhausted_label s)) @ map snd (resume_targets s)"
    by (rule targets_filled) (use assms len in simp_all)
  finally show ?thesis using assms(2) by simp
qed

end
