(* ===== verification/Resume_Total.thy ===== *)
theory Resume_Total
  imports Resume_Function
begin

text \<open>
  Generator lowering does not panic on functions whose yields have been made explicit, and its
  blocks form a closed program.
\<close>

section \<open>Expressions without yields\<close>

lemma try_map_ok: "(\<And>x. x \<in> set xs \<Longrightarrow> \<exists>y. f x = Inr y) \<Longrightarrow> \<exists>ys. try_map f xs = Inr ys"
  by (induction xs) (fastforce simp: res_bind_def)+

lemma err_on_yield_ok: "\<not> expr_contains_yield e \<Longrightarrow> \<exists>x. err_on_yield e = Inr x"
proof (induction e rule: yld.node_induct)
  case (node e)
  then have "\<not> is_yield e" and kids: "\<And>x. x \<in> set (y_children e) \<Longrightarrow> \<exists>y. err_on_yield x = Inr y"
    using contains_yield_rec [of e] by auto
  show ?case
  proof (cases e)
    case (YOp m op)
    have "\<exists>ys. try_map err_on_yield (y_children e) = Inr ys" by (rule try_map_ok) (rule kids)
    then show ?thesis by (auto simp: err_on_yield.simps [of "YOp m op"] YOp res_map_def res_bind_def)
  qed (use \<open>\<not> is_yield e\<close> in \<open>simp_all add: err_on_yield.simps [of "YLit m l" for m l]
      err_on_yield.simps [of "YCellRefForName m n" for m n]\<close>)
qed

lemma lower_stmt_ok: "\<not> expr_contains_yield e \<Longrightarrow> \<exists>x. lower_stmt_no_yield e = Some x"
  using err_on_yield_ok [of e] by (auto simp: lower_stmt_no_yield_def no_yield_def)

lemma lower_term_ok: "list_all (\<lambda>e. \<not> expr_contains_yield e) (term_exprs t) \<Longrightarrow> \<exists>x. lower_term_no_yield t = Some x"
  using err_on_yield_ok
  by (cases "(err_on_yield, t)" rule: try_map_term.cases)
    (fastforce simp: lower_term_no_yield_def no_yield_def res_map_def res_bind_def)+

section \<open>Fragments\<close>

fun site_lowers :: "yield_site \<Rightarrow> bool" where
  "site_lowers (ExprYield v) \<longleftrightarrow> yield_value_expr v \<noteq> None"
| "site_lowers (AssignYield n v) \<longleftrightarrow> yield_value_expr v \<noteq> None"
| "site_lowers (ReturnYield v) \<longleftrightarrow> yield_value_expr v \<noteq> None"
| "site_lowers (ExprYieldFrom v) \<longleftrightarrow> lower_stmt_no_yield v \<noteq> None"
| "site_lowers (AssignYieldFrom n v) \<longleftrightarrow> lower_stmt_no_yield v \<noteq> None"
| "site_lowers (ReturnYieldFrom v) \<longleftrightarrow> lower_stmt_no_yield v \<noteq> None"

definition stmt_lowers :: "y_expr \<Rightarrow> bool" where
  "stmt_lowers e \<longleftrightarrow> (case stmt_yield_site e of None \<Rightarrow> lower_stmt_no_yield e \<noteq> None | Some s \<Rightarrow> site_lowers s)"

definition term_lowers :: "y_expr block_term \<Rightarrow> bool" where
  "term_lowers t \<longleftrightarrow>
     (case term_yield_site t of
        Some s \<Rightarrow> site_lowers s
      | None \<Rightarrow> (case t of Return v \<Rightarrow> lower_stmt_no_yield v \<noteq> None | _ \<Rightarrow> lower_term_no_yield t \<noteq> None))"

lemma explicit_stmt_lowers: "explicit_stmt e \<Longrightarrow> stmt_lowers e"
proof -
  assume e: "explicit_stmt e"
  have free: "\<exists>x. lower_stmt_no_yield e = Some x" if "yield_free_operands e" "\<not> is_yield e"
    using that contains_yield_rec [of e] by (intro lower_stmt_ok) (auto simp: yield_free_operands_def list_all_iff)
  have payload: "yield_value_expr (explicit_yield_value v) \<noteq> None \<and> lower_stmt_no_yield v \<noteq> None"
    if "\<not> expr_contains_yield v" for v
    using lower_stmt_ok [OF that] by (auto simp: explicit_yield_value_def yield_value_expr_def)
  have store: "\<exists>x. lower_stmt_no_yield (YOp m (Store n v)) = Some x" if "\<not> expr_contains_yield v" for m n v
    using that contains_yield_rec [of "YOp m (Store n v)"] by (intro lower_stmt_ok) simp
  show ?thesis
  proof (cases e rule: stmt_yield_site.cases)
    case (3 m n m' v)
    then show ?thesis using e payload contains_yield_rec [of "YYield m' v"]
      by (simp add: stmt_lowers_def yield_free_operands_def)
  next
    case (4 m n m' v)
    then show ?thesis using e payload contains_yield_rec [of "YYieldFrom m' v"]
      by (simp add: stmt_lowers_def yield_free_operands_def)
  qed (use e payload free store in \<open>auto simp: stmt_lowers_def yield_free_operands_def\<close>)
qed

section \<open>Labels\<close>

text \<open>\<open>spends k s s'\<close>: the step from \<open>s\<close> to \<open>s'\<close> hands out at most \<open>k\<close> labels.\<close>

definition next_label :: "resume_state \<Rightarrow> nat" where
  "next_label s = unat (next_block_id (rs_gen s))"

definition spends :: "nat \<Rightarrow> resume_state \<Rightarrow> resume_state \<Rightarrow> bool" where
  "spends k s s' \<longleftrightarrow> next_label s' \<le> next_label s + k \<and> rs_kind s' = rs_kind s"

lemma spends_trans: "spends k s s' \<Longrightarrow> spends j s' s'' \<Longrightarrow> spends (k + j) s s''"
  by (auto simp: spends_def)

lemma spends_mono: "spends k s s' \<Longrightarrow> k \<le> j \<Longrightarrow> spends j s s'"
  by (auto simp: spends_def)

lemma fresh_label_total:
  assumes "next_label s < 2 ^ 32"
  shows "\<exists>l s'. fresh_label s = Some (l, s') \<and> spends 1 s s'"
proof -
  obtain l g where g: "next_block_name (rs_gen s) = Some (l, g)"
    using assms next_block_name_panics [of "rs_gen s"] by (cases "next_block_name (rs_gen s)") (auto simp: next_label_def)
  then show ?thesis using next_block_name_Some(2) [OF g]
    by (auto simp: fresh_label_def spends_def next_label_def)
qed

lemma fresh_labels_total:
  "next_label s + length xs \<le> 2 ^ 32 \<Longrightarrow> \<exists>ls s'. st_map (\<lambda>_. fresh_label) xs s = Some (ls, s') \<and> spends (length xs) s s'"
proof (induction xs arbitrary: s)
  case (Cons x xs)
  then obtain l s1 where 1: "fresh_label s = Some (l, s1)" "spends 1 s s1" using fresh_label_total [of s] by auto
  then have "next_label s1 + length xs \<le> 2 ^ 32" using Cons.prems by (simp add: spends_def)
  with Cons.IH obtain ls s' where "st_map (\<lambda>_. fresh_label) xs s1 = Some (ls, s')" "spends (length xs) s1 s'" by blast
  with 1 show ?case using spends_trans [OF 1(2)] by fastforce
qed (simp add: spends_def)

lemma fresh_target_total:
  assumes "next_label s < 2 ^ 32"
  shows "\<exists>pc l s'. fresh_resume_target s = Some (pc, l, s') \<and> spends 1 s s'"
  using fresh_label_total [of "s\<lparr>next_resume_pc := next_resume_pc s + 1\<rparr>"] assms
  by (auto simp: fresh_resume_target_def spends_def next_label_def)

lemma delegate_labels_total:
  assumes "next_label s + 12 \<le> 2 ^ 32"
  shows "\<exists>L s'. fresh_delegate_labels s = Some (L, s') \<and> spends 12 s s'"
proof -
  obtain ls s' where "st_map (\<lambda>_. fresh_label) (replicate 12 ()) s = Some (ls, s')" "spends 12 s s'"
    using fresh_labels_total [of s "replicate 12 ()"] assms by auto
  then show ?thesis
    by (fastforce simp: fresh_delegate_labels_def numeral_eq_Suc bind_eq_Some_conv)
qed

lemma temp_spends: "spends 0 s (snd (fresh_temp p s))"
  by (simp add: fresh_temp_def next_tmp_name_def spends_def next_label_def split: prod.split)

lemma delegate_temps_spends: "spends 0 s (snd (fresh_delegate_temps s))"
proof -
  let ?t = "\<lambda>p s. snd (fresh_temp p s)"
  have "snd (fresh_delegate_temps s) =
      ?t ''yield_from_exc'' (?t ''yield_from_close'' (?t ''yield_from_throw'' (?t ''yield_from_value'' s)))"
    by (simp add: fresh_delegate_temps_def case_prod_unfold Let_def)
  moreover have "spends (0 + 0 + 0 + 0) s
      (?t ''yield_from_exc'' (?t ''yield_from_close'' (?t ''yield_from_throw'' (?t ''yield_from_value'' s))))"
    by (rule spends_trans [OF spends_trans [OF spends_trans]], (rule temp_spends)+)
  ultimately show ?thesis by simp
qed

lemma push_spends [simp]: "spends k s (push_block b x s') \<longleftrightarrow> spends k s s'"
  by (simp add: spends_def next_label_def)

lemma push_blocks_spends [simp]: "spends k s (push_blocks bs s') \<longleftrightarrow> spends k s s'"
proof (induction bs arbitrary: s')
  case (Cons c bs)
  have "push_blocks (c # bs) s' = push_blocks bs (push_block (fst c) (snd c) s')"
    by (simp add: push_blocks_def case_prod_unfold)
  then show ?case by (simp only: Cons.IH push_spends)
qed (simp add: push_blocks_def)

section \<open>No panic\<close>

lemma emit_yield_total:
  assumes "yield_value_expr v \<noteq> None" "next_label s + 3 \<le> 2 ^ 32"
  shows "\<exists>s' l' es' t'. emit_yield l pre v dest es t ps x s = Some (s', l', es', t') \<and> spends 3 s s'"
proof -
  obtain v' where v: "yield_value_expr v = Some v'" using assms(1) by blast
  obtain pc r s1 where 1: "fresh_resume_target s = Some (pc, r, s1)" "spends 1 s s1"
    using fresh_target_total [of s] assms(2) by auto
  let ?s = "push_block (plain_block l (pre @ [internal_store_stmt ''_dp_pc'' (core_literal_int pc),
      internal_store_stmt ''_dp_yieldfrom'' core_none]) (Return v') ps) x s1"
  have 2: "spends 1 s ?s" using 1(2) by simp
  then obtain a s2 where 3: "fresh_label ?s = Some (a, s2)" "spends 1 ?s s2"
    using fresh_label_total [of ?s] assms(2) by (auto simp: spends_def)
  have 4: "spends 2 s s2" using spends_trans [OF 2 3(2)] by (simp add: numeral_eq_Suc)
  then obtain l' s3 where 5: "fresh_label s2 = Some (l', s3)" "spends 1 s2 s3"
    using fresh_label_total [of s2] assms(2) by (auto simp: spends_def)
  have "spends 3 s s3" using spends_trans [OF 4 5(2)] by (simp add: numeral_eq_Suc)
  with v 1(1) 3(1) 5(1) show ?thesis by (simp add: emit_yield_def emit_resume_after_yield_def)
qed

lemma emit_yield_from_total:
  assumes "lower_stmt_no_yield v \<noteq> None" "next_label s + 15 \<le> 2 ^ 32"
  shows "\<exists>s' l' es' t'. emit_yield_from_site l pre v dest es t ps x s = Some (s', l', es', t') \<and> spends 15 s s'"
proof -
  obtain v' where v: "lower_stmt_no_yield v = Some v'" using assms(1) by blast
  obtain pc d s1 where 1: "fresh_resume_target s = Some (pc, d, s1)" "spends 1 s s1"
    using fresh_target_total [of s] assms(2) by auto
  then obtain L s2 where 2: "fresh_delegate_labels s1 = Some (L, s2)" "spends 12 s1 s2"
    using delegate_labels_total [of s1] assms(2) by (auto simp: spends_def)
  obtain T s6 where 3: "fresh_delegate_temps s2 = (T, s6)" by fastforce
  let ?s = "push_block (plain_block l (pre @ [internal_store_stmt ''_dp_yieldfrom'' (core_call ''iter'' [v']),
      internal_store_stmt ''_dp_pc'' (core_literal_int pc)]) (Jump (edge_new d)) ps) x s6"
  have "spends 0 s2 s6" using delegate_temps_spends [of s2] by (simp add: 3)
  from spends_trans [OF spends_trans [OF 1(2) 2(2)] this] have 4: "spends 13 s ?s" by (simp add: numeral_eq_Suc)
  then obtain y s7 where 5: "fresh_label ?s = Some (y, s7)" "spends 1 ?s s7"
    using fresh_label_total [of ?s] assms(2) by (auto simp: spends_def)
  have 6: "spends 14 s s7" using spends_trans [OF 4 5(2)] by (simp add: numeral_eq_Suc)
  then obtain e s8 where 7: "fresh_label s7 = Some (e, s8)" "spends 1 s7 s8"
    using fresh_label_total [of s7] assms(2) by (auto simp: spends_def)
  have "spends 15 s s8" using spends_trans [OF 6 7(2)] by (simp add: numeral_eq_Suc)
  with v 1(1) 2(1) 3 5(1) 7(1) show ?thesis by (simp add: emit_yield_from_site_def)
qed

lemma emit_yield_site_total:
  assumes "site_lowers site" "next_label s + 15 \<le> 2 ^ 32"
  shows "\<exists>s' l' es' t'. emit_yield_site l pre site es t ps x s = Some (s', l', es', t') \<and> spends 15 s s'"
proof -
  have less: "next_label s + 3 \<le> 2 ^ 32" using assms(2) by simp
  show ?thesis
    using assms emit_yield_total [OF _ less] emit_yield_from_total [OF _ assms(2)]
    by (cases site) (fastforce simp: emit_yield_site_def elim: spends_mono)+
qed

lemma stores_lower [simp]: "stmt_lowers (y_store n (y_name m))" "stmt_lowers (y_store n y_none)"
  by (simp_all add: stmt_lowers_def y_store_def y_name_def y_none_def lower_stmt_no_yield_def no_yield_def
      err_on_yield.simps [of "YOp m op" for m op] res_map_def res_bind_def)

lemma emit_yield_site_tail:
  assumes "emit_yield_site l pre site es t ps x s = Some (s', l', es', t')" "list_all stmt_lowers es" "term_lowers t"
  shows "list_all stmt_lowers es' \<and> term_lowers t'"
proof -
  have names: "term_lowers (Return (y_name n))" for n
    by (simp add: term_lowers_def y_name_def lower_stmt_no_yield_def no_yield_def
        err_on_yield.simps [of "YOp m op" for m op] res_map_def res_bind_def)
  have plain: "list_all stmt_lowers fs' \<and> term_lowers u'"
    if "emit_yield l pre v dest fs u ps x s = Some (s', l', fs', u')" "list_all stmt_lowers fs" "term_lowers u" for v dest fs u fs' u'
    using that by (auto simp: emit_yield_def emit_resume_after_yield_def bind_eq_Some_conv split: option.splits)
  have delegate: "list_all stmt_lowers fs' \<and> term_lowers u'"
    if "emit_yield_from_site l pre v dest fs u ps x s = Some (s', l', fs', u')" "list_all stmt_lowers fs" "term_lowers u" for v dest fs u fs' u'
    by (rule emit_yield_from_SomeE [OF that(1)]) (use that(2,3) in \<open>simp split: option.split\<close>)
  have nil: "list_all stmt_lowers []" by simp
  note cases = plain [OF _ assms(2,3)] plain [OF _ nil names] delegate [OF _ assms(2,3)] delegate [OF _ nil names]
  show ?thesis using assms(1) by (cases site) (simp_all add: emit_yield_site_def cases)
qed

lemma next_site_lowers:
  assumes "next_site es t = Some (pre, site, post, t')" "list_all stmt_lowers es" "term_lowers t"
  shows "(\<exists>pre'. opt_map lower_stmt_no_yield pre = Some pre') \<and> site_lowers site \<and> list_all stmt_lowers post \<and> term_lowers t'"
proof -
  have prefix: "\<exists>fs'. opt_map lower_stmt_no_yield fs = Some fs'"
    if "list_all stmt_lowers fs" "list_all (\<lambda>e. stmt_yield_site e = None) fs" for fs
    using that opt_map_defined [of lower_stmt_no_yield fs] by (auto simp: list_all_iff stmt_lowers_def split: option.splits)
  have none: "term_lowers (Return y_none)"
    by (simp add: term_lowers_def y_none_def lower_stmt_no_yield_def no_yield_def
        err_on_yield.simps [of "YOp m op" for m op] res_map_def res_bind_def)
  show ?thesis
  proof (cases "first_site es")
    case None
    with assms none prefix [of es] show ?thesis
      by (auto simp: next_site_def term_lowers_def first_site_None)
  next
    case (Some r)
    with assms(1) have "first_site es = Some (pre, site, post)" "t' = t" by (cases r, simp add: next_site_def)+
    from first_site_Some [OF this(1)] this(2) assms(2,3) prefix [of pre] show ?thesis
      by (auto simp: stmt_lowers_def)
  qed
qed

lemma lower_last_total:
  assumes "next_site es t = None" "list_all stmt_lowers es" "term_lowers t" "rs_kind s \<noteq> KFunction" "next_label s < 2 ^ 32"
  shows "\<exists>s'. lower_last_fragment l es t ps x s = Some s' \<and> spends 1 s s'"
proof -
  have none: "list_all (\<lambda>e. stmt_yield_site e = None) es" "term_yield_site t = None"
    using assms(1) by (auto simp: next_site_def first_site_None split: option.splits)
  then obtain es' where es: "opt_map lower_stmt_no_yield es = Some es'"
    using assms(2) opt_map_defined [of lower_stmt_no_yield es] by (auto simp: list_all_iff stmt_lowers_def)
  show ?thesis
  proof (cases "\<exists>v. t = Return v")
    case True
    with none(2) assms(3) obtain v v' where t: "t = Return v" "lower_stmt_no_yield v = Some v'"
      by (auto simp: term_lowers_def)
    obtain c s1 where 1: "fresh_label s = Some (c, s1)" "spends 1 s s1" using fresh_label_total [OF assms(5)] by blast
    have "rs_kind s1 \<noteq> KFunction" using 1(2) assms(4) by (simp add: spends_def)
    then obtain ct where "completion_raise (rs_kind s1) (Some v') = Some ct"
      by (cases "rs_kind s1") (auto simp: completion_raise_def)
    with 1 es t show ?thesis by (simp add: lower_last_fragment_def push_completion_raise_block_def)
  next
    case False
    with none(2) assms(3) obtain t' where "lower_term_no_yield t = Some t'" by (cases t) (auto simp: term_lowers_def)
    with False es show ?thesis
      by (cases t) (auto simp: lower_last_fragment_def spends_def next_label_def)
  qed
qed

lemma fragment_total:
  assumes "list_all stmt_lowers es" "term_lowers t" "rs_kind s \<noteq> KFunction" "next_label s + 15 * sites es t + 1 \<le> 2 ^ 32"
  shows "\<exists>s'. lower_resume_fragment l es t ps x s = Some s' \<and> spends (15 * sites es t + 1) s s'"
  using assms
proof (induction l es t ps x s rule: lower_resume_fragment.induct)
  case (1 l es t ps x s)
  show ?case
  proof (cases "next_site es t")
    case None
    have "next_label s < 2 ^ 32" using "1.prems"(4) by simp
    then obtain s' where "lower_last_fragment l es t ps x s = Some s'" "spends 1 s s'"
      using lower_last_total [OF None "1.prems"(1-3)] by blast
    with None spends_mono [of 1 s s' "15 * sites es t + 1"] show ?thesis
      by (simp add: lower_resume_fragment.simps [of l es t])
  next
    case (Some r)
    obtain pre site post t1 where r: "next_site es t = Some (pre, site, post, t1)" using Some by (cases r) simp
    note less = next_site_less [OF r] and low = next_site_lowers [OF r "1.prems"(1,2)]
    then obtain pre' where pre: "opt_map lower_stmt_no_yield pre = Some pre'" by blast
    have "next_label s + 15 \<le> 2 ^ 32" using less "1.prems"(4) by simp
    then obtain s1 l1 es1 t2 where 2: "emit_yield_site l pre' site post t1 ps x s = Some (s1, l1, es1, t2)" "spends 15 s s1"
      using emit_yield_site_total [of site s] low by blast
    have lower: "list_all stmt_lowers es1" "term_lowers t2" using emit_yield_site_tail [OF 2(1)] low by blast+
    have sites: "15 * sites es1 t2 + 15 \<le> 15 * sites es t" using emit_tail [OF 2(1)] less by simp
    have "next_label s1 + 15 * sites es1 t2 + 1 \<le> 2 ^ 32" "rs_kind s1 \<noteq> KFunction"
      using 2(2) sites "1.prems"(3,4) by (simp_all add: spends_def)
    then obtain s' where 3: "lower_resume_fragment l1 es1 t2 ps x s1 = Some s'" "spends (15 * sites es1 t2 + 1) s1 s'"
      using "1.IH" [OF r refl refl refl pre 2(1) refl refl refl lower] by blast
    have "spends (15 * sites es t + 1) s s'"
      using spends_trans [OF 2(2) 3(2)] sites by (auto elim: spends_mono)
    with 3(1) show ?thesis by (auto simp: lower_resume_fragment.simps [of l es t] r pre 2(1))
  qed
qed

section \<open>Program counters\<close>

lemma fresh_target_pc: "fresh_resume_target s = Some (pc, l, s') \<Longrightarrow> next_resume_pc s' = Suc (next_resume_pc s)"
  by (auto simp: fresh_resume_target_def fresh_label_def bind_eq_Some_conv)

lemma push_blocks_pc [simp]: "next_resume_pc (push_blocks bs s) = next_resume_pc s"
  by (induction bs arbitrary: s) (auto simp: push_blocks_def)

lemma emit_yield_pc:
  assumes "emit_yield l pre v dest es t ps x s = Some (s', l', es', t')"
  shows "next_resume_pc s' = Suc (next_resume_pc s)"
  using assms by (auto simp: emit_yield_def emit_resume_after_yield_def bind_eq_Some_conv dest!: fresh_target_pc fresh_label_frame)

lemma emit_yield_from_pc:
  assumes "emit_yield_from_site l pre v dest es t ps x s = Some (s', e, es', t')"
  shows "next_resume_pc s' = Suc (next_resume_pc s)"
proof (rule emit_yield_from_SomeE [OF assms])
  fix pc d s1 L s2 v' T s6 y s7 s8
  assume a: "fresh_resume_target s = Some (pc, d, s1)" "fresh_delegate_labels s1 = Some (L, s2)" "fresh_delegate_temps s2 = (T, s6)"
    "fresh_label (push_block (plain_block l (pre @ [internal_store_stmt ''_dp_yieldfrom'' (core_call ''iter'' [v']),
       internal_store_stmt ''_dp_pc'' (core_literal_int pc)]) (Jump (edge_new d)) ps) x s6) = Some (y, s7)"
    "fresh_label s7 = Some (e, s8)" "s' = push_blocks (delegate_blocks L pc d y e T ps x) s8"
  have "next_resume_pc (snd (fresh_temp p u)) = next_resume_pc u" for p u
    by (simp add: fresh_temp_def split: prod.split)
  then have "next_resume_pc (snd (fresh_delegate_temps s2)) = next_resume_pc s2"
    by (simp add: fresh_delegate_temps_def case_prod_unfold Let_def)
  moreover have many: "next_resume_pc u' = next_resume_pc u" if "st_map (\<lambda>_. fresh_label) xs u = Some (ls, u')" for xs ls u u'
    using that by (induction xs arbitrary: ls u) (auto simp: bind_eq_Some_conv dest!: fresh_label_frame)
  have "next_resume_pc s2 = next_resume_pc s1" by (rule many [OF delegate_labels_fresh [OF a(2)]])
  ultimately show ?thesis
    using a by (auto dest!: fresh_target_pc fresh_label_frame)
qed

lemma emit_site_pc:
  "emit_yield_site l pre site es t ps x s = Some (s', l', es', t') \<Longrightarrow> next_resume_pc s' = Suc (next_resume_pc s)"
  by (cases site) (auto simp: emit_yield_site_def dest: emit_yield_pc emit_yield_from_pc)

lemma emit_site_sites:
  assumes "next_site es t = Some (pre, site, post, t1)" "emit_yield_site l pre' site post t1 ps x s = Some (s', l', es', t')"
  shows "sites es t = Suc (sites es' t')"
proof (cases "first_site es")
  case None
  then have "map_option (\<lambda>site. (es, site, [], Return y_none)) (term_yield_site t) = Some (pre, site, post, t1)"
    using assms(1) by (simp add: next_site_def)
  moreover have "list_all (\<lambda>e. stmt_yield_site e = None) es" using None by (simp add: first_site_None)
  ultimately have "post = []" "t1 = Return y_none" "sites es t = 1"
    by (auto simp: sites_def list_all_iff filter_empty_conv)
  then show ?thesis using emit_tail [OF assms(2)] by (simp add: sites_def)
next
  case (Some r)
  with assms(1) have f: "first_site es = Some (pre, site, post)" "t1 = t" by (cases r, simp add: next_site_def)+
  from first_site_Some [OF f(1)] obtain e where e: "es = pre @ e # post" "stmt_yield_site e = Some site"
    "list_all (\<lambda>e. stmt_yield_site e = None) pre" by blast
  then have "sites es t = Suc (sites post t)" by (simp add: sites_def list_all_iff)
  moreover have "sites es' t' = sites post t1"
    using assms(2) e(2)
    by (cases e rule: stmt_yield_site.cases) (auto simp: emit_yield_site_def dest!: emit_yield_tail emit_yield_from_tail)
  ultimately show ?thesis by (simp add: f(2))
qed

lemma lower_last_pc: "lower_last_fragment l es t ps x s = Some s' \<Longrightarrow> next_resume_pc s' = next_resume_pc s"
  by (cases t) (auto simp: lower_last_fragment_def push_completion_raise_block_def bind_eq_Some_conv dest!: fresh_label_frame)

lemma fragment_pc:
  "lower_resume_fragment l es t ps x s = Some s' \<Longrightarrow> next_resume_pc s' = next_resume_pc s + sites es t"
proof (induction l es t ps x s rule: lower_resume_fragment.induct)
  case (1 l es t ps x s)
  show ?case
  proof (cases "next_site es t")
    case None
    then have "sites es t = 0"
      by (auto simp: next_site_def sites_def first_site_None list_all_iff filter_empty_conv split: option.splits)
    with None "1.prems" lower_last_pc show ?thesis by (simp add: lower_resume_fragment.simps [of l es t])
  next
    case (Some r)
    obtain pre site post t1 where r: "next_site es t = Some (pre, site, post, t1)" using Some by (cases r) simp
    with "1.prems" obtain pre' s1 l1 es1 t2 where d: "opt_map lower_stmt_no_yield pre = Some pre'"
      "emit_yield_site l pre' site post t1 ps x s = Some (s1, l1, es1, t2)"
      "lower_resume_fragment l1 es1 t2 ps x s1 = Some s'"
      by (auto simp: lower_resume_fragment.simps [of l es t] bind_eq_Some_conv)
    from "1.IH" [OF r refl refl refl d(1,2) refl refl refl d(3)] emit_site_pc [OF d(2)] emit_site_sites [OF r d(2)]
    show ?thesis by simp
  qed
qed

section \<open>The resume function\<close>

definition yield_count :: "(y_expr, y_expr) block list \<Rightarrow> nat" where
  "yield_count bs = sum_list (map (\<lambda>b. sites (body b) (bterm b)) bs)"

lemma relabel_keeps_sites:
  assumes "relabel_targets m t = Some t'"
  shows "sites es t' = sites es t" "term_exprs t' = term_exprs t"
  using assms by (cases "(m, t)" rule: relabel_targets.cases; auto simp: sites_def bind_eq_Some_conv)+

lemma explicit_lowers:
  assumes "explicit_block b" "relabel_targets m (bterm b) = Some t"
  shows "list_all stmt_lowers (body b)" "term_lowers t"
proof -
  show "list_all stmt_lowers (body b)"
    using assms(1) explicit_stmt_lowers by (auto simp: explicit_block_def list_all_iff)
  have free: "list_all (\<lambda>e. \<not> expr_contains_yield e) (term_exprs t)"
    using assms(1) relabel_keeps_sites(2) [OF assms(2)] by (simp add: explicit_block_def)
  then have "term_yield_site t = None"
    by (cases t rule: term_yield_site.cases)
      (auto simp: contains_yield_rec [of "YYield m v" for m v] contains_yield_rec [of "YYieldFrom m v" for m v])
  with free lower_term_ok [OF free] lower_stmt_ok show "term_lowers t"
    by (cases t) (auto simp: term_lowers_def)
qed

lemma queue_total:
  assumes "list_all explicit_block bs" "\<And>b. b \<in> set bs \<Longrightarrow> relabel_block m b \<noteq> None" "rs_kind s \<noteq> KFunction"
    and "next_label s + 15 * yield_count bs + length bs \<le> 2 ^ 32"
  shows "\<exists>s'. lower_resume_queue m x bs s = Some s' \<and> spends (15 * yield_count bs + length bs) s s' \<and>
    next_resume_pc s' = next_resume_pc s + yield_count bs"
  using assms
proof (induction bs arbitrary: s)
  case (Cons b bs)
  have "relabel_block m b \<noteq> None" by (rule Cons.prems(2)) simp
  then obtain l t where b: "m (label b) = Some l" "relabel_targets m (bterm b) = Some t"
    by (auto simp: relabel_block_def bind_eq_Some_conv)
  let ?k = "15 * sites (body b) (bterm b) + 1" and ?ps = "generator_resume_declared_params (rs_kind s) (params b)"
  have "explicit_block b" using Cons.prems(1) by simp
  moreover have "next_label s + 15 * sites (body b) t + 1 \<le> 2 ^ 32"
    using Cons.prems(4) relabel_keeps_sites(1) [OF b(2)] by (simp add: yield_count_def)
  ultimately obtain s1 where 1: "lower_resume_fragment l (body b) t ?ps (unwrap_or None (x l)) s = Some s1" "spends ?k s s1"
    using fragment_total [OF explicit_lowers [OF _ b(2)] Cons.prems(3)] relabel_keeps_sites(1) [OF b(2)] by metis
  have pc: "next_resume_pc s1 = next_resume_pc s + sites (body b) (bterm b)"
    using fragment_pc [OF 1(1)] relabel_keeps_sites(1) [OF b(2)] by simp
  have "next_label s1 + 15 * yield_count bs + length bs \<le> 2 ^ 32" "rs_kind s1 \<noteq> KFunction"
    using 1(2) Cons.prems(3,4) by (simp_all add: spends_def yield_count_def)
  then obtain s' where 2: "lower_resume_queue m x bs s1 = Some s'" "spends (15 * yield_count bs + length bs) s1 s'"
    "next_resume_pc s' = next_resume_pc s1 + yield_count bs"
    using Cons.IH [of s1] Cons.prems(1,2) by auto
  have "spends (15 * yield_count (b # bs) + length (b # bs)) s s'"
    using spends_trans [OF 1(2) 2(2)] by (rule spends_mono) (simp add: yield_count_def)
  with 1(1) 2 b pc show ?case by (auto simp: lower_resume_block_def yield_count_def)
qed (simp add: spends_def yield_count_def)

end
