(* ===== verification/Resume_Closed.thy ===== *)
theory Resume_Closed
  imports Resume_Total
begin

text \<open>
  The resume function as a whole: \<open>lower_resume_blocks\<close> does not panic on the functions that the
  evaluation-order pass returns, and its blocks form a closed program whose entry block has one
  target per yield.
\<close>

definition resume_ready :: "y_expr bp_function \<Rightarrow> function_name_gen \<Rightarrow> bool" where
  "resume_ready f g \<longleftrightarrow>
     is_generator_like (fn_kind f) \<and> fn_blocks f \<noteq> [] \<and> distinct (map label (fn_blocks f)) \<and>
     list_all (\<lambda>b. block_targets b \<subseteq> set (map label (fn_blocks f))) (fn_blocks f) \<and>
     unat (next_block_id g) + 2 * length (fn_blocks f) + 15 * yield_count (fn_blocks f) + 2 \<le> 2 ^ 32"

definition resume_table :: "(core, core) block \<Rightarrow> block_label list option" where
  "resume_table b =
     (case bterm b of BranchTable i ls d \<Rightarrow> (if i = core_name ''_dp_pc'' \<and> ls \<noteq> [] \<and> hd ls = d then Some ls else None)
      | _ \<Rightarrow> None)"

text \<open>What the caller relies on: the labels are distinct, no edge leaves the function, and the first
  block is the entry block, which branches on the program counter.\<close>

definition resume_program :: "nat \<Rightarrow> (core, core) block list \<times> (block_label \<rightharpoonup> block_label option) \<times> block_label \<times> function_name_gen \<Rightarrow> bool" where
  "resume_program n r =
     (case r of (bs, x, entry, g) \<Rightarrow>
        distinct (map label bs) \<and> list_all (\<lambda>b. block_targets b \<subseteq> set (map label bs)) bs \<and>
        list_all (\<lambda>b. x (label b) = Some (map_option target (exc_edge b))) bs \<and>
        label (hd bs) = entry \<and> map_option length (resume_table (hd bs)) = Some (n + 2))"

lemma resume_relabel_map:
  assumes "distinct (map label bs)" "length ls = length bs"
  shows "map (resume_relabel bs ls \<circ> label) bs = map Some ls" "ran (resume_relabel bs ls) = set ls"
proof -
  have m: "resume_relabel bs ls = map_of (zip (map label bs) ls)"
    using assms unfolding resume_relabel_def by (intro map_of_rev_distinct) simp
  show "map (resume_relabel bs ls \<circ> label) bs = map Some ls"
    unfolding m using assms map_of_zip_nth [of "map label bs" ls] by (intro nth_equalityI) auto
  show "ran (resume_relabel bs ls) = set ls"
    unfolding m using assms by (simp add: ran_map_of_zip)
qed

lemma remapped_edges:
  assumes "distinct (map label bs)" "\<And>b. b \<in> set bs \<Longrightarrow> block_targets b \<subseteq> dom m" "label ` set bs \<subseteq> dom m"
  obtains x where "remapped_exception_edges m bs = Some x" "\<And>l. set_option (unwrap_or None (x l)) \<subseteq> ran m"
proof -
  let ?f = "\<lambda>b. remapped_exception_edge m (label b, unwrap_or None (lowered_exception_edges bs (label b)))"
  have "?f b \<noteq> None" if b: "b \<in> set bs" for b
  proof -
    obtain l where l: "m (label b) = Some l" using b assms(3) by blast
    have t: "\<exists>l'. m (target e) = Some l'" if "exc_edge b = Some e" for e
      using assms(2) [OF b] that by (auto simp: block_targets_def)
    show ?thesis
      using l t lowered_exception_edges_label [OF assms(1) b]
      by (cases "exc_edge b") (auto simp: remapped_exception_edge_def)
  qed
  then have "opt_map ?f bs \<noteq> None" by (intro iffD2 [OF opt_map_defined] ballI)
  then obtain xs where xs: "opt_map ?f bs = Some xs" by (rule not_None_eq [THEN iffD1, THEN exE])
  have edge: "set_option (snd z) \<subseteq> ran m" if "remapped_exception_edge m w = Some z" for w z
    using that ranI [of m] by (auto simp: remapped_exception_edge_def bind_eq_Some_conv split: option.splits)
  have "set_option (snd y) \<subseteq> ran m" if "y \<in> set xs" for y
    using opt_map_set [OF xs that] edge by blast
  then have "set_option (unwrap_or None (map_of xs l)) \<subseteq> ran m" for l
    by (cases "map_of xs l") (use map_of_SomeD [of xs l] in \<open>fastforce\<close>)+
  with xs that [of "map_of xs"] show thesis by (simp add: remapped_exception_edges_def)
qed

lemma declared_indices_defined:
  assumes "label ` set bs \<subseteq> dom m"
  shows "\<exists>i. declared_param_indices_by_label k m bs = Some i"
proof -
  have "opt_map (\<lambda>b. do { l \<leftarrow> m (label b); Some (l, generator_resume_declared_param_indices k (params b)) }) bs \<noteq> None"
    using assms by (subst opt_map_defined) (auto simp: bind_eq_None_conv)
  then show ?thesis by (auto simp: declared_param_indices_by_label_def)
qed

lemma resume_start:
  assumes "resume_state_new g k i = Some s" "next_block_names n g0 = Some (ls, g)" "e \<in> set ls"
  shows "resume_inv (set ls) (insert (exhausted_label s) (set ls)) (s\<lparr>resume_targets := [(1, e)]\<rparr>)"
    "exhausted_label s \<notin> set ls" "rs_kind s = k" "next_label s = unat (next_block_id g) + 1" "next_resume_pc s = 2"
proof -
  obtain l g' where l: "next_block_name g = Some (l, g')" and s: "s = \<lparr>rs_kind = k, rs_gen = g', next_resume_pc = 2,
      rs_blocks = [], rs_exc_edges = Map.empty, target_arg_indices = i, resume_targets = [], exhausted_label = l\<rparr>"
    using assms(1) by (auto simp: resume_state_new_def bind_eq_Some_conv)
  have "label_index ` set ls \<subseteq> {..<unat (next_block_id g)}"
    using next_block_names_Some [OF assms(2)] by (metis atLeastLessThan_iff lessThan_iff list.set_map set_upt subsetI)
  then have ls: "set ls \<subseteq> issued g" by (auto simp: issued_def)
  note fresh = next_block_name_fresh [OF l] next_block_name_Some(2) [OF l]
  have two: "[1..<2] = [1]" by (simp add: upt_rec)
  show "resume_inv (set ls) (insert (exhausted_label s) (set ls)) (s\<lparr>resume_targets := [(1, e)]\<rparr>)"
    using ls fresh assms(3) two by (auto simp: resume_inv_def block_labels_def s)
  show "exhausted_label s \<notin> set ls" using ls fresh by (auto simp: s)
qed (use assms(1) in \<open>auto simp: resume_state_new_def next_label_def bind_eq_Some_conv dest: next_block_name_Some(2)\<close>)

lemma attach_sel [simp]:
  "map label (attach_exception_edges_to_blocks bs x) = map label bs"
  by (simp add: attach_exception_edges_to_blocks_def)

lemma attached_block:
  "b \<in> set (attach_exception_edges_to_blocks bs x) \<Longrightarrow>
     \<exists>c\<in>set bs. b = c\<lparr>exc_edge := map_option edge_new (unwrap_or None (x (label c)))\<rparr>"
  by (auto simp: attach_exception_edges_to_blocks_def)

lemma resume_relabel_dom:
  assumes "distinct (map label bs)" "length ls = length bs"
  shows "dom (resume_relabel bs ls) = label ` set bs"
proof -
  have "length (map label bs) = length ls" using assms(2) by simp
  then show ?thesis using assms(1) unfolding resume_relabel_def by (simp add: map_of_rev_distinct dom_map_of_zip)
qed

lemma relabel_ready:
  assumes "resume_ready f g" "m = resume_relabel (fn_blocks f) ls" "length ls = length (fn_blocks f)" "b \<in> set (fn_blocks f)"
  shows "relabel_block m b \<noteq> None" "label b \<in> dom m" "block_targets b \<subseteq> dom m"
proof -
  have d: "distinct (map label (fn_blocks f))" "block_targets b \<subseteq> label ` set (fn_blocks f)"
    using assms(1,4) by (auto simp: resume_ready_def list_all_iff)
  have "dom m = label ` set (fn_blocks f)" unfolding assms(2) by (rule resume_relabel_dom [OF d(1) assms(3)])
  then show "label b \<in> dom m" "block_targets b \<subseteq> dom m" using d(2) assms(4) by auto
  then show "relabel_block m b \<noteq> None" unfolding relabel_block_defined by blast
qed

text \<open>The blocks of the resume function, once all pieces are there.\<close>

definition resume_function_blocks :: "resume_state \<Rightarrow> block_label \<Rightarrow> core block_term \<Rightarrow> (core, core) block list" where
  "resume_function_blocks s d t =
     plain_block d [] (BranchTable (core_name ''_dp_pc'') (dispatch_targets s) (exhausted_label s)) [] #
     rs_blocks s @ [plain_block (exhausted_label s) [] t []]"

lemma assembled_program:
  assumes "resume_inv K {exhausted_label s} s" "K \<subseteq> block_labels s" "d \<notin> insert (exhausted_label s) (block_labels s)"
    and "1 < next_resume_pc s" "successors t = []"
    and "x = (rs_exc_edges s)(d \<mapsto> None, exhausted_label s \<mapsto> None)"
  shows "resume_program (next_resume_pc s - 2) (attach_exception_edges_to_blocks (resume_function_blocks s d t) x, x, d, g)"
proof -
  let ?bs = "resume_function_blocks s d t" and ?T = "attach_exception_edges_to_blocks (resume_function_blocks s d t) x"
  let ?e = "exhausted_label s" and ?L = "insert d (insert (exhausted_label s) (block_labels s))"
  have labels: "map label ?bs = d # map label (rs_blocks s) @ [?e]" by (simp add: resume_function_blocks_def)
  have set: "set (map label ?T) = ?L" unfolding attach_sel labels by (auto simp: block_labels_def)
  have inv: "distinct (map label (rs_blocks s))" "?e \<notin> block_labels s"
    "\<And>b. b \<in> set (rs_blocks s) \<Longrightarrow> goes_to s b \<subseteq> ?L" "\<And>b. b \<in> set (rs_blocks s) \<Longrightarrow> rs_exc_edges s (label b) \<noteq> None"
    "map fst (resume_targets s) = [1..<next_resume_pc s]" "snd ` set (resume_targets s) \<subseteq> ?L"
    using assms(1,2) unfolding resume_inv_def by blast+
  have table: "dispatch_targets s = ?e # map snd (resume_targets s)" by (rule dispatch_targets_eq [OF inv(5) assms(4)])
  have "length (resume_targets s) = next_resume_pc s - 1" using inv(5) by (metis length_map length_upt)
  then have len: "length (dispatch_targets s) = Suc (next_resume_pc s - 1)" by (simp add: table)
  have old: "x (label b) = rs_exc_edges s (label b)" if "b \<in> set (rs_blocks s)" for b
  proof -
    have "label b \<in> block_labels s" using that by (simp add: block_labels_def)
    with assms(3) inv(2) have "label b \<noteq> d" "label b \<noteq> ?e" by auto
    then show ?thesis by (simp add: assms(6))
  qed
  have ends: "x d = Some None" "x ?e = Some None" using assms(3) by (auto simp: assms(6))
  have edge: "set (successors (bterm b)) \<subseteq> ?L \<and> (\<exists>t. x (label b) = Some t \<and> set_option t \<subseteq> ?L)" if b: "b \<in> set ?bs" for b
  proof -
    consider "b = plain_block d [] (BranchTable (core_name ''_dp_pc'') (dispatch_targets s) ?e) []"
      | "b \<in> set (rs_blocks s)" | "b = plain_block ?e [] t []"
      using b by (auto simp: resume_function_blocks_def)
    then show ?thesis
    proof cases
      case 1
      then show ?thesis using ends inv(6) by (simp add: table)
    next
      case 2
      from inv(4) [OF 2] obtain u where u: "rs_exc_edges s (label b) = Some u" by blast
      with inv(3) [OF 2] have "set (successors (bterm b)) \<subseteq> ?L" "set_option u \<subseteq> ?L" by (simp_all add: goes_to_def)
      then show ?thesis using old [OF 2] u by simp
    next
      case 3
      then show ?thesis using ends assms(5) by simp
    qed
  qed
  have "block_targets b \<subseteq> set (map label ?T) \<and> x (label b) = Some (map_option target (exc_edge b))" if b: "b \<in> set ?T" for b
  proof -
    obtain c where c: "c \<in> set ?bs" "b = c\<lparr>exc_edge := map_option edge_new (unwrap_or None (x (label c)))\<rparr>"
      using attached_block [OF b] by blast
    obtain u where "set (successors (bterm c)) \<subseteq> ?L" "x (label c) = Some u" "set_option u \<subseteq> ?L" using edge [OF c(1)] by blast
    then show ?thesis unfolding set c(2) by (cases u) (auto simp: block_targets_def edge_new_def)
  qed
  moreover have "distinct (map label ?T)" unfolding attach_sel labels
    using inv(1,2) assms(3) by (auto simp: block_labels_def)
  moreover have "label (hd ?T) = d" by (simp add: resume_function_blocks_def attach_exception_edges_to_blocks_def)
  moreover have "resume_table (hd ?T) = Some (dispatch_targets s)"
    by (simp add: resume_function_blocks_def attach_exception_edges_to_blocks_def resume_table_def table)
  ultimately have "resume_program (length (dispatch_targets s) - 2) (?T, x, d, g)" using len assms(4)
    unfolding resume_program_def list_all_iff prod.case by fastforce
  then show ?thesis using len assms(4) by simp
qed

text \<open>The steps of the lowering, and what each leaves.\<close>

lemma lower_resume_steps:
  assumes ready: "resume_ready f g" and explicit: "list_all explicit_block (fn_blocks f)"
  obtains ls m x P s1 s2 d t g2 b e where
    "map (m \<circ> label) (fn_blocks f) = map Some ls" "distinct ls" "dom m = label ` set (fn_blocks f)" "ran m = set ls"
    "remapped_exception_edges m (fn_blocks f) = Some x" "\<And>l. set_option (unwrap_or None (x l)) \<subseteq> ran m"
    "resume_inv (set ls) P s1" "set ls \<subseteq> P" "lower_resume_queue m x (fn_blocks f) s1 = Some s2"
    "resume_inv (set ls) {exhausted_label s2} s2" "set ls \<subseteq> block_labels s2"
    "d \<notin> insert (exhausted_label s2) (block_labels s2)" "next_resume_pc s2 = yield_count (fn_blocks f) + 2"
    "completion_raise (fn_kind f) None = Some t" "rs_kind s2 = fn_kind f"
    "entry_block f = Some b" "m (label b) = Some e" "(1, e) \<in> set (resume_targets s2)"
    "lower_resume_blocks f g =
       Some (attach_exception_edges_to_blocks (resume_function_blocks s2 d t)
               ((rs_exc_edges s2)(d \<mapsto> None, exhausted_label s2 \<mapsto> None)),
             (rs_exc_edges s2)(d \<mapsto> None, exhausted_label s2 \<mapsto> None), d, g2)"
    "target_arg_indices s2 = target_arg_indices s1" "declared_param_indices_by_label (fn_kind f) m (fn_blocks f) = Some (target_arg_indices s1)"
proof -
  let ?bs = "fn_blocks f"
  have gen: "is_generator_like (fn_kind f)" "?bs \<noteq> []" "distinct (map label ?bs)"
    and room: "unat (next_block_id g) + 2 * length ?bs + 15 * yield_count ?bs + 2 \<le> 2 ^ 32"
    using ready by (simp_all add: resume_ready_def)
  have "unat (next_block_id g) + length ?bs \<le> 2 ^ 32" using room by simp
  then obtain ls g1 where ls: "next_block_names (length ?bs) g = Some (ls, g1)"
    using next_block_names_defined by fastforce
  note idx = next_block_names_Some [OF ls]
  have "length (map label_index ls) = length ?bs" using idx by simp
  then have len: "length ls = length ?bs" by simp
  have "distinct (map label_index ls)" using idx by simp
  then have dls: "distinct ls" by (simp add: distinct_map)
  define m where "m = resume_relabel ?bs ls"
  note rel = relabel_ready [OF ready m_def len]
  note map = resume_relabel_map [OF gen(3) len, folded m_def]
  have dom: "label ` set ?bs \<subseteq> dom m" using rel(2) by blast
  obtain i where i: "declared_param_indices_by_label (fn_kind f) m ?bs = Some i" using declared_indices_defined [OF dom] by blast
  obtain x where x: "remapped_exception_edges m ?bs = Some x" "\<And>l. set_option (unwrap_or None (x l)) \<subseteq> ran m"
    using remapped_edges [OF gen(3) rel(3) dom] by blast
  obtain b where b: "entry_block f = Some b" "b \<in> set ?bs" using gen(2) by (cases ?bs) (auto simp: entry_block_def)
  then obtain e where e: "m (label b) = Some e" "e \<in> set ls" using dom map(2) ranI [of m] by fastforce
  have "unat (next_block_id g1) < 2 ^ 32" using idx room by simp
  then obtain s0 where s0: "resume_state_new g1 (fn_kind f) i = Some s0"
    using next_block_name_panics [of g1] by (auto simp: resume_state_new_def)
  let ?s1 = "s0\<lparr>resume_targets := [(1, e)]\<rparr>"
  note start = resume_start [OF s0 ls e(2)]
  have "rs_kind ?s1 \<noteq> KFunction" using start(3) gen(1) by (auto simp: is_generator_like_def)
  moreover have "next_label ?s1 + 15 * yield_count ?bs + length ?bs \<le> 2 ^ 32"
    using start(4) idx room by (simp add: next_label_def)
  ultimately obtain s2 where s2: "lower_resume_queue m x ?bs ?s1 = Some s2"
    "spends (15 * yield_count ?bs + length ?bs) ?s1 s2" "next_resume_pc s2 = next_resume_pc ?s1 + yield_count ?bs"
    using queue_total [OF explicit rel(1), of ?s1 x] by blast
  have inv: "resume_inv (set ls) (insert (exhausted_label s0) (set ls) - set ls) s2 \<and> grows ?s1 s2 \<and> set ls \<subseteq> block_labels s2"
    by (rule queue_inv [OF start(1) map(1) dls _ _ _ s2(1)]) (use map(2) x(2) in auto)
  have "insert (exhausted_label s0) (set ls) - set ls = {exhausted_label s0}" using start(2) by auto
  moreover have ex: "exhausted_label s2 = exhausted_label s0" "rs_kind s2 = fn_kind f"
    using inv start(3) by (simp_all add: grows_def)
  ultimately have inv2: "resume_inv (set ls) {exhausted_label s2} s2" using inv by simp
  have "next_label s2 < 2 ^ 32" using s2(2) start(4) idx room by (simp add: spends_def next_label_def)
  then obtain d s3 where d: "fresh_label s2 = Some (d, s3)" using fresh_label_total by blast
  note inv3 = fresh_label_inv [OF inv2 d]
  from d obtain g2 where s3: "s3 = s2\<lparr>rs_gen := g2\<rparr>" by (auto simp: fresh_label_def bind_eq_Some_conv)
  obtain t where t: "completion_raise (rs_kind s3) None = Some t"
    using gen(1) ex(2) by (cases "rs_kind s2") (auto simp: completion_raise_def is_generator_like_def s3)
  let ?x = "(rs_exc_edges s2)(d \<mapsto> None, exhausted_label s2 \<mapsto> None)"
  let ?r = "(attach_exception_edges_to_blocks (resume_function_blocks s2 d t) ?x, ?x, d, g2)"
  have "dispatch_targets s3 = dispatch_targets s2" by (simp add: dispatch_targets_def s3)
  then have "lower_resume_blocks f g = Some ?r"
    using ls i x(1) b(1) e(1) s0 s2(1) d t by (simp add: lower_resume_blocks_def m_def [symmetric] s3 resume_function_blocks_def Let_def)
  note result = this
  have f1: "(1, e) \<in> set (resume_targets s2)"
    by (rule target_grows [of _ ?s1]) (use inv in simp_all)
  have f2: "target_arg_indices s2 = target_arg_indices ?s1" using inv by (simp add: grows_def)
  have "target_arg_indices ?s1 = i" using s0 by (auto simp: resume_state_new_def bind_eq_Some_conv)
  with i have f3: "declared_param_indices_by_label (fn_kind f) m ?bs = Some (target_arg_indices ?s1)" by simp
  have f4: "set ls \<subseteq> insert (exhausted_label s0) (set ls)" by (rule subset_insertI)
  have f5: "next_resume_pc s2 = yield_count ?bs + 2" using s2(3) start(5) by simp
  have f6: "completion_raise (fn_kind f) None = Some t" using t ex(2) s3 by simp
  have f7: "d \<notin> insert (exhausted_label s2) (block_labels s2)" using inv3 by blast
  have f8: "set ls \<subseteq> block_labels s2" using inv by blast
  show thesis
    by (rule that [OF map(1) dls resume_relabel_dom [OF gen(3) len, folded m_def] map(2) x start(1) f4 s2(1) inv2 f8 f7 f5 f6 ex(2) b(1) e(1) f1 result f2 f3])
qed

lemma lower_resume_closed:
  assumes "resume_ready f g" "list_all explicit_block (fn_blocks f)"
  shows "\<exists>r. lower_resume_blocks f g = Some r \<and> resume_program (yield_count (fn_blocks f)) r"
  using assms
proof (rule lower_resume_steps)
  fix ls and s2 :: resume_state and d t g2
  let ?x = "(rs_exc_edges s2)(d \<mapsto> None, exhausted_label s2 \<mapsto> None)"
  assume a: "resume_inv (set ls) {exhausted_label s2} s2" "set ls \<subseteq> block_labels s2"
    "d \<notin> insert (exhausted_label s2) (block_labels s2)" "next_resume_pc s2 = yield_count (fn_blocks f) + 2"
    "completion_raise (fn_kind f) None = Some t"
    "lower_resume_blocks f g = Some (attach_exception_edges_to_blocks (resume_function_blocks s2 d t) ?x, ?x, d, g2)"
  have "resume_program (next_resume_pc s2 - 2) (attach_exception_edges_to_blocks (resume_function_blocks s2 d t) ?x, ?x, d, g2)"
    by (rule assembled_program [OF a(1-3)]) (use a(4) completion_successors [OF a(5)] in auto)
  with a(4,6) show ?thesis by simp
qed

text \<open>C4: For a generator, coroutine or async generator whose yields the evaluation-order pass has made
  explicit, with closed blocks and labels to spare, the lowering to a resume function does not panic: the
  blocks of the resume function have distinct labels, every branch, jump and exception edge stays in
  the function, and the first block branches on the program counter with one target per yield, one for the
  start and one for the finished generator.\<close>

theorem resume_function_closed:
  assumes "f = fst (make_eval_order_explicit_in_core_callable_def tm f0 c)" "resume_ready f g"
  shows "case lower_resume_blocks f g of None \<Rightarrow> False | Some r \<Rightarrow> resume_program (yield_count (fn_blocks f)) r"
  using lower_resume_closed [OF assms(2)] yields_explicit [of tm f0 c] by (auto simp: assms(1))

definition yielding_statement :: "y_expr bp_function" where
  "yielding_statement = one_statement (YYield (marked 2) (name_expr ''x''))"

lemma yielding_statement_explicit:
  "fn_blocks (fst (make_eval_order_explicit_in_core_callable_def synthetic yielding_statement 0)) = fn_blocks yielding_statement"
proof -
  have "make_eval_order_explicit_in_core_expr synthetic (YYield (marked 2) (name_expr ''x'')) s =
      (YYield (marked 2) (name_expr ''x''), s)" for s
    by (simp add: make_hoists [of _ "YYield _ _"] hoist_core_expr_if_contains_yield_def make_unchanged hoist_yield_def)
  then show ?thesis
    by (simp add: callable_blocks yielding_statement_def one_statement_def make_block_explicit_def
        make_eval_order_explicit_in_core_term_def append_stmt_cleanup_def
        hoist_core_expr_if_contains_yield_def make_unchanged hoist_yield_def)
qed

lemma yielding_statement_fixed: "fst (make_eval_order_explicit_in_core_callable_def synthetic yielding_statement 0) = yielding_statement"
proof -
  let ?f = "fst (make_eval_order_explicit_in_core_callable_def synthetic yielding_statement 0)"
  have "?f = yielding_statement\<lparr>fn_blocks := fn_blocks ?f\<rparr>"
    by (simp add: make_eval_order_explicit_in_core_callable_def_def split: prod.split)
  then show ?thesis unfolding yielding_statement_explicit by simp
qed

lemma yielding_statement_count: "yield_count (fn_blocks yielding_statement) = 1"
  by (simp add: yielding_statement_def one_statement_def yield_count_def sites_def name_expr_def)

lemma yielding_statement_resume_ready: "resume_ready yielding_statement (function_name_gen_new i)"
  unfolding resume_ready_def yielding_statement_count
  by (simp add: is_generator_like_def yielding_statement_def one_statement_def block_targets_def function_name_gen_new_def)

theorem resume_function_closed_witness:
  "case lower_resume_blocks (fst (make_eval_order_explicit_in_core_callable_def synthetic yielding_statement 0))
     (function_name_gen_new (function_id_new 0 1)) of None \<Rightarrow> False | Some r \<Rightarrow> resume_program 1 r"
  using resume_function_closed [OF refl, of synthetic yielding_statement 0 "function_name_gen_new (function_id_new 0 1)"]
  unfolding yielding_statement_fixed yielding_statement_count by (simp add: yielding_statement_resume_ready)

end
