(* ===== verification/Generators.thy ===== *)
theory Generators
  imports Generator_Layout Resume_Closed "HOL-Library.Multiset"
begin

text \<open>
  Generator lowering of functions and modules (\<open>lower_generator_like_function\<close> and
  \<open>lower_yield_in_lowered_core_blockpy_module_bundle\<close> of \<open>passes/blockpy_generators/mod.rs\<close>): a
  generator becomes the visible function, which makes the generator object, and the resume function;
  a plain function only changes its type. \<open>None\<close> is a panic. The counter of temporaries and the
  function numbers are threaded state.
\<close>

definition resume_names :: "function_name \<Rightarrow> function_name" where
  "resume_names ns =
     \<lparr>bind_name = bind_name ns @ ''_resume'', fn_name = ''_dp_resume'', display_name = display_name ns,
      qualname = qualname ns\<rparr>"

definition resume_scope :: "storage_layout \<Rightarrow> callable_scope_info \<Rightarrow> callable_scope_info" where
  "resume_scope l s =
     augment_resume_semantic_for_standard_name_binding
       (resume_closure_bindings s (ordered_resume_binding_logical_names (persistent_generator_state_order l))) s"

definition lower_generator_like_function ::
  "(string set \<Rightarrow> string list) \<Rightarrow> y_expr bp_function \<Rightarrow> module_name_gen \<Rightarrow> (core bp_function list \<times> module_name_gen) option" where
  "lower_generator_like_function order f mg =
     (if \<not> is_generator_like (fn_kind f) then None
      else do {
        (g, mg') \<leftarrow> Some (next_function_name_gen mg);
        let l = build_generator_storage_layout order f;
        (bs, x, entry, g') \<leftarrow> lower_resume_blocks f g;
        factory \<leftarrow> build_factory_block (fn_names f) (gen_function_id g) (fn_kind f);
        let r = \<lparr>fn_id = gen_function_id g, fn_name_gen = g', fn_names = resume_names (fn_names f), fn_kind = KFunction,
                 fn_params = resume_param_spec (fn_kind f), fn_blocks = bs, fn_doc = None, fn_layout = None,
                 fn_scope = resume_scope l (fn_scope f)\<rparr>;
        rl \<leftarrow> compute_storage_layout_from_scope (core_node unresolved_id) r;
        Some ([\<lparr>fn_id = fn_id f, fn_name_gen = fn_name_gen f, fn_names = fn_names f, fn_kind = fn_kind f,
                fn_params = fn_params f,
                fn_blocks = attach_exception_edges_to_blocks [factory] [label factory \<mapsto> None],
                fn_doc = fn_doc f, fn_layout = Some l, fn_scope = fn_scope f\<rparr>,
               r\<lparr>fn_layout := Some rl\<rparr>], mg') })"

definition lower_yield_in_callable ::
  "(string set \<Rightarrow> string list) \<Rightarrow> y_expr bp_function \<Rightarrow> module_name_gen \<Rightarrow> (core bp_function list \<times> module_name_gen) option" where
  "lower_yield_in_callable order f mg =
     (if fn_kind f = KFunction then map_option (\<lambda>r. ([r], mg)) (no_yield (try_map_fn err_on_yield f))
      else lower_generator_like_function order f mg)"

text \<open>\<open>map_callable_defs\<close> asserts that the module has no constants and no counters yet.\<close>

definition lower_yield_in_lowered_core_blockpy_module_bundle ::
  "(string set \<Rightarrow> string list) \<Rightarrow> meta \<Rightarrow> y_expr bp_module \<Rightarrow> usize \<Rightarrow> (core bp_module \<times> usize) option" where
  "lower_yield_in_lowered_core_blockpy_module_bundle order tm m c =
     (let (fs, c') = s_map (make_eval_order_explicit_in_core_callable_def tm) (callable_defs m) c in
      do { (rs, mg) \<leftarrow> st_map (lower_yield_in_callable order) fs (mod_name_gen m);
           Some (\<lparr>mod_name_gen = mg, global_names = [], callable_defs = concat rs, module_constants = [], counter_defs = []\<rparr>, c') })"

section \<open>Lemmas\<close>

text \<open>A generator that can be lowered: closed blocks with labels to spare, and a scope in which the
  program counter is no cell of another name.\<close>

definition generator_ready :: "y_expr bp_function \<Rightarrow> bool" where
  "generator_ready f \<longleftrightarrow>
     resume_ready f (function_name_gen_new (fn_id f)) \<and> cell_names_unique (fn_scope f) \<and>
     logical_names (fn_scope f) (generator_captures f) \<and>
     generator_state_logical_name (fn_scope f) ''_dp_pc'' = ''_dp_pc''"

lemma resume_ready_gen: "resume_ready f (function_name_gen_new i) \<longleftrightarrow> resume_ready f (function_name_gen_new j)"
  by (simp add: resume_ready_def function_name_gen_new_def)

lemma factory_defined: "is_generator_like k \<Longrightarrow> \<exists>b. build_factory_block ns i k = Some b"
  by (cases k) (auto simp: build_factory_block_def factory_value_def is_generator_like_def Let_def from_index_def)

lemma pc_is_state: "generator_state_logical_name (fn_scope f) ''_dp_pc'' \<in> generator_state_names f"
  unfolding generator_state_names_def by (rule imageI) blast

lemma resume_scope_binds:
  assumes "cell_names_unique s" "holds_state s ps cs injected N l"
  shows "binding_kind_of n (resume_scope l s) =
      (if n \<in> N \<and> resume_state_uses_standard_name_binding n then Some (BindCell Capture) else binding_kind_of n s)"
    "cell_storage_name n (resume_scope l s) =
      (if n \<in> N \<and> resume_state_uses_standard_name_binding n then n else cell_storage_name n s)"
    "cell_capture_source_name n (resume_scope l s) = cell_capture_source_name n s"
proof -
  note names = persistent_names [OF assms]
  let ?bs = "resume_closure_bindings s (ordered_resume_binding_logical_names (persistent_generator_state_order l))"
  have fsts: "map fst ?bs = persistent_generator_state_order l"
    by (simp add: resume_closure_bindings_def ordered_names [OF names(1)] o_def)
  then have d: "distinct (map fst ?bs)" and S: "fst ` set ?bs = N" using names by (metis, metis set_map)
  have src: "map_of ?bs n = (if n \<in> N then Some (cell_capture_source_name n s) else None)"
  proof -
    have "map_of (map (\<lambda>n. (n, cell_capture_source_name n s)) ns) n =
        (if n \<in> set ns then Some (cell_capture_source_name n s) else None)" for ns
      by (induction ns) auto
    then show ?thesis unfolding resume_closure_bindings_def ordered_names [OF names(1)] names(2) [symmetric] .
  qed
  show "binding_kind_of n (resume_scope l s) =
      (if n \<in> N \<and> resume_state_uses_standard_name_binding n then Some (BindCell Capture) else binding_kind_of n s)"
    "cell_storage_name n (resume_scope l s) =
      (if n \<in> N \<and> resume_state_uses_standard_name_binding n then n else cell_storage_name n s)"
    by (simp_all add: resume_scope_def augmented_scope [OF d] S)
  show "cell_capture_source_name n (resume_scope l s) = cell_capture_source_name n s"
    unfolding resume_scope_def augmented_scope(3) [OF d] src by simp
qed

section \<open>Functions\<close>

text \<open>The visible function keeps every name of the state in a cell, and the resume function captures these
  cells.\<close>

definition keeps_state :: "y_expr bp_function \<Rightarrow> core bp_function \<Rightarrow> core bp_function \<Rightarrow> bool" where
  "keeps_state f v r \<longleftrightarrow>
     (case fn_layout v of None \<Rightarrow> False
      | Some l \<Rightarrow> holds_state (fn_scope f) (spec_names (fn_params f)) (set (generator_captures f))
          (injected_exception_names (fn_blocks f)) (generator_state_names f) l) \<and>
     fn_layout r \<noteq> None \<and>
     (\<forall>n\<in>generator_state_names f. resume_state_uses_standard_name_binding n \<longrightarrow>
        binding_kind_of n (fn_scope r) = Some (BindCell Capture) \<and>
        cell_capture_source_name n (fn_scope r) = cell_capture_source_name n (fn_scope f))"

text \<open>A visible function with one block that returns the generator object, and a plain resume function
  whose blocks form a program.\<close>

definition generator_pair :: "y_expr bp_function \<Rightarrow> function_id \<Rightarrow> core bp_function list \<Rightarrow> bool" where
  "generator_pair f i rs \<longleftrightarrow>
     (case rs of
        [v, r] \<Rightarrow>
          fn_id v = fn_id f \<and> fn_kind v = fn_kind f \<and> fn_params v = fn_params f \<and>
          map bterm (fn_blocks v) = map Return (case factory_value (fn_names f) i (fn_kind f) of None \<Rightarrow> [] | Some e \<Rightarrow> [e]) \<and>
          fn_id r = i \<and> fn_kind r = KFunction \<and> fn_params r = resume_param_spec (fn_kind f) \<and>
          (\<exists>x entry g. resume_program (yield_count (fn_blocks f)) (fn_blocks r, x, entry, g)) \<and> keeps_state f v r
      | _ \<Rightarrow> False)"

lemma factory_block:
  "build_factory_block ns i k = Some b \<Longrightarrow> \<exists>e. factory_value ns i k = Some e \<and> bterm b = Return e"
  by (auto simp: build_factory_block_def bind_eq_Some_conv from_builder_def with_term_def)

lemma lower_generator_spec:
  assumes ready: "generator_ready f" and explicit: "list_all explicit_block (fn_blocks f)" and order: "iteration_order order"
  obtains rs where "lower_generator_like_function order f mg = Some (rs, snd (next_function_name_gen mg))"
    "generator_pair f (function_id_new (gen_module_id mg) (next_function mg)) rs"
proof -
  obtain g0 mg' where gm: "next_function_name_gen mg = (g0, mg')" by fastforce
  let ?l = "build_generator_storage_layout order f"
  let ?i = "function_id_new (gen_module_id mg) (next_function mg)"
  have g: "gen_function_id g0 = ?i" "g0 = function_name_gen_new ?i"
    using gm by (auto simp: next_function_name_gen_def function_name_gen_new_def)
  have ok: "cell_names_unique (fn_scope f)" "logical_names (fn_scope f) (generator_captures f)"
    "generator_state_logical_name (fn_scope f) ''_dp_pc'' = ''_dp_pc''" "is_generator_like (fn_kind f)"
    using ready by (simp_all add: generator_ready_def resume_ready_def)
  have "resume_ready f g0" using ready resume_ready_gen unfolding g(2) by (metis generator_ready_def)
  then obtain bs x entry g' where bs: "lower_resume_blocks f g0 = Some (bs, x, entry, g')"
    "resume_program (yield_count (fn_blocks f)) (bs, x, entry, g')"
    using lower_resume_closed [OF _ explicit] by (metis prod_cases4)
  obtain b where b: "build_factory_block (fn_names f) ?i (fn_kind f) = Some b" using factory_defined [OF ok(4)] by blast
  note layout = generator_layout_holds [OF order ok(1,2)]
  note binds = resume_scope_binds [OF ok(1) layout]
  let ?r = "\<lparr>fn_id = ?i, fn_name_gen = g', fn_names = resume_names (fn_names f), fn_kind = KFunction,
      fn_params = resume_param_spec (fn_kind f), fn_blocks = bs, fn_doc = None, fn_layout = None,
      fn_scope = resume_scope ?l (fn_scope f)\<rparr>"
  have "''_dp_pc'' \<in> generator_state_names f" using pc_is_state [of f] ok(3) by simp
  moreover have "resume_state_uses_standard_name_binding ''_dp_pc''"
    by (simp add: resume_state_uses_standard_name_binding_def starts_with_def)
  ultimately have "binding_kind_of ''_dp_pc'' (fn_scope ?r) = Some (BindCell Capture)" by (simp add: binds)
  from capturing_scope_layout [OF this] obtain rl where rl: "compute_storage_layout_from_scope (core_node unresolved_id) ?r = Some rl"
    by blast
  let ?v = "\<lparr>fn_id = fn_id f, fn_name_gen = fn_name_gen f, fn_names = fn_names f, fn_kind = fn_kind f,
      fn_params = fn_params f, fn_blocks = attach_exception_edges_to_blocks [b] [label b \<mapsto> None],
      fn_doc = fn_doc f, fn_layout = Some ?l, fn_scope = fn_scope f\<rparr>"
  have "lower_generator_like_function order f mg = Some ([?v, ?r\<lparr>fn_layout := Some rl\<rparr>], mg')"
    unfolding lower_generator_like_function_def using ok(4) gm g(1) bs(1) b rl by (simp add: Let_def)
  moreover have "generator_pair f ?i [?v, ?r\<lparr>fn_layout := Some rl\<rparr>]"
  proof -
    have "keeps_state f ?v (?r\<lparr>fn_layout := Some rl\<rparr>)" using layout binds by (simp add: keeps_state_def)
    moreover obtain e where "factory_value (fn_names f) ?i (fn_kind f) = Some e" "bterm b = Return e"
      using factory_block [OF b] by blast
    ultimately show ?thesis using bs(2) by (auto simp: generator_pair_def attach_exception_edges_to_blocks_def)
  qed
  ultimately show thesis using that by (simp add: gm)
qed

section \<open>Modules\<close>

definition callable_ready :: "y_expr bp_function \<Rightarrow> bool" where
  "callable_ready f \<longleftrightarrow>
     (if fn_kind f = KFunction then list_all (\<lambda>e. \<not> expr_contains_yield e) (fn_instrs f) else generator_ready f)"

definition generator_count :: "y_expr bp_function list \<Rightarrow> nat" where
  "generator_count fs = length (filter (\<lambda>f. fn_kind f \<noteq> KFunction) fs)"

text \<open>The functions that replace those of a module whose next function has number \<open>n\<close>.\<close>

fun lowered_callables :: "u32 \<Rightarrow> nat \<Rightarrow> y_expr bp_function list \<Rightarrow> core bp_function list list \<Rightarrow> bool" where
  "lowered_callables m n [] rss \<longleftrightarrow> rss = []"
| "lowered_callables m n (f # fs) rss \<longleftrightarrow>
     (case rss of
        [] \<Rightarrow> False
      | rs # rss' \<Rightarrow>
          if fn_kind f = KFunction then rs = [map_fn (projr \<circ> err_on_yield) f] \<and> lowered_callables m n fs rss'
          else generator_pair f (function_id_new m (of_nat n)) rs \<and> lowered_callables m (Suc n) fs rss')"

lemma plain_function_lowered:
  assumes "list_all (\<lambda>e. \<not> expr_contains_yield e) (fn_instrs f)"
  shows "no_yield (try_map_fn err_on_yield f) = Some (map_fn (projr \<circ> err_on_yield) f)"
proof -
  have "\<not> isl (err_on_yield e)" if "e \<in> set (fn_instrs f)" for e
  proof -
    have "\<not> expr_contains_yield e" using assms that by (simp add: list_all_iff)
    from err_on_yield_ok [OF this] show ?thesis by auto
  qed
  then have "first_error err_on_yield (fn_instrs f) = None" by (simp add: first_error_None)
  then have "try_map_fn err_on_yield f = Inr (map_fn (projr \<circ> err_on_yield) f)"
    using try_map_fn_traversal [of err_on_yield f] by (simp add: traversal_def)
  then show ?thesis by (simp add: no_yield_Some)
qed

lemma callables_lowered:
  assumes "list_all callable_ready fs" "list_all (\<lambda>f. list_all explicit_block (fn_blocks f)) fs" "iteration_order order"
    and "next_function mg = of_nat n"
  shows "\<exists>rss mg'. st_map (lower_yield_in_callable order) fs mg = Some (rss, mg') \<and>
    lowered_callables (gen_module_id mg) n fs rss \<and> gen_module_id mg' = gen_module_id mg \<and>
    next_function mg' = of_nat (n + generator_count fs)"
  using assms
proof (induction fs arbitrary: n mg)
  case (Cons f fs)
  show ?case
  proof (cases "fn_kind f = KFunction")
    case True
    then have "list_all (\<lambda>e. \<not> expr_contains_yield e) (fn_instrs f)" using Cons.prems(1) by (simp add: callable_ready_def)
    then have "lower_yield_in_callable order f mg = Some ([map_fn (projr \<circ> err_on_yield) f], mg)"
      by (simp add: lower_yield_in_callable_def True plain_function_lowered)
    with Cons.IH [of mg n] Cons.prems True show ?thesis by (auto simp: generator_count_def)
  next
    case False
    then have "generator_ready f" "list_all explicit_block (fn_blocks f)"
      using Cons.prems(1,2) by (simp_all add: callable_ready_def)
    from lower_generator_spec [OF this Cons.prems(3), of mg] obtain rs where
      rs: "lower_generator_like_function order f mg = Some (rs, snd (next_function_name_gen mg))"
        "generator_pair f (function_id_new (gen_module_id mg) (next_function mg)) rs" by blast
    let ?mg = "snd (next_function_name_gen mg)"
    have mg: "gen_module_id ?mg = gen_module_id mg" "next_function ?mg = of_nat (Suc n)"
      by (simp_all add: next_function_name_gen_def Cons.prems(4))
    obtain rss mg' where "st_map (lower_yield_in_callable order) fs ?mg = Some (rss, mg')"
      "lowered_callables (gen_module_id ?mg) (Suc n) fs rss" "gen_module_id mg' = gen_module_id ?mg"
      "next_function mg' = of_nat (Suc n + generator_count fs)"
      using Cons.IH [OF _ _ Cons.prems(3) mg(2)] Cons.prems(1,2) by auto
    note rest = this
    have "lower_yield_in_callable order f mg = Some (rs, ?mg)" using rs(1) False by (simp add: lower_yield_in_callable_def)
    then have "st_map (lower_yield_in_callable order) (f # fs) mg = Some (rs # rss, mg')" using rest(1) by simp
    moreover have "lowered_callables (gen_module_id mg) n (f # fs) (rs # rss)"
      using rs(2) rest(2) False Cons.prems(4) mg(1) by simp
    moreover have "n + generator_count (f # fs) = Suc n + generator_count fs" using False by (simp add: generator_count_def)
    ultimately show ?thesis using rest(3,4) mg(1) by metis
  qed
qed (simp add: generator_count_def)

text \<open>The ids of the new functions are fresh as long as the function numbers do not wrap around.\<close>

definition ids_below :: "u32 \<Rightarrow> nat \<Rightarrow> function_id set \<Rightarrow> bool" where
  "ids_below m n I \<longleftrightarrow> (\<forall>i\<in>I. module_id i = m \<and> unat (function_id i) < n)"

lemma pair_ids: "generator_pair f i rs \<Longrightarrow> map fn_id rs = [fn_id f, i]"
  by (auto simp: generator_pair_def split: list.splits)

lemma lowered_ids:
  assumes "lowered_callables m n fs rss" "n + generator_count fs \<le> 2 ^ 32"
  shows "\<exists>new. mset (map fn_id (concat rss)) = mset (map fn_id fs) + mset new \<and> distinct new \<and>
    (\<forall>i\<in>set new. module_id i = m \<and> n \<le> unat (function_id i))"
  using assms
proof (induction m n fs rss rule: lowered_callables.induct)
  case (2 m n f fs rss)
  obtain rs rss' where r: "rss = rs # rss'" using "2.prems"(1) by (cases rss) auto
  show ?case
  proof (cases "fn_kind f = KFunction")
    case True
    with "2.prems" have "lowered_callables m n fs rss'" "n + generator_count fs \<le> 2 ^ 32"
      by (auto simp: r generator_count_def)
    from "2.IH"(1) [OF r True this] obtain new where "mset (map fn_id (concat rss')) = mset (map fn_id fs) + mset new"
      "distinct new" "\<forall>i\<in>set new. module_id i = m \<and> n \<le> unat (function_id i)" by blast
    moreover have "map fn_id rs = [fn_id f]" using "2.prems"(1) True r by (simp add: map_fn_frame)
    ultimately show ?thesis by (intro exI [of _ new]) (simp add: r)
  next
    case False
    then obtain new where new: "mset (map fn_id (concat rss')) = mset (map fn_id fs) + mset new" "distinct new"
      "\<forall>i\<in>set new. module_id i = m \<and> Suc n \<le> unat (function_id i)"
      using "2.IH"(2) [OF r False] "2.prems" by (auto simp: r generator_count_def)
    let ?i = "function_id_new m (of_nat n)"
    have "n < 2 ^ 32" using "2.prems"(2) False by (simp add: generator_count_def)
    then have "unat (function_id ?i) = n" by (simp add: unat_of_nat take_bit_eq_mod)
    moreover have "map fn_id rs = [fn_id f, ?i]" using "2.prems"(1) False r by (simp add: pair_ids)
    ultimately show ?thesis using new
      by (intro exI [of _ "?i # new"]) (auto simp: r)
  qed
qed (simp add: generator_count_def)

section \<open>Properties\<close>

lemma lowering_step:
  assumes "f = fst (make_eval_order_explicit_in_core_callable_def tm f0 c)" "generator_ready f" "iteration_order order"
  obtains rs where "lower_generator_like_function order f mg = Some (rs, snd (next_function_name_gen mg))"
    "generator_pair f (function_id_new (gen_module_id mg) (next_function mg)) rs"
  using lower_generator_spec [OF assms(2) _ assms(3)] yields_explicit [of tm f0 c] assms(1) by metis

lemma explicit_functions:
  "list_all (\<lambda>f. list_all explicit_block (fn_blocks f)) (fst (s_map (make_eval_order_explicit_in_core_callable_def tm) fs c))"
proof (induction fs arbitrary: c)
  case (Cons f fs)
  then show ?case using yields_explicit [of tm f c] by (simp add: Let_def case_prod_unfold)
qed simp

text \<open>C5: Generator lowering of a module. When the functions, with their yields made explicit, are ready
  (a plain function has no yield, and a generator, coroutine or async generator has closed blocks, labels
  to spare and well-formed cell names), nothing panics: plain functions stay as they are, every other
  function is replaced by a visible function that makes the generator object and a resume function, all
  names of its state are kept in cells of the visible function that the resume function captures, and
  the ids of the functions stay distinct, whatever the order in which hash sets are iterated.\<close>

theorem yield_lowering_module:
  assumes "fs = fst (s_map (make_eval_order_explicit_in_core_callable_def tm) (callable_defs m) c)"
    and "list_all callable_ready fs" "iteration_order order"
    and "distinct (map fn_id fs)" "ids_below (gen_module_id (mod_name_gen m)) (unat (next_function (mod_name_gen m))) (fn_id ` set fs)"
    and "unat (next_function (mod_name_gen m)) + generator_count fs \<le> 2 ^ 32"
  shows "case lower_yield_in_lowered_core_blockpy_module_bundle order tm m c of
      None \<Rightarrow> False
    | Some (m', c') \<Rightarrow>
        (\<exists>rss. callable_defs m' = concat rss \<and>
           lowered_callables (gen_module_id (mod_name_gen m)) (unat (next_function (mod_name_gen m))) fs rss) \<and>
        distinct (map fn_id (callable_defs m'))"
proof -
  let ?n = "unat (next_function (mod_name_gen m))" and ?m = "gen_module_id (mod_name_gen m)"
  obtain c' where fs: "s_map (make_eval_order_explicit_in_core_callable_def tm) (callable_defs m) c = (fs, c')"
    using assms(1) by (cases "s_map (make_eval_order_explicit_in_core_callable_def tm) (callable_defs m) c") simp
  have "list_all (\<lambda>f. list_all explicit_block (fn_blocks f)) fs" unfolding assms(1) by (rule explicit_functions)
  moreover have "next_function (mod_name_gen m) = of_nat ?n" by simp
  ultimately obtain rss mg' where rss: "st_map (lower_yield_in_callable order) fs (mod_name_gen m) = Some (rss, mg')"
    "lowered_callables ?m ?n fs rss" using callables_lowered [OF assms(2) _ assms(3)] by blast
  obtain new where new: "mset (map fn_id (concat rss)) = mset (map fn_id fs) + mset new" "distinct new"
    "\<forall>i\<in>set new. module_id i = ?m \<and> ?n \<le> unat (function_id i)"
    using lowered_ids [OF rss(2) assms(6)] by blast
  have "set (map fn_id fs) \<inter> set new = {}" using new(3) assms(5) by (fastforce simp: ids_below_def)
  then have "distinct (map fn_id fs @ new)" using assms(4) new(2) by simp
  moreover have "mset (map fn_id (concat rss)) = mset (map fn_id fs @ new)" using new(1) by simp
  ultimately have "distinct (map fn_id (concat rss))" using mset_eq_imp_distinct_iff by blast
  then show ?thesis
    using rss by (auto simp: lower_yield_in_lowered_core_blockpy_module_bundle_def fs)
qed

definition sample_module :: "y_expr bp_module" where
  "sample_module =
     \<lparr>mod_name_gen = \<lparr>gen_module_id = 0, next_function = 1\<rparr>, global_names = [], callable_defs = [yielding_statement],
      module_constants = [], counter_defs = []\<rparr>"

lemma yielding_statement_ready: "generator_ready yielding_statement"
proof -
  have blocks: "fn_blocks yielding_statement =
      [\<lparr>label = BlockLabel 0, body = [YYield (marked 2) (name_expr ''x'')], bterm = Return (name_expr ''None''), params = [], exc_edge = None\<rparr>]"
    and kind: "fn_kind yielding_statement = KGenerator" and scope: "fn_scope yielding_statement = sample_scope"
    by (simp_all add: yielding_statement_def one_statement_def)
  have "y_preorder (YYield (marked 2) (name_expr ''x'')) = [YYield (marked 2) (name_expr ''x''), name_expr ''x'']"
    by (simp add: y_preorder.simps [of "YYield _ _"])
  then have "cell_ref_names (collect_blocks y_node (fn_blocks yielding_statement)) = {}"
    unfolding blocks
    by (simp add: collect_blocks_def collect_block_def collect_stmt_def collect_instr_def y_node_def root_cell_ref_logical_names_def name_expr_def
        y_preorder.simps [of "YOp _ (Load _)"] op_view_def exception_param_def)
  then have "generator_captures yielding_statement = [''y'']"
    by (simp add: generator_captures_def compute_storage_layout_from_scope_def build_storage_layout_from_capture_names_def
        compute_make_function_capture_bindings_from_scope_def make_function_capture_bindings_def referenced_captures_def
        captured_cell_bindings_def captured_cell_logical_names_def owned_cell_storage_names_def scope sample_scope_def Let_def
        normalize_capture_name_def logical_name_for_cell_capture_source_def logical_name_for_cell_storage_def capture_binding_def
        strip_prefix_def starts_with_def find_key_def or_opt_def)
  moreover have "resume_ready yielding_statement (function_name_gen_new (fn_id yielding_statement))"
    by (rule yielding_statement_resume_ready)
  ultimately show ?thesis
    by (simp add: generator_ready_def logical_names_def cell_names_unique_def cell_names_ok_def scope sample_scope_def
        generator_state_logical_name_def logical_name_for_cell_storage_def strip_prefix_def starts_with_def find_key_def)
qed

theorem yield_lowering_module_witness:
  "case lower_yield_in_lowered_core_blockpy_module_bundle sorted_list_of_set synthetic sample_module 0 of
      None \<Rightarrow> False
    | Some (m', c') \<Rightarrow>
        (\<exists>rss. callable_defs m' = concat rss \<and>
           lowered_callables (gen_module_id (mod_name_gen sample_module)) (unat (next_function (mod_name_gen sample_module)))
             [fst (make_eval_order_explicit_in_core_callable_def synthetic yielding_statement 0)] rss) \<and>
        distinct (map fn_id (callable_defs m'))"
proof -
  let ?f = "fst (make_eval_order_explicit_in_core_callable_def synthetic yielding_statement 0)"
  note f = yielding_statement_fixed
  show ?thesis
  proof (rule yield_lowering_module)
    show "[?f] = fst (s_map (make_eval_order_explicit_in_core_callable_def synthetic) (callable_defs sample_module) 0)"
      by (simp add: sample_module_def split: prod.split)
    show "list_all callable_ready [?f]"
      using yielding_statement_ready by (simp add: f callable_ready_def) (simp add: yielding_statement_def one_statement_def)
    show "iteration_order sorted_list_of_set" by (simp add: iteration_order_def)
    show "ids_below (gen_module_id (mod_name_gen sample_module)) (unat (next_function (mod_name_gen sample_module))) (fn_id ` set [?f])"
      by (simp add: f ids_below_def sample_module_def) (simp add: yielding_statement_def one_statement_def)
    show "unat (next_function (mod_name_gen sample_module)) + generator_count [?f] \<le> 2 ^ 32"
      by (simp add: generator_count_def sample_module_def)
  qed simp
qed

end
