(* ===== verification/Coroutine.thy ===== *)
theory Coroutine
  imports Resume_Exprs
begin

text \<open>
  What a generator means before it is lowered: its blocks run until they reach a yield, the
  generator is suspended there with the statements that are left, and the caller resumes it with a
  value, which the yield evaluates to, or an exception, which the yield raises. A statement without
  yields means what its core form means, for every meaning of the core expressions. The first resumption
  ignores its input, as the code does (the runtime calls the resume function with whatever
  \<open>send\<close> or \<open>throw\<close> got).
\<close>

section \<open>Running to the next yield\<close>

text \<open>The meaning of core expressions, and of storing a value under a name.\<close>

record ('st, 'v, 'x) gen_sem =
  core_sem :: "(core, 'st, 'v, 'x) sem"
  put_name :: "unresolved_name \<Rightarrow> 'v \<Rightarrow> 'st \<Rightarrow> ('x + 'v) \<times> 'st"

definition core_of :: "y_expr \<Rightarrow> core" where
  "core_of e = (case err_on_yield e of Inr x \<Rightarrow> x | Inl _ \<Rightarrow> core_none)"

fun core_term :: "y_expr block_term \<Rightarrow> core block_term" where
  "core_term (Jump e) = Jump e"
| "core_term (IfTerm t a b) = IfTerm (core_of t) a b"
| "core_term (BranchTable i ts d) = BranchTable (core_of i) ts d"
| "core_term (Raise x) = Raise (map_option core_of x)"
| "core_term (Return v) = Return (core_of v)"

text \<open>A yield as a statement: where its value goes, and what it yields; a yield without a value yields
  \<open>None\<close>.\<close>

fun plain_yield :: "y_expr \<Rightarrow> (unresolved_name option \<times> y_expr) option" where
  "plain_yield (YYield m v) = Some (None, v)"
| "plain_yield (YOp m (Store n (YYield m' v))) = Some (Some n, v)"
| "plain_yield _ = None"

definition yielded :: "y_expr \<Rightarrow> core" where
  "yielded v = (if y_is_none v then core_none else core_of v)"

text \<open>A point where a generator is suspended: the block, the target of the yield, and the statements
  that are left.\<close>

datatype gen_point = Unstarted | At block_label "unresolved_name option" "y_expr list"

datatype ('v, 'x) gen_input = Send 'v | ThrowIn 'x

datatype ('st, 'v, 'x) gen_control =
  Leave "('st, 'v, 'x) control"
| Suspend 'v "unresolved_name option" "y_expr list" 'st

definition or_leave ::
  "('x + 'a) \<times> 'st \<Rightarrow> ('a \<Rightarrow> 'st \<Rightarrow> ('st, 'v, 'x) gen_control) \<Rightarrow> ('st, 'v, 'x) gen_control" where
  "or_leave r k = (case r of (Inl x, s) \<Rightarrow> Leave (Throw x s) | (Inr a, s) \<Rightarrow> k a s)"

fun gen_exec ::
  "('st, 'v, 'x) gen_sem \<Rightarrow> y_expr list \<Rightarrow> y_expr block_term \<Rightarrow> 'st \<Rightarrow> ('st, 'v, 'x) gen_control" where
  "gen_exec G [] t st = Leave (exec_term (core_sem G) (core_term t) st)"
| "gen_exec G (e # es) t st =
     (case plain_yield e of
        Some (dest, v) \<Rightarrow> or_leave (sem_eval (core_sem G) (yielded v) st) (\<lambda>w s. Suspend w dest es s)
      | None \<Rightarrow> or_leave (sem_eval (core_sem G) (core_of e) st) (\<lambda>_ s. gen_exec G es t s))"

text \<open>The resumption of a suspended generator, up to the next transfer of control.\<close>

definition gen_receive ::
  "('st, 'v, 'x) gen_sem \<Rightarrow> unresolved_name option \<Rightarrow> y_expr list \<Rightarrow> y_expr block_term \<Rightarrow>
     ('v, 'x) gen_input \<Rightarrow> 'st \<Rightarrow> ('st, 'v, 'x) gen_control" where
  "gen_receive G dest es t i st =
     (case i of
        ThrowIn x \<Rightarrow> Leave (Throw x st)
      | Send w \<Rightarrow>
          (case dest of
             None \<Rightarrow> gen_exec G es t st
           | Some n \<Rightarrow> or_leave (put_name G n w st) (\<lambda>_ s. gen_exec G es t s)))"

datatype ('st, 'v, 'x) gen_outcome = Yielded 'v gen_point 'st | Completed 'v 'st | Failed 'x 'st | GenStuck

text \<open>\<open>gen_run\<close> executes at most \<open>n\<close> blocks, \<open>gen_after\<close> continues after the control of a block.\<close>

definition gen_after ::
  "(block_edge \<Rightarrow> 'x option \<Rightarrow> 'st \<Rightarrow> ('st, 'v, 'x) gen_outcome option) \<Rightarrow> (y_expr, y_expr) block \<Rightarrow>
     ('st, 'v, 'x) gen_control \<Rightarrow> ('st, 'v, 'x) gen_outcome option" where
  "gen_after r b c =
     (case c of
        Suspend w dest es s \<Rightarrow> Some (Yielded w (At (label b) dest es) s)
      | Leave c \<Rightarrow>
          (case dispatch (exc_edge b) c of
             Inl (e, x, s) \<Rightarrow> r e x s
           | Inr (Returned w s) \<Rightarrow> Some (Completed w s)
           | Inr (Raised x s) \<Rightarrow> Some (Failed x s)
           | Inr Stuck \<Rightarrow> Some GenStuck))"

fun gen_run ::
  "('st, 'v, 'x) gen_sem \<Rightarrow> (y_expr, y_expr) block list \<Rightarrow> nat \<Rightarrow> block_edge \<Rightarrow> 'x option \<Rightarrow> 'st \<Rightarrow>
     ('st, 'v, 'x) gen_outcome option" where
  "gen_run G bs 0 e x st = None"
| "gen_run G bs (Suc n) e x st =
     (case find_block bs (target e) of
        None \<Rightarrow> Some GenStuck
      | Some b \<Rightarrow>
          gen_after (gen_run G bs n) b
            (gen_exec G (body b) (bterm b) (enter_block (core_sem G) (params b) (edge_args e) x st)))"

definition gen_resume ::
  "('st, 'v, 'x) gen_sem \<Rightarrow> (y_expr, y_expr) block list \<Rightarrow> nat \<Rightarrow> gen_point \<Rightarrow> ('v, 'x) gen_input \<Rightarrow> 'st \<Rightarrow>
     ('st, 'v, 'x) gen_outcome option" where
  "gen_resume G bs n p i st =
     (case p of
        Unstarted \<Rightarrow> gen_run G bs n (edge_new (label (hd bs))) None st
      | At l dest es \<Rightarrow>
          (case find_block bs l of
             None \<Rightarrow> Some GenStuck
           | Some b \<Rightarrow> gen_after (gen_run G bs n) b (gen_receive G dest es (bterm b) i st)))"

text \<open>What the caller sees of a sequence of resumptions; nothing follows a completion or an exception.\<close>

datatype ('v, 'x) gen_event = OutYield 'v | OutDone 'v | OutRaise 'x | OutStuck

fun gen_trace ::
  "('st, 'v, 'x) gen_sem \<Rightarrow> (y_expr, y_expr) block list \<Rightarrow> nat \<Rightarrow> gen_point \<Rightarrow> ('v, 'x) gen_input list \<Rightarrow> 'st \<Rightarrow>
     ('v, 'x) gen_event list option" where
  "gen_trace G bs n p [] st = Some []"
| "gen_trace G bs n p (i # is) st =
     do { out \<leftarrow> gen_resume G bs n p i st;
          case out of
            Yielded w p' s \<Rightarrow> map_option ((#) (OutYield w)) (gen_trace G bs n p' is s)
          | Completed w s \<Rightarrow> Some [OutDone w]
          | Failed x s \<Rightarrow> Some [OutRaise x]
          | GenStuck \<Rightarrow> Some [OutStuck] }"

section \<open>The memory of the resume function\<close>

text \<open>
  Besides the state of the program the resume function has its program counter, the exception that is
  being handled (for \<open>throw\<close>), and what it was called with. Its own expressions act on these; every
  other expression acts on the state of the program. \<open>Finish\<close> values are those of the program, the
  number of a table or test, or an exception.
\<close>

record ('st, 'v, 'x) resume_mem =
  user :: 'st
  pc_cell :: nat
  context_cell :: "'v option"
  sent :: 'v
  thrown :: "'x option"

datatype ('v, 'x) resume_value = Plain 'v | Number nat | Exc 'x | Completion 'v

datatype ('v, 'x) resume_exc = User 'x | Done 'v

datatype register_op =
  StorePc nat | StoreYieldFrom | StoreContext core | PutSent unresolved_name | LoadPc | TestThrown | LoadThrown
| Complete core | NoRegister

fun literal_nat :: "core \<Rightarrow> nat option" where
  "literal_nat (CoreLit m (NumberLiteral (IntLiteral k))) = Some (nat k)"
| "literal_nat _ = None"

fun completion_of :: "core \<Rightarrow> core option" where
  "completion_of (CoreOp m (Call (CoreOp m' (Load n)) [Positional v] [])) =
     (if n = RuntimeName ''StopIteration'' then Some v else None)"
| "completion_of _ = None"

fun stored_register :: "core \<Rightarrow> register_op" where
  "stored_register (CoreOp m (Store n v)) =
     (if n = SourceName ''_dp_pc'' then (case literal_nat v of Some k \<Rightarrow> StorePc k | None \<Rightarrow> NoRegister)
      else if n = SourceName ''_dp_yieldfrom'' then StoreYieldFrom
      else if n = SourceName ''_dp_throw_context'' then StoreContext v
      else if v = core_name ''_dp_send_value'' then PutSent n
      else NoRegister)"
| "stored_register _ = NoRegister"

definition register_of :: "core \<Rightarrow> register_op" where
  "register_of e =
     (if e = core_name ''_dp_pc'' then LoadPc
      else if e = core_name ''_dp_resume_exc'' then LoadThrown
      else if e = is_resume_exc_test then TestThrown
      else case completion_of e of Some v \<Rightarrow> Complete v | None \<Rightarrow> stored_register e)"

text \<open>Lifting an effect on the state of the program to the memory.\<close>

definition on_user ::
  "('a \<Rightarrow> 'b) \<Rightarrow> ('x + 'a) \<times> 'st \<Rightarrow> ('st, 'v, 'x) resume_mem \<Rightarrow> (('v, 'x) resume_exc + 'b) \<times> ('st, 'v, 'x) resume_mem" where
  "on_user f r M = (case r of (Inl x, s) \<Rightarrow> (Inl (User x), M\<lparr>user := s\<rparr>) | (Inr a, s) \<Rightarrow> (Inr (f a), M\<lparr>user := s\<rparr>))"

definition resume_eval ::
  "('st, 'v, 'x) gen_sem \<Rightarrow> core \<Rightarrow> ('st, 'v, 'x) resume_mem \<Rightarrow>
     (('v, 'x) resume_exc + ('v, 'x) resume_value) \<times> ('st, 'v, 'x) resume_mem" where
  "resume_eval G e M =
     (case register_of e of
        StorePc k \<Rightarrow> (Inr (Number 0), M\<lparr>pc_cell := k\<rparr>)
      | StoreYieldFrom \<Rightarrow> (Inr (Number 0), M)
      | StoreContext v \<Rightarrow>
          (case on_user id (sem_eval (core_sem G) v (user M)) M of
             (Inl x, M') \<Rightarrow> (Inl x, M')
           | (Inr w, M') \<Rightarrow> (Inr (Number 0), M'\<lparr>context_cell := Some w\<rparr>))
      | PutSent n \<Rightarrow> on_user Plain (put_name G n (sent M) (user M)) M
      | LoadPc \<Rightarrow> (Inr (Number (pc_cell M)), M)
      | TestThrown \<Rightarrow> (Inr (Number (if thrown M = None then 0 else 1)), M)
      | LoadThrown \<Rightarrow> (Inr (case thrown M of None \<Rightarrow> Number 0 | Some x \<Rightarrow> Exc x), M)
      | Complete v \<Rightarrow> on_user Completion (sem_eval (core_sem G) v (user M)) M
      | NoRegister \<Rightarrow> on_user Plain (sem_eval (core_sem G) e (user M)) M)"

definition resume_raise ::
  "('st, 'v, 'x) gen_sem \<Rightarrow> ('v, 'x) resume_value \<Rightarrow> ('st, 'v, 'x) resume_mem \<Rightarrow>
     ('v, 'x) resume_exc \<times> ('st, 'v, 'x) resume_mem" where
  "resume_raise G v M =
     (case v of
        Plain w \<Rightarrow> (let (x, s) = sem_raise (core_sem G) w (user M) in (User x, M\<lparr>user := s\<rparr>))
      | Exc x \<Rightarrow> (User x, M)
      | Completion w \<Rightarrow> (Done w, M)
      | Number k \<Rightarrow> (let (x, s) = sem_reraise (core_sem G) (user M) in (User x, M\<lparr>user := s\<rparr>)))"

definition resume_sem ::
  "('st, 'v, 'x) gen_sem \<Rightarrow> (core, ('st, 'v, 'x) resume_mem, ('v, 'x) resume_value, ('v, 'x) resume_exc) sem" where
  "resume_sem G =
     \<lparr>sem_eval = resume_eval G,
      sem_truth = (\<lambda>v M. case v of Plain w \<Rightarrow> on_user id (sem_truth (core_sem G) w (user M)) M
                     | Number k \<Rightarrow> (Inr (k \<noteq> 0), M) | _ \<Rightarrow> (Inr True, M)),
      sem_index = (\<lambda>v M. case v of Plain w \<Rightarrow> on_user id (sem_index (core_sem G) w (user M)) M
                     | Number k \<Rightarrow> (Inr (int k), M) | _ \<Rightarrow> (Inr 0, M)),
      sem_raise = resume_raise G,
      sem_reraise = (\<lambda>M. let (x, s) = sem_reraise (core_sem G) (user M) in (User x, M\<lparr>user := s\<rparr>)),
      sem_bind = (\<lambda>ps as x M.
        case x of
          None \<Rightarrow> M\<lparr>user := sem_bind (core_sem G) ps as None (user M)\<rparr>
        | Some (User y) \<Rightarrow> M\<lparr>user := sem_bind (core_sem G) ps as (Some y) (user M)\<rparr>
        | Some (Done w) \<Rightarrow> M)\<rparr>"

text \<open>A call of the resume function with an input; the runtime passes no exception as a sentinel, and the
  sentinel as the value when it passes an exception, so the value is left as it was.\<close>

definition called_with :: "('v, 'x) gen_input \<Rightarrow> ('st, 'v, 'x) resume_mem \<Rightarrow> ('st, 'v, 'x) resume_mem" where
  "called_with i M = (case i of Send w \<Rightarrow> M\<lparr>sent := w, thrown := None\<rparr> | ThrowIn x \<Rightarrow> M\<lparr>thrown := Some x\<rparr>)"

fun resume_trace ::
  "('st, 'v, 'x) gen_sem \<Rightarrow> (core, core) block list \<Rightarrow> block_label \<Rightarrow> nat \<Rightarrow> ('v, 'x) gen_input list \<Rightarrow>
     ('st, 'v, 'x) resume_mem \<Rightarrow> ('v, 'x) gen_event list option" where
  "resume_trace G F d n [] M = Some []"
| "resume_trace G F d n (i # is) M =
     do { out \<leftarrow> run_linear (resume_sem G) F n (edge_new d) None (called_with i M);
          case out of
            Returned (Plain w) M' \<Rightarrow> map_option ((#) (OutYield w)) (resume_trace G F d n is M')
          | Raised (Done w) M' \<Rightarrow> Some [OutDone w]
          | Raised (User x) M' \<Rightarrow> Some [OutRaise x]
          | _ \<Rightarrow> Some [OutStuck] }"

end
