(* ===== verification/Resume_Realizes.thy ===== *)
theory Resume_Realizes
  imports Resume_Closed Coroutine
begin

text \<open>
  The blocks that the lowering pushes for a generator without \<open>yield from\<close>, read as code: \<open>realizes\<close>
  says that the blocks from a label on run some statements and a terminator, \<open>continues\<close> that a
  program counter leads to the block that resumes after a yield.
\<close>

definition after_yield :: "unresolved_name option \<Rightarrow> y_expr list \<Rightarrow> y_expr list" where
  "after_yield d es = (case d of None \<Rightarrow> es | Some n \<Rightarrow> y_store n (y_name ''_dp_send_value'') # es)"

inductive realizes :: "resume_state \<Rightarrow> block_param list \<Rightarrow> block_label option \<Rightarrow> block_label \<Rightarrow> y_expr list \<Rightarrow> y_expr block_term \<Rightarrow> bool"
  and continues :: "resume_state \<Rightarrow> block_param list \<Rightarrow> block_label option \<Rightarrow> nat \<Rightarrow> unresolved_name option \<Rightarrow> y_expr list \<Rightarrow> y_expr block_term \<Rightarrow> bool"
  for s :: resume_state and ps :: "block_param list" and x :: "block_label option" where
  ends: "next_site es t = None \<Longrightarrow> finished s s l es t ps x \<Longrightarrow> realizes s ps x l es t"
| yields: "list_all (\<lambda>e. stmt_yield_site e = None) pre \<Longrightarrow> plain_yield e = Some (d, v) \<Longrightarrow>
    opt_map lower_stmt_no_yield pre = Some pre' \<Longrightarrow> yield_value_expr (explicit_yield_value v) = Some v' \<Longrightarrow>
    pushed s (plain_block l (pre' @ [internal_store_stmt ''_dp_pc'' (core_literal_int k),
      internal_store_stmt ''_dp_yieldfrom'' core_none]) (Return v') ps) x \<Longrightarrow>
    continues s ps x k d post t \<Longrightarrow> realizes s ps x l (pre @ e # post) t"
| resumes: "(k, r) \<in> set (resume_targets s) \<Longrightarrow>
    pushed s (plain_block r [] (IfTerm is_resume_exc_test a l) ps) x \<Longrightarrow>
    pushed s (plain_block a [] resume_exc_raise_term ps) x \<Longrightarrow>
    realizes s ps x l (after_yield d es) t \<Longrightarrow> continues s ps x k d es t"

lemma finished_grows:
  assumes "finished s0 s l es t ps x" "grows s s'" "rs_kind s0' = rs_kind s0" "target_arg_indices s0' = target_arg_indices s0"
  shows "finished s0' s' l es t ps x"
proof -
  have prune: "prune_term_target_args s0' t' = prune_term_target_args s0 t'" for t'
    unfolding prune_term_target_args_def assms(4) by (rule refl)
  show ?thesis
    using assms(1) pushed_grows [OF _ assms(2)]
    unfolding finished_def prune assms(3) by (cases t; simp; blast)
qed

lemma realizes_grows:
  "realizes s ps x l es t \<Longrightarrow> grows s s' \<Longrightarrow> realizes s' ps x l es t"
  "continues s ps x k d es t \<Longrightarrow> grows s s' \<Longrightarrow> continues s' ps x k d es t"
proof (induction rule: realizes_continues.inducts)
  case (ends es t l)
  have "finished s' s' l es t ps x"
    by (rule finished_grows [OF ends(2,3)]) (use ends(3) in \<open>simp_all add: grows_def\<close>)
  with ends(1) show ?case by (rule realizes_continues.ends)
next
  case (yields pre e d v pre' v' l k post t)
  then show ?case using pushed_grows by (intro realizes_continues.yields) blast+
next
  case (resumes k r a l d es t)
  then show ?case using pushed_grows target_grows by (intro realizes_continues.resumes) blast+
qed

section \<open>Fragments\<close>

text \<open>Every yield is a plain one.\<close>

definition plain_yields :: "y_expr list \<Rightarrow> y_expr block_term \<Rightarrow> bool" where
  "plain_yields es t \<longleftrightarrow>
     list_all (\<lambda>e. stmt_yield_site e \<noteq> None \<longrightarrow> plain_yield e \<noteq> None) es \<and> term_yield_site t = None"

lemma plain_site:
  assumes "plain_yield e = Some (d, v)"
  shows "stmt_yield_site e = Some (case d of None \<Rightarrow> ExprYield (explicit_yield_value v) | Some n \<Rightarrow> AssignYield n (explicit_yield_value v))"
  using assms by (cases e rule: plain_yield.cases) auto

lemma fragment_realizes:
  assumes "resume_inv K P s" "l \<in> P" "set_option x \<union> set (successors t) \<subseteq> K" "plain_yields es t"
    and "lower_resume_fragment l es t ps x s = Some s'"
  shows "realizes s' ps x l es t"
  using assms
proof (induction l es t ps x s arbitrary: P rule: lower_resume_fragment.induct)
  case (1 l es t ps x s)
  show ?case
  proof (cases "next_site es t")
    case None
    then have low: "lower_last_fragment l es t ps x s = Some s'"
      using "1.prems"(5) by (simp add: lower_resume_fragment.simps [of l es t])
    from lower_last_inv [OF "1.prems"(1-3) low] have "grows s s'" "finished s s' l es t ps x" by blast+
    then have "finished s' s' l es t ps x"
      using finished_grows [OF \<open>finished s s' l es t ps x\<close> grows_refl] by (simp add: grows_def)
    with None show ?thesis by (rule realizes_continues.ends)
  next
    case (Some r)
    obtain pre site post t1 where r: "next_site es t = Some (pre, site, post, t1)" using Some by (cases r) simp
    with "1.prems"(5) obtain pre' s1 l1 es1 t2 where d: "opt_map lower_stmt_no_yield pre = Some pre'"
      "emit_yield_site l pre' site post t1 ps x s = Some (s1, l1, es1, t2)"
      "lower_resume_fragment l1 es1 t2 ps x s1 = Some s'"
      by (auto simp: lower_resume_fragment.simps [of l es t] bind_eq_Some_conv)
    have "term_yield_site t = None" using "1.prems"(4) by (simp add: plain_yields_def)
    then have f: "first_site es = Some (pre, site, post)" "t1 = t"
      using r by (auto simp: next_site_def split: option.splits)
    from first_site_Some [OF f(1)] obtain e where e: "es = pre @ e # post" "stmt_yield_site e = Some site"
      "list_all (\<lambda>e. stmt_yield_site e = None) pre" by blast
    then obtain d v where dv: "plain_yield e = Some (d, v)" using "1.prems"(4) by (auto simp: plain_yields_def)
    let ?v = "explicit_yield_value v"
    have emit: "emit_yield l pre' ?v d post t ps x s = Some (s1, l1, es1, t2)"
      using d(2) e(2) plain_site [OF dv] f(2) by (cases d) (auto simp: emit_yield_site_def)
    have x: "set_option x \<subseteq> K" using "1.prems"(3) by simp
    obtain v' rl al where inv: "resume_inv K (insert l1 (P - {l})) s1" "grows s s1" "yield_value_expr ?v = Some v'"
      "(next_resume_pc s, rl) \<in> set (resume_targets s1)"
      "pushed s1 (plain_block l (pre' @ [internal_store_stmt ''_dp_pc'' (core_literal_int (next_resume_pc s)),
          internal_store_stmt ''_dp_yieldfrom'' core_none]) (Return v') ps) x"
      "pushed s1 (plain_block rl [] (IfTerm is_resume_exc_test al l1) ps) x"
      "pushed s1 (plain_block al [] resume_exc_raise_term ps) x" "es1 = after_yield d post" "t2 = t"
      by (rule emit_yield_inv [OF "1.prems"(1,2) x emit]) (simp add: after_yield_def)
    have plain: "plain_yields es1 t2" using "1.prems"(4) e(1) inv(8,9)
      by (auto simp: plain_yields_def after_yield_def split: option.split)
    have K: "set_option x \<union> set (successors t2) \<subseteq> K" using "1.prems"(3) inv(9) by simp
    note rest = "1.IH" [OF r refl refl refl d(1,2) refl refl refl inv(1) insertI1 K plain d(3)]
    have g: "grows s1 s'" using fragment_inv [OF inv(1) insertI1 K d(3)] by blast
    have "continues s' ps x (next_resume_pc s) d post t"
      by (rule realizes_continues.resumes [OF target_grows [OF inv(4) g] pushed_grows [OF inv(6) g] pushed_grows [OF inv(7) g]])
        (use rest inv(8,9) in simp)
    then show ?thesis unfolding e(1)
      by (rule realizes_continues.yields [OF e(3) dv d(1) inv(3) pushed_grows [OF inv(5) g]])
  qed
qed

section \<open>The whole function\<close>

definition block_realized ::
  "(block_label \<rightharpoonup> block_label) \<Rightarrow> (block_label \<rightharpoonup> block_label option) \<Rightarrow> resume_state \<Rightarrow> (y_expr, y_expr) block \<Rightarrow> bool" where
  "block_realized m x s b \<longleftrightarrow>
     (\<exists>l t. m (label b) = Some l \<and> relabel_targets m (bterm b) = Some t \<and>
        realizes s (params b) (unwrap_or None (x l)) l (body b) t)"

lemma relabelled_plain: "relabel_targets m t = Some t' \<Longrightarrow> plain_yields es t \<Longrightarrow> plain_yields es t'"
  by (cases "(m, t)" rule: relabel_targets.cases) (auto simp: plain_yields_def bind_eq_Some_conv)

lemma queue_realizes:
  assumes "resume_inv K P s" "map (m \<circ> label) bs = map Some ls" "distinct ls" "set ls \<subseteq> P"
    and "ran m \<subseteq> K" "\<And>l. set_option (unwrap_or None (x l)) \<subseteq> K" "lower_resume_queue m x bs s = Some s'"
    and "list_all (\<lambda>b. plain_yields (body b) (bterm b)) bs"
  shows "list_all (block_realized m x s') bs"
  using assms
proof (induction bs arbitrary: ls P s)
  case (Cons b bs)
  from Cons.prems(2) obtain l ls' where ls: "ls = l # ls'" "m (label b) = Some l" "map (m \<circ> label) bs = map Some ls'"
    by (cases ls) (auto simp: o_def)
  from Cons.prems(7) obtain s1 t where 1: "relabel_targets m (bterm b) = Some t"
    "lower_resume_fragment l (body b) t (params b) (unwrap_or None (x l)) s = Some s1"
    "lower_resume_queue m x bs s1 = Some s'"
    by (auto simp: lower_resume_block_def ls(2) bind_eq_Some_conv declared_params_all)
  have K: "set_option (unwrap_or None (x l)) \<union> set (successors t) \<subseteq> K"
    using Cons.prems(5,6) relabel_targets_ran [OF 1(1)] by blast
  have l: "l \<in> P" using Cons.prems(4) ls(1) by simp
  have "plain_yields (body b) t" using relabelled_plain [OF 1(1)] Cons.prems(8) by simp
  note here = fragment_realizes [OF Cons.prems(1) l K this 1(2)]
  note 2 = fragment_inv [OF Cons.prems(1) l K 1(2)]
  have rest: "distinct ls'" "set ls' \<subseteq> P - {l}" using Cons.prems(3,4) ls(1) by auto
  have "grows s1 s'" using queue_inv [OF conjunct1 [OF 2] ls(3) rest Cons.prems(5,6) 1(3)] by blast
  then have "block_realized m x s' b"
    unfolding block_realized_def using realizes_grows(1) [OF here] ls(2) 1(1) by blast
  moreover have "list_all (block_realized m x s') bs"
    using Cons.IH [OF conjunct1 [OF 2] ls(3) rest Cons.prems(5,6) 1(3)] Cons.prems(8) by simp
  ultimately show ?case by simp
qed simp

end
