(* ===== verification/Resume_Effects.thy ===== *)
theory Resume_Effects
  imports Resume_Realizes
begin

text \<open>
  Assumptions on a generator without \<open>yield from\<close>, and what a block of the resume function does to the
  memory next to the statements it realizes. The program must not use the names of the state machine,
  and a \<open>return\<close> inside a \<open>try\<close> must not raise: the lowering evaluates what it returns outside the
  handler.
\<close>

section \<open>Assumptions on the program\<close>

definition register_names :: "string list" where
  "register_names = [''_dp_pc'', ''_dp_yieldfrom'', ''_dp_throw_context'', ''_dp_send_value'', ''_dp_resume_exc'']"

fun register_node :: "core \<Rightarrow> bool" where
  "register_node (CoreOp m (Load n)) \<longleftrightarrow> n \<in> SourceName ` set register_names"
| "register_node (CoreOp m (Store n v)) \<longleftrightarrow> n \<in> SourceName ` set register_names"
| "register_node _ \<longleftrightarrow> False"

text \<open>An expression that neither uses the names of the state machine nor builds its completion.\<close>

definition untouched :: "core \<Rightarrow> bool" where
  "untouched e \<longleftrightarrow> completion_of e = None \<and> list_all (\<lambda>x. \<not> register_node x) (core_preorder e)"

fun stmt_untouched :: "y_expr \<Rightarrow> bool" where
  "stmt_untouched e \<longleftrightarrow>
     (case plain_yield e of
        None \<Rightarrow> untouched (core_of e)
      | Some (d, v) \<Rightarrow> untouched (core_of v) \<and> (case d of None \<Rightarrow> True | Some n \<Rightarrow> n \<notin> SourceName ` set register_names))"

definition edge_fits :: "('s, 'e) block list \<Rightarrow> 'e block_term \<Rightarrow> bool" where
  "edge_fits bs t \<longleftrightarrow>
     (case t of
        Jump e \<Rightarrow> (case find_block bs (target e) of None \<Rightarrow> True | Some b \<Rightarrow> length (edge_args e) \<le> length (params b))
      | _ \<Rightarrow> True)"

definition plain_block_ok :: "(y_expr, y_expr) block list \<Rightarrow> (y_expr, y_expr) block \<Rightarrow> bool" where
  "plain_block_ok bs b \<longleftrightarrow>
     explicit_block b \<and> plain_yields (body b) (bterm b) \<and> list_all stmt_untouched (body b) \<and>
     list_all (\<lambda>e. untouched (core_of e)) (term_exprs (bterm b)) \<and> edge_fits bs (bterm b)"

definition plain_generator :: "y_expr bp_function \<Rightarrow> bool" where
  "plain_generator f \<longleftrightarrow>
     (fn_kind f = KGenerator \<or> fn_kind f = KCoroutine) \<and> list_all (plain_block_ok (fn_blocks f)) (fn_blocks f)"

text \<open>The exception parameters of blocks can be read, and the values returned inside a \<open>try\<close> do not
  raise.\<close>

definition never_raises :: "('e, 'st, 'v, 'x) sem \<Rightarrow> 'e \<Rightarrow> bool" where
  "never_raises S e \<longleftrightarrow> (\<forall>st. \<not> isl (fst (sem_eval S e st)))"

definition reads :: "('e, 'st, 'v, 'x) sem \<Rightarrow> 'e \<Rightarrow> bool" where
  "reads S e \<longleftrightarrow> (\<forall>st. \<exists>w. sem_eval S e st = (Inr w, st))"

definition returns_safely :: "('st, 'v, 'x) gen_sem \<Rightarrow> (y_expr, y_expr) block \<Rightarrow> bool" where
  "returns_safely G b \<longleftrightarrow>
     (case bterm b of Return v \<Rightarrow> exc_edge b = None \<or> never_raises (core_sem G) (core_of v) | _ \<Rightarrow> True)"

definition gen_sem_ok :: "('st, 'v, 'x) gen_sem \<Rightarrow> (y_expr, y_expr) block list \<Rightarrow> bool" where
  "gen_sem_ok G bs \<longleftrightarrow>
     binds_by_role (core_sem G) \<and>
     list_all (\<lambda>b. reads (core_sem G) (active_exception (params b)) \<and> returns_safely G b) bs"

section \<open>Expressions\<close>

lemma register_names_simps [simp]:
  "''_dp_pc'' \<in> set register_names" "''_dp_yieldfrom'' \<in> set register_names" "''_dp_throw_context'' \<in> set register_names"
  "''_dp_send_value'' \<in> set register_names" "''_dp_resume_exc'' \<in> set register_names"
  by (simp_all add: register_names_def)

lemma register_node_name: "register_node (core_name n) \<longleftrightarrow> n \<in> set register_names"
  by (auto simp: core_name_def)

lemma untouched_register: "untouched e \<Longrightarrow> register_of e = NoRegister"
proof -
  assume u: "untouched e"
  then have nodes: "\<not> register_node x" if "x \<in> set (core_preorder e)" for x
    using that by (simp add: untouched_def list_all_iff)
  have names: "e \<noteq> core_name n" if "n \<in> set register_names" for n
    using nodes [OF cor.self_in_preorder] that register_node_name by blast
  have kids: "\<not> register_node c" if "c \<in> set (core_children e)" for c
    using nodes that cor.in_preorder_iff [of c e] cor.self_in_preorder by blast
  have "core_name ''_dp_resume_exc'' \<in> set (core_preorder is_resume_exc_test)"
    unfolding is_resume_exc_test_def core_not_def core_is_def
    by (simp add: cor.in_preorder_iff [of _ "CoreOp m op" for m op])
  then have "e \<noteq> is_resume_exc_test" using nodes [of "core_name ''_dp_resume_exc''"] by (auto simp: register_node_name)
  moreover have "completion_of e = None" using u by (simp add: untouched_def)
  moreover have "stored_register e = NoRegister"
  proof (cases "\<exists>m n v. e = CoreOp m (Store n v)")
    case True
    then obtain m n v where e: "e = CoreOp m (Store n v)" by blast
    have "n \<notin> SourceName ` set register_names" using nodes [OF cor.self_in_preorder] by (simp add: e)
    moreover have "v \<noteq> core_name ''_dp_send_value''" using kids [of v] register_node_name by (auto simp: e)
    ultimately show ?thesis by (auto simp: e)
  qed (cases e rule: stored_register.cases; simp)
  ultimately show ?thesis using names by (simp add: register_of_def)
qed

lemma lowered_core: "lower_stmt_no_yield e = Some x \<Longrightarrow> core_of e = x"
  by (auto simp: lower_stmt_no_yield_def no_yield_Some core_of_def)

lemma lowered_core_term: "lower_term_no_yield t = Some t' \<Longrightarrow> core_term t = t'"
  by (cases "(err_on_yield, t)" rule: try_map_term.cases)
    (auto simp: lower_term_no_yield_def no_yield_Some core_of_def res_map_def res_bind_def split: sum.splits)

lemma yielded_core:
  assumes "yield_value_expr (explicit_yield_value v) = Some v'"
  shows "yielded v = v'"
  using assms lowered_core by (auto simp: yield_value_expr_def explicit_yield_value_def yielded_def split: if_splits)

lemma none_untouched: "untouched core_none"
  by (auto simp: untouched_def core_none_def cor.preorder_unfold)

lemma yielded_untouched: "untouched (core_of v) \<Longrightarrow> untouched (yielded v)"
  by (simp add: yielded_def none_untouched)

section \<open>Effects on the memory\<close>

text \<open>What the program cannot change: everything but its state and the exception being handled.\<close>

definition same_registers :: "('st, 'v, 'x) resume_mem \<Rightarrow> ('st, 'v, 'x) resume_mem \<Rightarrow> bool" where
  "same_registers M M' \<longleftrightarrow> pc_cell M' = pc_cell M \<and> sent M' = sent M \<and> thrown M' = thrown M"

lemma same_registers_simps [simp]:
  "same_registers M M" "same_registers M (M\<lparr>user := s\<rparr>)" "same_registers M (M\<lparr>user := s, context_cell := c\<rparr>)"
  "same_registers M (M\<lparr>context_cell := c\<rparr>)"
  by (simp_all add: same_registers_def)

lemma same_registers_trans: "same_registers M M' \<Longrightarrow> same_registers M' M'' \<Longrightarrow> same_registers M M''"
  by (simp add: same_registers_def)

lemma resume_sem_sel [simp]:
  "sem_eval (resume_sem G) = resume_eval G" "sem_raise (resume_sem G) = resume_raise G"
  by (simp_all add: resume_sem_def)

lemma eval_untouched: "untouched e \<Longrightarrow> resume_eval G e M = on_user Plain (sem_eval (core_sem G) e (user M)) M"
  by (simp add: resume_eval_def untouched_register)

lemma on_user_simps [simp]:
  "on_user f (Inl x, s) M = (Inl (User x), M\<lparr>user := s\<rparr>)" "on_user f (Inr a, s) M = (Inr (f a), M\<lparr>user := s\<rparr>)"
  by (simp_all add: on_user_def)

text \<open>The statements of the state machine itself.\<close>

lemma register_stores:
  "register_of (internal_store_stmt ''_dp_pc'' (core_literal_int k)) = StorePc k"
  "register_of (internal_store_stmt ''_dp_yieldfrom'' core_none) = StoreYieldFrom"
  "register_of (internal_store_stmt ''_dp_throw_context'' v) = StoreContext v"
  by (simp_all add: register_of_def internal_store_stmt_def core_name_def is_resume_exc_test_def core_not_def core_literal_int_def)

lemma register_loads:
  "register_of (core_name ''_dp_pc'') = LoadPc" "register_of (core_name ''_dp_resume_exc'') = LoadThrown"
  "register_of is_resume_exc_test = TestThrown"
  by (simp_all add: register_of_def core_name_def is_resume_exc_test_def core_not_def)

lemma context_stored:
  assumes "reads (core_sem G) v"
  shows "\<exists>M'. resume_eval G (internal_store_stmt ''_dp_throw_context'' v) M = (Inr (Number 0), M') \<and>
    same_registers M M' \<and> user M' = user M"
proof -
  obtain w where "sem_eval (core_sem G) v (user M) = (Inr w, user M)" using assms by (auto simp: reads_def)
  then show ?thesis by (simp add: resume_eval_def register_stores)
qed

section \<open>Statements\<close>

text \<open>Statements with the store of the sent value among them.\<close>

definition stmt_exec :: "('st, 'v, 'x) gen_sem \<Rightarrow> 'v \<Rightarrow> y_expr \<Rightarrow> 'st \<Rightarrow> ('x + 'v) \<times> 'st" where
  "stmt_exec G w e st =
     (case register_of (core_of e) of PutSent n \<Rightarrow> put_name G n w st | _ \<Rightarrow> sem_eval (core_sem G) (core_of e) st)"

fun exec_sent :: "('st, 'v, 'x) gen_sem \<Rightarrow> 'v \<Rightarrow> y_expr list \<Rightarrow> y_expr block_term \<Rightarrow> 'st \<Rightarrow> ('st, 'v, 'x) gen_control" where
  "exec_sent G w [] t st = Leave (exec_term (core_sem G) (core_term t) st)"
| "exec_sent G w (e # es) t st =
     (case plain_yield e of
        Some (d, v) \<Rightarrow> or_leave (sem_eval (core_sem G) (yielded v) st) (\<lambda>u s. Suspend u d es s)
      | None \<Rightarrow> or_leave (stmt_exec G w e st) (\<lambda>_ s. exec_sent G w es t s))"

definition stmt_runs :: "y_expr \<Rightarrow> bool" where
  "stmt_runs e \<longleftrightarrow>
     (case plain_yield e of
        None \<Rightarrow> register_of (core_of e) = NoRegister \<or> (\<exists>n. register_of (core_of e) = PutSent n)
      | Some (d, v) \<Rightarrow> untouched (core_of v))"

lemma or_leave_simps [simp]: "or_leave (Inl x, s) k = Leave (Throw x s)" "or_leave (Inr a, s) k = k a s"
  by (simp_all add: or_leave_def)

lemma or_leave_cong: "(\<And>a s. k a s = k' a s) \<Longrightarrow> or_leave r k = or_leave r k'"
  by (auto simp: or_leave_def split: prod.split sum.split)

lemma untouched_runs: "stmt_untouched e \<Longrightarrow> stmt_runs e"
  by (auto simp: stmt_runs_def untouched_register split: option.splits)

lemma exec_sent_untouched: "list_all stmt_untouched es \<Longrightarrow> exec_sent G w es t st = gen_exec G es t st"
  by (induction es arbitrary: st)
    (auto simp: stmt_exec_def untouched_register split: option.split intro!: or_leave_cong)

lemma sent_store:
  assumes "n \<notin> SourceName ` set register_names"
  shows "register_of (core_of (y_store n (y_name ''_dp_send_value''))) = PutSent n"
    "plain_yield (y_store n (y_name ''_dp_send_value'')) = None"
proof -
  have "core_of (y_store n (y_name ''_dp_send_value'')) = CoreOp synthetic (Store n (core_name ''_dp_send_value''))"
    by (simp add: core_of_def y_store_def y_name_def err_on_yield.simps [of "YOp m op" for m op] res_map_def res_bind_def core_name_def)
  then show "register_of (core_of (y_store n (y_name ''_dp_send_value''))) = PutSent n"
    using assms by (auto simp: register_of_def core_name_def is_resume_exc_test_def core_not_def)
qed (simp add: y_store_def y_name_def)

lemma exec_after_yield:
  assumes "list_all stmt_untouched es" "case d of None \<Rightarrow> True | Some n \<Rightarrow> n \<notin> SourceName ` set register_names"
  shows "exec_sent G w (after_yield d es) t st = gen_receive G d es t (Send w) st" "list_all stmt_runs (after_yield d es)"
proof -
  have "exec_sent G w es t = gen_exec G es t" by (intro ext exec_sent_untouched [OF assms(1)])
  then show "exec_sent G w (after_yield d es) t st = gen_receive G d es t (Send w) st"
    using assms(2)
    by (cases d) (auto simp: after_yield_def gen_receive_def stmt_exec_def sent_store)
  have "list_all stmt_runs es" using assms(1) untouched_runs by (auto simp: list_all_iff)
  then show "list_all stmt_runs (after_yield d es)"
    using assms(2) by (cases d) (auto simp: after_yield_def stmt_runs_def sent_store)
qed

lemma no_site_no_yield: "stmt_yield_site e = None \<Longrightarrow> plain_yield e = None"
  by (cases e rule: plain_yield.cases) auto

lemma body_sim:
  assumes "opt_map lower_stmt_no_yield pre = Some pre'" "list_all (\<lambda>e. stmt_yield_site e = None) pre" "list_all stmt_runs pre"
    and "\<And>M'. same_registers M M' \<Longrightarrow> Q (exec_sent G (sent M) es t (user M')) (k M')"
    and throw: "\<And>x M'. Q (Leave (Throw x (user M'))) (Throw (User x) M')"
  shows "Q (exec_sent G (sent M) (pre @ es) t (user M)) (exec_body (resume_sem G) pre' k M)"
  using assms(1-4)
proof (induction pre arbitrary: pre' M)
  case (Cons e pre)
  from Cons.prems(1) obtain x xs where x: "lower_stmt_no_yield e = Some x" "opt_map lower_stmt_no_yield pre = Some xs" "pre' = x # xs"
    by (auto simp: bind_eq_Some_conv)
  have y: "plain_yield e = None" using Cons.prems(2) no_site_no_yield by simp
  have core: "core_of e = x" using lowered_core [OF x(1)] .
  have eval: "resume_eval G x M = on_user Plain (stmt_exec G (sent M) e (user M)) M"
    using Cons.prems(3) y by (auto simp: stmt_runs_def stmt_exec_def resume_eval_def core)
  obtain r s where r: "stmt_exec G (sent M) e (user M) = (r, s)" by fastforce
  show ?case
  proof (cases r)
    case (Inl y)
    then show ?thesis using r eval y throw [of y "M\<lparr>user := s\<rparr>"] \<open>plain_yield e = None\<close> by (simp add: x(3))
  next
    case (Inr u)
    let ?M = "M\<lparr>user := s\<rparr>"
    have "Q (exec_sent G (sent ?M) (pre @ es) t (user ?M)) (exec_body (resume_sem G) xs k ?M)"
    proof (rule Cons.IH [OF x(2)])
      fix M' assume "same_registers ?M M'"
      then have "same_registers M M'" by (simp add: same_registers_def)
      then show "Q (exec_sent G (sent ?M) es t (user M')) (k M')" using Cons.prems(4) by simp
    qed (use Cons.prems(2,3) in simp_all)
    then show ?thesis using r Inr eval \<open>plain_yield e = None\<close> by (simp add: x(3))
  qed
next
  case Nil
  then show ?case using Nil(4) [of M] by simp
qed

section \<open>Blocks\<close>

text \<open>The same transfer of control, on the memory.\<close>

definition same_control :: "('st, 'v, 'x) control \<Rightarrow> (('st, 'v, 'x) resume_mem, ('v, 'x) resume_value, ('v, 'x) resume_exc) control \<Rightarrow> bool" where
  "same_control c c' \<longleftrightarrow>
     (case c of
        Goto e st \<Rightarrow> (\<exists>M. c' = Goto e M \<and> user M = st)
      | Throw x st \<Rightarrow> (\<exists>M. c' = Throw (User x) M \<and> user M = st)
      | Finish w st \<Rightarrow> (\<exists>M. c' = Finish (Plain w) M \<and> user M = st))"

lemma same_control_throw: "same_control (Throw x (user M)) (Throw (User x) M)"
  by (simp add: same_control_def)

lemma same_on_user:
  assumes "\<And>a M'. same_control (k a (user M')) (k' (f a) M')"
  shows "same_control (on_value r k) (on_value (on_user f r M) k')"
proof -
  obtain a s where r: "r = (a, s)" by fastforce
  show ?thesis using assms [of _ "M\<lparr>user := s\<rparr>"] same_control_throw [of _ "M\<lparr>user := s\<rparr>"] by (cases a) (auto simp: r)
qed

lemma term_sim:
  assumes "list_all untouched (term_exprs t)"
  shows "same_control (exec_term (core_sem G) t (user M)) (exec_term (resume_sem G) t M)"
proof -
  have eval: "same_control (on_value (sem_eval (core_sem G) e (user M)) k) (on_value (resume_eval G e M) k')"
    if "untouched e" "\<And>a M'. same_control (k a (user M')) (k' (Plain a) M')" for e k k'
    unfolding eval_untouched [OF that(1)] by (rule same_on_user) (rule that(2))
  show ?thesis
  proof (cases t)
    case (IfTerm c a b)
    then show ?thesis using assms
      by (auto simp: resume_sem_def [of G] intro!: eval same_on_user) (simp_all add: same_control_def)
  next
    case (BranchTable i ts d)
    then show ?thesis using assms
      by (auto simp: resume_sem_def [of G] intro!: eval same_on_user) (simp_all add: same_control_def)
  next
    case (Raise x)
    show ?thesis
    proof (cases x)
      case None
      then show ?thesis by (simp add: Raise resume_sem_def [of G] same_control_def split: prod.split)
    next
      case (Some e)
      have raise: "same_control (let (x, s') = sem_raise (core_sem G) a (user M') in Throw x s')
          (let (x, s') = resume_raise G (Plain a) M' in Throw x s')" for a M'
        by (simp add: resume_raise_def same_control_def split: prod.split)
      show ?thesis using assms by (simp add: Raise Some) (rule eval, simp, use raise in \<open>simp\<close>)
    qed
  next
    case (Return v)
    then show ?thesis using assms by (auto intro!: eval) (simp add: same_control_def)
  qed (simp add: same_control_def)
qed

text \<open>What a block of the resume function does, next to the statements it realizes: it suspends where they
  suspend, and continues where they continue; a return goes to the block that raises the completion.\<close>

definition reaches ::
  "('st, 'v, 'x) gen_sem \<Rightarrow> resume_state \<Rightarrow> block_param list \<Rightarrow> block_label option \<Rightarrow> y_expr block_term \<Rightarrow> ('st, 'v, 'x) gen_control \<Rightarrow>
     (('st, 'v, 'x) resume_mem, ('v, 'x) resume_value, ('v, 'x) resume_exc) control \<Rightarrow> bool" where
  "reaches G s ps x t c c' \<longleftrightarrow>
     (case c of
        Suspend w d es st \<Rightarrow> (\<exists>M. c' = Finish (Plain w) M \<and> user M = st \<and> continues s ps x (pc_cell M) d es t)
      | Leave c0 \<Rightarrow>
          (\<exists>y M. c0 = Throw y (user M) \<and> c' = Throw (User y) M) \<or>
          (case t of
             Return v \<Rightarrow>
               (\<exists>l ct M. c' = Goto (edge_new l) M \<and> c0 = on_value (sem_eval (core_sem G) (core_of v) (user M)) Finish \<and>
                  completion_raise (rs_kind s) (Some (core_of v)) = Some ct \<and> pushed s (plain_block l [] ct ps) None)
           | _ \<Rightarrow> same_control c0 c'))"

lemma realized_block:
  assumes "realizes s ps x l es t" "list_all stmt_runs es" "list_all untouched (map core_of (term_exprs t))"
    and "prune_term_target_args s (core_term t) = core_term t" "reads (core_sem G) (active_exception ps)"
  obtains B where "pushed s B x" "label B = l" "params B = ps"
    "\<And>M. reaches G s ps x t (exec_sent G (sent M) es t (user M)) (exec_linear (resume_sem G) (with_context B) M)"
proof -
  have enter: "\<exists>M'. exec_linear (resume_sem G) (with_context B) M = exec_body (resume_sem G) (body B) (exec_term (resume_sem G) (bterm B)) M' \<and>
      same_registers M M' \<and> user M' = user M" if "params B = ps" for B :: "(core, core) block" and M
    using context_stored [OF assms(5), of M] that by (auto simp: exec_linear_def with_context_def)
  have throw: "reaches G s ps x t (Leave (Throw y (user M))) (Throw (User y) M)" for y M
    by (auto simp: reaches_def)
  have run: "reaches G s ps x t (exec_sent G (sent M) (pre @ rest) t (user M)) (exec_linear (resume_sem G) (with_context B) M)"
    if B: "params B = ps" "body B = pre' @ post'" and pre: "opt_map lower_stmt_no_yield pre = Some pre'" "list_all (\<lambda>e. stmt_yield_site e = None) pre"
      "list_all stmt_runs pre"
      and rest: "\<And>M'. same_registers M M' \<Longrightarrow>
         reaches G s ps x t (exec_sent G (sent M) rest t (user M')) (exec_body (resume_sem G) post' (exec_term (resume_sem G) (bterm B)) M')"
    for B M pre rest pre' post'
  proof -
    obtain M1 where M1: "exec_linear (resume_sem G) (with_context B) M =
        exec_body (resume_sem G) (body B) (exec_term (resume_sem G) (bterm B)) M1" "same_registers M M1" "user M1 = user M"
      using enter [OF B(1), of M] by blast
    have "reaches G s ps x t (exec_sent G (sent M1) (pre @ rest) t (user M1))
        (exec_body (resume_sem G) pre' (exec_body (resume_sem G) post' (exec_term (resume_sem G) (bterm B))) M1)"
    proof (rule body_sim [OF pre])
      fix M' assume "same_registers M1 M'"
      with M1(2) have "same_registers M M'" "sent M1 = sent M" by (auto simp: same_registers_def)
      then show "reaches G s ps x t (exec_sent G (sent M1) rest t (user M'))
          (exec_body (resume_sem G) post' (exec_term (resume_sem G) (bterm B)) M')" using rest by simp
    qed (rule throw)
    moreover have "sent M1 = sent M" using M1(2) by (simp add: same_registers_def)
    ultimately show ?thesis using M1(1,3) by (simp add: B(2) exec_body_append)
  qed
  from assms(1) show thesis
  proof (cases rule: realizes.cases)
    case ends
    have sites: "list_all (\<lambda>e. stmt_yield_site e = None) es"
      using ends(1) by (auto simp: next_site_def first_site_None split: option.splits)
    obtain es' where es': "opt_map lower_stmt_no_yield es = Some es'" using ends(2) by (auto simp: finished_def)
    show thesis
    proof (cases "\<exists>v. t = Return v")
      case True
      then obtain v v' c ct where t: "t = Return v" "lower_stmt_no_yield v = Some v'" "completion_raise (rs_kind s) (Some v') = Some ct"
        "pushed s (plain_block l es' (Jump (edge_new c)) ps) x" "pushed s (plain_block c [] ct ps) None"
        using ends(2) es' by (auto simp: finished_def)
      let ?B = "plain_block l es' (Jump (edge_new c)) ps"
      have last: "reaches G s ps x t (exec_sent G (sent M) [] t (user M'))
          (exec_body (resume_sem G) [] (exec_term (resume_sem G) (bterm ?B)) M')" for M M'
        using t(1,3,5) lowered_core [OF t(2)] by (auto simp: reaches_def)
      show thesis
      proof (rule that [OF t(4)])
        show "reaches G s ps x t (exec_sent G (sent M) es t (user M)) (exec_linear (resume_sem G) (with_context ?B) M)" for M
          using run [of ?B es' "[]" es M "[]", OF _ _ es' sites assms(2) last] by simp
      qed simp_all
    next
      case False
      then obtain t' where t': "lower_term_no_yield t = Some t'" "pushed s (plain_block l es' (prune_term_target_args s t') ps) x"
        using ends(2) es' by (cases t) (auto simp: finished_def)
      have core: "core_term t = t'" using lowered_core_term [OF t'(1)] .
      let ?B = "plain_block l es' (core_term t) ps"
      have "term_exprs (core_term t) = map core_of (term_exprs t)" by (cases t) (auto split: option.split)
      then have "same_control (exec_term (core_sem G) (core_term t) (user M')) (exec_term (resume_sem G) (core_term t) M')" for M'
        using assms(3) by (intro term_sim) simp
      then have last: "reaches G s ps x t (exec_sent G (sent M) [] t (user M'))
          (exec_body (resume_sem G) [] (exec_term (resume_sem G) (bterm ?B)) M')" for M M'
        using False by (cases t) (auto simp: reaches_def)
      show thesis
      proof (rule that)
        show "pushed s ?B x" using t'(2) assms(4) core by simp
        show "reaches G s ps x t (exec_sent G (sent M) es t (user M)) (exec_linear (resume_sem G) (with_context ?B) M)" for M
          using run [of ?B es' "[]" es M "[]", OF _ _ es' sites assms(2) last] by simp
      qed simp_all
    qed
  next
    case (yields pre e d v pre' v' k post)
    let ?post = "[internal_store_stmt ''_dp_pc'' (core_literal_int k), internal_store_stmt ''_dp_yieldfrom'' core_none]"
    let ?B = "plain_block l (pre' @ ?post) (Return v') ps"
    have v: "yielded v = v'" "untouched v'"
      using yielded_core [OF yields(5)] yielded_untouched assms(2) yields(1,3) by (auto simp: stmt_runs_def)
    have last: "reaches G s ps x t (exec_sent G (sent M) (e # post) t (user M'))
        (exec_body (resume_sem G) ?post (exec_term (resume_sem G) (bterm ?B)) M')" for M M'
    proof -
      let ?M = "M'\<lparr>pc_cell := k\<rparr>"
      have "exec_body (resume_sem G) ?post (exec_term (resume_sem G) (bterm ?B)) M' =
          on_value (on_user Plain (sem_eval (core_sem G) v' (user M')) ?M) Finish"
        by (simp add: resume_eval_def [of G "internal_store_stmt n w" for n w] register_stores eval_untouched [OF v(2)])
      moreover obtain r st where "sem_eval (core_sem G) v' (user M') = (r, st)" by fastforce
      ultimately show ?thesis
        using yields(3,7) throw [of _ "?M\<lparr>user := st\<rparr>"]
        by (cases r) (auto simp: v(1) reaches_def)
    qed
    show thesis
    proof (rule that [OF yields(6)])
      show "reaches G s ps x t (exec_sent G (sent M) es t (user M)) (exec_linear (resume_sem G) (with_context ?B) M)" for M
        using run [of ?B pre' ?post pre M "e # post", OF _ _ yields(4,2) _ last] assms(2) by (simp add: yields(1))
    qed simp_all
  qed
qed

end
