(* ===== verification/Resume_Run.thy ===== *)
theory Resume_Run
  imports Resume_Effects
begin

text \<open>
  The simulation: a run of the generator from one yield to the next is a call of the resume function
  (\<open>lower_resume_blocks\<close> of \<open>passes/blockpy_generators/mod.rs\<close>), and so is every sequence of them.
\<close>

section \<open>The code of a generator\<close>

definition handler :: "(block_label \<rightharpoonup> block_label) \<Rightarrow> ('s, 'e) block \<Rightarrow> block_label option" where
  "handler m b = (case exc_edge b of None \<Rightarrow> None | Some e \<Rightarrow> m (target e))"

definition block_code :: "(block_label \<rightharpoonup> block_label) \<Rightarrow> resume_state \<Rightarrow> (y_expr, y_expr) block \<Rightarrow> bool" where
  "block_code m s b \<longleftrightarrow>
     (\<exists>l t. m (label b) = Some l \<and> relabel_targets m (bterm b) = Some t \<and>
        realizes s (params b) (handler m b) l (body b) t \<and> prune_term_target_args s (core_term t) = core_term t) \<and>
     (\<forall>e. exc_edge b = Some e \<longrightarrow> m (target e) \<noteq> None)"

definition entry_code :: "(core, core) block list \<Rightarrow> block_label \<Rightarrow> resume_state \<Rightarrow> bool" where
  "entry_code F d s \<longleftrightarrow>
     (\<exists>ts ex. find_block F d = Some (plain_block d [] (BranchTable (core_name ''_dp_pc'') ts ex) []) \<and>
        (\<forall>(k, r)\<in>set (resume_targets s). k < length ts \<and> ts ! k = r))"

definition resume_code ::
  "('st, 'v, 'x) gen_sem \<Rightarrow> (y_expr, y_expr) block list \<Rightarrow> (core, core) block list \<Rightarrow> block_label \<Rightarrow>
     (block_label \<rightharpoonup> block_label) \<Rightarrow> resume_state \<Rightarrow> bool" where
  "resume_code G bs F d m s \<longleftrightarrow>
     distinct (map label bs) \<and> dom m = label ` set bs \<and> bs \<noteq> [] \<and>
     list_all (block_code m s) bs \<and> list_all (plain_block_ok bs) bs \<and> gen_sem_ok G bs \<and>
     (\<forall>b x. pushed s b x \<longrightarrow> find_block F (label b) = Some ((with_context b)\<lparr>exc_edge := map_option edge_new x\<rparr>)) \<and>
     entry_code F d s \<and> (rs_kind s = KGenerator \<or> rs_kind s = KCoroutine) \<and>
     (\<exists>e. m (label (hd bs)) = Some e \<and> (1, e) \<in> set (resume_targets s))"

lemma exec_linear_exc [simp]: "exec_linear S (b\<lparr>exc_edge := x\<rparr>) M = exec_linear S b M"
  by (simp add: exec_linear_def)

section \<open>One block\<close>

text \<open>What the controls of the resume function must lead to after a block of the generator.\<close>

definition after_rel ::
  "resume_state \<Rightarrow> (block_label \<rightharpoonup> block_label) \<Rightarrow> (y_expr, y_expr) block \<Rightarrow> y_expr block_term \<Rightarrow> ('st, 'v, 'x) gen_control \<Rightarrow>
     (block_edge \<times> ('v, 'x) resume_exc option \<times> ('st, 'v, 'x) resume_mem) +
       (('st, 'v, 'x) resume_mem, ('v, 'x) resume_value, ('v, 'x) resume_exc) outcome \<Rightarrow> bool" where
  "after_rel s m b t g r \<longleftrightarrow>
     (case g of
        Suspend w d es st \<Rightarrow>
          (\<exists>M. r = Inr (Returned (Plain w) M) \<and> user M = st \<and> continues s (params b) (handler m b) (pc_cell M) d es t)
      | Leave (Goto e st) \<Rightarrow> (\<exists>M. r = Inl (e, None, M) \<and> user M = st)
      | Leave (Finish w st) \<Rightarrow> (\<exists>M. r = Inr (Raised (Done w) M))
      | Leave (Throw x st) \<Rightarrow>
          (\<exists>M. user M = st \<and>
             r = (case handler m b of None \<Rightarrow> Inr (Raised (User x) M) | Some h \<Rightarrow> Inl (edge_new h, Some (User x), M))))"

lemma after_throw:
  "after_rel s m b t (Leave (Throw x (user M))) (dispatch (map_option edge_new (handler m b)) (Throw (User x) M))"
  by (auto simp: after_rel_def dispatch_def split: option.split)

lemma exec_sent_Finish: "exec_sent G w es t st = Leave (Finish u s) \<Longrightarrow> \<exists>v. t = Return v"
proof (induction es arbitrary: st)
  case Nil
  show ?case
  proof (cases t)
    case (Raise x)
    then show ?thesis using Nil by (cases x) (auto simp: on_value_def Let_def split: prod.splits sum.splits)
  qed (use Nil in \<open>auto simp: on_value_def Let_def split: prod.splits sum.splits\<close>)
next
  case (Cons e es)
  then show ?case by (auto simp: or_leave_def split: option.splits prod.splits sum.splits)
qed

lemma completion_steps:
  assumes code: "resume_code G bs F d m s" "b \<in> set bs" "bterm b = Return v"
    and c: "completion_raise (rs_kind s) (Some (core_of v)) = Some ct" "pushed s (plain_block l [] ct (params b)) None"
  shows "\<exists>exc' c'. steps_to (resume_sem G) (exec_linear (resume_sem G)) F (edge_new l) None M exc' c' \<and>
    after_rel s m b t (Leave (on_value (sem_eval (core_sem G) (core_of v) (user M)) Finish)) (dispatch exc' c')"
proof -
  let ?B = "with_context (plain_block l [] ct (params b))"
  have ct: "ct = Raise (Some (core_call ''StopIteration'' [core_of v]))"
    using c(1) code(1) by (auto simp: completion_raise_def resume_code_def)
  have ok: "reads (core_sem G) (active_exception (params b))" "returns_safely G b"
    using code(1,2) by (auto simp: resume_code_def gen_sem_ok_def list_all_iff)
  obtain M' where M': "resume_eval G (internal_store_stmt ''_dp_throw_context'' (active_exception (params b))) M = (Inr (Number 0), M')"
    "user M' = user M" using context_stored [OF ok(1)] by blast
  have "register_of (core_call ''StopIteration'' [core_of v]) = Complete (core_of v)"
    by (simp add: register_of_def core_call_def core_runtime_call_def core_name_def is_resume_exc_test_def core_not_def)
  then have complete: "resume_eval G (core_call ''StopIteration'' [core_of v]) M' =
      on_user Completion (sem_eval (core_sem G) (core_of v) (user M)) M'"
    by (simp add: resume_eval_def M'(2))
  then have run: "exec_linear (resume_sem G) ?B M =
      on_value (on_user Completion (sem_eval (core_sem G) (core_of v) (user M)) M')
        (\<lambda>v s. let (x, s') = resume_raise G v s in Throw x s')"
    by (simp add: exec_linear_def with_context_def M'(1) ct)
  have "find_block F (target (edge_new l)) = Some (?B\<lparr>exc_edge := None\<rparr>)"
    using code(1) c(2) by (fastforce simp: resume_code_def)
  note steps = steps_block [OF this, of "resume_sem G" "exec_linear (resume_sem G)" None M]
  obtain r st where r: "sem_eval (core_sem G) (core_of v) (user M) = (r, st)" by fastforce
  have "after_rel s m b t (Leave (on_value (r, st) Finish)) (dispatch None (exec_linear (resume_sem G) ?B M))"
  proof (cases r)
    case (Inl x)
    then have "exc_edge b = None" using ok(2) r code(3) by (auto simp: returns_safely_def never_raises_def) (metis fst_conv sum.disc(1))
    then show ?thesis unfolding run r Inl by (auto simp: after_rel_def dispatch_def handler_def)
  next
    case (Inr w)
    then show ?thesis unfolding run r Inr by (simp add: after_rel_def dispatch_def resume_raise_def)
  qed
  with steps show ?thesis by (auto simp: r)
qed

lemma code_steps:
  assumes code: "resume_code G bs F d m s" "b \<in> set bs" "relabel_targets m (bterm b) = Some t"
    and real: "realizes s (params b) (handler m b) (target e') es t" "list_all stmt_runs es"
    and M: "M0 = enter_block (resume_sem G) (params b) (edge_args e') x' M"
  shows "\<exists>exc' c'. steps_to (resume_sem G) (exec_linear (resume_sem G)) F e' x' M exc' c' \<and>
    after_rel s m b t (exec_sent G (sent M0) es t (user M0)) (dispatch exc' c')"
proof -
  have bc: "block_code m s b" "plain_block_ok bs b" "reads (core_sem G) (active_exception (params b))"
    using code(1,2) by (auto simp: resume_code_def gen_sem_ok_def list_all_iff)
  then have prune: "prune_term_target_args s (core_term t) = core_term t" using code(3) by (auto simp: block_code_def)
  have terms: "list_all untouched (map core_of (term_exprs t))"
    using bc(2) relabel_keeps_sites(2) [OF code(3)] by (simp add: plain_block_ok_def list_all_iff)
  obtain B where B: "pushed s B (handler m b)" "label B = target e'" "params B = params b"
    "\<And>M. reaches G s (params b) (handler m b) t (exec_sent G (sent M) es t (user M)) (exec_linear (resume_sem G) (with_context B) M)"
    using realized_block [OF real terms prune bc(3)] by blast
  have "find_block F (target e') = Some ((with_context B)\<lparr>exc_edge := map_option edge_new (handler m b)\<rparr>)"
    using code(1) B(1) unfolding resume_code_def B(2) [symmetric] by blast
  from steps_block [OF this, of "resume_sem G" "exec_linear (resume_sem G)" x' M]
  have steps: "steps_to (resume_sem G) (exec_linear (resume_sem G)) F e' x' M
      (map_option edge_new (handler m b)) (exec_linear (resume_sem G) (with_context B) M0)"
    by (simp add: M B(3))
  note reach = B(4) [of M0]
  show ?thesis
  proof (cases "exec_sent G (sent M0) es t (user M0)")
    case (Suspend w d' es' st)
    then show ?thesis using reach steps by (auto simp: reaches_def after_rel_def dispatch_def intro!: exI)
  next
    case (Leave c0)
    consider (throw) y M1 where "c0 = Throw y (user M1)" "exec_linear (resume_sem G) (with_context B) M0 = Throw (User y) M1"
      | (return) v l ct M1 where "t = Return v" "exec_linear (resume_sem G) (with_context B) M0 = Goto (edge_new l) M1"
          "c0 = on_value (sem_eval (core_sem G) (core_of v) (user M1)) Finish"
          "completion_raise (rs_kind s) (Some (core_of v)) = Some ct" "pushed s (plain_block l [] ct (params b)) None"
      | (other) "same_control c0 (exec_linear (resume_sem G) (with_context B) M0)" "\<nexists>v. t = Return v"
      using reach unfolding Leave reaches_def by (cases t) auto
    then show ?thesis
    proof cases
      case throw
      then show ?thesis using steps after_throw [of s m b t y M1] unfolding Leave by auto
    next
      case return
      have "bterm b = Return v" using code(3) return(1) by (cases "(m, bterm b)" rule: relabel_targets.cases) (auto simp: bind_eq_Some_conv)
      from completion_steps [OF code(1,2) this return(4,5), of M1 t] show ?thesis
        using steps_trans [OF steps [unfolded return(2)]] unfolding Leave return(3) by blast
    next
      case other
      have "\<nexists>w st. c0 = Finish w st" using exec_sent_Finish Leave other(2) by metis
      then show ?thesis using steps other(1) unfolding Leave
        by (cases c0) (auto simp: same_control_def after_rel_def dispatch_def split: option.split intro!: exI)
    qed
  qed
qed

section \<open>A resumption\<close>

lemma called_with_simps [simp]:
  "user (called_with i M) = user M" "pc_cell (called_with i M) = pc_cell M"
  "sent (called_with (Send w) M) = w" "thrown (called_with (Send w) M) = None"
  "thrown (called_with (ThrowIn x) M) = Some x"
  by (simp_all add: called_with_def split: gen_input.split)

lemma entry_steps:
  assumes "resume_code G bs F d m s" "(pc_cell M, r) \<in> set (resume_targets s)"
  shows "steps_to (resume_sem G) (exec_linear (resume_sem G)) F (edge_new d) None M None (Goto (edge_new r) M)"
proof -
  obtain ts ex where ts: "find_block F d = Some (plain_block d [] (BranchTable (core_name ''_dp_pc'') ts ex) [])"
    "pc_cell M < length ts" "ts ! pc_cell M = r"
    using assms by (auto simp: resume_code_def entry_code_def)
  have "find_block F (target (edge_new d)) = Some (plain_block d [] (BranchTable (core_name ''_dp_pc'') ts ex) [])"
    using ts(1) by simp
  from steps_block [OF this, of "resume_sem G" "exec_linear (resume_sem G)" None M] show ?thesis
    using ts(2,3) by (simp add: exec_linear_def resume_eval_def register_loads resume_sem_def)
qed

lemma context_block:
  assumes "resume_code G bs F d m s" "b \<in> set bs" "pushed s (plain_block l [] t (params b)) x"
  shows "\<exists>M'. same_registers M M' \<and> user M' = user M \<and>
    steps_to (resume_sem G) (exec_linear (resume_sem G)) F (edge_new l) None M (map_option edge_new x) (exec_term (resume_sem G) t M')"
proof -
  let ?B = "with_context (plain_block l [] t (params b))"
  have "reads (core_sem G) (active_exception (params b))"
    using assms(1,2) by (auto simp: resume_code_def gen_sem_ok_def list_all_iff)
  from context_stored [OF this, of M] obtain M' where
    M': "resume_eval G (internal_store_stmt ''_dp_throw_context'' (active_exception (params b))) M = (Inr (Number 0), M')"
    "same_registers M M'" "user M' = user M" by blast
  have "find_block F (target (edge_new l)) = Some (?B\<lparr>exc_edge := map_option edge_new x\<rparr>)"
    using assms(1,3) by (fastforce simp: resume_code_def)
  moreover have "exec_linear (resume_sem G) ?B M = exec_term (resume_sem G) t M'"
    by (simp add: exec_linear_def with_context_def M'(1))
  ultimately have "steps_to (resume_sem G) (exec_linear (resume_sem G)) F (edge_new l) None M (map_option edge_new x)
      (exec_term (resume_sem G) t M')"
    using steps_block [of F "edge_new l" "?B\<lparr>exc_edge := map_option edge_new x\<rparr>" "resume_sem G" "exec_linear (resume_sem G)" None M] by simp
  with M'(2,3) show ?thesis by blast
qed

lemma resume_steps:
  assumes code: "resume_code G bs F d m s" "b \<in> set bs" "relabel_targets m (bterm b) = Some t"
    and cont: "continues s (params b) (handler m b) (pc_cell M) dest es t" "list_all stmt_untouched es"
      "case dest of None \<Rightarrow> True | Some n \<Rightarrow> n \<notin> SourceName ` set register_names"
  shows "\<exists>exc' c'. steps_to (resume_sem G) (exec_linear (resume_sem G)) F (edge_new d) None (called_with i M) exc' c' \<and>
    after_rel s m b t (gen_receive G dest es t i (user M)) (dispatch exc' c')"
proof -
  let ?steps = "steps_to (resume_sem G) (exec_linear (resume_sem G)) F"
  let ?M = "called_with i M"
  from cont(1) obtain r a l where c: "(pc_cell ?M, r) \<in> set (resume_targets s)"
    "pushed s (plain_block r [] (IfTerm is_resume_exc_test a l) (params b)) (handler m b)"
    "pushed s (plain_block a [] resume_exc_raise_term (params b)) (handler m b)"
    "realizes s (params b) (handler m b) l (after_yield dest es) t"
    by (cases rule: continues.cases) auto
  obtain M1 where M1: "same_registers ?M M1" "user M1 = user M"
    "?steps (edge_new r) None ?M (map_option edge_new (handler m b)) (exec_term (resume_sem G) (IfTerm is_resume_exc_test a l) M1)"
    using context_block [OF code(1,2) c(2), of ?M] by auto
  have "exec_term (resume_sem G) (IfTerm is_resume_exc_test a l) M1 = Goto (edge_new (if thrown M1 = None then l else a)) M1"
    by (simp add: resume_eval_def register_loads resume_sem_def)
  with steps_trans [OF entry_steps [OF code(1) c(1)] M1(3)]
  have go: "?steps (edge_new d) None ?M (map_option edge_new (handler m b)) (Goto (edge_new (if thrown M1 = None then l else a)) M1)"
    by simp
  show ?thesis
  proof (cases i)
    case (Send w)
    then have M1': "thrown M1 = None" "sent M1 = w" using M1(1) by (simp_all add: same_registers_def)
    have real: "realizes s (params b) (handler m b) (target (edge_new l)) (after_yield dest es) t" using c(4) by simp
    obtain exc' c' where "?steps (edge_new l) None M1 exc' c'"
      "after_rel s m b t (exec_sent G (sent M1) (after_yield dest es) t (user M1)) (dispatch exc' c')"
      using code_steps [OF code real exec_after_yield(2) [OF cont(2,3)], of M1 None M1] by auto
    then show ?thesis
      using steps_trans [OF go] M1' M1(2) exec_after_yield(1) [OF cont(2,3), of G w t "user M"] Send by auto
  next
    case (ThrowIn x)
    then have "thrown M1 = Some x" using M1(1) by (simp add: same_registers_def)
    obtain M2 where M2: "same_registers M1 M2" "user M2 = user M1"
      "?steps (edge_new a) None M1 (map_option edge_new (handler m b)) (exec_term (resume_sem G) resume_exc_raise_term M2)"
      using context_block [OF code(1,2) c(3), of M1] by auto
    have "exec_term (resume_sem G) resume_exc_raise_term M2 = Throw (User x) M2"
      using M2(1) \<open>thrown M1 = Some x\<close>
      by (simp add: resume_exc_raise_term_def resume_eval_def register_loads resume_raise_def same_registers_def)
    then show ?thesis
      using steps_trans [OF go] M2(2,3) M1(2) \<open>thrown M1 = Some x\<close> after_throw [of s m b t x M2] ThrowIn
      by (auto simp: gen_receive_def)
  qed
qed

section \<open>The simulation\<close>

text \<open>The decomposition of \<open>gen_after\<close> and \<open>gen_resume\<close> into one step and the rest of the run.\<close>

type_synonym ('st, 'v, 'x) gen_step = "(block_edge \<times> 'x option \<times> 'st) + ('st, 'v, 'x) gen_outcome"

definition gen_step :: "(y_expr, y_expr) block \<Rightarrow> ('st, 'v, 'x) gen_control \<Rightarrow> ('st, 'v, 'x) gen_step" where
  "gen_step b c =
     (case c of
        Suspend w dest es s \<Rightarrow> Inr (Yielded w (At (label b) dest es) s)
      | Leave c \<Rightarrow>
          (case dispatch (exc_edge b) c of
             Inl r \<Rightarrow> Inl r
           | Inr (Returned w s) \<Rightarrow> Inr (Completed w s)
           | Inr (Raised x s) \<Rightarrow> Inr (Failed x s)
           | Inr Stuck \<Rightarrow> Inr GenStuck))"

definition gen_rest ::
  "('st, 'v, 'x) gen_sem \<Rightarrow> (y_expr, y_expr) block list \<Rightarrow> nat \<Rightarrow> ('st, 'v, 'x) gen_step \<Rightarrow> ('st, 'v, 'x) gen_outcome option" where
  "gen_rest G bs n g = (case g of Inl (e, x, s) \<Rightarrow> gen_run G bs n e x s | Inr out \<Rightarrow> Some out)"

lemma gen_after_rest: "gen_after (gen_run G bs n) b c = gen_rest G bs n (gen_step b c)"
  by (auto simp: gen_after_def gen_rest_def gen_step_def split: gen_control.split sum.split outcome.split)

lemma gen_run_mono: "gen_run G bs n e x st = Some out \<Longrightarrow> n \<le> n' \<Longrightarrow> gen_run G bs n' e x st = Some out"
proof (induction n arbitrary: n' e x st)
  case (Suc n)
  then obtain k where k: "n' = Suc k" "n \<le> k" by (cases n') auto
  show ?case
  proof (cases "find_block bs (target e)")
    case (Some b)
    obtain g where g: "gen_step b (gen_exec G (body b) (bterm b) (enter_block (core_sem G) (params b) (edge_args e) x st)) = g" by simp
    with Suc.prems(1) Some have "gen_rest G bs n g = Some out" by (simp add: gen_after_rest)
    then have "gen_rest G bs k g = Some out" using Suc.IH k(2) by (auto simp: gen_rest_def split: sum.splits)
    with Some g show ?thesis by (simp add: gen_after_rest k(1))
  qed (use Suc.prems k in simp)
qed simp

lemma gen_rest_mono: "gen_rest G bs n g = Some out \<Longrightarrow> n \<le> n' \<Longrightarrow> gen_rest G bs n' g = Some out"
  by (cases g) (auto simp: gen_rest_def intro: gen_run_mono)

definition gen_start ::
  "('st, 'v, 'x) gen_sem \<Rightarrow> (y_expr, y_expr) block list \<Rightarrow> gen_point \<Rightarrow> ('v, 'x) gen_input \<Rightarrow> 'st \<Rightarrow> ('st, 'v, 'x) gen_step" where
  "gen_start G bs p i st =
     (case p of
        Unstarted \<Rightarrow> Inl (edge_new (label (hd bs)), None, st)
      | At l dest es \<Rightarrow>
          (case find_block bs l of None \<Rightarrow> Inr GenStuck | Some b \<Rightarrow> gen_step b (gen_receive G dest es (bterm b) i st)))"

lemma gen_resume_rest: "gen_resume G bs n p i st = gen_rest G bs n (gen_start G bs p i st)"
  by (simp add: gen_resume_def gen_start_def gen_after_rest split: gen_point.split option.split)
    (simp add: gen_rest_def)

text \<open>A block of the generator against its relabelled form.\<close>

definition gen_rename :: "(block_label \<rightharpoonup> block_label) \<Rightarrow> ('st, 'v, 'x) gen_control \<Rightarrow> ('st, 'v, 'x) gen_control \<Rightarrow> bool" where
  "gen_rename m c c' \<longleftrightarrow> c' = c \<and> (\<exists>w d es s. c = Suspend w d es s) \<or> (\<exists>a a'. c = Leave a \<and> c' = Leave a' \<and> rename_control m a a')"

lemma core_term_relabel: "relabel_targets m t = Some t' \<Longrightarrow> relabel_targets m (core_term t) = Some (core_term t')"
  by (cases "(m, t)" rule: relabel_targets.cases) (auto simp: bind_eq_Some_conv)

lemma gen_rename_or_leave: "(\<And>a s. gen_rename m (k a s) (k' a s)) \<Longrightarrow> gen_rename m (or_leave r k) (or_leave r k')"
  by (auto simp: or_leave_def gen_rename_def split: prod.split sum.split)

lemma gen_exec_relabel:
  assumes "relabel_targets m t = Some t'"
  shows "gen_rename m (gen_exec G es t st) (gen_exec G es t' st)"
proof (induction es arbitrary: st)
  case Nil
  show ?case using exec_term_relabel [OF core_term_relabel [OF assms]] by (auto simp: gen_rename_def)
next
  case (Cons e es)
  then show ?case
    by (auto split: option.split intro!: gen_rename_or_leave) (simp add: gen_rename_def)
qed

lemma gen_receive_relabel:
  assumes "relabel_targets m t = Some t'"
  shows "gen_rename m (gen_receive G d es t i st) (gen_receive G d es t' i st)"
  using gen_exec_relabel [OF assms, of G es]
  by (auto simp: gen_receive_def split: gen_input.split option.split intro!: gen_rename_or_leave) (auto simp: gen_rename_def)

text \<open>What is left after a suspension are statements of the block.\<close>

definition suspends_untouched :: "('st, 'v, 'x) gen_control \<Rightarrow> bool" where
  "suspends_untouched c \<longleftrightarrow>
     (case c of
        Suspend w d es s \<Rightarrow> list_all stmt_untouched es \<and> (case d of None \<Rightarrow> True | Some n \<Rightarrow> n \<notin> SourceName ` set register_names)
      | Leave _ \<Rightarrow> True)"

lemma suspends_Leave [simp]: "suspends_untouched (Leave c)"
  by (simp add: suspends_untouched_def)

lemma suspends_or_leave: "(\<And>a s. suspends_untouched (k a s)) \<Longrightarrow> suspends_untouched (or_leave r k)"
  by (auto simp: or_leave_def suspends_untouched_def split: prod.split sum.split)

lemma gen_exec_suspends: "list_all stmt_untouched es \<Longrightarrow> suspends_untouched (gen_exec G es t st)"
proof (induction es arbitrary: st)
  case (Cons e es)
  then have rest: "list_all stmt_untouched es" and e: "stmt_untouched e" by (simp_all del: stmt_untouched.simps)
  show ?case
  proof (cases "plain_yield e")
    case (Some y)
    obtain d v where "y = (d, v)" by fastforce
    moreover from this have "case d of None \<Rightarrow> True | Some n \<Rightarrow> n \<notin> SourceName ` set register_names"
      using e Some by simp
    ultimately show ?thesis using Some rest
      by (simp del: stmt_untouched.simps)
        (rule suspends_or_leave, simp add: suspends_untouched_def del: stmt_untouched.simps)
  next
    case None
    show ?thesis using Cons.IH [OF rest] by (simp add: None suspends_or_leave)
  qed
qed (simp add: suspends_untouched_def)

lemma gen_receive_suspends: "list_all stmt_untouched es \<Longrightarrow> suspends_untouched (gen_receive G d es t i st)"
  by (simp add: gen_receive_def gen_exec_suspends suspends_or_leave split: gen_input.split option.split del: stmt_untouched.simps)

text \<open>Corresponding edges, points, outcomes and steps.\<close>

definition edge_rel ::
  "(block_label \<rightharpoonup> block_label) \<Rightarrow> block_edge \<times> 'x option \<times> 'st \<Rightarrow>
     block_edge \<times> ('v, 'x) resume_exc option \<times> ('st, 'v, 'x) resume_mem \<Rightarrow> bool" where
  "edge_rel m = (\<lambda>(e, x, st) (e', x', M).
     m (target e) = Some (target e') \<and> x' = map_option User x \<and> user M = st \<and>
     (x = None \<longrightarrow> edge_args e' = edge_args e))"

definition point_rel ::
  "(block_label \<rightharpoonup> block_label) \<Rightarrow> resume_state \<Rightarrow> (y_expr, y_expr) block list \<Rightarrow> gen_point \<Rightarrow> 'st \<Rightarrow> ('st, 'v, 'x) resume_mem \<Rightarrow> bool" where
  "point_rel m s bs p st M \<longleftrightarrow> user M = st \<and>
     (case p of
        Unstarted \<Rightarrow> pc_cell M = 1
      | At l d es \<Rightarrow>
          \<exists>b t. find_block bs l = Some b \<and> relabel_targets m (bterm b) = Some t \<and>
            continues s (params b) (handler m b) (pc_cell M) d es t \<and> list_all stmt_untouched es \<and>
            (case d of None \<Rightarrow> True | Some n \<Rightarrow> n \<notin> SourceName ` set register_names))"

definition out_rel ::
  "(block_label \<rightharpoonup> block_label) \<Rightarrow> resume_state \<Rightarrow> (y_expr, y_expr) block list \<Rightarrow> ('st, 'v, 'x) gen_outcome \<Rightarrow>
     (('st, 'v, 'x) resume_mem, ('v, 'x) resume_value, ('v, 'x) resume_exc) outcome \<Rightarrow> bool" where
  "out_rel m s bs out out' \<longleftrightarrow>
     (case out of
        Yielded w p st \<Rightarrow> \<exists>M. out' = Returned (Plain w) M \<and> point_rel m s bs p st M
      | Completed w st \<Rightarrow> \<exists>M. out' = Raised (Done w) M
      | Failed x st \<Rightarrow> \<exists>M. out' = Raised (User x) M
      | GenStuck \<Rightarrow> False)"

abbreviation step_rel where "step_rel m s bs \<equiv> rel_sum (edge_rel m) (out_rel m s bs)"

lemma step_related:
  fixes c :: "('st, 'v, 'x) gen_control"
  assumes code: "resume_code G bs F d m s" "find_block bs l = Some b" "relabel_targets m (bterm b) = Some t"
    and c: "gen_rename m c c'" "suspends_untouched c" "after_rel s m b t c' r"
  shows "step_rel m s bs (gen_step b c) r"
proof -
  have b: "b \<in> set bs" "label b = l" using find_block_Some [OF code(2)] by simp_all
  have handled: "m (target e) = Some (the (handler m b)) \<and> handler m b \<noteq> None" if "exc_edge b = Some e" for e
    using code(1) b(1) that by (auto simp: resume_code_def block_code_def list_all_iff handler_def)
  show ?thesis
  proof (cases c)
    case (Suspend w dest es st)
    then have c': "c' = Suspend w dest es st" using c(1) by (simp add: gen_rename_def)
    have "point_rel m s bs (At l dest es) (user M) M"
      if "continues s (params b) (handler m b) (pc_cell M) dest es t" for M :: "('st, 'v, 'x) resume_mem"
      unfolding point_rel_def using that code(2,3) c(2) Suspend by (simp add: suspends_untouched_def del: stmt_untouched.simps)
    then show ?thesis using c(3) b(2) by (auto simp: Suspend c' gen_step_def after_rel_def out_rel_def simp del: stmt_untouched.simps)
  next
    case (Leave a)
    then obtain a' where a: "c' = Leave a'" "rename_control m a a'" using c(1) by (auto simp: gen_rename_def)
    show ?thesis
    proof (cases a)
      case (Goto e st)
      then show ?thesis using a c(3) unfolding Leave
        by (auto simp: gen_step_def after_rel_def dispatch_def edge_rel_def relabel_edge_def bind_eq_Some_conv)
    next
      case (Finish w st)
      then show ?thesis using a c(3) unfolding Leave
        by (auto simp: gen_step_def after_rel_def dispatch_def out_rel_def)
    next
      case (Throw x st)
      then have a': "a' = Throw x st" using a by simp
      show ?thesis
      proof (cases "exc_edge b")
        case None
        then show ?thesis using a(1) c(3) unfolding Leave Throw a'
          by (auto simp: gen_step_def after_rel_def dispatch_def out_rel_def handler_def)
      next
        case (Some e)
        then show ?thesis using a(1) c(3) handled [OF Some] unfolding Leave Throw a'
          by (auto simp: gen_step_def after_rel_def dispatch_def edge_rel_def)
      qed
    qed
  qed
qed

lemma block_found:
  assumes "resume_code G bs F d m s" "m (target e) = Some l"
  obtains b t where "find_block bs (target e) = Some b" "b \<in> set bs" "relabel_targets m (bterm b) = Some t"
    "realizes s (params b) (handler m b) l (body b) t" "list_all stmt_untouched (body b)"
proof -
  have "target e \<in> label ` set bs" using assms by (auto simp: resume_code_def)
  then obtain b where b: "b \<in> set bs" "label b = target e" by auto
  have "find_block bs (target e) = Some b"
    using find_block_distinct [OF _ b(1)] assms(1) b(2) by (simp add: resume_code_def)
  moreover have "block_code m s b" "plain_block_ok bs b" using assms(1) b(1) by (auto simp: resume_code_def list_all_iff)
  ultimately show thesis using that b assms(2) by (auto simp: block_code_def plain_block_ok_def simp del: stmt_untouched.simps)
qed

lemma run_step:
  assumes code: "resume_code G bs F d m s" and e: "edge_rel m (e, x, st) (e', x', M)"
  obtains b exc' c' where "find_block bs (target e) = Some b"
    "steps_to (resume_sem G) (exec_linear (resume_sem G)) F e' x' M exc' c'"
    "step_rel m s bs (gen_step b (gen_exec G (body b) (bterm b) (enter_block (core_sem G) (params b) (edge_args e) x st))) (dispatch exc' c')"
proof -
  have e': "m (target e) = Some (target e')" "x' = map_option User x" "user M = st" "x = None \<Longrightarrow> edge_args e' = edge_args e"
    using e by (simp_all add: edge_rel_def)
  obtain b t where b: "find_block bs (target e) = Some b" "b \<in> set bs" "relabel_targets m (bterm b) = Some t"
    "realizes s (params b) (handler m b) (target e') (body b) t" "list_all stmt_untouched (body b)"
    by (rule block_found [OF code e'(1)])
  have runs: "list_all stmt_runs (body b)" using b(5) untouched_runs by (auto simp: list_all_iff simp del: stmt_untouched.simps)
  let ?M = "enter_block (resume_sem G) (params b) (edge_args e') x' M"
  have "binds_by_role (core_sem G)" using code by (simp add: resume_code_def gen_sem_ok_def)
  then have "user ?M = enter_block (core_sem G) (params b) (edge_args e) x st"
    using e'(2-4) by (cases x) (auto simp: enter_block_def resume_sem_def binds_by_role_def)
  moreover obtain exc' c' where c': "steps_to (resume_sem G) (exec_linear (resume_sem G)) F e' x' M exc' c'"
    "after_rel s m b t (exec_sent G (sent ?M) (body b) t (user ?M)) (dispatch exc' c')"
    using code_steps [OF code b(2,3,4) runs refl, of x' M] by blast
  ultimately have "step_rel m s bs
      (gen_step b (gen_exec G (body b) (bterm b) (enter_block (core_sem G) (params b) (edge_args e) x st))) (dispatch exc' c')"
    by (intro step_related [OF code b(1,3) gen_exec_relabel [OF b(3)] gen_exec_suspends [OF b(5)]])
      (simp add: exec_sent_untouched [OF b(5)])
  with b(1) c'(1) show thesis by (rule that)
qed

lemma start_step:
  assumes code: "resume_code G bs F d m s" and p: "point_rel m s bs p st M"
  shows "\<exists>exc' c'. steps_to (resume_sem G) (exec_linear (resume_sem G)) F (edge_new d) None (called_with i M) exc' c' \<and>
    step_rel m s bs (gen_start G bs p i st) (dispatch exc' c')"
proof (cases p)
  case Unstarted
  obtain r where r: "m (label (hd bs)) = Some r" "(1, r) \<in> set (resume_targets s)"
    using code by (auto simp: resume_code_def)
  have "steps_to (resume_sem G) (exec_linear (resume_sem G)) F (edge_new d) None (called_with i M) None (Goto (edge_new r) (called_with i M))"
    using p r(2) by (intro entry_steps [OF code]) (simp add: Unstarted point_rel_def)
  moreover have "edge_rel m (edge_new (label (hd bs)), None, st) (edge_new r, None, called_with i M)"
    using p r(1) by (simp add: edge_rel_def point_rel_def)
  ultimately show ?thesis by (fastforce simp: Unstarted gen_start_def dispatch_def)
next
  case (At l dest es)
  then obtain b t where b: "find_block bs l = Some b" "relabel_targets m (bterm b) = Some t" "user M = st"
    "continues s (params b) (handler m b) (pc_cell M) dest es t" "list_all stmt_untouched es"
    "case dest of None \<Rightarrow> True | Some n \<Rightarrow> n \<notin> SourceName ` set register_names"
    using p by (auto simp: point_rel_def simp del: stmt_untouched.simps)
  have "b \<in> set bs" using find_block_Some [OF b(1)] by simp
  from resume_steps [OF code this b(2,4-6), of i] obtain exc' c' where
    c': "steps_to (resume_sem G) (exec_linear (resume_sem G)) F (edge_new d) None (called_with i M) exc' c'"
      "after_rel s m b t (gen_receive G dest es t i st) (dispatch exc' c')"
    unfolding b(3) by blast
  have "step_rel m s bs (gen_step b (gen_receive G dest es (bterm b) i st)) (dispatch exc' c')"
    by (rule step_related [OF code b(1,2) gen_receive_relabel [OF b(2)] gen_receive_suspends [OF b(5)] c'(2)])
  with c'(1) b(1) show ?thesis by (auto simp: At gen_start_def)
qed

lemma steps_run:
  assumes "steps_to S X T e x st exc c" "resume S X T n exc c = Some out"
  shows "\<exists>n. run S X T n e x st = Some out"
proof -
  obtain k where "\<And>m. run S X T m e x st = (if m \<le> k then None else resume S X T (m - Suc k) exc c)"
    using assms(1) unfolding steps_to_def by blast
  from this [of "n + Suc k"] assms(2) have "run S X T (n + Suc k) e x st = Some out"
    by (simp del: run.simps add_Suc_right)
  then show ?thesis by blast
qed

lemma run_forward:
  assumes code: "resume_code G bs F d m s"
  shows "gen_run G bs n e x st = Some out \<Longrightarrow> edge_rel m (e, x, st) (e', x', M) \<Longrightarrow>
    \<exists>n' out'. run_linear (resume_sem G) F n' e' x' M = Some out' \<and> out_rel m s bs out out'"
proof (induction n arbitrary: e x st e' x' M)
  case (Suc n)
  obtain b exc' c' where b: "find_block bs (target e) = Some b"
    "steps_to (resume_sem G) (exec_linear (resume_sem G)) F e' x' M exc' c'"
    "step_rel m s bs (gen_step b (gen_exec G (body b) (bterm b) (enter_block (core_sem G) (params b) (edge_args e) x st))) (dispatch exc' c')"
    by (rule run_step [OF code Suc.prems(2)])
  let ?g = "gen_step b (gen_exec G (body b) (bterm b) (enter_block (core_sem G) (params b) (edge_args e) x st))"
  have rest: "gen_rest G bs n ?g = Some out" using Suc.prems(1) by (simp add: b(1) gen_after_rest)
  have "\<exists>n' out'. resume (resume_sem G) (exec_linear (resume_sem G)) F n' exc' c' = Some out' \<and> out_rel m s bs out out'"
    using b(3)
  proof (cases rule: rel_sum.cases)
    case (1 a a')
    obtain e1 x1 s1 e2 x2 M2 where "a = (e1, x1, s1)" "a' = (e2, x2, M2)" by (metis prod_cases3)
    with 1 rest show ?thesis using Suc.IH [of e1 x1 s1 e2 x2 M2] by (auto simp: gen_rest_def resume_def)
  next
    case (2 a a')
    with rest show ?thesis by (auto simp: gen_rest_def resume_def)
  qed
  with steps_run [OF b(2)] show ?case by blast
qed simp

lemma run_backward:
  assumes code: "resume_code G bs F d m s"
  shows "run_linear (resume_sem G) F n e' x' M = Some out' \<Longrightarrow> edge_rel m (e, x, st) (e', x', M) \<Longrightarrow>
    \<exists>n' out. gen_run G bs n' e x st = Some out \<and> out_rel m s bs out out'"
proof (induction n arbitrary: e x st e' x' M rule: less_induct)
  case (less n)
  obtain b exc' c' where b: "find_block bs (target e) = Some b"
    "steps_to (resume_sem G) (exec_linear (resume_sem G)) F e' x' M exc' c'"
    "step_rel m s bs (gen_step b (gen_exec G (body b) (bterm b) (enter_block (core_sem G) (params b) (edge_args e) x st))) (dispatch exc' c')"
    by (rule run_step [OF code less.prems(2)])
  let ?g = "gen_step b (gen_exec G (body b) (bterm b) (enter_block (core_sem G) (params b) (edge_args e) x st))"
  obtain k where k: "\<And>j. run_linear (resume_sem G) F j e' x' M = (if j \<le> k then None else resume (resume_sem G) (exec_linear (resume_sem G)) F (j - Suc k) exc' c')"
    using b(2) unfolding steps_to_def by blast
  have n: "\<not> n \<le> k" "resume (resume_sem G) (exec_linear (resume_sem G)) F (n - Suc k) exc' c' = Some out'"
    using less.prems(1) k [of n] by (auto split: if_splits)
  have "\<exists>n' out. gen_rest G bs n' ?g = Some out \<and> out_rel m s bs out out'"
    using b(3)
  proof (cases rule: rel_sum.cases)
    case (1 a a')
    obtain e1 x1 s1 e2 x2 M2 where a: "a = (e1, x1, s1)" "a' = (e2, x2, M2)" by (metis prod_cases3)
    have "run_linear (resume_sem G) F (n - Suc k) e2 x2 M2 = Some out'" using n(2) 1 a by (simp add: resume_def)
    from less.IH [OF _ this] 1 a n(1) show ?thesis by (auto simp: gen_rest_def)
  next
    case (2 a a')
    with n(2) show ?thesis by (auto simp: gen_rest_def resume_def)
  qed
  then obtain n' out where "gen_rest G bs n' ?g = Some out" "out_rel m s bs out out'" by blast
  then have "gen_run G bs (Suc n') e x st = Some out" by (simp add: b(1) gen_after_rest)
  with \<open>out_rel m s bs out out'\<close> show ?case by blast
qed

lemma resume_forward:
  assumes code: "resume_code G bs F d m s" and p: "point_rel m s bs p st M"
    and run: "gen_resume G bs n p i st = Some out"
  shows "\<exists>n' out'. run_linear (resume_sem G) F n' (edge_new d) None (called_with i M) = Some out' \<and> out_rel m s bs out out'"
proof -
  obtain exc' c' where c: "steps_to (resume_sem G) (exec_linear (resume_sem G)) F (edge_new d) None (called_with i M) exc' c'"
    "step_rel m s bs (gen_start G bs p i st) (dispatch exc' c')"
    using start_step [OF code p, of i] by blast
  have rest: "gen_rest G bs n (gen_start G bs p i st) = Some out" using run by (simp add: gen_resume_rest)
  have "\<exists>n' out'. resume (resume_sem G) (exec_linear (resume_sem G)) F n' exc' c' = Some out' \<and> out_rel m s bs out out'"
    using c(2)
  proof (cases rule: rel_sum.cases)
    case (1 a a')
    obtain e1 x1 s1 e2 x2 M2 where "a = (e1, x1, s1)" "a' = (e2, x2, M2)" by (metis prod_cases3)
    with 1 rest show ?thesis using run_forward [OF code, of n e1 x1 s1 out e2 x2 M2] by (auto simp: gen_rest_def resume_def)
  next
    case (2 a a')
    with rest show ?thesis by (auto simp: gen_rest_def resume_def)
  qed
  with steps_run [OF c(1)] show ?thesis by blast
qed

lemma resume_backward:
  assumes code: "resume_code G bs F d m s" and p: "point_rel m s bs p st M"
    and run: "run_linear (resume_sem G) F n (edge_new d) None (called_with i M) = Some out'"
  shows "\<exists>n' out. gen_resume G bs n' p i st = Some out \<and> out_rel m s bs out out'"
proof -
  obtain exc' c' where c: "steps_to (resume_sem G) (exec_linear (resume_sem G)) F (edge_new d) None (called_with i M) exc' c'"
    "step_rel m s bs (gen_start G bs p i st) (dispatch exc' c')"
    using start_step [OF code p, of i] by blast
  obtain k where k: "\<And>j. run_linear (resume_sem G) F j (edge_new d) None (called_with i M) =
      (if j \<le> k then None else resume (resume_sem G) (exec_linear (resume_sem G)) F (j - Suc k) exc' c')"
    using c(1) unfolding steps_to_def by blast
  have n: "resume (resume_sem G) (exec_linear (resume_sem G)) F (n - Suc k) exc' c' = Some out'"
    using run k [of n] by (auto split: if_splits)
  show ?thesis using c(2)
  proof (cases rule: rel_sum.cases)
    case (1 a a')
    obtain e1 x1 s1 e2 x2 M2 where a: "a = (e1, x1, s1)" "a' = (e2, x2, M2)" by (metis prod_cases3)
    have "run_linear (resume_sem G) F (n - Suc k) e2 x2 M2 = Some out'" using n 1 a by (simp add: resume_def)
    from run_backward [OF code this] 1 a show ?thesis by (auto simp: gen_rest_def gen_resume_rest)
  next
    case (2 a a')
    with n show ?thesis by (auto simp: gen_rest_def gen_resume_rest resume_def)
  qed
qed

section \<open>Sequences of resumptions\<close>

lemma gen_trace_mono: "gen_trace G bs n p is st = Some os \<Longrightarrow> n \<le> n' \<Longrightarrow> gen_trace G bs n' p is st = Some os"
proof (induction "is" arbitrary: p st os)
  case (Cons i "is")
  then obtain out where out: "gen_resume G bs n p i st = Some out" by (auto simp: bind_eq_Some_conv)
  then have "gen_resume G bs n' p i st = Some out"
    unfolding gen_resume_rest using gen_rest_mono Cons.prems(2) by blast
  with out Cons show ?case by (cases out) auto
qed simp

lemma resume_trace_mono: "resume_trace G F d n is M = Some os \<Longrightarrow> n \<le> n' \<Longrightarrow> resume_trace G F d n' is M = Some os"
proof (induction "is" arbitrary: M os)
  case (Cons i "is")
  then obtain out where out: "run_linear (resume_sem G) F n (edge_new d) None (called_with i M) = Some out"
    by (auto simp: bind_eq_Some_conv)
  have out': "run_linear (resume_sem G) F n' (edge_new d) None (called_with i M) = Some out"
    by (rule run_mono_le [OF out Cons.prems(2)])
  show ?case
  proof (cases "\<exists>w M'. out = Returned (Plain w) M'")
    case True
    then show ?thesis using out out' Cons by auto
  next
    case False
    then show ?thesis using out out' Cons.prems(1) by (auto split: outcome.splits resume_value.splits resume_exc.splits)
  qed
qed simp

lemma trace_forward:
  assumes code: "resume_code G bs F d m s"
  shows "point_rel m s bs p st M \<Longrightarrow> gen_trace G bs n p is st = Some os \<Longrightarrow> \<exists>n'. resume_trace G F d n' is M = Some os"
proof (induction "is" arbitrary: p st M os)
  case (Cons i "is")
  then obtain out where out: "gen_resume G bs n p i st = Some out" by (auto simp: bind_eq_Some_conv)
  obtain n' out' where out': "run_linear (resume_sem G) F n' (edge_new d) None (called_with i M) = Some out'" "out_rel m s bs out out'"
    using resume_forward [OF code Cons.prems(1) out] by blast
  show ?case
  proof (cases out)
    case (Yielded w p' s')
    with out'(2) obtain M' where M': "out' = Returned (Plain w) M'" "point_rel m s bs p' s' M'" by (auto simp: out_rel_def)
    obtain os' where os': "gen_trace G bs n p' is s' = Some os'" "os = OutYield w # os'"
      using Cons.prems(2) out Yielded by auto
    obtain k where "resume_trace G F d k is M' = Some os'" using Cons.IH [OF M'(2) os'(1)] by blast
    then have "resume_trace G F d (max k n') is M' = Some os'" by (rule resume_trace_mono) simp
    moreover have "run_linear (resume_sem G) F (max k n') (edge_new d) None (called_with i M) = Some out'"
      by (rule run_mono_le [OF out'(1)]) simp
    ultimately show ?thesis by (intro exI [of _ "max k n'"]) (simp add: M'(1) os'(2) del: run.simps)
  qed (use out out' Cons.prems(2) in \<open>auto simp: out_rel_def intro!: exI [of _ n']\<close>)
qed simp

lemma trace_backward:
  assumes code: "resume_code G bs F d m s"
  shows "point_rel m s bs p st M \<Longrightarrow> resume_trace G F d n is M = Some os \<Longrightarrow> \<exists>n'. gen_trace G bs n' p is st = Some os"
proof (induction "is" arbitrary: p st M os)
  case (Cons i "is")
  then obtain out' where out': "run_linear (resume_sem G) F n (edge_new d) None (called_with i M) = Some out'"
    by (auto simp: bind_eq_Some_conv)
  obtain n' out where out: "gen_resume G bs n' p i st = Some out" "out_rel m s bs out out'"
    using resume_backward [OF code Cons.prems(1) out'] by blast
  show ?case
  proof (cases out)
    case (Yielded w p' s')
    with out(2) obtain M' where M': "out' = Returned (Plain w) M'" "point_rel m s bs p' s' M'" by (auto simp: out_rel_def)
    obtain os' where os': "resume_trace G F d n is M' = Some os'" "os = OutYield w # os'"
      using Cons.prems(2) out' M'(1) by auto
    obtain k where "gen_trace G bs k p' is s' = Some os'" using Cons.IH [OF M'(2) os'(1)] by blast
    then have "gen_trace G bs (max k n') p' is s' = Some os'" by (rule gen_trace_mono) simp
    moreover have "gen_resume G bs (max k n') p i st = Some out"
      using out(1) gen_rest_mono unfolding gen_resume_rest by fastforce
    ultimately show ?thesis by (intro exI [of _ "max k n'"]) (simp add: Yielded os'(2))
  qed (use out out' Cons.prems(2) in \<open>auto simp: out_rel_def intro!: exI [of _ n']\<close>)
qed simp

lemma trace_equiv:
  assumes "resume_code G bs F d m s" "user M = st" "pc_cell M = 1"
  shows "(\<exists>n. gen_trace G bs n Unstarted is st = Some os) \<longleftrightarrow> (\<exists>n. resume_trace G F d n is M = Some os)"
proof -
  have "point_rel m s bs Unstarted st M" using assms(2,3) by (simp add: point_rel_def)
  then show ?thesis using trace_forward [OF assms(1)] trace_backward [OF assms(1)] by blast
qed

end
