(* ===== verification/Resume_Trace.thy ===== *)
theory Resume_Trace
  imports Resume_Run
begin

text \<open>
  The lowering of a generator produces the code that the simulation needs (\<open>resume_code\<close>): the
  blocks it pushes are found under their labels, the table leads to the block of every program counter,
  handlers and arguments are those of the generator under the new labels. With it a generator and its
  resume function have the same traces.
\<close>

section \<open>What the labels of the result stand for\<close>

lemma opt_map_fst:
  assumes "opt_map (\<lambda>b. f b) bs = Some xs" "map (m \<circ> label) bs = map Some ls"
    and "\<And>b y. f b = Some y \<Longrightarrow> m (label b) = Some (fst y)"
  shows "map fst xs = ls"
proof -
  have "list_all2 (\<lambda>b y. f b = Some y) bs xs" using assms(1) by (simp add: opt_map_Some_iff)
  then have "map (m \<circ> label) bs = map (Some \<circ> fst) xs"
    by (rule list_all2_induct) (simp_all add: assms(3))
  then have "map Some ls = map Some (map fst xs)" by (simp add: assms(2))
  then show ?thesis by (metis inj_Some inj_map_eq_map)
qed

lemma opt_map_lookup:
  assumes "opt_map f bs = Some xs" "map (m \<circ> label) bs = map Some ls" "distinct ls"
    and "\<And>b y. f b = Some y \<Longrightarrow> m (label b) = Some (fst y)" "b \<in> set bs" "f b = Some (l, u)"
  shows "map_of xs l = Some u" "map_of (rev xs) l = Some u"
proof -
  have "distinct (map fst xs)" using opt_map_fst [OF assms(1,2,4)] assms(3) by simp
  moreover have "(l, u) \<in> set xs"
    using assms(1,5,6) by (auto simp: opt_map_Some_iff list_all2_conv_all_nth in_set_conv_nth)
  ultimately show "map_of xs l = Some u" "map_of (rev xs) l = Some u" by (simp_all add: map_of_rev_distinct)
qed

lemma handler_remapped:
  assumes "remapped_exception_edges m bs = Some x" "map (m \<circ> label) bs = map Some ls" "distinct ls"
    and "distinct (map label bs)" "b \<in> set bs" "m (label b) = Some l"
  shows "unwrap_or None (x l) = handler m b" "exc_edge b = Some e \<Longrightarrow> m (target e) \<noteq> None"
proof -
  let ?f = "\<lambda>b. remapped_exception_edge m (label b, unwrap_or None (lowered_exception_edges bs (label b)))"
  obtain xs where xs: "opt_map ?f bs = Some xs" "x = map_of xs"
    using assms(1) by (auto simp: remapped_exception_edges_def bind_eq_Some_conv)
  have edge: "lowered_exception_edges bs (label b) = Some (map_option target (exc_edge b))"
    by (rule lowered_exception_edges_label [OF assms(4,5)])
  obtain y where "?f b = Some y" using xs(1) assms(5) by (metis option.exhaust opt_map_defined option.distinct(1))
  then have y: "?f b = Some (l, handler m b)" and def: "exc_edge b = Some e \<Longrightarrow> m (target e) \<noteq> None"
    using assms(6) by (auto simp: remapped_exception_edge_def edge handler_def bind_eq_Some_conv split: option.splits)
  have fst: "m (label c) = Some (fst z)" if "?f c = Some z" for c z
    using that by (auto simp: remapped_exception_edge_def bind_eq_Some_conv)
  show "unwrap_or None (x l) = handler m b"
    using opt_map_lookup(1) [OF xs(1) assms(2,3) fst assms(5) y] xs(2) by simp
  show "exc_edge b = Some e \<Longrightarrow> m (target e) \<noteq> None" by (rule def)
qed

lemma declared_lookup:
  assumes "declared_param_indices_by_label k m bs = Some i" "map (m \<circ> label) bs = map Some ls" "distinct ls"
    and "b \<in> set bs" "m (label b) = Some l"
  shows "i l = Some [0..<length (params b)]"
proof -
  let ?f = "\<lambda>b. do { l \<leftarrow> m (label b); Some (l, generator_resume_declared_param_indices k (params b)) }"
  obtain xs where xs: "opt_map ?f bs = Some xs" "i = map_of (rev xs)"
    using assms(1) by (auto simp: declared_param_indices_by_label_def bind_eq_Some_conv)
  have fst: "m (label c) = Some (fst z)" if "?f c = Some z" for c z
    using that by (auto simp: bind_eq_Some_conv)
  have "?f b = Some (l, [0..<length (params b)])" using assms(5) by (simp add: declared_indices_all)
  from opt_map_lookup(2) [OF xs(1) assms(2,3) fst assms(4) this] show ?thesis by (simp add: xs(2))
qed

text \<open>Arguments are pruned by the parameters of the target, so arguments that fit are all kept.\<close>

lemma pruned_fits:
  assumes "relabel_targets m t = Some t'" "edge_fits bs t" "set (successors t) \<subseteq> label ` set bs" "distinct (map label bs)"
    and "\<And>b l. b \<in> set bs \<Longrightarrow> m (label b) = Some l \<Longrightarrow> target_arg_indices s l = Some [0..<length (params b)]"
  shows "prune_term_target_args s (core_term t') = core_term t'"
proof (cases t)
  case (Jump e)
  then obtain l where l: "t' = Jump (e\<lparr>target := l\<rparr>)" "m (target e) = Some l"
    using assms(1) by (auto simp: relabel_edge_def bind_eq_Some_conv)
  obtain b where b: "b \<in> set bs" "label b = target e" using assms(3) Jump by auto
  then have "find_block bs (target e) = Some b" using find_block_distinct [OF assms(4) b(1)] by simp
  then have fits: "length (edge_args e) \<le> length (params b)" using assms(2) Jump by (simp add: edge_fits_def)
  have "filter (\<lambda>i. i < length (edge_args e)) [0..<length (params b)] = [0..<length (edge_args e)]"
    using fits by (metis filter_True filter_append filter_False add_0 append_Nil2 atLeastLessThan_iff le_add_diff_inverse
        linorder_not_le set_upt upt_add_eq_append zero_le)
  moreover have "target_arg_indices s l = Some [0..<length (params b)]" using assms(5) [OF b(1)] b(2) l(2) by simp
  ultimately show ?thesis by (simp add: l(1) prune_term_target_args_def map_nth)
next
  case (Raise y)
  then have "t' = Raise y" using assms(1) by simp
  then show ?thesis by (simp add: prune_term_target_args_def)
qed (use assms(1) in \<open>auto simp: prune_term_target_args_def bind_eq_Some_conv\<close>)

section \<open>The blocks of the result\<close>

lemma found_blocks:
  assumes "resume_inv K {exhausted_label s} s" "d \<notin> insert (exhausted_label s) (block_labels s)"
    and "x = (rs_exc_edges s)(d \<mapsto> None, exhausted_label s \<mapsto> None)" "F = attach_exception_edges_to_blocks (resume_function_blocks s d t) x"
  shows "pushed s b y \<Longrightarrow> find_block F (label b) = Some ((with_context b)\<lparr>exc_edge := map_option edge_new y\<rparr>)"
    "find_block F d = Some (plain_block d [] (BranchTable (core_name ''_dp_pc'') (dispatch_targets s) (exhausted_label s)) [])"
proof -
  have inv: "distinct (map label (rs_blocks s))" "exhausted_label s \<notin> block_labels s"
    using assms(1) by (auto simp: resume_inv_def)
  have "map label F = d # map label (rs_blocks s) @ [exhausted_label s]"
    by (simp add: assms(4) resume_function_blocks_def)
  then have "distinct (map label F)" using inv assms(2) by (auto simp: block_labels_def)
  note find = find_block_distinct [OF this]
  show "find_block F (label b) = Some ((with_context b)\<lparr>exc_edge := map_option edge_new y\<rparr>)" if p: "pushed s b y"
  proof -
    have "label b \<noteq> d" "label b \<noteq> exhausted_label s" using pushed_label [OF p] inv(2) assms(2) by auto
    then have "x (label b) = Some y" using p by (simp add: pushed_def assms(3))
    then have "(with_context b)\<lparr>exc_edge := map_option edge_new y\<rparr> \<in> set F"
      using p by (auto simp: assms(4) attach_exception_edges_to_blocks_def resume_function_blocks_def pushed_def intro!: image_eqI [of _ _ "with_context b"])
    from find [OF this] show ?thesis by simp
  qed
  have "x d = Some None" using assms(2,3) by simp
  then show "find_block F d = Some (plain_block d [] (BranchTable (core_name ''_dp_pc'') (dispatch_targets s) (exhausted_label s)) [])"
    by (simp add: assms(4) attach_exception_edges_to_blocks_def resume_function_blocks_def find_block_Cons plain_block_def)
qed

lemma entry_code_table:
  assumes "map fst (resume_targets s) = [1..<next_resume_pc s]" "1 < next_resume_pc s"
    and "find_block F d = Some (plain_block d [] (BranchTable (core_name ''_dp_pc'') (dispatch_targets s) (exhausted_label s)) [])"
  shows "entry_code F d s"
proof -
  have "k < length (dispatch_targets s) \<and> dispatch_targets s ! k = r" if kr: "(k, r) \<in> set (resume_targets s)" for k r
  proof -
    obtain i where i: "i < length (resume_targets s)" "resume_targets s ! i = (k, r)" using kr unfolding in_set_conv_nth by blast
    then have "map fst (resume_targets s) ! i = k" by simp
    moreover have "length (resume_targets s) = next_resume_pc s - 1" using assms(1) by (metis length_map length_upt)
    ultimately have "k = Suc i" using i(1) unfolding assms(1) by simp
    then show ?thesis using i by (simp add: dispatch_targets_eq [OF assms(1,2)])
  qed
  with assms(3) show ?thesis unfolding entry_code_def by blast
qed

section \<open>The lowering produces the code of the generator\<close>

lemma block_coded:
  assumes "block_realized m x s b" "unwrap_or None (x l) = handler m b" "m (label b) = Some l"
    and "\<And>e. exc_edge b = Some e \<Longrightarrow> m (target e) \<noteq> None"
    and "\<And>t. relabel_targets m (bterm b) = Some t \<Longrightarrow> prune_term_target_args s (core_term t) = core_term t"
  shows "block_code m s b"
  using assms by (auto simp: block_realized_def block_code_def)

lemma lower_resume_code:
  assumes ready: "resume_ready f g" and plain: "plain_generator f" and G: "gen_sem_ok G (fn_blocks f)"
    and low: "lower_resume_blocks f g = Some (F, X, d, g')"
  shows "\<exists>m s. resume_code G (fn_blocks f) F d m s"
proof -
  let ?bs = "fn_blocks f"
  have bs: "?bs \<noteq> []" "distinct (map label ?bs)" "\<And>b. b \<in> set ?bs \<Longrightarrow> set (successors (bterm b)) \<subseteq> label ` set ?bs"
    using ready by (auto simp: resume_ready_def list_all_iff block_targets_def)
  have ok: "list_all (plain_block_ok ?bs) ?bs" and kind: "fn_kind f = KGenerator \<or> fn_kind f = KCoroutine"
    using plain by (simp_all add: plain_generator_def)
  then have explicit: "list_all explicit_block ?bs" and plains: "list_all (\<lambda>b. plain_yields (body b) (bterm b)) ?bs"
    and fits: "\<And>b. b \<in> set ?bs \<Longrightarrow> edge_fits ?bs (bterm b)"
    by (auto simp: list_all_iff plain_block_ok_def simp del: stmt_untouched.simps)
  show ?thesis
  proof (rule lower_resume_steps [OF ready explicit])
    fix ls m x P s1 s2 d' t g2 b e
    assume m: "map (m \<circ> label) ?bs = map Some ls" "distinct ls" "dom m = label ` set ?bs" "ran m = set ls"
      and x: "remapped_exception_edges m ?bs = Some x" "\<And>l. set_option (unwrap_or None (x l)) \<subseteq> ran m"
      and queue: "resume_inv (set ls) P s1" "set ls \<subseteq> P" "lower_resume_queue m x ?bs s1 = Some s2"
      and inv: "resume_inv (set ls) {exhausted_label s2} s2" "d' \<notin> insert (exhausted_label s2) (block_labels s2)"
        "next_resume_pc s2 = yield_count ?bs + 2" "rs_kind s2 = fn_kind f"
      and entry: "entry_block f = Some b" "m (label b) = Some e" "(1, e) \<in> set (resume_targets s2)"
      and result: "lower_resume_blocks f g =
         Some (attach_exception_edges_to_blocks (resume_function_blocks s2 d' t)
                 ((rs_exc_edges s2)(d' \<mapsto> None, exhausted_label s2 \<mapsto> None)),
               (rs_exc_edges s2)(d' \<mapsto> None, exhausted_label s2 \<mapsto> None), d', g2)"
      and args: "target_arg_indices s2 = target_arg_indices s1"
        "declared_param_indices_by_label (fn_kind f) m ?bs = Some (target_arg_indices s1)"
    have F: "F = attach_exception_edges_to_blocks (resume_function_blocks s2 d' t)
        ((rs_exc_edges s2)(d' \<mapsto> None, exhausted_label s2 \<mapsto> None))" and d: "d' = d"
      using trans [OF low [symmetric] result] by simp_all
    note found = found_blocks [OF inv(1,2) refl F]
    have ran: "ran m \<subseteq> set ls" "\<And>l. set_option (unwrap_or None (x l)) \<subseteq> set ls" using m(4) x(2) by simp_all
    note realized = queue_realizes [OF queue(1) m(1,2) queue(2) ran queue(3) plains]
    have "block_code m s2 b" if b: "b \<in> set ?bs" for b
    proof -
      obtain l where l: "m (label b) = Some l" using m(3) b by blast
      have "prune_term_target_args s2 (core_term t) = core_term t" if t: "relabel_targets m (bterm b) = Some t" for t
      proof (rule pruned_fits [OF t fits [OF b] bs(3) [OF b] bs(2)])
        show "target_arg_indices s2 l' = Some [0..<length (params c)]" if "c \<in> set ?bs" "m (label c) = Some l'" for c l'
          unfolding args(1) by (rule declared_lookup [OF args(2) m(1,2) that])
      qed
      moreover have "block_realized m x s2 b" using realized b by (simp add: list_all_iff)
      ultimately show ?thesis
        using handler_remapped [OF x(1) m(1,2) bs(2) b l] l by (intro block_coded [of m x s2 b l]) blast+
    qed
    then have code: "list_all (block_code m s2) ?bs" by (simp add: list_all_iff)
    have "map fst (resume_targets s2) = [1..<next_resume_pc s2]" using inv(1) by (simp add: resume_inv_def)
    then have table: "entry_code F d s2" using found(2) inv(3) by (intro entry_code_table) (simp_all add: d)
    have first: "m (label (hd ?bs)) = Some e" using entry(1,2) bs(1) by (cases ?bs) (auto simp: entry_block_def)
    have "resume_code G ?bs F d m s2"
      unfolding resume_code_def using bs(1,2) m(3) code ok G found(1) table inv(4) kind first entry(3)
      by (simp del: stmt_untouched.simps)
    then show ?thesis by blast
  qed
qed


text \<open>A generator with one yield: it yields the value of \<open>x\<close> and completes with \<open>None\<close>.\<close>

definition reading_sem :: "(nat, nat, nat) gen_sem" where
  "reading_sem =
     \<lparr>core_sem = \<lparr>sem_eval = (\<lambda>e st. (Inr (if e = core_of (name_expr ''x'') then st else 0), st)), sem_truth = (\<lambda>v st. (Inr (v \<noteq> 0), st)),
        sem_index = (\<lambda>v st. (Inr (int v), st)), sem_raise = (\<lambda>v st. (v, st)), sem_reraise = (\<lambda>st. (0, st)),
        sem_bind = (\<lambda>ps as x st. st)\<rparr>,
      put_name = (\<lambda>n v st. (Inr v, v))\<rparr>"

lemma name_core: "core_of (name_expr n) = CoreOp synthetic (Load (SourceName n))"
  by (simp add: core_of_def name_expr_def err_on_yield.simps [of "YOp m op" for m op] res_map_def res_bind_def)

lemma yielding_statement_plain: "plain_generator yielding_statement"
proof -
  have "untouched (core_of (name_expr n))" if "n \<notin> set register_names" for n
    using that by (auto simp: name_core untouched_def cor.preorder_unfold)
  moreover have "''x'' \<notin> set register_names" "''None'' \<notin> set register_names" by (simp_all add: register_names_def)
  moreover have "list_all explicit_block (fn_blocks yielding_statement)"
    using yields_explicit [of synthetic yielding_statement 0] unfolding yielding_statement_fixed by blast
  moreover have "term_yield_site (Return (name_expr n)) = None" for n by (simp add: name_expr_def)
  ultimately show ?thesis
    by (simp add: plain_generator_def yielding_statement_def one_statement_def plain_block_ok_def plain_yields_def edge_fits_def)
qed


end
