(* ===== verification/Stmt_Seq.thy ===== *)
theory Stmt_Seq
  imports Frontend
begin

text \<open>
  Statement sequences to structured blocks (\<open>stmt_sequences.rs\<close>, \<open>try_regions.rs\<close>, \<open>compat.rs\<close> and the
  sequence parts of \<open>stmt_lowering\<close> in \<open>passes/ruff_to_blockpy\<close>). Simple statements collect in a prefix;
  the first statement with control flow ends the block, after the rest of the sequence and its own
  bodies have been lowered to blocks with the labels to continue at.

  A statement is given by its plan (\<open>StmtSequenceHeadPlan\<close>), and so are the statements of its bodies:
  the syntax trees are those of the parser, which is not part of the repository. What the lowering
  does with simple statements and expressions is the record \<open>dialect\<close>.
\<close>

section \<open>Statements and targets\<close>

datatype ('s, 'x) stmt =
  Linear 's
| Expanded "('s, 'x) stmt list"
| FunctionDef string
| RaiseStmt "'x option" bool
| ReturnStmt "'x option"
| IfStmt 'x "('s, 'x) stmt list" "('s, 'x) stmt list list"
| WhileStmt 'x "('s, 'x) stmt list" "('s, 'x) stmt list"
| ForStmt 'x 'x bool "('s, 'x) stmt list" "('s, 'x) stmt list"
| TryStmt "('s, 'x) stmt list" "('s, 'x) stmt list list" "('s, 'x) stmt list" "('s, 'x) stmt list"
| StarTryStmt "('s, 'x) stmt list"
| WithStmt "('s, 'x) stmt list"
| BreakStmt
| ContinueStmt
| Unsupported

record loop_labels =
  break_label :: block_label
  continue_label :: block_label

record region_targets =
  normal_cont :: block_label
  loop_targets :: "loop_labels option"
  active_exc :: "block_label option"

definition region_targets_new :: "block_label \<Rightarrow> block_label option \<Rightarrow> region_targets" where
  "region_targets_new l x = \<lparr>normal_cont = l, loop_targets = None, active_exc = x\<rparr>"

definition nested :: "region_targets \<Rightarrow> block_label \<Rightarrow> region_targets" where
  "nested t l = \<lparr>normal_cont = l, loop_targets = loop_targets t, active_exc = active_exc t\<rparr>"

definition nested_with_loop :: "region_targets \<Rightarrow> block_label \<Rightarrow> loop_labels option \<Rightarrow> region_targets" where
  "nested_with_loop t l loop = \<lparr>normal_cont = l, loop_targets = loop, active_exc = active_exc t\<rparr>"

text \<open>Simple statements append to a builder and count labels of their own; \<open>lower_expr\<close> appends what has to
  run before the expression. The other fields are the statements and expressions the lowering makes.\<close>

record ('s, 'x, 'e) dialect =
  lower_stmt_into :: "'s \<Rightarrow> 'e stmt_builder \<Rightarrow> nat \<Rightarrow> ('e stmt_builder \<times> nat) option"
  lower_nested_stmt_into :: "'s \<Rightarrow> 'e stmt_builder \<Rightarrow> nat \<Rightarrow> ('e stmt_builder \<times> nat) option"
  lower_expr_into :: "'x \<Rightarrow> 'e stmt_builder \<Rightarrow> nat \<Rightarrow> ('e \<times> 'e stmt_builder \<times> nat) option"
  none_value :: 'e
  name_value :: "string \<Rightarrow> 'e"
  store_name :: "string \<Rightarrow> 'e \<Rightarrow> 'e"
  exhausted_test :: "string \<Rightarrow> 'e"
  next_stmt :: "bool \<Rightarrow> string \<Rightarrow> string \<Rightarrow> 's"
  iter_stmt :: "bool \<Rightarrow> string \<Rightarrow> 'x \<Rightarrow> 's"
  for_target_assign_body :: "'x \<Rightarrow> string \<Rightarrow> function_name_gen \<Rightarrow> 's list \<times> function_name_gen"

text \<open>The blocks so far and the name generator.\<close>

type_synonym 'e lowered_block = "('e structured, 'e) block"

record 'e seq_state =
  seq_blocks :: "'e lowered_block list"
  seq_gen :: function_name_gen

definition push_lowered :: "'e lowered_block \<Rightarrow> 'e seq_state \<Rightarrow> 'e seq_state" where
  "push_lowered b s = s\<lparr>seq_blocks := seq_blocks s @ [b]\<rparr>"

definition seq_label :: "'e seq_state \<Rightarrow> (block_label \<times> 'e seq_state) option" where
  "seq_label s = do { (l, g) \<leftarrow> next_block_name (seq_gen s); Some (l, s\<lparr>seq_gen := g\<rparr>) }"

definition seq_tmp :: "string \<Rightarrow> 'e seq_state \<Rightarrow> string \<times> 'e seq_state" where
  "seq_tmp p s = (let (n, g) = next_tmp_name p (seq_gen s) in (n, s\<lparr>seq_gen := g\<rparr>))"

definition label_if :: "bool \<Rightarrow> 'e seq_state \<Rightarrow> (block_label option \<times> 'e seq_state) option" where
  "label_if c s = (if c then map_option (\<lambda>(l, s'). (Some l, s')) (seq_label s) else Some (None, s))"

section \<open>Blocks from statements\<close>

fun lower_each ::
  "('s \<Rightarrow> 'e stmt_builder \<Rightarrow> nat \<Rightarrow> ('e stmt_builder \<times> nat) option) \<Rightarrow> 's list \<Rightarrow> 'e stmt_builder \<Rightarrow> nat \<Rightarrow>
     ('e stmt_builder \<times> nat) option" where
  "lower_each f [] b k = Some (b, k)"
| "lower_each f (s # ss) b k = do { (b', k') \<leftarrow> f s b k; lower_each f ss b' k' }"

definition lower_stmts_to_blockpy_stmts :: "('s, 'x, 'e) dialect \<Rightarrow> 's list \<Rightarrow> 'e stmt_builder option" where
  "lower_stmts_to_blockpy_stmts D ss = map_option fst (lower_each (lower_stmt_into D) ss builder_new 0)"

definition with_exc_meta :: "block_label option \<Rightarrow> 'e lowered_block \<Rightarrow> 'e lowered_block" where
  "with_exc_meta x b = b\<lparr>exc_edge := map_option edge_new x\<rparr>"

definition finished_block ::
  "('s, 'x, 'e) dialect \<Rightarrow> block_label \<Rightarrow> 'e stmt_builder \<Rightarrow> 'e block_term \<Rightarrow> block_label option \<Rightarrow> 'e lowered_block option" where
  "finished_block D l b t x =
     (if bb_term b = None
      then Some (with_exc_meta x (from_builder (none_value D) l (with_term (bb_body b) (Some t)) [] None None))
      else None)"

definition compat_block_from_blockpy ::
  "('s, 'x, 'e) dialect \<Rightarrow> block_label \<Rightarrow> 's list \<Rightarrow> 'e block_term \<Rightarrow> block_label option \<Rightarrow> 'e lowered_block option" where
  "compat_block_from_blockpy D l ss t x = do { b \<leftarrow> lower_stmts_to_blockpy_stmts D ss; finished_block D l b t x }"

definition compat_block_builder_with_expr_setup :: "('s, 'x, 'e) dialect \<Rightarrow> 's list \<Rightarrow> 'e stmt_builder option" where
  "compat_block_builder_with_expr_setup D ss = map_option fst (lower_each (lower_nested_stmt_into D) ss builder_new 0)"

text \<open>A block with a prefix of statements that ends in a terminator with one expression.\<close>

definition block_with_expr ::
  "('s, 'x, 'e) dialect \<Rightarrow> block_label \<Rightarrow> 's list \<Rightarrow> 'x \<Rightarrow> ('e \<Rightarrow> 'e block_term) \<Rightarrow> block_label option \<Rightarrow> 'e lowered_block option" where
  "block_with_expr D l ss v t x =
     do { b \<leftarrow> compat_block_builder_with_expr_setup D ss;
          (e, b', k) \<leftarrow> lower_expr_into D v b 0;
          finished_block D l b' (t e) x }"

definition block_without_expr ::
  "('s, 'x, 'e) dialect \<Rightarrow> block_label \<Rightarrow> 's list \<Rightarrow> 'e block_term \<Rightarrow> block_label option \<Rightarrow> 'e lowered_block option" where
  "block_without_expr D l ss t x =
     do { b \<leftarrow> compat_block_builder_with_expr_setup D ss; finished_block D l b t x }"

definition compat_if_jump_block ::
  "('s, 'x, 'e) dialect \<Rightarrow> block_label \<Rightarrow> 's list \<Rightarrow> 'x \<Rightarrow> block_label \<Rightarrow> block_label \<Rightarrow> block_label option \<Rightarrow> 'e lowered_block option" where
  "compat_if_jump_block D l ss test a b x = block_with_expr D l ss test (\<lambda>e. IfTerm e a b) x"

definition emit :: "'e lowered_block option \<Rightarrow> block_label \<Rightarrow> 'e seq_state \<Rightarrow> (block_label \<times> 'e seq_state) option" where
  "emit b l s = do { b' \<leftarrow> b; Some (l, push_lowered b' s) }"

definition emit_sequence_jump_block ::
  "('s, 'x, 'e) dialect \<Rightarrow> block_label \<Rightarrow> 's list \<Rightarrow> block_label \<Rightarrow> block_label option \<Rightarrow> 'e seq_state \<Rightarrow> (block_label \<times> 'e seq_state) option" where
  "emit_sequence_jump_block D l ss t x = emit (compat_block_from_blockpy D l ss (Jump (edge_new t)) x) l"

definition emit_sequence_return_block ::
  "('s, 'x, 'e) dialect \<Rightarrow> block_label \<Rightarrow> 's list \<Rightarrow> 'x option \<Rightarrow> block_label option \<Rightarrow> 'e seq_state \<Rightarrow> (block_label \<times> 'e seq_state) option" where
  "emit_sequence_return_block D l ss v x =
     emit (case v of None \<Rightarrow> block_without_expr D l ss (Return (none_value D)) x
             | Some e \<Rightarrow> block_with_expr D l ss e Return x) l"

definition emit_sequence_raise_block ::
  "('s, 'x, 'e) dialect \<Rightarrow> block_label \<Rightarrow> 's list \<Rightarrow> 'x option \<Rightarrow> block_label option \<Rightarrow> 'e seq_state \<Rightarrow> (block_label \<times> 'e seq_state) option" where
  "emit_sequence_raise_block D l ss v x =
     emit (case v of None \<Rightarrow> block_without_expr D l ss (Raise None) x
             | Some e \<Rightarrow> block_with_expr D l ss e (\<lambda>e. Raise (Some e)) x) l"

definition emit_if_branch_block ::
  "('s, 'x, 'e) dialect \<Rightarrow> block_label \<Rightarrow> 's list \<Rightarrow> 'x \<Rightarrow> block_label \<Rightarrow> block_label \<Rightarrow> block_label option \<Rightarrow> 'e seq_state \<Rightarrow>
     (block_label \<times> 'e seq_state) option" where
  "emit_if_branch_block D l ss test a b x = emit (compat_if_jump_block D l ss test a b x) l"

definition emit_simple_while_blocks ::
  "('s, 'x, 'e) dialect \<Rightarrow> block_label \<Rightarrow> block_label option \<Rightarrow> 's list \<Rightarrow> 'x \<Rightarrow> block_label \<Rightarrow> block_label \<Rightarrow> block_label option \<Rightarrow>
     'e seq_state \<Rightarrow> (block_label \<times> 'e seq_state) option" where
  "emit_simple_while_blocks D test_l linear_l ss test body_entry false_entry x s =
     do { (l, s1) \<leftarrow> emit (compat_if_jump_block D test_l [] test body_entry false_entry x) test_l s;
          case linear_l of
            None \<Rightarrow> Some (test_l, s1)
          | Some l \<Rightarrow> emit (compat_block_from_blockpy D l ss (Jump (edge_new test_l)) x) l s1 }"

definition emit_for_loop_blocks ::
  "('s, 'x, 'e) dialect \<Rightarrow> block_label \<Rightarrow> block_label \<Rightarrow> block_label \<Rightarrow> block_label \<Rightarrow> 's list \<Rightarrow> string \<Rightarrow> string \<Rightarrow> 'x \<Rightarrow> bool \<Rightarrow>
     block_label \<Rightarrow> block_label \<Rightarrow> 's list \<Rightarrow> block_label option \<Rightarrow> 'e seq_state \<Rightarrow> (block_label \<times> 'e seq_state) option" where
  "emit_for_loop_blocks D setup_l assign_l check_l continue_l ss iter tmp iterable async exhausted_entry body_entry assign_ss x s =
     do { (l1, s1) \<leftarrow> emit (compat_block_from_blockpy D assign_l assign_ss (Jump (edge_new body_entry)) x) assign_l s;
          (l2, s2) \<leftarrow> emit (compat_block_from_blockpy D check_l [next_stmt D async tmp iter]
                              (IfTerm (exhausted_test D tmp) exhausted_entry assign_l) x) check_l s1;
          emit (compat_block_from_blockpy D setup_l (ss @ [iter_stmt D async iter iterable]) (Jump (edge_new continue_l)) x) setup_l s2 }"

section \<open>Try regions\<close>

record try_plan =
  except_exc_name :: string
  finally_abrupt_kind_name :: "string option"
  finally_abrupt_payload_name :: "string option"
  finally_dispatch_label :: "block_label option"
  finally_return_label :: "block_label option"
  finally_raise_label :: "block_label option"

definition build_try_plan :: "bool \<Rightarrow> 'e seq_state \<Rightarrow> (try_plan \<times> 'e seq_state) option" where
  "build_try_plan has_finally s =
     (let (exc, s1) = seq_tmp ''try_exc'' s in
      if has_finally
      then (let (kind, s2) = seq_tmp ''try_abrupt_kind'' s1; (payload, s3) = seq_tmp ''try_abrupt_payload'' s2 in
            do { (dispatch, s4) \<leftarrow> seq_label s3;
                 (ret, s5) \<leftarrow> seq_label s4;
                 (raise, s6) \<leftarrow> seq_label s5;
                 Some (\<lparr>except_exc_name = exc, finally_abrupt_kind_name = Some kind, finally_abrupt_payload_name = Some payload,
                        finally_dispatch_label = Some dispatch, finally_return_label = Some ret,
                        finally_raise_label = Some raise\<rparr>, s6) })
      else Some (\<lparr>except_exc_name = exc, finally_abrupt_kind_name = None, finally_abrupt_payload_name = None,
                  finally_dispatch_label = None, finally_return_label = None, finally_raise_label = None\<rparr>, s1))"

definition finally_cont_label :: "try_plan \<Rightarrow> block_label \<Rightarrow> block_label" where
  "finally_cont_label p rest = unwrap_or rest (finally_dispatch_label p)"

definition emit_finally_abrupt_dispatch_blocks ::
  "('s, 'x, 'e) dialect \<Rightarrow> block_label \<Rightarrow> block_label \<Rightarrow> block_label \<Rightarrow> string \<Rightarrow> string \<Rightarrow> block_label \<Rightarrow> block_label option \<Rightarrow>
     'e seq_state \<Rightarrow> 'e seq_state option" where
  "emit_finally_abrupt_dispatch_blocks D return_l raise_l dispatch_l payload kind rest x s =
     do { (l1, s1) \<leftarrow> emit (compat_block_from_blockpy D return_l [] (Return (name_value D payload)) x) return_l s;
          (l2, s2) \<leftarrow> emit (compat_block_from_blockpy D raise_l [] (Raise (Some (name_value D payload))) x) raise_l s1;
          (l3, s3) \<leftarrow> emit (compat_block_from_blockpy D dispatch_l []
             (BranchTable (name_value D kind) [rest, return_l, raise_l] rest) x) dispatch_l s2;
          Some s3 }"

text \<open>The first block with a label gets a parameter unless it has one of that name.\<close>

fun ensure_param_at :: "block_label \<Rightarrow> string \<Rightarrow> param_role \<Rightarrow> ('s, 'e) block list \<Rightarrow> ('s, 'e) block list" where
  "ensure_param_at l n r [] = []"
| "ensure_param_at l n r (b # bs) =
     (if label b = l then b\<lparr>params := ensure_param n r (params b)\<rparr> # bs else b # ensure_param_at l n r bs)"

definition ensure_finally_params :: "try_plan \<Rightarrow> block_label \<Rightarrow> 'e seq_state \<Rightarrow> 'e seq_state" where
  "ensure_finally_params p l s =
     s\<lparr>seq_blocks :=
        (case finally_abrupt_payload_name p of None \<Rightarrow> id | Some n \<Rightarrow> ensure_param_at l n RoleAbruptPayload)
          ((case finally_abrupt_kind_name p of None \<Rightarrow> id | Some n \<Rightarrow> ensure_param_at l n RoleAbruptKind) (seq_blocks s))\<rparr>"

text \<open>The blocks that enter the finally body normally and with an exception.\<close>

definition finally_entry_block ::
  "('s, 'x, 'e) dialect \<Rightarrow> block_label \<Rightarrow> block_label \<Rightarrow> block_arg list \<Rightarrow> block_param list \<Rightarrow> block_label option \<Rightarrow> 'e lowered_block" where
  "finally_entry_block D l finally_l args ps x =
     from_builder (none_value D) l (with_term [] (Some (Jump (edge_with_args finally_l args)))) ps (map_option edge_new x) None"

definition finally_normal_entry ::
  "('s, 'x, 'e) dialect \<Rightarrow> try_plan \<Rightarrow> block_label \<Rightarrow> block_label option \<Rightarrow> 'e seq_state \<Rightarrow> (block_label option \<times> 'e seq_state) option" where
  "finally_normal_entry D p finally_l x s =
     (case finally_abrupt_kind_name p of
        None \<Rightarrow> Some (None, s)
      | Some _ \<Rightarrow>
          do { (l, s1) \<leftarrow> seq_label s;
               Some (Some l, push_lowered
                 (finally_entry_block D l finally_l [ArgAbruptKind AbruptFallthrough, ArgNone] [] x) s1) })"

definition finally_exception_entry ::
  "('s, 'x, 'e) dialect \<Rightarrow> try_plan \<Rightarrow> block_label \<Rightarrow> block_label option \<Rightarrow> 'e seq_state \<Rightarrow> (block_label option \<times> 'e seq_state) option" where
  "finally_exception_entry D p finally_l x s =
     (case finally_abrupt_kind_name p of
        None \<Rightarrow> Some (None, s)
      | Some _ \<Rightarrow>
          do { (l, s1) \<leftarrow> seq_label s;
               Some (Some l, push_lowered
                 (finally_entry_block D l finally_l [ArgAbruptKind AbruptException, ArgName (except_exc_name p)]
                    (set_exception_param (except_exc_name p) []) x) s1) })"

type_synonym ('s, 'x, 'e) sequence_lowerer =
  "('s, 'x) stmt list \<Rightarrow> region_targets \<Rightarrow> 'e seq_state \<Rightarrow> (block_label \<times> 'e seq_state) option"

type_synonym region_range = "nat \<times> nat"

definition lower_finally_region ::
  "('s, 'x, 'e) dialect \<Rightarrow> try_plan \<Rightarrow> block_label \<Rightarrow> ('s, 'x) stmt list \<Rightarrow> loop_labels option \<Rightarrow> block_label option \<Rightarrow>
     ('s, 'x, 'e) sequence_lowerer \<Rightarrow> 'e seq_state \<Rightarrow>
     ((block_label \<times> region_range \<times> block_label option \<times> block_label option) \<times> 'e seq_state) option" where
  "lower_finally_region D p rest finally_body loop x rec s =
     do { let start = length (seq_blocks s);
          (l, s1) \<leftarrow> rec finally_body \<lparr>normal_cont = finally_cont_label p rest, loop_targets = loop, active_exc = x\<rparr> s;
          let end = length (seq_blocks s1);
          (normal, s2) \<leftarrow> finally_normal_entry D p l x (ensure_finally_params p l s1);
          (exc, s3) \<leftarrow> finally_exception_entry D p l x s2;
          s4 \<leftarrow> (case (finally_return_label p, finally_dispatch_label p, finally_raise_label p,
                       finally_abrupt_payload_name p, finally_abrupt_kind_name p) of
                   (Some return_l, Some dispatch_l, Some raise_l, Some payload, Some kind) \<Rightarrow>
                     emit_finally_abrupt_dispatch_blocks D return_l raise_l dispatch_l payload kind rest x s3
                 | _ \<Rightarrow> Some s3);
          Some ((l, (start, end), normal, exc), s4) }"

record lowered_try_regions =
  body_entry_label :: block_label
  body_region_range :: region_range
  else_region_range :: region_range
  except_region_range :: "region_range option"
  finally_region_range :: "region_range option"
  finally_entry_label :: "block_label option"

text \<open>A region is lowered to the blocks that its range covers.\<close>

definition lower_region ::
  "('s, 'x, 'e) sequence_lowerer \<Rightarrow> ('s, 'x) stmt list \<Rightarrow> region_targets \<Rightarrow> 'e seq_state \<Rightarrow>
     ((block_label \<times> region_range) \<times> 'e seq_state) option" where
  "lower_region rec ss t s =
     do { (l, s1) \<leftarrow> rec ss t s; Some ((l, (length (seq_blocks s), length (seq_blocks s1))), s1) }"

definition lower_try_regions ::
  "('s, 'x, 'e) dialect \<Rightarrow> try_plan \<Rightarrow> block_label \<Rightarrow> ('s, 'x) stmt list option \<Rightarrow> ('s, 'x) stmt list \<Rightarrow> ('s, 'x) stmt list \<Rightarrow>
     ('s, 'x) stmt list option \<Rightarrow> loop_labels option \<Rightarrow> block_label option \<Rightarrow> ('s, 'x, 'e) sequence_lowerer \<Rightarrow> 'e seq_state \<Rightarrow>
     (lowered_try_regions \<times> 'e seq_state) option" where
  "lower_try_regions D p rest finally_body else_body try_body except_body loop x rec s =
     do { (fin, s1) \<leftarrow> (case finally_body of
                          None \<Rightarrow> Some (None, s)
                        | Some ss \<Rightarrow> map_option (map_prod Some id) (lower_finally_region D p rest ss loop x rec s));
          let cleanup = (case fin of None \<Rightarrow> rest | Some (l, r, normal, exc) \<Rightarrow> unwrap_or l normal);
          let cleanup_exc = (case fin of None \<Rightarrow> x | Some (l, r, normal, exc) \<Rightarrow> Some (unwrap_or l exc));
          ((else_entry, else_r), s2) \<leftarrow>
            (if else_body = [] then Some ((cleanup, (length (seq_blocks s1), length (seq_blocks s1))), s1)
             else lower_region rec else_body \<lparr>normal_cont = cleanup, loop_targets = loop, active_exc = cleanup_exc\<rparr> s1);
          ((except_l, except_r), s3) \<leftarrow>
            (case except_body of
               Some ss \<Rightarrow>
                 do { ((l, r), s') \<leftarrow> lower_region rec ss \<lparr>normal_cont = cleanup, loop_targets = loop, active_exc = cleanup_exc\<rparr> s2;
                      Some ((l, Some r), s') }
             | None \<Rightarrow> (case fin of
                          Some (l, r, normal, exc) \<Rightarrow> Some ((unwrap_or l exc, None), s2)
                        | None \<Rightarrow> None));
          ((body_l, body_r), s4) \<leftarrow> lower_region rec try_body \<lparr>normal_cont = else_entry, loop_targets = loop, active_exc = Some except_l\<rparr> s3;
          Some (\<lparr>body_entry_label = body_l, body_region_range = body_r, else_region_range = else_r, except_region_range = except_r,
                 finally_region_range = map_option (\<lambda>(l, r, _). r) fin, finally_entry_label = map_option fst fin\<rparr>, s4) }"

text \<open>Changing the blocks of a range.\<close>

definition on_range :: "('b \<Rightarrow> 'b) \<Rightarrow> region_range \<Rightarrow> 'b list \<Rightarrow> 'b list" where
  "on_range f r bs = take (fst r) bs @ map f (take (snd r - fst r) (drop (fst r) bs)) @ drop (max (fst r) (snd r)) bs"

definition return_to_finally ::
  "('s, 'x, 'e) dialect \<Rightarrow> block_label \<Rightarrow> string \<Rightarrow> 'e lowered_block \<Rightarrow> 'e lowered_block" where
  "return_to_finally D finally_l payload b =
     (case bterm b of
        Return v \<Rightarrow>
          b\<lparr>body := body b @ [SExpr (store_name D payload v)],
            bterm := Jump (edge_with_args finally_l [ArgAbruptKind AbruptReturn, ArgName payload])\<rparr>
      | _ \<Rightarrow> b)"

definition rename_args :: "string \<Rightarrow> string \<Rightarrow> block_edge \<Rightarrow> block_edge" where
  "rename_args old new e =
     e\<lparr>edge_args := map (\<lambda>a. if a = ArgName old then ArgName new else a) (edge_args e)\<rparr>"

definition rename_exception_edge_args :: "string \<Rightarrow> string \<Rightarrow> 'e lowered_block \<Rightarrow> 'e lowered_block" where
  "rename_exception_edge_args old new b =
     b\<lparr>bterm := (case bterm b of Jump e \<Rightarrow> Jump (rename_args old new e) | t \<Rightarrow> t),
       exc_edge := map_option (rename_args old new) (exc_edge b)\<rparr>"

definition set_block_exc_param :: "string \<Rightarrow> 'e lowered_block \<Rightarrow> 'e lowered_block" where
  "set_block_exc_param n b =
     (let b' = b\<lparr>params := set_exception_param n (params b)\<rparr> in
      case exception_param (params b) of
        None \<Rightarrow> b'
      | Some old \<Rightarrow> if old \<noteq> n then rename_exception_edge_args old n b' else b')"

definition set_region_exc_param :: "region_range \<Rightarrow> string \<Rightarrow> 'e lowered_block list \<Rightarrow> 'e lowered_block list" where
  "set_region_exc_param r n bs = on_range (set_block_exc_param n) r bs"

definition rewrite_region_returns_to_finally ::
  "('s, 'x, 'e) dialect \<Rightarrow> block_label \<Rightarrow> string \<Rightarrow> region_range \<Rightarrow> 'e lowered_block list \<Rightarrow> 'e lowered_block list" where
  "rewrite_region_returns_to_finally D finally_l payload r bs = on_range (return_to_finally D finally_l payload) r bs"

definition on_optional :: "('r \<Rightarrow> 'b \<Rightarrow> 'b) \<Rightarrow> 'r option \<Rightarrow> 'b \<Rightarrow> 'b" where
  "on_optional f r = (case r of None \<Rightarrow> id | Some r \<Rightarrow> f r)"

definition emit_try_jump_entry ::
  "('s, 'x, 'e) dialect \<Rightarrow> block_label \<Rightarrow> 's list \<Rightarrow> block_label \<Rightarrow> block_label option \<Rightarrow> 'e seq_state \<Rightarrow> (block_label \<times> 'e seq_state) option" where
  "emit_try_jump_entry D l linear body_l x = emit (compat_block_from_blockpy D l linear (Jump (edge_new body_l)) x) l"

definition finalize_try_regions ::
  "('s, 'x, 'e) dialect \<Rightarrow> block_label \<Rightarrow> 's list \<Rightarrow> try_plan \<Rightarrow> lowered_try_regions \<Rightarrow> block_label option \<Rightarrow> 'e seq_state \<Rightarrow>
     (block_label \<times> 'e seq_state) option" where
  "finalize_try_regions D l linear p t x s =
     do { bs \<leftarrow> (case finally_entry_label t of
                    None \<Rightarrow> Some (seq_blocks s)
                  | Some f \<Rightarrow>
                      do { payload \<leftarrow> finally_abrupt_payload_name p;
                           let to_finally = rewrite_region_returns_to_finally D f payload;
                           Some (on_optional to_finally (except_region_range t)
                             (to_finally (else_region_range t) (to_finally (body_region_range t) (seq_blocks s)))) });
          let exc = (\<lambda>r. set_region_exc_param r (except_exc_name p));
          let bs' = on_optional exc (finally_region_range t) (on_optional exc (except_region_range t) bs);
          emit_try_jump_entry D l linear (body_entry_label t) x (s\<lparr>seq_blocks := bs'\<rparr>) }"

section \<open>Control flow of a sequence\<close>

definition lower_expanded_stmt_sequence ::
  "('s, 'x, 'e) dialect \<Rightarrow> ('s, 'x) stmt list \<Rightarrow> ('s, 'x) stmt list \<Rightarrow> region_targets \<Rightarrow> 's list \<Rightarrow> block_label option \<Rightarrow>
     ('s, 'x, 'e) sequence_lowerer \<Rightarrow> 'e seq_state \<Rightarrow> (block_label \<times> 'e seq_state) option" where
  "lower_expanded_stmt_sequence D expanded remaining t linear jump_l rec s =
     do { (entry, s1) \<leftarrow> rec (expanded @ remaining) t s;
          if linear = [] then Some (entry, s1)
          else do { l \<leftarrow> jump_l;
                    emit (compat_block_from_blockpy D l linear (Jump (edge_new entry)) (active_exc t)) l s1 } }"

text \<open>After the plan of an \<open>if\<close> there is one \<open>else\<close> clause at most.\<close>

definition extract_if_else_body :: "('s, 'x) stmt list list \<Rightarrow> ('s, 'x) stmt list" where
  "extract_if_else_body clauses = (case clauses of [] \<Rightarrow> [] | b # _ \<Rightarrow> b)"

definition lower_if_stmt_sequence ::
  "('s, 'x, 'e) dialect \<Rightarrow> block_label \<Rightarrow> 's list \<Rightarrow> 'x \<Rightarrow> ('s, 'x) stmt list \<Rightarrow> ('s, 'x) stmt list \<Rightarrow> block_label \<Rightarrow> region_targets \<Rightarrow>
     ('s, 'x, 'e) sequence_lowerer \<Rightarrow> 'e seq_state \<Rightarrow> (block_label \<times> 'e seq_state) option" where
  "lower_if_stmt_sequence D l linear test then_body else_body rest t rec s =
     do { (then_entry, s1) \<leftarrow> rec then_body (nested t rest) s;
          (else_entry, s2) \<leftarrow> rec else_body (nested t rest) s1;
          emit_if_branch_block D l linear test then_entry else_entry (active_exc t) s2 }"

definition lower_if_stmt_sequence_from_stmt ::
  "('s, 'x, 'e) dialect \<Rightarrow> 'x \<Rightarrow> ('s, 'x) stmt list \<Rightarrow> ('s, 'x) stmt list list \<Rightarrow> ('s, 'x) stmt list \<Rightarrow> region_targets \<Rightarrow> 's list \<Rightarrow>
     block_label \<Rightarrow> ('s, 'x, 'e) sequence_lowerer \<Rightarrow> 'e seq_state \<Rightarrow> (block_label \<times> 'e seq_state) option" where
  "lower_if_stmt_sequence_from_stmt D test then_body clauses remaining t linear l rec s =
     do { (rest, s1) \<leftarrow> rec remaining t s;
          lower_if_stmt_sequence D l linear test then_body (extract_if_else_body clauses) rest t rec s1 }"

definition lower_while_stmt_sequence ::
  "('s, 'x, 'e) dialect \<Rightarrow> block_label \<Rightarrow> block_label option \<Rightarrow> 's list \<Rightarrow> 'x \<Rightarrow> ('s, 'x) stmt list \<Rightarrow> ('s, 'x) stmt list \<Rightarrow>
     ('s, 'x) stmt list \<Rightarrow> region_targets \<Rightarrow> ('s, 'x, 'e) sequence_lowerer \<Rightarrow> 'e seq_state \<Rightarrow> (block_label \<times> 'e seq_state) option" where
  "lower_while_stmt_sequence D test_l linear_l linear test loop_body else_body remaining t rec s =
     do { (rest, s1) \<leftarrow> rec remaining t s;
          (false_entry, s2) \<leftarrow> (if else_body = [] then Some (rest, s1) else rec else_body (nested t rest) s1);
          (body_entry, s3) \<leftarrow> rec loop_body
             (nested_with_loop t test_l (Some \<lparr>break_label = rest, continue_label = test_l\<rparr>)) s2;
          emit_simple_while_blocks D test_l linear_l linear test body_entry false_entry (active_exc t) s3 }"

definition lower_for_stmt_exit_entries ::
  "('s, 'x) stmt list \<Rightarrow> ('s, 'x) stmt list \<Rightarrow> region_targets \<Rightarrow> ('s, 'x, 'e) sequence_lowerer \<Rightarrow> 'e seq_state \<Rightarrow>
     ((block_label \<times> block_label) \<times> 'e seq_state) option" where
  "lower_for_stmt_exit_entries else_body remaining t rec s =
     do { (rest, s1) \<leftarrow> rec remaining t s;
          (exhausted, s2) \<leftarrow> (if else_body = [] then Some (rest, s1) else rec else_body (nested t rest) s1);
          Some ((rest, exhausted), s2) }"

definition lower_for_stmt_body_entry ::
  "block_label \<Rightarrow> ('s, 'x) stmt list \<Rightarrow> block_label \<Rightarrow> region_targets \<Rightarrow> ('s, 'x, 'e) sequence_lowerer \<Rightarrow> 'e seq_state \<Rightarrow>
     (block_label \<times> 'e seq_state) option" where
  "lower_for_stmt_body_entry continue_l loop_body break_l t rec =
     rec loop_body (nested_with_loop t continue_l (Some \<lparr>break_label = break_l, continue_label = continue_l\<rparr>))"

definition lower_for_stmt_sequence ::
  "('s, 'x, 'e) dialect \<Rightarrow> 'x \<Rightarrow> bool \<Rightarrow> ('s, 'x) stmt list \<Rightarrow> ('s, 'x) stmt list \<Rightarrow> ('s, 'x) stmt list \<Rightarrow> region_targets \<Rightarrow> 's list \<Rightarrow>
     string \<Rightarrow> string \<Rightarrow> block_label \<Rightarrow> block_label \<Rightarrow> block_label \<Rightarrow> block_label \<Rightarrow> 's list \<Rightarrow> ('s, 'x, 'e) sequence_lowerer \<Rightarrow>
     'e seq_state \<Rightarrow> (block_label \<times> 'e seq_state) option" where
  "lower_for_stmt_sequence D iterable async loop_body else_body remaining t linear iter tmp check_l continue_l assign_l setup_l
       assign_ss rec s =
     do { ((rest, exhausted), s1) \<leftarrow> lower_for_stmt_exit_entries else_body remaining t rec s;
          (body_entry, s2) \<leftarrow> lower_for_stmt_body_entry continue_l loop_body rest t rec s1;
          emit_for_loop_blocks D setup_l assign_l check_l continue_l linear iter tmp iterable async exhausted body_entry
            assign_ss (active_exc t) s2 }"

definition lower_for_stmt_sequence_head ::
  "('s, 'x, 'e) dialect \<Rightarrow> 'x \<Rightarrow> bool \<Rightarrow> ('s, 'x) stmt list \<Rightarrow> ('s, 'x) stmt list \<Rightarrow> ('s, 'x) stmt list \<Rightarrow> region_targets \<Rightarrow> 's list \<Rightarrow>
     string \<Rightarrow> string \<Rightarrow> block_label \<Rightarrow> block_label \<Rightarrow> 's list \<Rightarrow> ('s, 'x, 'e) sequence_lowerer \<Rightarrow> 'e seq_state \<Rightarrow>
     (block_label \<times> 'e seq_state) option" where
  "lower_for_stmt_sequence_head D iterable async loop_body else_body remaining t linear iter tmp check_l continue_l assign_ss rec s =
     do { (assign_l, s1) \<leftarrow> seq_label s;
          (setup_l, s2) \<leftarrow> seq_label s1;
          lower_for_stmt_sequence D iterable async loop_body else_body remaining t linear iter tmp check_l continue_l
            assign_l setup_l assign_ss rec s2 }"

text \<open>The names and the first label of a \<open>for\<close> loop, and the statements that assign the target.\<close>

definition lower_for_head ::
  "('s, 'x, 'e) dialect \<Rightarrow> 'x \<Rightarrow> 'x \<Rightarrow> bool \<Rightarrow> ('s, 'x) stmt list \<Rightarrow> ('s, 'x) stmt list \<Rightarrow> ('s, 'x) stmt list \<Rightarrow> region_targets \<Rightarrow> 's list \<Rightarrow>
     ('s, 'x, 'e) sequence_lowerer \<Rightarrow> 'e seq_state \<Rightarrow> (block_label \<times> 'e seq_state) option" where
  "lower_for_head D for_target iterable async loop_body else_body remaining t linear rec s =
     (let (iter, s1) = seq_tmp ''iter'' s; (tmp, s2) = seq_tmp ''tmp'' s1 in
      do { (check_l, s3) \<leftarrow> seq_label s2;
           let (assign_ss, g) = for_target_assign_body D for_target tmp (seq_gen s3);
           lower_for_stmt_sequence_head D iterable async loop_body else_body remaining t linear iter tmp check_l check_l
             assign_ss rec (s3\<lparr>seq_gen := g\<rparr>) })"

definition lower_try_stmt_sequence ::
  "('s, 'x, 'e) dialect \<Rightarrow> ('s, 'x) stmt list \<Rightarrow> ('s, 'x) stmt list list \<Rightarrow> ('s, 'x) stmt list \<Rightarrow> ('s, 'x) stmt list \<Rightarrow>
     ('s, 'x) stmt list \<Rightarrow> region_targets \<Rightarrow> 's list \<Rightarrow> block_label \<Rightarrow> try_plan \<Rightarrow> ('s, 'x, 'e) sequence_lowerer \<Rightarrow> 'e seq_state \<Rightarrow>
     (block_label \<times> 'e seq_state) option" where
  "lower_try_stmt_sequence D try_body handlers else_body final_body remaining t linear l p rec s =
     do { (rest, s1) \<leftarrow> rec remaining t s;
          (regions, s2) \<leftarrow> lower_try_regions D p rest (if final_body = [] then None else Some final_body) else_body try_body
             (case handlers of [] \<Rightarrow> None | h # _ \<Rightarrow> Some h) (loop_targets t) (active_exc t) rec s1;
          finalize_try_regions D l linear p regions (active_exc t) s2 }"

definition lower_try_head ::
  "('s, 'x, 'e) dialect \<Rightarrow> ('s, 'x) stmt list \<Rightarrow> ('s, 'x) stmt list list \<Rightarrow> ('s, 'x) stmt list \<Rightarrow> ('s, 'x) stmt list \<Rightarrow>
     ('s, 'x) stmt list \<Rightarrow> region_targets \<Rightarrow> 's list \<Rightarrow> ('s, 'x, 'e) sequence_lowerer \<Rightarrow> 'e seq_state \<Rightarrow> (block_label \<times> 'e seq_state) option" where
  "lower_try_head D try_body handlers else_body final_body remaining t linear rec s =
     do { (p, s1) \<leftarrow> build_try_plan (final_body \<noteq> []) s;
          (l, s2) \<leftarrow> seq_label s1;
          lower_try_stmt_sequence D try_body handlers else_body final_body remaining t linear l p rec s2 }"

text \<open>The statements up to the first that is not simple, and its position.\<close>

datatype ('s, 'x) drive_result = Exhausted "'s list" | Stopped "'s list" nat "('s, 'x) stmt"

fun drive_stmt_sequence_until_control :: "('s, 'x) stmt list \<Rightarrow> nat \<Rightarrow> 's list \<Rightarrow> ('s, 'x) drive_result option" where
  "drive_stmt_sequence_until_control [] i linear = Some (Exhausted linear)"
| "drive_stmt_sequence_until_control (s # ss) i linear =
     (case s of
        Linear a \<Rightarrow> drive_stmt_sequence_until_control ss (Suc i) (linear @ [a])
      | FunctionDef _ \<Rightarrow> None
      | p \<Rightarrow> Some (Stopped linear i p))"

definition expand_with_jump ::
  "('s, 'x, 'e) dialect \<Rightarrow> ('s, 'x) stmt list \<Rightarrow> ('s, 'x) stmt list \<Rightarrow> region_targets \<Rightarrow> 's list \<Rightarrow>
     ('s, 'x, 'e) sequence_lowerer \<Rightarrow> 'e seq_state \<Rightarrow> (block_label \<times> 'e seq_state) option" where
  "expand_with_jump D expanded remaining t linear rec s =
     do { (jump_l, s1) \<leftarrow> label_if (linear \<noteq> []) s;
          lower_expanded_stmt_sequence D expanded remaining t linear jump_l rec s1 }"

text \<open>A \<open>break\<close> or \<open>continue\<close> outside of a loop drops the prefix and continues normally.\<close>

definition lower_loop_exit ::
  "('s, 'x, 'e) dialect \<Rightarrow> (loop_labels \<Rightarrow> block_label) \<Rightarrow> region_targets \<Rightarrow> 's list \<Rightarrow> 'e seq_state \<Rightarrow> (block_label \<times> 'e seq_state) option" where
  "lower_loop_exit D exit t linear s =
     (case loop_targets t of
        Some loop \<Rightarrow> do { (l, s1) \<leftarrow> seq_label s; emit_sequence_jump_block D l linear (exit loop) (active_exc t) s1 }
      | None \<Rightarrow> Some (normal_cont t, s))"

text \<open>A raise with a cause has been rewritten before (the code asserts it).\<close>

definition lower_stmt_sequence_head ::
  "('s, 'x, 'e) dialect \<Rightarrow> ('s, 'x) stmt \<Rightarrow> ('s, 'x) stmt list \<Rightarrow> region_targets \<Rightarrow> 's list \<Rightarrow>
     ('s, 'x, 'e) sequence_lowerer \<Rightarrow> 'e seq_state \<Rightarrow> (block_label \<times> 'e seq_state) option" where
  "lower_stmt_sequence_head D p remaining t linear rec s =
     (case p of
        RaiseStmt v has_cause \<Rightarrow>
          do { (l, s1) \<leftarrow> seq_label s;
               if has_cause then None else emit_sequence_raise_block D l linear v (active_exc t) s1 }
      | ReturnStmt v \<Rightarrow> do { (l, s1) \<leftarrow> seq_label s; emit_sequence_return_block D l linear v (active_exc t) s1 }
      | IfStmt test then_body clauses \<Rightarrow>
          do { (l, s1) \<leftarrow> seq_label s;
               lower_if_stmt_sequence_from_stmt D test then_body clauses remaining t linear l rec s1 }
      | WhileStmt test loop_body else_body \<Rightarrow>
          do { (test_l, s1) \<leftarrow> seq_label s;
               (linear_l, s2) \<leftarrow> label_if (linear \<noteq> []) s1;
               lower_while_stmt_sequence D test_l linear_l linear test loop_body else_body remaining t rec s2 }
      | BreakStmt \<Rightarrow> lower_loop_exit D break_label t linear s
      | ContinueStmt \<Rightarrow> lower_loop_exit D continue_label t linear s
      | ForStmt for_target iterable async loop_body else_body \<Rightarrow>
          lower_for_head D for_target iterable async loop_body else_body remaining t linear rec s
      | TryStmt try_body handlers else_body final_body \<Rightarrow>
          lower_try_head D try_body handlers else_body final_body remaining t linear rec s
      | WithStmt ss \<Rightarrow> expand_with_jump D ss remaining t linear rec s
      | StarTryStmt ss \<Rightarrow> expand_with_jump D ss remaining t linear rec s
      | Expanded ss \<Rightarrow> expand_with_jump D ss remaining t linear rec s
      | Unsupported \<Rightarrow> Some (normal_cont t, s)
      | Linear _ \<Rightarrow> None
      | FunctionDef _ \<Rightarrow> None)"

section \<open>The recursion\<close>

text \<open>A head lowers sequences that are smaller than itself and the rest together.\<close>

definition head_size :: "('s, 'x) stmt \<Rightarrow> ('s, 'x) stmt list \<Rightarrow> nat" where
  "head_size p remaining = size p + size_list size remaining"

lemma clause_size: "size_list size (extract_if_else_body cs) \<le> size_list (size_list size) cs"
  by (cases cs) (simp_all add: extract_if_else_body_def)

lemma head_rec_cong [fundef_cong]:
  assumes "p = p'" "remaining = remaining'" "D = D'" "t = t'" "linear = linear'" "s = s'"
    and rec: "\<And>ss u r. size_list size ss \<le> head_size p' remaining' \<Longrightarrow> rec ss u r = rec' ss u r"
  shows "lower_stmt_sequence_head D p remaining t linear rec s = lower_stmt_sequence_head D' p' remaining' t' linear' rec' s'"
proof -
  have eq: "rec ss = rec' ss" if "size_list size ss \<le> head_size p' remaining'" for ss
    using rec [OF that] by (intro ext)
  have rest: "rec remaining' = rec' remaining'" by (rule eq) (simp add: head_size_def)
  have expanded: "rec (es @ remaining') = rec' (es @ remaining')" if "size_list size es \<le> size p'" for es
    by (rule eq) (use that in \<open>simp add: head_size_def size_list_append\<close>)
  have part: "rec ss = rec' ss" if "size_list size ss \<le> size p'" for ss
    by (rule eq) (use that in \<open>simp add: head_size_def\<close>)
  show ?thesis unfolding assms(1-6)
  proof (cases p')
    case (IfStmt test b cs)
    have "rec b = rec' b" "rec (extract_if_else_body cs) = rec' (extract_if_else_body cs)"
      using clause_size [of cs] by (intro part; simp add: IfStmt)+
    then show "lower_stmt_sequence_head D' p' remaining' t' linear' rec s' = lower_stmt_sequence_head D' p' remaining' t' linear' rec' s'"
      unfolding lower_stmt_sequence_head_def IfStmt stmt.case lower_if_stmt_sequence_from_stmt_def lower_if_stmt_sequence_def rest
      by simp
  next
    case (WhileStmt test b e)
    have "rec b = rec' b" "rec e = rec' e" by (intro part; simp add: WhileStmt)+
    then show "lower_stmt_sequence_head D' p' remaining' t' linear' rec s' = lower_stmt_sequence_head D' p' remaining' t' linear' rec' s'"
      unfolding lower_stmt_sequence_head_def WhileStmt stmt.case lower_while_stmt_sequence_def rest by (simp cong: if_cong)
  next
    case (ForStmt x it a b e)
    have "rec b = rec' b" "rec e = rec' e" by (intro part; simp add: ForStmt)+
    then show "lower_stmt_sequence_head D' p' remaining' t' linear' rec s' = lower_stmt_sequence_head D' p' remaining' t' linear' rec' s'"
      unfolding lower_stmt_sequence_head_def ForStmt stmt.case lower_for_head_def lower_for_stmt_sequence_head_def
        lower_for_stmt_sequence_def lower_for_stmt_exit_entries_def lower_for_stmt_body_entry_def rest by (simp cong: if_cong)
  next
    case (TryStmt b hs e f)
    have "rec b = rec' b" "rec e = rec' e" "rec f = rec' f" by (intro part; simp add: TryStmt)+
    moreover have "rec h = rec' h" if "hs = h # hs'" for h hs'
      by (rule part) (simp add: TryStmt that)
    ultimately show "lower_stmt_sequence_head D' p' remaining' t' linear' rec s' = lower_stmt_sequence_head D' p' remaining' t' linear' rec' s'"
      unfolding lower_stmt_sequence_head_def TryStmt stmt.case lower_try_head_def lower_try_stmt_sequence_def lower_try_regions_def
        lower_finally_region_def lower_region_def rest
      by (cases hs) (simp_all cong: if_cong)
  next
    case (Expanded es)
    have "rec (es @ remaining') = rec' (es @ remaining')" by (rule expanded) (simp add: Expanded)
    then show "lower_stmt_sequence_head D' p' remaining' t' linear' rec s' = lower_stmt_sequence_head D' p' remaining' t' linear' rec' s'"
      unfolding lower_stmt_sequence_head_def Expanded stmt.case expand_with_jump_def lower_expanded_stmt_sequence_def by simp
  next
    case (StarTryStmt es)
    have "rec (es @ remaining') = rec' (es @ remaining')" by (rule expanded) (simp add: StarTryStmt)
    then show "lower_stmt_sequence_head D' p' remaining' t' linear' rec s' = lower_stmt_sequence_head D' p' remaining' t' linear' rec' s'"
      unfolding lower_stmt_sequence_head_def StarTryStmt stmt.case expand_with_jump_def lower_expanded_stmt_sequence_def by simp
  next
    case (WithStmt es)
    have "rec (es @ remaining') = rec' (es @ remaining')" by (rule expanded) (simp add: WithStmt)
    then show "lower_stmt_sequence_head D' p' remaining' t' linear' rec s' = lower_stmt_sequence_head D' p' remaining' t' linear' rec' s'"
      unfolding lower_stmt_sequence_head_def WithStmt stmt.case expand_with_jump_def lower_expanded_stmt_sequence_def by simp
  qed (simp_all add: lower_stmt_sequence_head_def)
qed

lemma drive_stops:
  "drive_stmt_sequence_until_control ss i linear = Some (Stopped linear' j p) \<Longrightarrow>
     \<exists>pre rest. ss = map Linear pre @ p # rest \<and> linear' = linear @ pre \<and> j = i + length pre \<and> (\<nexists>a. p = Linear a) \<and> (\<nexists>f. p = FunctionDef f)"
proof (induction ss arbitrary: i linear)
  case (Cons s ss)
  show ?case
  proof (cases "\<exists>a. s = Linear a")
    case True
    then obtain a where a: "s = Linear a" by blast
    with Cons.prems Cons.IH [of "Suc i" "linear @ [a]"] obtain pre rest where
      "ss = map Linear pre @ p # rest" "linear' = linear @ [a] @ pre" "j = Suc i + length pre" "\<nexists>a. p = Linear a" "\<nexists>f. p = FunctionDef f"
      by auto
    then show ?thesis by (intro exI [of _ "a # pre"] exI [of _ rest]) (simp add: a)
  next
    case False
    then show ?thesis using Cons.prems by (intro exI [of _ "[]"] exI [of _ ss]) (cases s; auto)
  qed
qed simp

lemma drive_ends:
  "drive_stmt_sequence_until_control ss i linear = Some (Exhausted linear') \<longleftrightarrow> (\<exists>pre. ss = map Linear pre \<and> linear' = linear @ pre)"
proof (induction ss arbitrary: i linear)
  case (Cons s ss)
  show ?case by (cases s) (auto simp: Cons.IH intro: exI [of _ "_ # _"])
qed auto

lemma drive_smaller:
  assumes "drive_stmt_sequence_until_control ss 0 [] = Some (Stopped linear i p)"
  shows "head_size p (drop (Suc i) ss) < size_list size ss"
proof -
  obtain pre rest where "ss = map Linear pre @ p # rest" "i = length pre" using drive_stops [OF assms] by auto
  then show ?thesis by (simp add: head_size_def size_list_append)
qed

function lower_stmt_sequence_with_state ::
  "('s, 'x, 'e) dialect \<Rightarrow> ('s, 'x) stmt list \<Rightarrow> region_targets \<Rightarrow> 'e seq_state \<Rightarrow> (block_label \<times> 'e seq_state) option" where
  "lower_stmt_sequence_with_state D ss t s =
     (if ss = [] then Some (normal_cont t, s)
      else
        (case drive_stmt_sequence_until_control ss 0 [] of
           None \<Rightarrow> None
         | Some (Exhausted linear) \<Rightarrow>
             do { (l, s1) \<leftarrow> seq_label s; emit_sequence_jump_block D l linear (normal_cont t) (active_exc t) s1 }
         | Some (Stopped linear i p) \<Rightarrow>
             lower_stmt_sequence_head D p (drop (Suc i) ss) t linear (\<lambda>ss' t' s'. lower_stmt_sequence_with_state D ss' t' s') s))"
  by pat_completeness auto

termination
  by (relation "measure (\<lambda>(D, ss, t, s). size_list size ss)") (use drive_smaller in \<open>fastforce\<close>)+

declare lower_stmt_sequence_with_state.simps [simp del]

text \<open>A whole function, before its blocks are simplified.\<close>

definition lower_function_body ::
  "('s, 'x, 'e) dialect \<Rightarrow> ('s, 'x) stmt list \<Rightarrow> block_label \<Rightarrow> function_name_gen \<Rightarrow>
     (block_label \<times> 'e lowered_block list \<times> function_name_gen) option" where
  "lower_function_body D ss end_l g =
     do { (entry, s) \<leftarrow> lower_stmt_sequence_with_state D ss (region_targets_new end_l None) \<lparr>seq_blocks = [], seq_gen = g\<rparr>;
          Some (entry, seq_blocks s, seq_gen s) }"

end
