(* ===== verification/Stmt_Meaning.thy ===== *)
theory Stmt_Meaning
  imports Stmt_Seq
begin

text \<open>
  What statements mean, without blocks: how a sequence of statements completes from a state. The meaning
  of simple statements, expressions, truth, raising and catching is a parameter, as it is for the blocks.
  The number bounds the iterations of loops; nothing else uses it up.
\<close>

section \<open>Completions\<close>

record ('s, 'x, 'st, 'v, 'y) meaning =
  do_stmt :: "'s \<Rightarrow> 'st \<Rightarrow> ('y + unit) \<times> 'st"
  do_expr :: "'x \<Rightarrow> 'st \<Rightarrow> ('y + 'v) \<times> 'st"
  do_truth :: "'v \<Rightarrow> 'st \<Rightarrow> ('y + bool) \<times> 'st"
  do_raise :: "'v \<Rightarrow> 'st \<Rightarrow> 'y \<times> 'st"
  do_reraise :: "'st \<Rightarrow> 'y \<times> 'st"
  do_catch :: "'y \<Rightarrow> 'st \<Rightarrow> 'st"
  none_result :: 'v

datatype ('st, 'v, 'y) completion =
  Normal 'st | Broke 'st | Continued 'st | Gave 'v 'st | Failed 'y 'st | Unhandled

definition then_result :: "('y + 'a) \<times> 'st \<Rightarrow> ('a \<Rightarrow> 'st \<Rightarrow> ('y + 'b) \<times> 'st) \<Rightarrow> ('y + 'b) \<times> 'st" where
  "then_result r f = (case r of (Inl x, s) \<Rightarrow> (Inl x, s) | (Inr a, s) \<Rightarrow> f a s)"

definition on_done ::
  "('y + 'a) \<times> 'st \<Rightarrow> ('a \<Rightarrow> 'st \<Rightarrow> ('st, 'v, 'y) completion option) \<Rightarrow> ('st, 'v, 'y) completion option" where
  "on_done r k = (case r of (Inl x, s) \<Rightarrow> Some (Failed x s) | (Inr a, s) \<Rightarrow> k a s)"

definition then_do ::
  "('st, 'v, 'y) completion option \<Rightarrow> ('st \<Rightarrow> ('st, 'v, 'y) completion option) \<Rightarrow> ('st, 'v, 'y) completion option" where
  "then_do r k = (case r of Some (Normal s) \<Rightarrow> k s | _ \<Rightarrow> r)"

lemma then_result_simps [simp]:
  "then_result (Inl x, s) f = (Inl x, s)" "then_result (Inr a, s) f = f a s"
  by (simp_all add: then_result_def)

lemma on_done_simps [simp]: "on_done (Inl x, s) k = Some (Failed x s)" "on_done (Inr a, s) k = k a s"
  by (simp_all add: on_done_def)

lemma then_do_simps [simp]:
  "then_do None k = None" "then_do (Some (Normal s)) k = k s" "then_do (Some (Broke s)) k = Some (Broke s)"
  "then_do (Some (Continued s)) k = Some (Continued s)" "then_do (Some (Gave v s)) k = Some (Gave v s)"
  "then_do (Some (Failed x s)) k = Some (Failed x s)" "then_do (Some Unhandled) k = Some Unhandled"
  by (simp_all add: then_do_def)

lemma on_done_cong [fundef_cong]:
  "r = r' \<Longrightarrow> (\<And>a s. r' = (Inr a, s) \<Longrightarrow> k a s = k' a s) \<Longrightarrow> on_done r k = on_done r' k'"
  by (auto simp: on_done_def split: prod.splits sum.splits)

lemma then_do_cong [fundef_cong]:
  "r = r' \<Longrightarrow> (\<And>s. r' = Some (Normal s) \<Longrightarrow> k s = k' s) \<Longrightarrow> then_do r k = then_do r' k'"
  by (auto simp: then_do_def split: option.splits completion.splits)

lemma on_done_then: "on_done (then_result r f) k = on_done r (\<lambda>a s. on_done (f a s) k)"
  by (auto simp: on_done_def then_result_def split: prod.splits sum.splits)

definition do_test :: "('s, 'x, 'st, 'v, 'y) meaning \<Rightarrow> 'x \<Rightarrow> 'st \<Rightarrow> ('y + bool) \<times> 'st" where
  "do_test M x st = then_result (do_expr M x st) (do_truth M)"

section \<open>Statements\<close>

text \<open>A \<open>for\<close> loop and a \<open>try\<close> with a finally body have no meaning here. \<open>do_catch\<close> makes an exception the
  current one when its handler is entered; which exception is current after the handler has ended is not
  specified beyond that, since nothing restores an outer one.\<close>

function perform ::
  "('s, 'x, 'st, 'v, 'y) meaning \<Rightarrow> nat \<Rightarrow> ('s, 'x) stmt list \<Rightarrow> 'st \<Rightarrow> ('st, 'v, 'y) completion option" where
  "perform M n [] st = Some (Normal st)"
| "perform M n (Linear a # ss) st = on_done (do_stmt M a st) (\<lambda>_ s. perform M n ss s)"
| "perform M n (Expanded es # ss) st = perform M n (es @ ss) st"
| "perform M n (StarTryStmt es # ss) st = perform M n (es @ ss) st"
| "perform M n (WithStmt es # ss) st = perform M n (es @ ss) st"
| "perform M n (FunctionDef f # ss) st = Some Unhandled"
| "perform M n (Unsupported # ss) st = Some Unhandled"
| "perform M n (ForStmt v it a b e # ss) st = Some Unhandled"
| "perform M n (RaiseStmt v c # ss) st =
     (case v of
        None \<Rightarrow> (let (y, s) = do_reraise M st in Some (Failed y s))
      | Some e \<Rightarrow> on_done (do_expr M e st) (\<lambda>v s. let (y, s') = do_raise M v s in Some (Failed y s')))"
| "perform M n (ReturnStmt v # ss) st =
     (case v of None \<Rightarrow> Some (Gave (none_result M) st) | Some e \<Rightarrow> on_done (do_expr M e st) (\<lambda>v s. Some (Gave v s)))"
| "perform M n (IfStmt x b cs # ss) st =
     on_done (do_test M x st) (\<lambda>c s.
       then_do (if c then perform M n b s else perform M n (extract_if_else_body cs) s) (\<lambda>s'. perform M n ss s'))"
| "perform M n (WhileStmt x b e # ss) st =
     (case n of
        0 \<Rightarrow> None
      | Suc m \<Rightarrow> on_done (do_test M x st) (\<lambda>c s.
          if c
          then (case perform M m b s of
                  None \<Rightarrow> None
                | Some (Normal s') \<Rightarrow> perform M m (WhileStmt x b e # ss) s'
                | Some (Continued s') \<Rightarrow> perform M m (WhileStmt x b e # ss) s'
                | Some (Broke s') \<Rightarrow> perform M n ss s'
                | Some r \<Rightarrow> Some r)
          else then_do (perform M n e s) (\<lambda>s'. perform M n ss s')))"
| "perform M n (TryStmt b hs e f # ss) st =
     (if f \<noteq> [] then Some Unhandled
      else (case perform M n b st of
              Some (Normal s) \<Rightarrow> then_do (perform M n e s) (\<lambda>s'. perform M n ss s')
            | Some (Failed y s) \<Rightarrow>
                (case hs of
                   [] \<Rightarrow> Some Unhandled
                 | h # _ \<Rightarrow> then_do (perform M n h (do_catch M y s)) (\<lambda>s'. perform M n ss s'))
            | r \<Rightarrow> r))"
| "perform M n (BreakStmt # ss) st = Some (Broke st)"
| "perform M n (ContinueStmt # ss) st = Some (Continued st)"
  by pat_completeness auto

termination
proof (relation "measures [\<lambda>(M, n, ss, st). n, \<lambda>(M, n, ss, st). size_list size ss]")
  show "((M, n, extract_if_else_body cs, s), (M, n, IfStmt x b cs # ss, st)) \<in>
      measures [\<lambda>(M, n, ss, st). n, \<lambda>(M, n, ss, st). size_list size ss]"
    for M :: "('s, 'x, 'st, 'v, 'y) meaning" and n and cs :: "('s, 'x) stmt list list" and x b ss and s st :: 'st
    using clause_size [of cs] by simp
qed (auto simp: size_list_append)

text \<open>The statements the theorem covers; loop exits stand in a loop.\<close>

fun covered :: "bool \<Rightarrow> ('s, 'x) stmt \<Rightarrow> bool" where
  "covered l (Linear a) \<longleftrightarrow> True"
| "covered l (Expanded ss) \<longleftrightarrow> list_all (covered l) ss"
| "covered l (FunctionDef n) \<longleftrightarrow> False"
| "covered l (RaiseStmt v has_cause) \<longleftrightarrow> \<not> has_cause"
| "covered l (ReturnStmt v) \<longleftrightarrow> True"
| "covered l (IfStmt x b cs) \<longleftrightarrow> list_all (covered l) b \<and> list_all (list_all (covered l)) cs"
| "covered l (WhileStmt x b e) \<longleftrightarrow> list_all (covered True) b \<and> list_all (covered l) e"
| "covered l (ForStmt x it a b e) \<longleftrightarrow> False"
| "covered l (TryStmt b hs e f) \<longleftrightarrow>
     list_all (covered l) b \<and> list_all (list_all (covered l)) hs \<and> list_all (covered l) e \<and> hs \<noteq> [] \<and> f = []"
| "covered l (StarTryStmt ss) \<longleftrightarrow> list_all (covered l) ss"
| "covered l (WithStmt ss) \<longleftrightarrow> list_all (covered l) ss"
| "covered l BreakStmt \<longleftrightarrow> l"
| "covered l ContinueStmt \<longleftrightarrow> l"
| "covered l Unsupported \<longleftrightarrow> False"

section \<open>Simple statements in a row\<close>

fun do_all :: "('s, 'x, 'st, 'v, 'y) meaning \<Rightarrow> 's list \<Rightarrow> 'st \<Rightarrow> ('y + unit) \<times> 'st" where
  "do_all M [] st = (Inr (), st)"
| "do_all M (a # as) st = then_result (do_stmt M a st) (\<lambda>_ s. do_all M as s)"

lemma perform_prefix: "perform M n (map Linear as @ ss) st = on_done (do_all M as st) (\<lambda>_ s. perform M n ss s)"
  by (induction as arbitrary: st) (auto simp: on_done_then intro!: on_done_cong)

section \<open>What the dialect makes of it\<close>

text \<open>The lowered form of a statement or expression does what the statement or expression does, in a
  machine where entering a handler makes the exception the current one.\<close>

definition stmts_meant ::
  "('e, 'st, 'v, 'y) sem \<Rightarrow> ('s \<Rightarrow> 'st \<Rightarrow> ('y + unit) \<times> 'st) \<Rightarrow>
     ('s \<Rightarrow> 'e stmt_builder \<Rightarrow> nat \<Rightarrow> ('e stmt_builder \<times> nat) option) \<Rightarrow> bool" where
  "stmts_meant S d f \<longleftrightarrow>
     (\<forall>a b k b' k'. f a b k = Some (b', k') \<longrightarrow>
        (\<exists>ss. bb_body b' = bb_body b @ ss \<and>
           (\<forall>rest t st. exec_stmts S (ss @ rest) t st = on_value (d a st) (\<lambda>_ s. exec_stmts S rest t s))))"

definition means :: "('e, 'st, 'v, 'y) sem \<Rightarrow> ('s, 'x, 'st, 'v, 'y) meaning \<Rightarrow> ('s, 'x, 'e) dialect \<Rightarrow> bool" where
  "means S M D \<longleftrightarrow>
     stmts_meant S (do_stmt M) (lower_stmt_into D) \<and> stmts_meant S (do_stmt M) (lower_nested_stmt_into D) \<and>
     (\<forall>x b k e b' k'. lower_expr_into D x b k = Some (e, b', k') \<longrightarrow>
        (\<exists>ss. bb_body b' = bb_body b @ ss \<and>
           (\<forall>t g st. (\<forall>s. exec_term S t s = on_value (sem_eval S e s) g) \<longrightarrow>
              exec_stmts S ss t st = on_value (do_expr M x st) g))) \<and>
     sem_truth S = do_truth M \<and> sem_raise S = do_raise M \<and> sem_reraise S = do_reraise M \<and>
     (\<forall>ps as y st. sem_bind S ps as (Some y) st = do_catch M y st) \<and>
     (\<forall>st. sem_eval S (none_value D) st = (Inr (none_result M), st))"

end
