(* ===== verification/Stmt_Runs.thy ===== *)
theory Stmt_Runs
  imports Stmt_Meaning
begin

text \<open>
  The blocks of a statement sequence do what the statements do. \<open>leads\<close> relates a label to a way of
  completing: with the same bound the blocks from the label are still running where the statements are,
  and where the statements complete the blocks arrive at the target for that completion.
\<close>

section \<open>Arriving\<close>

definition throw_to ::
  "('e, 'st, 'v, 'y) sem \<Rightarrow> ('s, 'x, 'st, 'v, 'y) meaning \<Rightarrow> 'e lowered_block list \<Rightarrow> block_label option \<Rightarrow> 'y \<Rightarrow> 'st \<Rightarrow> nat \<Rightarrow>
     ('st, 'v, 'y) outcome option" where
  "throw_to S M F x y s m =
     (case x of None \<Rightarrow> Some (Raised y s) | Some h \<Rightarrow> run_structured S F m (edge_new h) None (do_catch M y s))"

fun arrive ::
  "('e, 'st, 'v, 'y) sem \<Rightarrow> ('s, 'x, 'st, 'v, 'y) meaning \<Rightarrow> 'e lowered_block list \<Rightarrow> region_targets \<Rightarrow> ('st, 'v, 'y) completion \<Rightarrow> nat \<Rightarrow>
     ('st, 'v, 'y) outcome option" where
  "arrive S M F t (Normal s) m = run_structured S F m (edge_new (normal_cont t)) None s"
| "arrive S M F t (Broke s) m =
     (case loop_targets t of None \<Rightarrow> None | Some l \<Rightarrow> run_structured S F m (edge_new (break_label l)) None s)"
| "arrive S M F t (Continued s) m =
     (case loop_targets t of None \<Rightarrow> None | Some l \<Rightarrow> run_structured S F m (edge_new (continue_label l)) None s)"
| "arrive S M F t (Gave v s) m = Some (Returned v s)"
| "arrive S M F t (Failed y s) m = throw_to S M F (active_exc t) y s m"
| "arrive S M F t Unhandled m = None"

definition leads ::
  "('e, 'st, 'v, 'y) sem \<Rightarrow> ('s, 'x, 'st, 'v, 'y) meaning \<Rightarrow> 'e lowered_block list \<Rightarrow> region_targets \<Rightarrow> block_label \<Rightarrow> nat \<Rightarrow> 'st \<Rightarrow>
     ('st, 'v, 'y) completion option \<Rightarrow> bool" where
  "leads S M F t l n st r \<longleftrightarrow>
     (case r of
        None \<Rightarrow> run_structured S F n (edge_new l) None st = None
      | Some c \<Rightarrow> \<exists>k. \<forall>m. run_structured S F (k + m) (edge_new l) None st = arrive S M F t c m)"

lemma run_None_mono: "run S X F m e x st = None \<Longrightarrow> n \<le> m \<Longrightarrow> run S X F n e x st = None"
  using run_mono_le [of S X F n e x st _ m] by (cases "run S X F n e x st") auto

lemma leads_zero: "leads S M F t l 0 st None"
  by (simp add: leads_def)

lemma leads_here: "leads S M F t (normal_cont t) n st (Some (Normal st))"
  unfolding leads_def by (auto intro: exI [of _ 0])

lemma leads_via:
  assumes "\<And>m. run_structured S F (k + m) (edge_new l) None st = run_structured S F m (edge_new l') None s" "leads S M F t l' n s r"
  shows "leads S M F t l n st r"
proof (cases r)
  case None
  then have "run_structured S F (k + n) (edge_new l) None st = None" using assms by (simp add: leads_def)
  then show ?thesis using None by (auto simp: leads_def elim: run_None_mono)
next
  case (Some c)
  then obtain k' where "\<And>m. run_structured S F (k' + m) (edge_new l') None s = arrive S M F t c m" using assms(2) by (auto simp: leads_def)
  then have "run_structured S F (k + k' + m) (edge_new l) None st = arrive S M F t c m" for m
    using assms(1) [of "k' + m"] by (simp add: add.assoc)
  then show ?thesis using Some by (auto simp: leads_def)
qed

text \<open>A loop uses up one of the bound and at least one block.\<close>

lemma leads_tick:
  assumes "\<And>m. run_structured S F (Suc m) (edge_new l) None st = run_structured S F m (edge_new l') None s" "leads S M F t l' n s r"
  shows "leads S M F t l (Suc n) st r"
proof (cases r)
  case (Some c)
  have "leads S M F t l n st r" by (rule leads_via [of S F 1, OF _ assms(2)]) (simp add: assms(1) del: run.simps)
  then show ?thesis using Some by (simp add: leads_def)
qed (use assms in \<open>simp add: leads_def del: run.simps\<close>)

lemma leads_more: "leads S M F t l n st r \<Longrightarrow> r \<noteq> None \<Longrightarrow> leads S M F t l n' st r"
  by (auto simp: leads_def)

lemma arrive_other_cont:
  assumes "loop_targets t' = loop_targets t" "active_exc t' = active_exc t" "\<nexists>s. c = Normal s"
  shows "arrive S M F t' c m = arrive S M F t c m"
  using assms by (cases c) auto

lemma nested_sel [simp]:
  "normal_cont (nested t l) = l" "loop_targets (nested t l) = loop_targets t" "active_exc (nested t l) = active_exc t"
  by (simp_all add: nested_def)

lemma nested_with_loop_sel [simp]:
  "normal_cont (nested_with_loop t l loop) = l" "loop_targets (nested_with_loop t l loop) = loop"
  "active_exc (nested_with_loop t l loop) = active_exc t"
  by (simp_all add: nested_with_loop_def)

lemma leads_then:
  assumes "leads S M F (nested t l2) l n st r" "\<And>s. leads S M F t l2 n s (g s)"
  shows "leads S M F t l n st (then_do r g)"
proof (cases "\<exists>s. r = Some (Normal s)")
  case True
  then obtain s where r: "r = Some (Normal s)" by blast
  with assms(1) obtain k where "\<And>m. run_structured S F (k + m) (edge_new l) None st = run_structured S F m (edge_new l2) None s"
    by (auto simp: leads_def)
  from leads_via [OF this assms(2)] show ?thesis by (simp add: r)
next
  case False
  then have "then_do r g = r" by (auto simp: then_do_def split: option.split completion.split)
  moreover have "arrive S M F (nested t l2) c m = arrive S M F t c m" if "r = Some c" for c m
    by (rule arrive_other_cont) (use False that in auto)
  ultimately show ?thesis using assms(1) by (auto simp: leads_def split: option.splits)
qed

text \<open>One block, then a choice of labels.\<close>

definition on_throw ::
  "('e, 'st, 'v, 'y) sem \<Rightarrow> ('s, 'x, 'st, 'v, 'y) meaning \<Rightarrow> 'e lowered_block list \<Rightarrow> block_label option \<Rightarrow> nat \<Rightarrow> ('y + 'a) \<times> 'st \<Rightarrow>
     ('a \<Rightarrow> 'st \<Rightarrow> ('st, 'v, 'y) outcome option) \<Rightarrow> ('st, 'v, 'y) outcome option" where
  "on_throw S M F x m r g = (case r of (Inl y, s) \<Rightarrow> throw_to S M F x y s m | (Inr a, s) \<Rightarrow> g a s)"

lemma on_throw_simps [simp]:
  "on_throw S M F x m (Inl y, s) g = throw_to S M F x y s m" "on_throw S M F x m (Inr a, s) g = g a s"
  by (simp_all add: on_throw_def)

lemma leads_arrive:
  assumes "\<And>m. run_structured S F (Suc m) (edge_new l) None st = arrive S M F t c m"
  shows "leads S M F t l n st (Some c)"
  unfolding leads_def option.case
proof (intro exI allI)
  show "run_structured S F (1 + m) (edge_new l) None st = arrive S M F t c m" for m
    using assms [of m] by (simp del: run.simps)
qed

lemma leads_done:
  assumes "\<And>m. run_structured S F (Suc m) (edge_new l) None st =
      on_throw S M F (active_exc t) m r (\<lambda>a s. run_structured S F m (edge_new (to a)) None s)"
    and "\<And>a s. r = (Inr a, s) \<Longrightarrow> leads S M F t (to a) n s (g a s)"
  shows "leads S M F t l n st (on_done r g)"
proof (cases r)
  case (Pair q s)
  show ?thesis
  proof (cases q)
    case (Inl y)
    have "leads S M F t l n st (Some (Failed y s))"
      by (rule leads_arrive) (simp add: assms(1) Pair Inl del: run.simps)
    then show ?thesis by (simp add: Pair Inl)
  next
    case (Inr a)
    show ?thesis
      by (rule leads_via [of S F 1 _ _ "to a" s]) (use assms in \<open>simp_all add: Pair Inr del: run.simps\<close>)
  qed
qed

lemma leads_gave:
  assumes "\<And>m. run_structured S F (Suc m) (edge_new l) None st = on_throw S M F (active_exc t) m r (\<lambda>v s. Some (Returned v s))"
  shows "leads S M F t l n st (on_done r (\<lambda>v s. Some (Gave v s)))"
  using assms by (cases r; cases "fst r") (auto intro!: leads_arrive simp del: run.simps)

lemma leads_failed:
  assumes "\<And>m. run_structured S F (Suc m) (edge_new l) None st = throw_to S M F (active_exc t) y s m"
  shows "leads S M F t l n st (Some (Failed y s))"
  by (rule leads_arrive) (simp add: assms del: run.simps)

section \<open>Code of a block\<close>

text \<open>The code at a label: its statements, terminator and handler. Parameters do not count.\<close>

definition has_code :: "'e lowered_block list \<Rightarrow> block_label \<Rightarrow> 'e structured list \<Rightarrow> 'e block_term \<Rightarrow> block_label option \<Rightarrow> bool" where
  "has_code bs l ss t x \<longleftrightarrow>
     (\<exists>b\<in>set bs. label b = l \<and> body b = ss \<and> bterm b = t \<and> exc_edge b = map_option edge_new x)"

definition plain_term :: "'e block_term \<Rightarrow> bool" where
  "plain_term t \<longleftrightarrow> (\<forall>e. t = Jump e \<longrightarrow> edge_args e = [])"

definition keeps_code :: "'e lowered_block list \<Rightarrow> 'e lowered_block list \<Rightarrow> bool" where
  "keeps_code bs bs' \<longleftrightarrow> (\<forall>l ss t x. plain_term t \<longrightarrow> has_code bs l ss t x \<longrightarrow> has_code bs' l ss t x)"

lemma keeps_refl [simp]: "keeps_code bs bs"
  by (simp add: keeps_code_def)

lemma keeps_trans: "keeps_code a b \<Longrightarrow> keeps_code b c \<Longrightarrow> keeps_code a c"
  by (simp add: keeps_code_def)

lemma keeps_more: "set bs \<subseteq> set bs' \<Longrightarrow> keeps_code bs bs'"
  unfolding keeps_code_def has_code_def by blast

lemma entered_with:
  assumes "means S M D"
  shows "run S X F m e (Some y) st = run S X F m (edge_new (target e)) None (do_catch M y st)"
proof (cases m)
  case (Suc k)
  have "enter_block S ps as (Some y) st = enter_block S ps [] None (do_catch M y st)" for ps as
    using assms by (simp add: enter_block_def means_def)
  then show ?thesis by (simp add: Suc split: option.split)
qed simp

lemma run_code:
  assumes "means S M D" "distinct (map label F)" "has_code F l ss t x"
  shows "run_structured S F (Suc m) (edge_new l) None st =
    (case exec_stmts S ss t st of
       Goto e s \<Rightarrow> run_structured S F m e None s | Finish v s \<Rightarrow> Some (Returned v s) | Throw y s \<Rightarrow> throw_to S M F x y s m)"
proof -
  obtain b where b: "b \<in> set F" "label b = l" "body b = ss" "bterm b = t" "exc_edge b = map_option edge_new x"
    using assms(3) by (auto simp: has_code_def)
  then have "find_block F l = Some b" using find_block_distinct [OF assms(2) b(1)] by simp
  then show ?thesis
    using b(3-5) entered_with [OF assms(1), of "exec_structured S" F m "edge_new h" for h]
    by (auto simp: exec_structured_def dispatch_def throw_to_def split: control.split option.split)
qed

section \<open>Blocks of the dialect\<close>

lemma on_value_then: "on_value (then_result r g) h = on_value r (\<lambda>a s. on_value (g a s) h)"
  by (auto simp: on_value_def then_result_def split: prod.splits sum.splits)

lemma lower_each_meant:
  "stmts_meant S (do_stmt M) f \<Longrightarrow> lower_each f as b k = Some (b', k') \<Longrightarrow>
     \<exists>ss. bb_body b' = bb_body b @ ss \<and> (\<forall>rest t st. exec_stmts S (ss @ rest) t st = on_value (do_all M as st) (\<lambda>_ s. exec_stmts S rest t s))"
proof (induction as arbitrary: b k)
  case Nil
  then show ?case by (intro exI [of _ "[]"]) simp
next
  case (Cons a as)
  obtain b1 k1 where 1: "f a b k = Some (b1, k1)" "lower_each f as b1 k1 = Some (b', k')" using Cons.prems(2) by (auto simp: bind_eq_Some_conv)
  obtain ss1 where ss1: "bb_body b1 = bb_body b @ ss1"
      "\<And>rest t st. exec_stmts S (ss1 @ rest) t st = on_value (do_stmt M a st) (\<lambda>_ s. exec_stmts S rest t s)"
    using Cons.prems(1) 1(1) unfolding stmts_meant_def by metis
  obtain ss2 where ss2: "bb_body b' = bb_body b1 @ ss2"
      "\<And>rest t st. exec_stmts S (ss2 @ rest) t st = on_value (do_all M as st) (\<lambda>_ s. exec_stmts S rest t s)"
    using Cons.IH [OF Cons.prems(1) 1(2)] by blast
  show ?case using ss1 ss2 by (intro exI [of _ "ss1 @ ss2"]) (simp add: on_value_then)
qed


text \<open>What an emitted block adds: its code under its label, and nothing else.\<close>

definition emits ::
  "'e seq_state \<Rightarrow> 'e seq_state \<Rightarrow> block_label \<Rightarrow> 'e structured list \<Rightarrow> 'e block_term \<Rightarrow> block_label option \<Rightarrow> bool" where
  "emits s s' l ss t x \<longleftrightarrow>
     (\<exists>b. seq_blocks s' = seq_blocks s @ [b] \<and> label b = l \<and> body b = ss \<and> bterm b = t \<and> exc_edge b = map_option edge_new x \<and> params b = [])"

lemma finished_emits:
  "emit (finished_block D l b t x) l0 s = Some (l', s') \<Longrightarrow> l' = l0 \<and> emits s s' l (bb_body b) t x"
  by (auto simp: emit_def finished_block_def bind_eq_Some_conv emits_def with_exc_meta_def from_builder_def with_term_def push_lowered_def
      split: if_splits)

lemma compat_emits:
  assumes "means S M D" "emit (compat_block_from_blockpy D l as t x) l s = Some (l', s')"
  obtains ss where "l' = l" "emits s s' l ss t x" "\<And>st. exec_stmts S ss t st = on_value (do_all M as st) (\<lambda>_ s. exec_term S t s)"
proof -
  obtain b k where b: "lower_each (lower_stmt_into D) as builder_new 0 = Some (b, k)" "emit (finished_block D l b t x) l s = Some (l', s')"
    using assms(2) by (auto simp: emit_def compat_block_from_blockpy_def lower_stmts_to_blockpy_stmts_def bind_eq_Some_conv)
  have "stmts_meant S (do_stmt M) (lower_stmt_into D)" using assms(1) by (simp add: means_def)
  from lower_each_meant [OF this b(1)] obtain ss where ss: "bb_body b = ss"
      "\<And>rest t st. exec_stmts S (ss @ rest) t st = on_value (do_all M as st) (\<lambda>_ s. exec_stmts S rest t s)"
    by (auto simp: builder_new_def)
  show thesis using that [of ss] finished_emits [OF b(2)] ss(2) [of "[]"] ss(1) by simp
qed

lemma setup_meant:
  assumes "means S M D" "compat_block_builder_with_expr_setup D as = Some b"
  shows "exec_stmts S (bb_body b @ rest) t st = on_value (do_all M as st) (\<lambda>_ s. exec_stmts S rest t s)"
proof -
  obtain k where k: "lower_each (lower_nested_stmt_into D) as builder_new 0 = Some (b, k)"
    using assms(2) by (auto simp: compat_block_builder_with_expr_setup_def)
  have "stmts_meant S (do_stmt M) (lower_nested_stmt_into D)" using assms(1) by (simp add: means_def)
  from lower_each_meant [OF this k] show ?thesis by (auto simp: builder_new_def)
qed

lemma without_expr_emits:
  assumes "means S M D" "emit (block_without_expr D l as t x) l s = Some (l', s')"
  obtains ss where "l' = l" "emits s s' l ss t x" "\<And>st. exec_stmts S ss t st = on_value (do_all M as st) (\<lambda>_ s. exec_term S t s)"
proof -
  obtain b where b: "compat_block_builder_with_expr_setup D as = Some b" "emit (finished_block D l b t x) l s = Some (l', s')"
    using assms(2) by (auto simp: emit_def block_without_expr_def bind_eq_Some_conv)
  show thesis
    using that [of "bb_body b"] finished_emits [OF b(2)] setup_meant [OF assms(1) b(1), of "[]"] by simp
qed

lemma with_expr_emits:
  assumes "means S M D" "emit (block_with_expr D l as v t x) l s = Some (l', s')"
    and "\<And>e s. exec_term S (t e) s = on_value (sem_eval S e s) g"
  obtains ss e where "l' = l" "emits s s' l ss (t e) x"
    "\<And>st. exec_stmts S ss (t e) st = on_value (do_all M as st) (\<lambda>_ s. on_value (do_expr M v s) g)"
proof -
  obtain b e b' k where b: "compat_block_builder_with_expr_setup D as = Some b" "lower_expr_into D v b 0 = Some (e, b', k)"
      "emit (finished_block D l b' (t e) x) l s = Some (l', s')"
    using assms(2) by (auto simp: emit_def block_with_expr_def bind_eq_Some_conv)
  obtain ss where ss: "bb_body b' = bb_body b @ ss"
      "\<And>t g st. (\<And>s. exec_term S t s = on_value (sem_eval S e s) g) \<Longrightarrow> exec_stmts S ss t st = on_value (do_expr M v st) g"
    using assms(1) b(2) unfolding means_def by metis
  show thesis
    using that [of "bb_body b'" e] finished_emits [OF b(3)] setup_meant [OF assms(1) b(1), of ss] ss(2) [OF assms(3)] ss(1) by simp
qed


section \<open>Running the emitted blocks\<close>

definition exc_params :: "'e seq_state \<Rightarrow> bool" where
  "exc_params s \<longleftrightarrow> (\<forall>b\<in>set (seq_blocks s). \<forall>p\<in>set (params b). role p = RoleException)"

lemma emits_keeps:
  assumes "emits s s' l ss t x"
  shows "keeps_code (seq_blocks s) (seq_blocks s')" "has_code (seq_blocks s') l ss t x" "exc_params s \<Longrightarrow> exc_params s'"
  using assms by (auto simp: emits_def has_code_def exc_params_def intro: keeps_more)

lemma emits_run:
  assumes "means S M D" "emits s s' l ss t x" "plain_term t" "keeps_code (seq_blocks s') F" "distinct (map label F)"
  shows "run_structured S F (Suc m) (edge_new l) None st =
    (case exec_stmts S ss t st of
       Goto e s \<Rightarrow> run_structured S F m e None s | Finish v s \<Rightarrow> Some (Returned v s) | Throw y s \<Rightarrow> throw_to S M F x y s m)"
proof (rule run_code [OF assms(1,5)])
  show "has_code F l ss t x" using assms(3,4) emits_keeps(2) [OF assms(2)] unfolding keeps_code_def by blast
qed

lemma on_value_control:
  "(case on_value r g of Goto e s \<Rightarrow> A e s | Finish v s \<Rightarrow> B v s | Throw y s \<Rightarrow> throw_to S M F x y s m)
     = on_throw S M F x m r (\<lambda>a s. case g a s of Goto e s \<Rightarrow> A e s | Finish v s \<Rightarrow> B v s | Throw y s \<Rightarrow> throw_to S M F x y s m)"
  by (auto simp: on_value_def on_throw_def split: prod.split sum.split)

lemma on_throw_then:
  "on_throw S M F x m (then_result r f) g = on_throw S M F x m r (\<lambda>a s. on_throw S M F x m (f a s) g)"
  by (auto simp: on_throw_def then_result_def split: prod.split sum.split)

lemma jump_runs:
  assumes "means S M D" "emit (compat_block_from_blockpy D l0 as (Jump (edge_new l2)) x) l0 s = Some (l, s')"
  shows "l = l0" "keeps_code (seq_blocks s) (seq_blocks s')" "exc_params s \<Longrightarrow> exc_params s'"
    "keeps_code (seq_blocks s') F \<Longrightarrow> distinct (map label F) \<Longrightarrow>
       run_structured S F (Suc m) (edge_new l) None st =
         on_throw S M F x m (do_all M as st) (\<lambda>_ s. run_structured S F m (edge_new l2) None s)"
proof -
  obtain ss where ss: "l = l0" "emits s s' l0 ss (Jump (edge_new l2)) x"
      "\<And>st. exec_stmts S ss (Jump (edge_new l2)) st = on_value (do_all M as st) (\<lambda>_ s. exec_term S (Jump (edge_new l2)) s)"
    using compat_emits [OF assms] by blast
  then show "l = l0" "keeps_code (seq_blocks s) (seq_blocks s')" "exc_params s \<Longrightarrow> exc_params s'"
    using emits_keeps [OF ss(2)] by blast+
  assume "keeps_code (seq_blocks s') F" "distinct (map label F)"
  moreover have "plain_term (Jump (edge_new l2))" by (simp add: plain_term_def)
  ultimately show "run_structured S F (Suc m) (edge_new l) None st =
         on_throw S M F x m (do_all M as st) (\<lambda>_ s. run_structured S F m (edge_new l2) None s)"
    using emits_run [OF assms(1) ss(2)] ss(1) by (simp add: ss(3) on_value_control del: run.simps)
qed

lemma test_runs:
  assumes "means S M D" "emit (compat_if_jump_block D l0 as v a b x) l0 s = Some (l, s')"
  shows "l = l0" "keeps_code (seq_blocks s) (seq_blocks s')" "exc_params s \<Longrightarrow> exc_params s'"
    "keeps_code (seq_blocks s') F \<Longrightarrow> distinct (map label F) \<Longrightarrow>
       run_structured S F (Suc m) (edge_new l) None st =
         on_throw S M F x m (then_result (do_all M as st) (\<lambda>_ s. do_test M v s))
           (\<lambda>c s. run_structured S F m (edge_new (if c then a else b)) None s)"
proof -
  have truth: "sem_truth S = do_truth M" using assms(1) by (simp add: means_def)
  have "exec_term S (IfTerm e a b) s = on_value (sem_eval S e s) (\<lambda>v s. on_value (do_truth M v s) (\<lambda>c s. Goto (edge_new (if c then a else b)) s))" for e s
    by (simp add: truth)
  from with_expr_emits [OF assms(1) assms(2) [unfolded compat_if_jump_block_def] this] obtain ss e where
    ss: "l = l0" "emits s s' l0 ss (IfTerm e a b) x"
      "\<And>st. exec_stmts S ss (IfTerm e a b) st = on_value (do_all M as st) (\<lambda>_ s. on_value (do_expr M v s)
          (\<lambda>v s. on_value (do_truth M v s) (\<lambda>c s. Goto (edge_new (if c then a else b)) s)))"
    by blast
  then show "l = l0" "keeps_code (seq_blocks s) (seq_blocks s')" "exc_params s \<Longrightarrow> exc_params s'"
    using emits_keeps [OF ss(2)] by blast+
  assume "keeps_code (seq_blocks s') F" "distinct (map label F)"
  moreover have "plain_term (IfTerm e a b)" by (simp add: plain_term_def)
  ultimately show "run_structured S F (Suc m) (edge_new l) None st =
         on_throw S M F x m (then_result (do_all M as st) (\<lambda>_ s. do_test M v s))
           (\<lambda>c s. run_structured S F m (edge_new (if c then a else b)) None s)"
    using emits_run [OF assms(1) ss(2)] ss(1) by (simp add: ss(3) on_value_control on_throw_then do_test_def del: run.simps)
qed

lemma return_runs:
  assumes "means S M D" "emit_sequence_return_block D l0 as v x s = Some (l, s')"
  shows "keeps_code (seq_blocks s) (seq_blocks s')" "exc_params s \<Longrightarrow> exc_params s'"
    "keeps_code (seq_blocks s') F \<Longrightarrow> distinct (map label F) \<Longrightarrow>
       run_structured S F (Suc m) (edge_new l) None st =
         on_throw S M F x m (then_result (do_all M as st)
             (\<lambda>_ s. case v of None \<Rightarrow> (Inr (none_result M), s) | Some e \<Rightarrow> do_expr M e s)) (\<lambda>v s. Some (Returned v s))"
proof -
  have "\<exists>ss e. l = l0 \<and> emits s s' l0 ss (Return e) x \<and> (\<forall>st. exec_stmts S ss (Return e) st =
      on_value (then_result (do_all M as st) (\<lambda>_ s. case v of None \<Rightarrow> (Inr (none_result M), s) | Some e \<Rightarrow> do_expr M e s)) Finish)"
  proof (cases v)
    case None
    have none: "sem_eval S (none_value D) st = (Inr (none_result M), st)" for st using assms(1) by (simp add: means_def)
    have "emit (block_without_expr D l0 as (Return (none_value D)) x) l0 s = Some (l, s')"
      using assms(2) by (simp add: emit_sequence_return_block_def None)
    from without_expr_emits [OF assms(1) this] obtain ss where "l = l0" "emits s s' l0 ss (Return (none_value D)) x"
      "\<And>st. exec_stmts S ss (Return (none_value D)) st = on_value (do_all M as st) (\<lambda>_ s. exec_term S (Return (none_value D)) s)" by blast
    then show ?thesis by (intro exI [of _ ss] exI [of _ "none_value D"]) (simp add: None none on_value_then)
  next
    case (Some w)
    have emit: "emit (block_with_expr D l0 as w Return x) l0 s = Some (l, s')"
      using assms(2) by (simp add: emit_sequence_return_block_def Some)
    have "exec_term S (Return e) s = on_value (sem_eval S e s) Finish" for e s by simp
    from with_expr_emits [OF assms(1) emit this] obtain ss e where "l = l0" "emits s s' l0 ss (Return e) x"
      "\<And>st. exec_stmts S ss (Return e) st = on_value (do_all M as st) (\<lambda>_ s. on_value (do_expr M w s) Finish)" by blast
    then show ?thesis by (intro exI [of _ ss] exI [of _ e]) (simp add: Some on_value_then)
  qed
  then obtain ss e where ss: "l = l0" "emits s s' l0 ss (Return e) x" "\<And>st. exec_stmts S ss (Return e) st =
      on_value (then_result (do_all M as st) (\<lambda>_ s. case v of None \<Rightarrow> (Inr (none_result M), s) | Some e \<Rightarrow> do_expr M e s)) Finish" by blast
  then show "keeps_code (seq_blocks s) (seq_blocks s')" "exc_params s \<Longrightarrow> exc_params s'" using emits_keeps [OF ss(2)] by blast+
  assume "keeps_code (seq_blocks s') F" "distinct (map label F)"
  moreover have "plain_term (Return e)" by (simp add: plain_term_def)
  ultimately show "run_structured S F (Suc m) (edge_new l) None st =
         on_throw S M F x m (then_result (do_all M as st)
             (\<lambda>_ s. case v of None \<Rightarrow> (Inr (none_result M), s) | Some e \<Rightarrow> do_expr M e s)) (\<lambda>v s. Some (Returned v s))"
    using emits_run [OF assms(1) ss(2)] ss(1) by (simp add: ss(3) on_value_control del: run.simps)
qed


text \<open>Raising never goes on.\<close>

definition raised :: "'y \<times> 'st \<Rightarrow> ('y + unit) \<times> 'st" where
  "raised r = (Inl (fst r), snd r)"

definition do_fail :: "('s, 'x, 'st, 'v, 'y) meaning \<Rightarrow> 'x option \<Rightarrow> 'st \<Rightarrow> ('y + unit) \<times> 'st" where
  "do_fail M v st =
     (case v of None \<Rightarrow> raised (do_reraise M st) | Some e \<Rightarrow> then_result (do_expr M e st) (\<lambda>v s. raised (do_raise M v s)))"

lemma do_fail_Inl: "\<exists>y s. do_fail M v st = (Inl y, s)"
  by (cases v) (auto simp: do_fail_def raised_def then_result_def split: prod.split sum.split)

lemma perform_fail: "perform M n (RaiseStmt v c # ss) st = on_done (do_fail M v st) g"
proof -
  have "(let (y, s) = r in Some (Failed y s)) = on_done (raised r) g" for r
    by (simp add: raised_def split: prod.split)
  then show ?thesis by (simp add: do_fail_def on_done_then split: option.split)
qed

lemma raise_runs:
  assumes "means S M D" "emit_sequence_raise_block D l0 as v x s = Some (l, s')"
  shows "keeps_code (seq_blocks s) (seq_blocks s')" "exc_params s \<Longrightarrow> exc_params s'"
    "keeps_code (seq_blocks s') F \<Longrightarrow> distinct (map label F) \<Longrightarrow>
       run_structured S F (Suc m) (edge_new l) None st =
         on_throw S M F x m (then_result (do_all M as st) (\<lambda>_ s. do_fail M v s)) (\<lambda>_ s. None)"
proof -
  let ?g = "\<lambda>(_ :: unit) s. Goto (edge_new l0) s"
  have "\<exists>ss e. l = l0 \<and> emits s s' l0 ss (Raise e) x \<and> (\<forall>st. exec_stmts S ss (Raise e) st =
      on_value (then_result (do_all M as st) (\<lambda>_ s. do_fail M v s)) ?g)"
  proof (cases v)
    case None
    have reraise: "sem_reraise S = do_reraise M" using assms(1) by (simp add: means_def)
    have "emit (block_without_expr D l0 as (Raise None) x) l0 s = Some (l, s')"
      using assms(2) by (simp add: emit_sequence_raise_block_def None)
    from without_expr_emits [OF assms(1) this] obtain ss where "l = l0" "emits s s' l0 ss (Raise None) x"
      "\<And>st. exec_stmts S ss (Raise None) st = on_value (do_all M as st) (\<lambda>_ s. exec_term S (Raise None) s)" by blast
    then show ?thesis
      by (intro exI [of _ ss] exI [of _ "None"])
        (simp add: None on_value_then do_fail_def raised_def reraise split_def Let_def)
  next
    case (Some w)
    have emit: "emit (block_with_expr D l0 as w (\<lambda>e. Raise (Some e)) x) l0 s = Some (l, s')"
      using assms(2) by (simp add: emit_sequence_raise_block_def Some)
    have "sem_raise S = do_raise M" using assms(1) by (simp add: means_def)
    then have "exec_term S (Raise (Some e)) s = on_value (sem_eval S e s) (\<lambda>v s. on_value (raised (do_raise M v s)) ?g)" for e s
      by (simp add: raised_def split_def Let_def)
    from with_expr_emits [OF assms(1) emit this] obtain ss e where "l = l0" "emits s s' l0 ss (Raise (Some e)) x"
      "\<And>st. exec_stmts S ss (Raise (Some e)) st =
         on_value (do_all M as st) (\<lambda>_ s. on_value (do_expr M w s) (\<lambda>v s. on_value (raised (do_raise M v s)) ?g))" by blast
    then show ?thesis by (intro exI [of _ ss] exI [of _ "Some e"]) (simp add: Some on_value_then do_fail_def)
  qed
  then obtain ss e where ss: "l = l0" "emits s s' l0 ss (Raise e) x" "\<And>st. exec_stmts S ss (Raise e) st =
      on_value (then_result (do_all M as st) (\<lambda>_ s. do_fail M v s)) ?g" by blast
  then show "keeps_code (seq_blocks s) (seq_blocks s')" "exc_params s \<Longrightarrow> exc_params s'" using emits_keeps [OF ss(2)] by blast+
  assume F: "keeps_code (seq_blocks s') F" "distinct (map label F)"
  have "on_throw S M F x m (then_result r (\<lambda>_ s. do_fail M v s)) g = on_throw S M F x m (then_result r (\<lambda>_ s. do_fail M v s)) h"
    for r :: "('d + unit) \<times> 'b" and g h
    using do_fail_Inl [of M v "snd r"] by (cases r; cases "fst r") auto
  moreover have "plain_term (Raise e)" by (simp add: plain_term_def)
  ultimately show "run_structured S F (Suc m) (edge_new l) None st =
         on_throw S M F x m (then_result (do_all M as st) (\<lambda>_ s. do_fail M v s)) (\<lambda>_ s. None)"
    using emits_run [OF assms(1) ss(2) _ F] ss(1) by (simp add: ss(3) on_value_control del: run.simps)
qed

end
