(* ===== verification/Stmt_Closed.thy ===== *)
theory Stmt_Closed
  imports Stmt_Seq
begin

text \<open>
  The blocks of a statement sequence form a closed graph: every label is handed out once, every jump,
  branch and exception edge leads to a block of the sequence or to one of the targets it was given, and
  the lowering panics only when the label space is used up.
\<close>

section \<open>What is asked of statements and of the dialect\<close>

text \<open>Appending to an open builder leaves it open, and no arm of an appended \<open>if\<close> ends in a jump.\<close>

definition appends_plain :: "'e stmt_builder \<Rightarrow> 'e stmt_builder \<Rightarrow> bool" where
  "appends_plain b b' \<longleftrightarrow> bb_term b' = None \<and> (\<exists>ss. bb_body b' = bb_body b @ ss \<and> nested_targets ss = [])"

definition stmt_lowerer_ok :: "('s \<Rightarrow> 'e stmt_builder \<Rightarrow> nat \<Rightarrow> ('e stmt_builder \<times> nat) option) \<Rightarrow> bool" where
  "stmt_lowerer_ok f \<longleftrightarrow>
     (\<forall>a b k. bb_term b = None \<longrightarrow> (\<exists>b' k'. f a b k = Some (b', k') \<and> appends_plain b b'))"

definition dialect_ok :: "('s, 'x, 'e) dialect \<Rightarrow> bool" where
  "dialect_ok D \<longleftrightarrow>
     stmt_lowerer_ok (lower_stmt_into D) \<and> stmt_lowerer_ok (lower_nested_stmt_into D) \<and>
     (\<forall>x b k. bb_term b = None \<longrightarrow> (\<exists>e b' k'. lower_expr_into D x b k = Some (e, b', k') \<and> appends_plain b b')) \<and>
     (\<forall>x n g. next_block_id (snd (for_target_assign_body D x n g)) = next_block_id g)"

text \<open>Nested functions have been extracted, causes rewritten, and a \<open>try\<close> has a handler or a finally body.\<close>

fun stmt_ok :: "('s, 'x) stmt \<Rightarrow> bool" where
  "stmt_ok (Linear a) \<longleftrightarrow> True"
| "stmt_ok (Expanded ss) \<longleftrightarrow> list_all stmt_ok ss"
| "stmt_ok (FunctionDef n) \<longleftrightarrow> False"
| "stmt_ok (RaiseStmt v has_cause) \<longleftrightarrow> \<not> has_cause"
| "stmt_ok (ReturnStmt v) \<longleftrightarrow> True"
| "stmt_ok (IfStmt x b cs) \<longleftrightarrow> list_all stmt_ok b \<and> list_all (list_all stmt_ok) cs"
| "stmt_ok (WhileStmt x b e) \<longleftrightarrow> list_all stmt_ok b \<and> list_all stmt_ok e"
| "stmt_ok (ForStmt x it a b e) \<longleftrightarrow> list_all stmt_ok b \<and> list_all stmt_ok e"
| "stmt_ok (TryStmt b hs e f) \<longleftrightarrow>
     list_all stmt_ok b \<and> list_all (list_all stmt_ok) hs \<and> list_all stmt_ok e \<and> list_all stmt_ok f \<and> (hs \<noteq> [] \<or> f \<noteq> [])"
| "stmt_ok (StarTryStmt ss) \<longleftrightarrow> list_all stmt_ok ss"
| "stmt_ok (WithStmt ss) \<longleftrightarrow> list_all stmt_ok ss"
| "stmt_ok BreakStmt \<longleftrightarrow> True"
| "stmt_ok ContinueStmt \<longleftrightarrow> True"
| "stmt_ok Unsupported \<longleftrightarrow> True"

section \<open>The graph while it grows\<close>

text \<open>\<open>P\<close> are labels that were handed out and have no block yet, \<open>K\<close> labels whose blocks are elsewhere.\<close>

definition seq_labels :: "'e seq_state \<Rightarrow> block_label set" where
  "seq_labels s = label ` set (seq_blocks s)"

definition plain_targets :: "block_label set \<Rightarrow> 'e lowered_block \<Rightarrow> bool" where
  "plain_targets L b \<longleftrightarrow> block_targets b \<subseteq> L \<and> nested_targets (body b) = []"

definition seq_inv :: "block_label set \<Rightarrow> 'e seq_state \<Rightarrow> bool" where
  "seq_inv P s \<longleftrightarrow>
     distinct (map label (seq_blocks s)) \<and> seq_labels s \<inter> P = {} \<and> seq_labels s \<union> P \<subseteq> issued (seq_gen s) \<and>
     (\<forall>b\<in>set (seq_blocks s). plain_targets (seq_labels s \<union> P) b)"

definition seq_space :: "block_label set \<Rightarrow> 'e seq_state \<Rightarrow> block_label set" where
  "seq_space P s = seq_labels s \<union> P"

definition region_labels :: "region_targets \<Rightarrow> block_label set" where
  "region_labels t = insert (normal_cont t) (set_option (active_exc t) \<union>
     (case loop_targets t of None \<Rightarrow> {} | Some l \<Rightarrow> {break_label l, continue_label l}))"

text \<open>A step: the labels stay closed, the pending ones may change, no block goes away, and at most \<open>n\<close>
  labels are used.\<close>

definition seq_step :: "nat \<Rightarrow> 'e seq_state \<Rightarrow> 'e seq_state \<Rightarrow> bool" where
  "seq_step n s s' \<longleftrightarrow> seq_labels s \<subseteq> seq_labels s' \<and>
     unat (next_block_id (seq_gen s)) \<le> unat (next_block_id (seq_gen s')) \<and>
     unat (next_block_id (seq_gen s')) \<le> unat (next_block_id (seq_gen s)) + n"

definition room :: "nat \<Rightarrow> 'e seq_state \<Rightarrow> bool" where
  "room n s \<longleftrightarrow> unat (next_block_id (seq_gen s)) + n \<le> 2 ^ 32"

lemma seq_step_refl [simp]: "seq_step n s s"
  by (simp add: seq_step_def)

lemma seq_step_trans: "seq_step n s s1 \<Longrightarrow> seq_step k s1 s2 \<Longrightarrow> seq_step (n + k) s s2"
  unfolding seq_step_def by auto

lemma seq_step_mono: "seq_step n s s' \<Longrightarrow> n \<le> k \<Longrightarrow> seq_step k s s'"
  unfolding seq_step_def by auto

lemma room_step: "room (n + k) s \<Longrightarrow> seq_step n s s' \<Longrightarrow> room k s'"
  unfolding room_def seq_step_def by simp

lemma room_mono: "room n s \<Longrightarrow> k \<le> n \<Longrightarrow> room k s"
  unfolding room_def by simp

lemma seq_inv_pending:
  "seq_inv P s \<Longrightarrow> l \<in> issued (seq_gen s) - seq_labels s \<Longrightarrow> seq_inv (insert l P) s"
  unfolding seq_inv_def plain_targets_def by blast

lemma seq_label_step:
  assumes "seq_inv P s" "room (Suc n) s"
  obtains l s' where "seq_label s = Some (l, s')" "seq_inv (insert l P) s'" "seq_step 1 s s'" "room n s'" "l \<notin> seq_space P s"
    "seq_labels s' = seq_labels s" "seq_blocks s' = seq_blocks s"
proof -
  have "next_block_name (seq_gen s) \<noteq> None" using assms(2) by (simp add: next_block_name_panics room_def)
  then obtain l g where g: "next_block_name (seq_gen s) = Some (l, g)" by auto
  note fresh = next_block_name_fresh [OF g] next_block_name_Some(2) [OF g]
  have "l \<notin> seq_space P s" using assms(1) fresh by (auto simp: seq_inv_def seq_space_def)
  moreover have "seq_inv (insert l P) (s\<lparr>seq_gen := g\<rparr>)"
    using assms(1) fresh by (auto simp: seq_inv_def seq_labels_def plain_targets_def)
  ultimately show thesis
    using that [of l "s\<lparr>seq_gen := g\<rparr>"] g fresh assms(2)
    by (auto simp: seq_label_def seq_step_def seq_labels_def room_def)
qed

lemma seq_tmp_inv [simp]:
  "seq_tmp p s = (n, s') \<Longrightarrow> seq_inv P s' = seq_inv P s \<and> seq_labels s' = seq_labels s \<and> seq_step k s s' \<and> room r s' = room r s"
proof -
  assume "seq_tmp p s = (n, s')"
  then have "seq_blocks s' = seq_blocks s" "next_block_id (seq_gen s') = next_block_id (seq_gen s)"
    by (auto simp: seq_tmp_def next_tmp_name_def)
  then show ?thesis unfolding seq_inv_def seq_labels_def issued_def seq_step_def room_def by simp
qed

lemma emit_step:
  assumes "seq_inv P s" "l \<in> P" "b = Some c" "label c = l" "plain_targets (seq_space P s) c"
  shows "\<exists>s'. emit b l s = Some (l, s') \<and> seq_inv (P - {l}) s' \<and> seq_step 0 s s' \<and> l \<in> seq_labels s' \<and>
    seq_space (P - {l}) s' = seq_space P s \<and> (\<forall>n. room n s' = room n s)"
proof -
  let ?s = "push_lowered c s"
  have labels: "seq_labels ?s = insert l (seq_labels s)" using assms(4) by (auto simp: seq_labels_def push_lowered_def)
  have "seq_labels ?s \<union> (P - {l}) = seq_labels s \<union> P" unfolding labels using assms(2) by blast
  then have "seq_inv (P - {l}) ?s"
    using assms(1,2,4,5) labels unfolding seq_inv_def seq_space_def
    by (auto simp: push_lowered_def seq_labels_def)
  with labels assms(2,3) show ?thesis
    by (auto simp: emit_def seq_step_def push_lowered_def seq_space_def room_def)
qed

section \<open>Single blocks\<close>

text \<open>A block with a given label, whose edges are those of its terminator and handler.\<close>

definition makes_block :: "block_label \<Rightarrow> block_label set \<Rightarrow> 'e lowered_block option \<Rightarrow> bool" where
  "makes_block l T b \<longleftrightarrow> (\<exists>c. b = Some c \<and> label c = l \<and> block_targets c = T \<and> nested_targets (body c) = [])"

lemma appends_plain_trans: "appends_plain a b \<Longrightarrow> appends_plain b c \<Longrightarrow> appends_plain a c"
  by (auto simp: appends_plain_def)

lemma appends_plain_refl: "bb_term b = None \<Longrightarrow> appends_plain b b"
  unfolding appends_plain_def by (metis append_Nil2 nested_targets.simps(1))

lemma lower_each_appends:
  "stmt_lowerer_ok f \<Longrightarrow> bb_term b = None \<Longrightarrow> \<exists>b' k'. lower_each f ss b k = Some (b', k') \<and> appends_plain b b'"
proof (induction ss arbitrary: b k)
  case (Cons a ss)
  obtain b1 k1 where 1: "f a b k = Some (b1, k1)" "appends_plain b b1"
    using Cons.prems unfolding stmt_lowerer_ok_def by blast
  then have "bb_term b1 = None" by (simp add: appends_plain_def)
  with Cons.IH [OF Cons.prems(1), of b1 k1] 1 show ?case by (auto intro: appends_plain_trans)
qed (simp add: appends_plain_refl)

lemma finished_block_makes:
  assumes "appends_plain builder_new b"
  shows "makes_block l (set (successors t) \<union> set_option x) (finished_block D l b t x)"
  using assms
  by (auto simp: makes_block_def finished_block_def appends_plain_def builder_new_def with_exc_meta_def from_builder_def with_term_def
      block_targets_def split: option.splits)

lemma new_builder_open [simp]: "bb_term builder_new = None"
  by (simp add: builder_new_def)

lemma compat_block_makes:
  assumes "dialect_ok D"
  shows "makes_block l (set (successors t) \<union> set_option x) (compat_block_from_blockpy D l ss t x)"
proof -
  obtain b k where "lower_each (lower_stmt_into D) ss builder_new 0 = Some (b, k)" "appends_plain builder_new b"
    using lower_each_appends [of "lower_stmt_into D" builder_new ss 0] assms by (auto simp: dialect_ok_def)
  with finished_block_makes [OF this(2), of l t x D] show ?thesis
    by (simp add: compat_block_from_blockpy_def lower_stmts_to_blockpy_stmts_def)
qed

lemma setup_builder:
  assumes "dialect_ok D"
  obtains b where "compat_block_builder_with_expr_setup D ss = Some b" "appends_plain builder_new b"
  using lower_each_appends [of "lower_nested_stmt_into D" builder_new ss 0] assms that
  by (auto simp: dialect_ok_def compat_block_builder_with_expr_setup_def)

lemma block_without_expr_makes:
  assumes "dialect_ok D"
  shows "makes_block l (set (successors t) \<union> set_option x) (block_without_expr D l ss t x)"
  by (rule setup_builder [OF assms, of ss]) (simp add: block_without_expr_def finished_block_makes)

lemma block_with_expr_makes:
  assumes "dialect_ok D" "\<And>e. successors (t e) = ls"
  shows "makes_block l (set ls \<union> set_option x) (block_with_expr D l ss v t x)"
proof (rule setup_builder [OF assms(1), of ss])
  fix b assume b: "compat_block_builder_with_expr_setup D ss = Some b" "appends_plain builder_new b"
  then have "bb_term b = None" by (simp add: appends_plain_def)
  then obtain e b' k where e: "lower_expr_into D v b 0 = Some (e, b', k)" "appends_plain b b'"
    using assms(1) unfolding dialect_ok_def by blast
  show ?thesis
    using finished_block_makes [OF appends_plain_trans [OF b(2) e(2)], of l "t e" x D] assms(2)
    by (simp add: block_with_expr_def b(1) e(1))
qed

lemma emit_makes:
  assumes "seq_inv P s" "l \<in> P" "makes_block l T b" "T \<subseteq> seq_space P s"
  obtains s' where "emit b l s = Some (l, s')" "seq_inv (P - {l}) s'" "seq_step 0 s s'" "l \<in> seq_labels s'"
    "seq_space (P - {l}) s' = seq_space P s" "\<And>n. room n s' = room n s"
proof -
  obtain c where "b = Some c" "label c = l" "plain_targets (seq_space P s) c"
    using assms(3,4) by (auto simp: makes_block_def plain_targets_def)
  from emit_step [OF assms(1,2) this] that show thesis by blast
qed

text \<open>Lowering a sequence in its region.\<close>

definition rec_ok :: "nat \<Rightarrow> ('s, 'x) stmt list \<Rightarrow> ('s, 'x, 'e) sequence_lowerer \<Rightarrow> bool" where
  "rec_ok n ss rec \<longleftrightarrow>
     (\<forall>P t s. seq_inv P s \<longrightarrow> region_labels t \<subseteq> seq_space P s \<longrightarrow> room n s \<longrightarrow>
        (\<exists>l s'. rec ss t s = Some (l, s') \<and> seq_inv P s' \<and> seq_step n s s' \<and> l \<in> seq_space P s'))"

lemma rec_call:
  assumes "rec_ok n ss rec" "seq_inv P s" "region_labels t \<subseteq> seq_space P s" "room (n + m) s"
  obtains l s' where "rec ss t s = Some (l, s')" "seq_inv P s'" "seq_step n s s'" "room m s'" "insert l (seq_space P s) \<subseteq> seq_space P s'"
proof -
  have "room n s" using assms(4) by (rule room_mono) simp
  then obtain l s' where r: "rec ss t s = Some (l, s')" "seq_inv P s'" "seq_step n s s'" "l \<in> seq_space P s'"
    using assms(1-3) unfolding rec_ok_def by blast
  moreover have "seq_space P s \<subseteq> seq_space P s'" using r(3) by (auto simp: seq_space_def seq_step_def)
  ultimately show thesis using that room_step [OF assms(4) r(3)] by blast
qed

lemma nested_within: "region_labels t \<subseteq> L \<Longrightarrow> l \<in> L \<Longrightarrow> region_labels (nested t l) \<subseteq> L"
  by (auto simp: region_labels_def nested_def)

lemma nested_loop_within:
  "region_labels t \<subseteq> L \<Longrightarrow> l \<in> L \<Longrightarrow> b \<in> L \<Longrightarrow> c \<in> L \<Longrightarrow>
     region_labels (nested_with_loop t l (Some \<lparr>break_label = b, continue_label = c\<rparr>)) \<subseteq> L"
  by (auto simp: region_labels_def nested_with_loop_def)

lemma region_exc_within: "region_labels t \<subseteq> L \<Longrightarrow> set_option (active_exc t) \<subseteq> L"
  by (auto simp: region_labels_def)

lemma region_cont_within: "region_labels t \<subseteq> L \<Longrightarrow> normal_cont t \<in> L"
  by (auto simp: region_labels_def)

section \<open>Branches and loops\<close>

text \<open>What a helper gives: a label of the graph, with the same labels pending.\<close>

definition gives :: "nat \<Rightarrow> block_label set \<Rightarrow> 'e seq_state \<Rightarrow> (block_label \<times> 'e seq_state) option \<Rightarrow> bool" where
  "gives n P s r \<longleftrightarrow> (\<exists>l s'. r = Some (l, s') \<and> seq_inv P s' \<and> seq_step n s s' \<and> l \<in> seq_space P s')"

lemma givesI: "r = Some (l, s') \<Longrightarrow> seq_inv P s' \<Longrightarrow> seq_step n s s' \<Longrightarrow> l \<in> seq_space P s' \<Longrightarrow> gives n P s r"
  by (simp add: gives_def)

lemma gives_trans:
  "seq_step n s s1 \<Longrightarrow> gives k P s1 r \<Longrightarrow> n + k \<le> m \<Longrightarrow> gives m P s r"
  unfolding gives_def using seq_step_trans seq_step_mono by blast

lemma emit_gives:
  assumes "seq_inv P s" "l \<in> P" "makes_block l T b" "T \<subseteq> seq_space P s"
  shows "gives 0 (P - {l}) s (emit b l s)"
  by (rule emit_makes [OF assms]) (rule givesI, auto simp: seq_space_def)

lemma lower_if_gives:
  assumes D: "dialect_ok D" and rec: "rec_ok n remaining rec" "rec_ok n1 b rec" "rec_ok n2 (extract_if_else_body cs) rec"
    and s: "seq_inv P s" "l \<in> P" "region_labels t \<subseteq> seq_space P s" "room (n + (n1 + n2)) s"
  shows "gives (n + n1 + n2) (P - {l}) s (lower_if_stmt_sequence_from_stmt D test b cs remaining t linear l rec s)"
proof (rule rec_call [OF rec(1) s(1,3,4)])
  fix rest s1
  assume 1: "rec remaining t s = Some (rest, s1)" "seq_inv P s1" "seq_step n s s1" "room (n1 + n2) s1"
    "insert rest (seq_space P s) \<subseteq> seq_space P s1"
  have t1: "region_labels t \<subseteq> seq_space P s1" "region_labels (nested t rest) \<subseteq> seq_space P s1"
    using s(3) 1(5) nested_within [of t "seq_space P s1" rest] by auto
  show ?thesis
  proof (rule rec_call [OF rec(2) 1(2) t1(2) 1(4)])
    fix a s2
    assume 2: "rec b (nested t rest) s1 = Some (a, s2)" "seq_inv P s2" "seq_step n1 s1 s2" "room n2 s2"
      "insert a (seq_space P s1) \<subseteq> seq_space P s2"
    have t2: "region_labels (nested t rest) \<subseteq> seq_space P s2" using t1(2) 2(5) by blast
    have r2: "room (n2 + 0) s2" using 2(4) by simp
    show ?thesis
    proof (rule rec_call [OF rec(3) 2(2) t2 r2])
      fix c s3
      assume 3: "rec (extract_if_else_body cs) (nested t rest) s2 = Some (c, s3)" "seq_inv P s3" "seq_step n2 s2 s3"
        "insert c (seq_space P s2) \<subseteq> seq_space P s3"
      have T: "set [a, c] \<union> set_option (active_exc t) \<subseteq> seq_space P s3"
        using region_exc_within [OF t1(1)] 2(5) 3(4) by auto
      have "gives 0 (P - {l}) s3 (emit_if_branch_block D l linear test a c (active_exc t) s3)"
        unfolding emit_if_branch_block_def compat_if_jump_block_def
        by (rule emit_gives [OF 3(2) s(2) block_with_expr_makes [OF D] T]) simp
      then show ?thesis
        using seq_step_trans [OF seq_step_trans [OF 1(3) 2(3)] 3(3)] gives_trans
        by (fastforce simp: lower_if_stmt_sequence_from_stmt_def lower_if_stmt_sequence_def 1(1) 2(1) 3(1))
    qed
  qed
qed

text \<open>The sequence after a loop and its \<open>else\<close> body.\<close>

lemma lower_for_exits:
  assumes rec: "rec_ok n remaining rec" "rec_ok n1 e rec"
    and s: "seq_inv P s" "region_labels t \<subseteq> seq_space P s" "room (n + (n1 + m)) s"
  obtains rest exhausted s' where "lower_for_stmt_exit_entries e remaining t rec s = Some ((rest, exhausted), s')" "seq_inv P s'"
    "seq_step (n + n1) s s'" "room m s'" "insert rest (insert exhausted (seq_space P s)) \<subseteq> seq_space P s'"
proof (rule rec_call [OF rec(1) s])
  fix rest s1
  assume 1: "rec remaining t s = Some (rest, s1)" "seq_inv P s1" "seq_step n s s1" "room (n1 + m) s1"
    "insert rest (seq_space P s) \<subseteq> seq_space P s1"
  show thesis
  proof (cases "e = []")
    case True
    have "room m s1" using 1(4) room_mono by fastforce
    then show ?thesis
      using that [of rest rest s1] 1 seq_step_mono [OF 1(3), of "n + n1"] by (simp add: lower_for_stmt_exit_entries_def True)
  next
    case False
    have "region_labels (nested t rest) \<subseteq> seq_space P s1" using s(2) 1(5) by (intro nested_within) auto
    then show ?thesis
    proof (rule rec_call [OF rec(2) 1(2) _ 1(4)])
      fix x s2
      assume 2: "rec e (nested t rest) s1 = Some (x, s2)" "seq_inv P s2" "seq_step n1 s1 s2" "room m s2"
        "insert x (seq_space P s1) \<subseteq> seq_space P s2"
      then show thesis
        using that [of rest x s2] 1(1,5) False seq_step_trans [OF 1(3) 2(3)] by (auto simp: lower_for_stmt_exit_entries_def)
    qed
  qed
qed

lemma while_exits:
  "lower_while_stmt_sequence D test_l linear_l linear test b e remaining t rec s =
     do { ((rest, false_entry), s2) \<leftarrow> lower_for_stmt_exit_entries e remaining t rec s;
          (body_entry, s3) \<leftarrow> rec b (nested_with_loop t test_l (Some \<lparr>break_label = rest, continue_label = test_l\<rparr>)) s2;
          emit_simple_while_blocks D test_l linear_l linear test body_entry false_entry (active_exc t) s3 }"
  by (cases "rec remaining t s"; cases "e = []")
    (auto simp: lower_while_stmt_sequence_def lower_for_stmt_exit_entries_def split: Option.bind_splits)

text \<open>A label that is asked for only when the prefix is not empty.\<close>

definition pending_with :: "block_label set \<Rightarrow> block_label option \<Rightarrow> block_label set" where
  "pending_with P l = P \<union> set_option l"

lemma label_if_step:
  assumes "seq_inv P s" "room (Suc n) s"
  obtains l s' where "label_if c s = Some (l, s')" "seq_inv (pending_with P l) s'" "seq_step 1 s s'" "room n s'"
    "seq_space P s \<inter> set_option l = {}" "seq_labels s' = seq_labels s" "l = None \<longleftrightarrow> \<not> c"
proof (cases c)
  case True
  obtain l s' where l: "seq_label s = Some (l, s')" "seq_inv (insert l P) s'" "seq_step 1 s s'" "room n s'" "l \<notin> seq_space P s"
    "seq_labels s' = seq_labels s" by (rule seq_label_step [OF assms])
  then show thesis using that [of "Some l" s'] by (simp add: label_if_def True pending_with_def)
next
  case False
  have "room n s" using assms(2) by (rule room_mono) simp
  then show thesis using that [of None s] assms(1) by (simp add: label_if_def False pending_with_def)
qed

lemma lower_while_gives:
  assumes D: "dialect_ok D" and rec: "rec_ok n remaining rec" "rec_ok n1 e rec" "rec_ok n2 b rec"
    and s: "seq_inv (insert test_l (pending_with P linear_l)) s" "test_l \<notin> P" "set_option linear_l \<inter> insert test_l P = {}"
      "region_labels t \<subseteq> seq_space P s" "room (n + (n1 + n2)) s"
  shows "gives (n + n1 + n2) P s (lower_while_stmt_sequence D test_l linear_l linear test b e remaining t rec s)"
proof -
  let ?P = "insert test_l (pending_with P linear_l)"
  have t: "region_labels t \<subseteq> seq_space ?P s" using s(4) by (auto simp: seq_space_def pending_with_def)
  show ?thesis
  proof (rule lower_for_exits [OF rec(1,2) s(1) t s(5)])
    fix rest x s1
    assume 1: "lower_for_stmt_exit_entries e remaining t rec s = Some ((rest, x), s1)" "seq_inv ?P s1" "seq_step (n + n1) s s1" "room n2 s1"
      "insert rest (insert x (seq_space ?P s)) \<subseteq> seq_space ?P s1"
    have "test_l \<in> seq_space ?P s1" by (simp add: seq_space_def)
    then have t1: "region_labels (nested_with_loop t test_l (Some \<lparr>break_label = rest, continue_label = test_l\<rparr>)) \<subseteq> seq_space ?P s1"
      using t 1(5) by (intro nested_loop_within) auto
    have r1: "room (n2 + 0) s1" using 1(4) by simp
    show ?thesis
    proof (rule rec_call [OF rec(3) 1(2) t1 r1])
      fix be s2
      assume 2: "rec b (nested_with_loop t test_l (Some \<lparr>break_label = rest, continue_label = test_l\<rparr>)) s1 = Some (be, s2)"
        "seq_inv ?P s2" "seq_step n2 s1 s2" "insert be (seq_space ?P s1) \<subseteq> seq_space ?P s2"
      have T: "set [be, x] \<union> set_option (active_exc t) \<subseteq> seq_space ?P s2"
        using region_exc_within [OF t] 1(5) 2(4) by auto
      have steps: "seq_step (n + n1 + n2) s s2" using seq_step_trans [OF 1(3) 2(3)] by simp
      obtain s3 where 3: "emit (block_with_expr D test_l [] test (\<lambda>v. IfTerm v be x) (active_exc t)) test_l s2 = Some (test_l, s3)"
          "seq_inv (?P - {test_l}) s3" "seq_step 0 s2 s3" "test_l \<in> seq_labels s3" "seq_space (?P - {test_l}) s3 = seq_space ?P s2"
        by (rule emit_makes [OF 2(2) insertI1 block_with_expr_makes [OF D, where t = "\<lambda>v. IfTerm v be x" and ls = "[be, x]"
              and l = test_l and x = "active_exc t" and ss = "[]" and v = test] T]) simp_all
      have P: "?P - {test_l} = pending_with P linear_l" using s(2,3) by (auto simp: pending_with_def)
      have "gives 0 P s2 (emit_simple_while_blocks D test_l linear_l linear test be x (active_exc t) s2)"
      proof (cases linear_l)
        case None
        then show ?thesis using 3 P
          by (intro givesI [of _ test_l s3]) (auto simp: emit_simple_while_blocks_def compat_if_jump_block_def pending_with_def seq_space_def)
      next
        case (Some l)
        have Pl: "pending_with P linear_l - {l} = P" using s(3) by (auto simp: Some pending_with_def)
        have "set (successors (Jump (edge_new test_l))) \<union> set_option (active_exc t) \<subseteq> seq_space (pending_with P linear_l) s3"
          using T 3(4,5) P by (auto simp: seq_space_def)
        then have "gives 0 (pending_with P linear_l - {l}) s3
            (emit (compat_block_from_blockpy D l linear (Jump (edge_new test_l)) (active_exc t)) l s3)"
          using 3(2) P by (intro emit_gives [OF _ _ compat_block_makes [OF D]]) (auto simp: Some pending_with_def)
        then show ?thesis unfolding Pl using gives_trans [OF 3(3)] 3(1)
          by (fastforce simp: emit_simple_while_blocks_def compat_if_jump_block_def Some)
      qed
      from gives_trans [OF steps this, of "n + n1 + n2"] show ?thesis by (simp add: while_exits 1(1) 2(1))
    qed
  qed
qed

lemma lower_for_gives:
  assumes D: "dialect_ok D" and rec: "rec_ok n remaining rec" "rec_ok n1 e rec" "rec_ok n2 b rec"
    and s: "seq_inv P s" "region_labels t \<subseteq> seq_space P s" "room (3 + (n + (n1 + n2))) s"
  shows "gives (3 + (n + n1 + n2)) P s (lower_for_head D x it a b e remaining t linear rec s)"
proof -
  obtain iter s0 where iter: "seq_tmp ''iter'' s = (iter, s0)" by fastforce
  obtain tmp s1 where tmp: "seq_tmp ''tmp'' s0 = (tmp, s1)" by fastforce
  have "room (Suc (2 + (n + (n1 + n2)))) s" using s(3) by (rule room_mono) simp
  then have 1: "seq_inv P s1" "room (Suc (2 + (n + (n1 + n2)))) s1" "seq_step 0 s s1" "seq_labels s1 = seq_labels s"
    using s(1) seq_tmp_inv [OF iter] seq_tmp_inv [OF tmp] seq_step_trans [of 0 s s0 0 s1] by simp_all
  obtain check s2 where 2: "seq_label s1 = Some (check, s2)" "seq_inv (insert check P) s2" "seq_step 1 s1 s2"
    "room (2 + (n + (n1 + n2))) s2" "check \<notin> seq_space P s1" "seq_labels s2 = seq_labels s1"
    by (rule seq_label_step [OF 1(1,2)])
  obtain ss g where g: "for_target_assign_body D x tmp (seq_gen s2) = (ss, g)" by fastforce
  let ?s2 = "s2\<lparr>seq_gen := g\<rparr>"
  have "next_block_id g = next_block_id (seq_gen s2)" using D g unfolding dialect_ok_def by (metis snd_conv)
  then have 3: "seq_inv (insert check P) ?s2" "seq_step 0 s2 ?s2" "room (Suc (1 + (n + (n1 + n2)))) ?s2" "seq_labels ?s2 = seq_labels s2"
    using 2(2,4) by (simp_all add: seq_inv_def seq_labels_def issued_def seq_step_def room_def)
  obtain assign s3 where 4: "seq_label ?s2 = Some (assign, s3)" "seq_inv (insert assign (insert check P)) s3" "seq_step 1 ?s2 s3"
    "room (1 + (n + (n1 + n2))) s3" "assign \<notin> seq_space (insert check P) ?s2" "seq_labels s3 = seq_labels ?s2"
    by (rule seq_label_step [OF 3(1,3)])
  have "room (Suc (n + (n1 + n2))) s3" using 4(4) by simp
  then obtain su s4 where 5: "seq_label s3 = Some (su, s4)" "seq_inv (insert su (insert assign (insert check P))) s4" "seq_step 1 s3 s4"
    "room (n + (n1 + n2)) s4" "su \<notin> seq_space (insert assign (insert check P)) s3" "seq_labels s4 = seq_labels s3"
    by (rule seq_label_step [OF 4(2)])
  let ?P = "insert su (insert assign (insert check P))"
  have labels: "seq_labels s4 = seq_labels s" using 1(4) 2(6) 3(4) 4(6) 5(6) by simp
  have t: "region_labels t \<subseteq> seq_space ?P s4" using s(2) labels by (auto simp: seq_space_def)
  have ne: "check \<notin> P" "assign \<notin> insert check P" "su \<notin> insert assign (insert check P)"
    using 2(5) 4(5) 5(5) by (auto simp: seq_space_def)
  have steps: "seq_step 3 s s4"
    using seq_step_trans [OF seq_step_trans [OF seq_step_trans [OF seq_step_trans [OF 1(3) 2(3)] 3(2)] 4(3)] 5(3)]
    by (rule seq_step_mono) simp
  obtain rest exhausted s5 where 6: "lower_for_stmt_exit_entries e remaining t rec s4 = Some ((rest, exhausted), s5)" "seq_inv ?P s5"
    "seq_step (n + n1) s4 s5" "room n2 s5" "insert rest (insert exhausted (seq_space ?P s4)) \<subseteq> seq_space ?P s5"
    by (rule lower_for_exits [OF rec(1,2) 5(2) t 5(4)])
  have "check \<in> seq_space ?P s5" by (simp add: seq_space_def)
  then have t5: "region_labels (nested_with_loop t check (Some \<lparr>break_label = rest, continue_label = check\<rparr>)) \<subseteq> seq_space ?P s5"
    using t 6(5) by (intro nested_loop_within) auto
  have r5: "room (n2 + 0) s5" using 6(4) by simp
  obtain be s6 where 7: "rec b (nested_with_loop t check (Some \<lparr>break_label = rest, continue_label = check\<rparr>)) s5 = Some (be, s6)"
    "seq_inv ?P s6" "seq_step n2 s5 s6" "insert be (seq_space ?P s5) \<subseteq> seq_space ?P s6"
    by (rule rec_call [OF rec(3) 6(2) t5 r5])
  have x: "set_option (active_exc t) \<subseteq> seq_space ?P s6" using region_exc_within [OF t] 6(5) 7(4) by auto
  have Pa: "assign \<in> ?P" "?P - {assign} = insert su (insert check P)" using ne by auto
  have Ta: "set (successors (Jump (edge_new be))) \<union> set_option (active_exc t) \<subseteq> seq_space ?P s6" using x 7(4) by auto
  obtain s7 where 8: "emit (compat_block_from_blockpy D assign ss (Jump (edge_new be)) (active_exc t)) assign s6 = Some (assign, s7)"
    "seq_inv (insert su (insert check P)) s7" "seq_step 0 s6 s7" "seq_space (insert su (insert check P)) s7 = seq_space ?P s6"
    by (rule emit_makes [OF 7(2) Pa(1) compat_block_makes [OF D] Ta]) (simp add: Pa(2))
  let ?check = "IfTerm (exhausted_test D tmp) exhausted assign"
  have Pc: "check \<in> insert su (insert check P)" "insert su (insert check P) - {check} = insert su P" using ne by auto
  have Tc: "set (successors ?check) \<union> set_option (active_exc t) \<subseteq> seq_space (insert su (insert check P)) s7"
    using x 6(5) 7(4) 8(4) by (auto simp: seq_space_def)
  obtain s8 where 9: "emit (compat_block_from_blockpy D check [next_stmt D a tmp iter] ?check (active_exc t)) check s7 = Some (check, s8)"
    "seq_inv (insert su P) s8" "seq_step 0 s7 s8" "check \<in> seq_labels s8" "seq_space (insert su P) s8 = seq_space (insert su (insert check P)) s7"
    by (rule emit_makes [OF 8(2) Pc(1) compat_block_makes [OF D] Tc]) (simp add: Pc(2))
  have Ts: "set (successors (Jump (edge_new check))) \<union> set_option (active_exc t) \<subseteq> seq_space (insert su P) s8"
    using x 8(4) 9(4,5) by (auto simp: seq_space_def)
  have "gives 0 (insert su P - {su}) s8 (emit (compat_block_from_blockpy D su (linear @ [iter_stmt D a iter it]) (Jump (edge_new check)) (active_exc t)) su s8)"
    by (rule emit_gives [OF 9(2) insertI1 compat_block_makes [OF D] Ts])
  moreover have "insert su P - {su} = P" using ne by auto
  moreover have "seq_step (3 + (n + n1 + n2)) s s8"
    using seq_step_trans [OF seq_step_trans [OF seq_step_trans [OF seq_step_trans [OF steps 6(3)] 7(3)] 8(3)] 9(3)] by (simp add: ac_simps)
  ultimately show ?thesis
    using gives_trans [of "3 + (n + n1 + n2)" s s8 0 P _ "3 + (n + n1 + n2)"]
    by (simp add: lower_for_head_def iter tmp 2(1) g lower_for_stmt_sequence_head_def 4(1) 5(1) lower_for_stmt_sequence_def 6(1)
        lower_for_stmt_body_entry_def 7(1) emit_for_loop_blocks_def 8(1) 9(1))
qed

lemma expand_gives:
  assumes D: "dialect_ok D" and rec: "rec_ok n (es @ remaining) rec"
    and s: "seq_inv P s" "region_labels t \<subseteq> seq_space P s" "room (Suc n) s"
  shows "gives (1 + n) P s (expand_with_jump D es remaining t linear rec s)"
proof (rule label_if_step [OF s(1,3)])
  fix j s1
  assume 1: "label_if (linear \<noteq> []) s = Some (j, s1)" "seq_inv (pending_with P j) s1" "seq_step 1 s s1" "room n s1"
    "seq_space P s \<inter> set_option j = {}" "seq_labels s1 = seq_labels s" "j = None \<longleftrightarrow> \<not> linear \<noteq> []"
  have t: "region_labels t \<subseteq> seq_space (pending_with P j) s1" using s(2) 1(6) by (auto simp: seq_space_def pending_with_def)
  have r: "room (n + 0) s1" using 1(4) by simp
  obtain en s2 where 2: "rec (es @ remaining) t s1 = Some (en, s2)" "seq_inv (pending_with P j) s2" "seq_step n s1 s2"
    "insert en (seq_space (pending_with P j) s1) \<subseteq> seq_space (pending_with P j) s2"
    by (rule rec_call [OF rec 1(2) t r])
  note steps = seq_step_trans [OF 1(3) 2(3)]
  show ?thesis
  proof (cases j)
    case None
    then show ?thesis using 1(1,7) 2 steps
      by (intro givesI [of _ en s2]) (auto simp: expand_with_jump_def lower_expanded_stmt_sequence_def pending_with_def)
  next
    case (Some l)
    have T: "set (successors (Jump (edge_new en))) \<union> set_option (active_exc t) \<subseteq> seq_space (pending_with P j) s2"
      using region_exc_within [OF t] 2(4) by auto
    have "gives 0 (pending_with P j - {l}) s2 (emit (compat_block_from_blockpy D l linear (Jump (edge_new en)) (active_exc t)) l s2)"
      by (rule emit_gives [OF 2(2) _ compat_block_makes [OF D] T]) (simp add: Some pending_with_def)
    moreover have "pending_with P j - {l} = P" using 1(5) by (auto simp: Some pending_with_def seq_space_def)
    ultimately show ?thesis using gives_trans [OF steps, of 0 P _ "1 + n"] 1(1,7)
      by (simp add: expand_with_jump_def lower_expanded_stmt_sequence_def 2(1) Some)
  qed
qed

end
