(* ===== verification/Stmt_Try.thy ===== *)
theory Stmt_Try
  imports Stmt_Closed
begin

text \<open>
  Try statements keep the graph of a statement sequence closed: the regions, the blocks that enter and
  leave the finally body, and the returns that are sent through it. Then the whole lowering.
\<close>

section \<open>Try regions\<close>

text \<open>Changes of blocks that keep the graph, but for edges to labels of \<open>F\<close>.\<close>

definition frame_within :: "block_label set \<Rightarrow> 'e lowered_block \<Rightarrow> 'e lowered_block \<Rightarrow> bool" where
  "frame_within F b b' \<longleftrightarrow>
     label b' = label b \<and> block_targets b' \<subseteq> block_targets b \<union> F \<and> nested_targets (body b') = nested_targets (body b)"

lemma frame_within_refl [simp]: "frame_within F b b"
  by (simp add: frame_within_def)

lemma frames_refl [simp]: "list_all2 (frame_within F) bs bs"
  by (induction bs) simp_all

lemma frame_within_params [simp]: "frame_within F b (b\<lparr>params := ps\<rparr>)"
  by (simp add: frame_within_def block_targets_def)

lemma frame_update:
  assumes "seq_inv P s" "list_all2 (frame_within F) (seq_blocks s) bs" "F \<subseteq> seq_space P s"
  shows "seq_inv P (s\<lparr>seq_blocks := bs\<rparr>)" "seq_labels (s\<lparr>seq_blocks := bs\<rparr>) = seq_labels s" "seq_step 0 s (s\<lparr>seq_blocks := bs\<rparr>)"
    "room n (s\<lparr>seq_blocks := bs\<rparr>) = room n s"
proof -
  have "map label bs = map label (seq_blocks s)"
    using assms(2) by (induction rule: list_all2_induct) (simp_all add: frame_within_def)
  moreover from this have "label ` set bs = label ` set (seq_blocks s)" by (metis list.set_map)
  ultimately have labels: "map label bs = map label (seq_blocks s)" "seq_labels (s\<lparr>seq_blocks := bs\<rparr>) = seq_labels s"
    by (simp_all add: seq_labels_def)
  have "plain_targets (seq_labels s \<union> P) b" if mem: "b \<in> set bs" for b
  proof -
    obtain i where "i < length bs" "bs ! i = b" using mem by (auto simp: in_set_conv_nth)
    then have "seq_blocks s ! i \<in> set (seq_blocks s)" "frame_within F (seq_blocks s ! i) b"
      using assms(2) by (auto simp: list_all2_conv_all_nth)
    then show ?thesis using assms(1,3) by (fastforce simp: seq_inv_def plain_targets_def frame_within_def seq_space_def)
  qed
  then show "seq_inv P (s\<lparr>seq_blocks := bs\<rparr>)" using assms(1) labels unfolding seq_inv_def by simp
  show "seq_labels (s\<lparr>seq_blocks := bs\<rparr>) = seq_labels s" by (rule labels)
  then show "seq_step 0 s (s\<lparr>seq_blocks := bs\<rparr>)" by (simp add: seq_step_def)
  show "room n (s\<lparr>seq_blocks := bs\<rparr>) = room n s" by (simp add: room_def)
qed

lemma on_range_frame: "(\<And>b. frame_within F b (f b)) \<Longrightarrow> list_all2 (frame_within F) bs (on_range f r bs)"
proof -
  assume f: "\<And>b. frame_within F b (f b)"
  have mid: "list_all2 (frame_within F) xs (map f xs)" for xs by (induction xs) (auto simp: f)
  let ?a = "take (fst r) bs" and ?m = "take (snd r - fst r) (drop (fst r) bs)" and ?c = "drop (max (fst r) (snd r)) bs"
  have "drop (fst r) bs = ?m @ drop (snd r - fst r) (drop (fst r) bs)" by (rule append_take_drop_id [symmetric])
  also have "drop (snd r - fst r) (drop (fst r) bs) = ?c" by (simp add: max_def)
  finally have "bs = ?a @ ?m @ ?c" by (metis append_take_drop_id)
  moreover have "list_all2 (frame_within F) (?a @ ?m @ ?c) (on_range f r bs)"
    unfolding on_range_def by (intro list_all2_appendI frames_refl mid)
  ultimately show ?thesis by simp
qed

lemma frame_trans: "list_all2 (frame_within F) a b \<Longrightarrow> list_all2 (frame_within F) b c \<Longrightarrow> list_all2 (frame_within F) a c"
  by (erule list_all2_trans [rotated, of _ _ _ "frame_within F"]) (auto simp: frame_within_def)

lemma ensure_param_frame: "list_all2 (frame_within F) bs (ensure_param_at l n r bs)"
  by (induction bs) simp_all

lemma return_to_finally_frame: "frame_within {f} b (return_to_finally D f n b)"
  by (auto simp: return_to_finally_def frame_within_def block_targets_def edge_with_args_def split: block_term.split)

lemma set_block_exc_frame: "frame_within F b (set_block_exc_param n b)"
proof -
  have "successors (case t of Jump e \<Rightarrow> Jump (rename_args old n e) | t \<Rightarrow> t) = successors t" for old and t :: "'a block_term"
    by (cases t) (simp_all add: rename_args_def)
  then show ?thesis
    by (auto simp: set_block_exc_param_def Let_def rename_exception_edge_args_def frame_within_def block_targets_def rename_args_def
        split: option.split)
qed

lemma optional_frame:
  assumes "\<And>r. list_all2 (frame_within F) bs (f r bs)"
  shows "list_all2 (frame_within F) bs (on_optional f r bs)"
  using assms by (cases r) (simp_all add: on_optional_def)

lemma push_fresh:
  assumes "seq_inv P s" "room (Suc n) s" "\<And>l. makes_block l T (Some (c l))" "T \<subseteq> seq_space P s"
  obtains l s1 s2 where "seq_label s = Some (l, s1)" "s2 = push_lowered (c l) s1" "seq_inv P s2" "seq_step 1 s s2"
    "room n s2" "insert l (seq_space P s) \<subseteq> seq_space P s2"
proof -
  obtain l s1 where 1: "seq_label s = Some (l, s1)" "seq_inv (insert l P) s1" "seq_step 1 s s1" "room n s1" "l \<notin> seq_space P s"
    "seq_labels s1 = seq_labels s" by (rule seq_label_step [OF assms(1,2)])
  have "T \<subseteq> seq_space (insert l P) s1" using assms(4) 1(6) by (auto simp: seq_space_def)
  then obtain s2 where 2: "emit (Some (c l)) l s1 = Some (l, s2)" "seq_inv (insert l P - {l}) s2" "seq_step 0 s1 s2" "l \<in> seq_labels s2"
    "seq_space (insert l P - {l}) s2 = seq_space (insert l P) s1" "\<And>n. room n s2 = room n s1"
    by (rule emit_makes [OF 1(2) insertI1 assms(3)]) blast
  have P: "insert l P - {l} = P" using 1(5) by (auto simp: seq_space_def)
  have s2: "s2 = push_lowered (c l) s1" using 2(1) by (simp add: emit_def)
  have "seq_step 1 s s2" using seq_step_trans [OF 1(3) 2(3)] by simp
  moreover have "insert l (seq_space P s) \<subseteq> seq_space P s2" using 2(4,5) 1(6) unfolding P by (auto simp: seq_space_def)
  ultimately show thesis using that [OF 1(1) s2] 2(2) 2(6) 1(4) unfolding P by simp
qed

lemma finally_block_makes:
  "makes_block l (insert f (set_option x)) (Some (finally_entry_block D l f as ps x))"
  by (auto simp: makes_block_def finally_entry_block_def from_builder_def with_term_def block_targets_def edge_with_args_def split: option.split)

definition full_plan :: "string \<Rightarrow> string \<Rightarrow> string \<Rightarrow> block_label \<Rightarrow> block_label \<Rightarrow> block_label \<Rightarrow> try_plan" where
  "full_plan exc kind payload dispatch_l return_l raise_l =
     \<lparr>except_exc_name = exc, finally_abrupt_kind_name = Some kind, finally_abrupt_payload_name = Some payload,
      finally_dispatch_label = Some dispatch_l, finally_return_label = Some return_l, finally_raise_label = Some raise_l\<rparr>"

lemma lower_finally_gives:
  assumes D: "dialect_ok D" and rec: "rec_ok n ss rec"
    and s: "seq_inv Q s" "Q = insert d (insert r (insert x P))" "distinct [d, r, x]" "{d, r, x} \<inter> P = {}"
      "insert rest (set_option exc \<union> (case loop of None \<Rightarrow> {} | Some l \<Rightarrow> {break_label l, continue_label l})) \<subseteq> seq_space Q s"
      "room (n + (2 + m)) s"
  obtains l rng no ex s' where
    "lower_finally_region D (full_plan en kn pn d r x) rest ss loop exc rec s = Some ((l, rng, Some no, Some ex), s')"
    "seq_inv P s'" "seq_step (n + 2) s s'" "room m s'" "insert l (insert no (insert ex (seq_space Q s))) \<subseteq> seq_space P s'"
proof -
  let ?p = "full_plan en kn pn d r x"
  let ?t = "\<lparr>normal_cont = d, loop_targets = loop, active_exc = exc\<rparr>"
  have "d \<in> seq_space Q s" by (simp add: seq_space_def s(2))
  then have t: "region_labels ?t \<subseteq> seq_space Q s" using s(5) by (auto simp: region_labels_def)
  obtain l s1 where 1: "rec ss ?t s = Some (l, s1)" "seq_inv Q s1" "seq_step n s s1" "room (2 + m) s1"
    "insert l (seq_space Q s) \<subseteq> seq_space Q s1" by (rule rec_call [OF rec s(1) t s(6)])
  let ?s1 = "ensure_finally_params ?p l s1"
  have "list_all2 (frame_within {}) (seq_blocks s1) (seq_blocks ?s1)"
    using frame_trans [OF ensure_param_frame ensure_param_frame] by (simp add: ensure_finally_params_def full_plan_def)
  from frame_update [OF 1(2) this] have 2: "seq_inv Q ?s1" "seq_labels ?s1 = seq_labels s1" "seq_step 0 s1 ?s1" "room (Suc (1 + m)) ?s1"
    using 1(4) by (simp_all add: ensure_finally_params_def)
  have sp: "seq_space Q ?s1 = seq_space Q s1" using 2(2) by (simp add: seq_space_def)
  have e2: "insert l (set_option exc) \<subseteq> seq_space Q ?s1" unfolding sp using 1(5) s(5) by blast
  obtain no s2 s3 where 3: "seq_label ?s1 = Some (no, s2)"
      "s3 = push_lowered (finally_entry_block D no l [ArgAbruptKind AbruptFallthrough, ArgNone] [] exc) s2" "seq_inv Q s3"
      "seq_step 1 ?s1 s3" "room (1 + m) s3" "insert no (seq_space Q ?s1) \<subseteq> seq_space Q s3"
    by (rule push_fresh [OF 2(1,4) finally_block_makes e2])
  have e3: "insert l (set_option exc) \<subseteq> seq_space Q s3" using e2 3(6) by blast
  have r3: "room (Suc m) s3" using 3(5) by simp
  obtain ex s3' s4 where 4: "seq_label s3 = Some (ex, s3')"
      "s4 = push_lowered (finally_entry_block D ex l [ArgAbruptKind AbruptException, ArgName en] (set_exception_param en []) exc) s3'"
      "seq_inv Q s4" "seq_step 1 s3 s4" "room m s4" "insert ex (seq_space Q s3) \<subseteq> seq_space Q s4"
    by (rule push_fresh [OF 3(3) r3 finally_block_makes e3])
  have x4: "insert rest (set_option exc) \<subseteq> seq_space Q s4"
    using s(5) 1(5) sp 3(6) 4(6) by blast
  have Tr: "set (successors (Return (name_value D pn))) \<union> set_option exc \<subseteq> seq_space Q s4" using x4 by simp
  have rQ: "r \<in> Q" "Q - {r} = insert d (insert x P)" using s(2-4) by auto
  obtain s5 where 5: "emit (compat_block_from_blockpy D r [] (Return (name_value D pn)) exc) r s4 = Some (r, s5)"
    "seq_inv (insert d (insert x P)) s5" "seq_step 0 s4 s5" "r \<in> seq_labels s5" "seq_space (insert d (insert x P)) s5 = seq_space Q s4"
    "\<And>n. room n s5 = room n s4"
    by (rule emit_makes [OF 4(3) rQ(1) compat_block_makes [OF D, where ss = "[]"] Tr]) (simp add: rQ(2))
  have Tx: "set (successors (Raise (Some (name_value D pn)))) \<union> set_option exc \<subseteq> seq_space (insert d (insert x P)) s5" using x4 5(5) by simp
  have xQ: "x \<in> insert d (insert x P)" "insert d (insert x P) - {x} = insert d P" using s(3,4) by auto
  obtain s6 where 6: "emit (compat_block_from_blockpy D x [] (Raise (Some (name_value D pn))) exc) x s5 = Some (x, s6)"
    "seq_inv (insert d P) s6" "seq_step 0 s5 s6" "x \<in> seq_labels s6" "seq_space (insert d P) s6 = seq_space (insert d (insert x P)) s5"
    "\<And>n. room n s6 = room n s5"
    by (rule emit_makes [OF 5(2) xQ(1) compat_block_makes [OF D, where ss = "[]"] Tx]) (simp add: xQ(2))
  have "r \<in> seq_space (insert d P) s6" "x \<in> seq_space (insert d P) s6"
    using 5(4) 6(3,4) by (auto simp: seq_space_def seq_step_def)
  then have Td: "set (successors (BranchTable (name_value D kn) [rest, r, x] rest)) \<union> set_option exc \<subseteq> seq_space (insert d P) s6"
    using x4 5(5) 6(5) by simp
  have dQ: "d \<in> insert d P" "insert d P - {d} = P" using s(4) by auto
  obtain s7 where 7: "emit (compat_block_from_blockpy D d [] (BranchTable (name_value D kn) [rest, r, x] rest) exc) d s6 = Some (d, s7)"
    "seq_inv P s7" "seq_step 0 s6 s7" "seq_space P s7 = seq_space (insert d P) s6" "\<And>n. room n s7 = room n s6"
    by (rule emit_makes [OF 6(2) dQ(1) compat_block_makes [OF D, where ss = "[]"] Td]) (simp add: dQ(2))
  have "lower_finally_region D ?p rest ss loop exc rec s =
      Some ((l, (length (seq_blocks s), length (seq_blocks s1)), Some no, Some ex), s7)"
    using 1(1) 3(1,2) 4(1,2) 5(1) 6(1) 7(1)
    by (simp add: lower_finally_region_def full_plan_def finally_cont_label_def finally_normal_entry_def finally_exception_entry_def
        emit_finally_abrupt_dispatch_blocks_def Let_def)
  moreover have "seq_step (n + 2) s s7"
  proof -
    have "seq_step (n + 0 + 1 + 1 + 0 + 0 + 0) s s7"
      by (intro seq_step_trans [OF seq_step_trans [OF seq_step_trans [OF seq_step_trans [OF seq_step_trans [OF seq_step_trans
        [OF 1(3) 2(3)] 3(4)] 4(4)] 5(3)] 6(3)] 7(3)])
    then show ?thesis by (simp add: numeral_2_eq_2)
  qed
  moreover have "room m s7" using 4(5) by (simp add: 5(6) 6(6) 7(5))
  moreover have "seq_space P s7 = seq_space Q s4" using 5(5) 6(5) 7(4) by simp
  then have "insert l (insert no (insert ex (seq_space Q s))) \<subseteq> seq_space P s7"
    using e2 3(6) 4(6) 1(5) sp by blast
  ultimately show thesis using that 7(2) by blast
qed


text \<open>The regions after the finally body, which continue in its entry blocks or after the statement.\<close>

definition loop_label_set :: "loop_labels option \<Rightarrow> block_label set" where
  "loop_label_set loop = (case loop of None \<Rightarrow> {} | Some l \<Rightarrow> {break_label l, continue_label l})"

lemma region_labels_region:
  "region_labels \<lparr>normal_cont = l, loop_targets = loop, active_exc = x\<rparr> = insert l (set_option x \<union> loop_label_set loop)"
  by (simp add: region_labels_def loop_label_set_def)

lemma region_call:
  assumes "rec_ok n ss rec" "seq_inv P s" "insert l (set_option x \<union> loop_label_set loop) \<subseteq> seq_space P s" "room (n + m) s"
  obtains e r s' where "lower_region rec ss \<lparr>normal_cont = l, loop_targets = loop, active_exc = x\<rparr> s = Some ((e, r), s')"
    "seq_inv P s'" "seq_step n s s'" "room m s'" "insert e (seq_space P s) \<subseteq> seq_space P s'"
proof -
  have "region_labels \<lparr>normal_cont = l, loop_targets = loop, active_exc = x\<rparr> \<subseteq> seq_space P s"
    using assms(3) by (simp add: region_labels_region)
  from rec_call [OF assms(1,2) this assms(4)] obtain e s' where
    "rec ss \<lparr>normal_cont = l, loop_targets = loop, active_exc = x\<rparr> s = Some (e, s')" "seq_inv P s'" "seq_step n s s'" "room m s'"
    "insert e (seq_space P s) \<subseteq> seq_space P s'" by blast
  then show thesis using that by (simp add: lower_region_def)
qed

definition fin_ok :: "block_label set \<Rightarrow> (block_label \<times> region_range \<times> block_label option \<times> block_label option) option \<Rightarrow> bool" where
  "fin_ok L fin \<longleftrightarrow> (case fin of None \<Rightarrow> True | Some (l, r, no, ex) \<Rightarrow> insert l (set_option no \<union> set_option ex) \<subseteq> L \<and> no \<noteq> None \<and> ex \<noteq> None)"

lemma try_regions_gives:
  assumes fin: "(case fb of None \<Rightarrow> Some (None, s) | Some ss \<Rightarrow> map_option (map_prod Some id) (lower_finally_region D p rest ss loop x rec s))
      = Some (fin, s1)" "fin_ok (seq_space P s1) fin" "fin = None \<Longrightarrow> hb \<noteq> None"
    and rec: "rec_ok n1 eb rec" "\<And>h. hb = Some h \<Longrightarrow> rec_ok n2 h rec" "rec_ok n3 tb rec"
    and s: "seq_inv P s1" "insert rest (set_option x \<union> loop_label_set loop) \<subseteq> seq_space P s1" "room (n1 + (n2 + (n3 + m))) s1"
  obtains t s' where "lower_try_regions D p rest fb eb tb hb loop x rec s = Some (t, s')" "seq_inv P s'" "seq_step (n1 + n2 + n3) s1 s'"
    "room m s'" "insert (body_entry_label t) (seq_space P s1) \<subseteq> seq_space P s'" "finally_entry_label t = map_option fst fin"
proof -
  define cleanup where "cleanup = (case fin of None \<Rightarrow> rest | Some (l, r, normal, exc) \<Rightarrow> unwrap_or l normal)"
  define cx where "cx = (case fin of None \<Rightarrow> x | Some (l, r, normal, exc) \<Rightarrow> Some (unwrap_or l exc))"
  have targets: "insert cleanup (set_option cx \<union> loop_label_set loop) \<subseteq> seq_space P s1"
    using fin(2) s(2) by (auto simp: cleanup_def cx_def fin_ok_def split: option.splits)
  obtain en er s2 where e: "(if eb = [] then Some ((cleanup, (length (seq_blocks s1), length (seq_blocks s1))), s1)
       else lower_region rec eb \<lparr>normal_cont = cleanup, loop_targets = loop, active_exc = cx\<rparr> s1) = Some ((en, er), s2)"
    "seq_inv P s2" "seq_step n1 s1 s2" "room (n2 + (n3 + m)) s2" "insert en (seq_space P s1) \<subseteq> seq_space P s2"
  proof (cases "eb = []")
    case True
    have "room (n2 + (n3 + m)) s1" using s(3) by (rule room_mono) simp
    then show ?thesis using that [of cleanup _ s1] True s(1) targets by simp
  next
    case False
    show ?thesis by (rule region_call [OF rec(1) s(1) targets s(3)]) (use that False in simp)
  qed
  have t2: "insert cleanup (set_option cx \<union> loop_label_set loop) \<subseteq> seq_space P s2" using targets e(5) by blast
  obtain hl hr s3 where h: "(case hb of
               Some ss \<Rightarrow>
                 do { ((l, r), s') \<leftarrow> lower_region rec ss \<lparr>normal_cont = cleanup, loop_targets = loop, active_exc = cx\<rparr> s2;
                      Some ((l, Some r), s') }
             | None \<Rightarrow> (case fin of
                          Some (l, r, normal, exc) \<Rightarrow> Some ((unwrap_or l exc, None), s2)
                        | None \<Rightarrow> None)) = Some ((hl, hr), s3)"
    "seq_inv P s3" "seq_step n2 s2 s3" "room (n3 + m) s3" "insert hl (seq_space P s2) \<subseteq> seq_space P s3"
  proof (cases hb)
    case None
    with fin(3) obtain l r normal exc where f: "fin = Some (l, r, normal, exc)" by (cases fin) auto
    have "room (n3 + m) s2" using e(4) by (rule room_mono) simp
    moreover have "unwrap_or l exc \<in> seq_space P s2" using t2 by (simp add: cx_def f)
    ultimately show ?thesis using that [of _ None s2] None e(2) by (simp add: f)
  next
    case (Some hs)
    show ?thesis by (rule region_call [OF rec(2) [OF Some] e(2) t2 e(4)]) (use that Some in simp)
  qed
  have t3: "insert en (set_option (Some hl) \<union> loop_label_set loop) \<subseteq> seq_space P s3" using t2 e(5) h(5) by auto
  obtain bl br s4 where b: "lower_region rec tb \<lparr>normal_cont = en, loop_targets = loop, active_exc = Some hl\<rparr> s3 = Some ((bl, br), s4)"
    "seq_inv P s4" "seq_step n3 s3 s4" "room m s4" "insert bl (seq_space P s3) \<subseteq> seq_space P s4"
    by (rule region_call [OF rec(3) h(2) t3 h(4)])
  have "lower_try_regions D p rest fb eb tb hb loop x rec s = Some (\<lparr>body_entry_label = bl, body_region_range = br, else_region_range = er,
      except_region_range = hr, finally_region_range = map_option (\<lambda>(l, r, _). r) fin, finally_entry_label = map_option fst fin\<rparr>, s4)"
    unfolding lower_try_regions_def Let_def fin(1) bind.bind_lunit prod.case cleanup_def [symmetric] cx_def [symmetric] e(1) h(1) b(1)
    by (rule refl)
  then show thesis
    using that b(2,4,5) e(5) h(5) seq_step_trans [OF seq_step_trans [OF e(3) h(3)] b(3)] by auto
qed

lemma region_exc_frame: "list_all2 (frame_within F) bs (set_region_exc_param r n bs)"
  unfolding set_region_exc_param_def by (rule on_range_frame) (rule set_block_exc_frame)

lemma finalize_gives:
  assumes D: "dialect_ok D" and s: "seq_inv P s" "l \<in> P"
    and targets: "insert (body_entry_label t) (set_option (finally_entry_label t) \<union> set_option x) \<subseteq> seq_space P s"
    and payload: "finally_entry_label t \<noteq> None \<Longrightarrow> finally_abrupt_payload_name p \<noteq> None"
  shows "gives 0 (P - {l}) s (finalize_try_regions D l linear p t x s)"
proof -
  let ?F = "set_option (finally_entry_label t)"
  obtain bs where bs: "(case finally_entry_label t of
                    None \<Rightarrow> Some (seq_blocks s)
                  | Some f \<Rightarrow>
                      do { payload \<leftarrow> finally_abrupt_payload_name p;
                           let to_finally = rewrite_region_returns_to_finally D f payload;
                           Some (on_optional to_finally (except_region_range t)
                             (to_finally (else_region_range t) (to_finally (body_region_range t) (seq_blocks s)))) }) = Some bs"
      "list_all2 (frame_within ?F) (seq_blocks s) bs"
  proof (cases "finally_entry_label t")
    case (Some f)
    with payload obtain n where n: "finally_abrupt_payload_name p = Some n" by auto
    let ?to = "rewrite_region_returns_to_finally D f n"
    have to: "list_all2 (frame_within {f}) as (?to r as)" for r as
      unfolding rewrite_region_returns_to_finally_def by (rule on_range_frame) (rule return_to_finally_frame)
    show ?thesis
      using that frame_trans [OF frame_trans [OF to to] optional_frame [of "{f}" _ ?to, OF to]] by (simp add: Some n Let_def)
  qed (use that in simp)
  let ?exc = "\<lambda>r. set_region_exc_param r (except_exc_name p)"
  let ?bs = "on_optional ?exc (finally_region_range t) (on_optional ?exc (except_region_range t) bs)"
  have "list_all2 (frame_within ?F) (seq_blocks s) ?bs"
    by (rule frame_trans [OF bs(2) frame_trans [OF optional_frame optional_frame]]; rule region_exc_frame)
  from frame_update [OF s(1) this] targets have 1: "seq_inv P (s\<lparr>seq_blocks := ?bs\<rparr>)"
      "seq_labels (s\<lparr>seq_blocks := ?bs\<rparr>) = seq_labels s" "seq_step 0 s (s\<lparr>seq_blocks := ?bs\<rparr>)" by auto
  have T: "set (successors (Jump (edge_new (body_entry_label t)))) \<union> set_option x \<subseteq> seq_space P (s\<lparr>seq_blocks := ?bs\<rparr>)"
    using targets 1(2) by (auto simp: seq_space_def)
  have "gives 0 (P - {l}) (s\<lparr>seq_blocks := ?bs\<rparr>)
      (emit (compat_block_from_blockpy D l linear (Jump (edge_new (body_entry_label t))) x) l (s\<lparr>seq_blocks := ?bs\<rparr>))"
    by (rule emit_gives [OF 1(1) s(2) compat_block_makes [OF D] T])
  from gives_trans [OF 1(3) this, of 0] show ?thesis
    unfolding finalize_try_regions_def bs(1) unfolding Let_def emit_try_jump_entry_def bind.bind_lunit by simp
qed


text \<open>The plan: the labels of the dispatch blocks are pending.\<close>

lemma build_plan_gives:
  assumes s: "seq_inv P s" "room (3 + m) s"
  obtains p ds s' where "build_try_plan hf s = Some (p, s')" "seq_inv (ds \<union> P) s'" "seq_step 3 s s'" "room m s'"
    "ds \<inter> seq_space P s = {}" "seq_labels s' = seq_labels s"
    "if hf then \<exists>en kn pn d r x. p = full_plan en kn pn d r x \<and> ds = {d, r, x} \<and> distinct [d, r, x] else ds = {}"
proof -
  obtain en s1 where 1: "seq_tmp ''try_exc'' s = (en, s1)" by fastforce
  show thesis
  proof (cases hf)
    case False
    have "room m s1" using s(2) seq_tmp_inv [OF 1] room_mono by fastforce
    then show thesis using that [of _ s1 "{}"] s(1) seq_tmp_inv [OF 1] by (simp add: build_try_plan_def 1 False)
  next
    case True
    obtain kn s2 where 2: "seq_tmp ''try_abrupt_kind'' s1 = (kn, s2)" by fastforce
    obtain pn s3 where 3: "seq_tmp ''try_abrupt_payload'' s2 = (pn, s3)" by fastforce
    note tmp = seq_tmp_inv [OF 1] seq_tmp_inv [OF 2] seq_tmp_inv [OF 3]
    have "seq_step (0 + 0 + 0) s s3" using tmp by (intro seq_step_trans [of _ _ s1] seq_step_trans [of _ _ s2]) auto
    moreover have "room (Suc (2 + m)) s" using s(2) by (simp add: eval_nat_numeral)
    ultimately have s3: "seq_inv P s3" "room (Suc (2 + m)) s3" "seq_labels s3 = seq_labels s" "seq_step 0 s s3"
      using s(1) tmp by simp_all
    obtain d s4 where 4: "seq_label s3 = Some (d, s4)" "seq_inv (insert d P) s4" "seq_step 1 s3 s4" "room (2 + m) s4"
      "d \<notin> seq_space P s3" "seq_labels s4 = seq_labels s3" by (rule seq_label_step [OF s3(1,2)])
    have "room (Suc (1 + m)) s4" using 4(4) by simp
    then obtain r s5 where 5: "seq_label s4 = Some (r, s5)" "seq_inv (insert r (insert d P)) s5" "seq_step 1 s4 s5" "room (1 + m) s5"
      "r \<notin> seq_space (insert d P) s4" "seq_labels s5 = seq_labels s4" by (rule seq_label_step [OF 4(2)])
    have "room (Suc m) s5" using 5(4) by simp
    then obtain x s6 where 6: "seq_label s5 = Some (x, s6)" "seq_inv (insert x (insert r (insert d P))) s6" "seq_step 1 s5 s6" "room m s6"
      "x \<notin> seq_space (insert r (insert d P)) s5" "seq_labels s6 = seq_labels s5" by (rule seq_label_step [OF 5(2)])
    have "seq_step (0 + 1 + 1 + 1) s s6"
      using seq_step_trans [OF seq_step_trans [OF seq_step_trans [OF s3(4) 4(3)] 5(3)] 6(3)] .
    then have "seq_step 3 s s6" by (rule seq_step_mono) simp
    moreover have "{d, r, x} \<union> P = insert x (insert r (insert d P))" by auto
    moreover have "{d, r, x} \<inter> seq_space P s = {}" "distinct [d, r, x]"
      using 4(5,6) 5(5,6) 6(5) s3(3) by (auto simp: seq_space_def)
    moreover have "build_try_plan hf s = Some (full_plan en kn pn d r x, s6)"
      by (simp add: build_try_plan_def 1 2 3 4(1) 5(1) 6(1) True full_plan_def)
    moreover have "\<exists>en' kn' pn' d' r' x'. full_plan en kn pn d r x = full_plan en' kn' pn' d' r' x' \<and> {d, r, x} = {d', r', x'} \<and> distinct [d', r', x']"
      using \<open>distinct [d, r, x]\<close> by blast
    ultimately show thesis
      by (intro that [of "full_plan en kn pn d r x" s6 "{d, r, x}"]) (simp_all add: 6(2,4,6) 4(6) 5(6) s3(3) True)
  qed
qed

text \<open>The finally body, if there is one.\<close>

lemma finally_gives:
  assumes D: "dialect_ok D" and rec: "\<And>ss. fb = Some ss \<Longrightarrow> rec_ok n ss rec"
    and plan: "if fb \<noteq> None then \<exists>en kn pn d r x. p = full_plan en kn pn d r x \<and> ds = {d, r, x} \<and> distinct [d, r, x] else ds = {}"
    and s: "seq_inv (ds \<union> P) s" "ds \<inter> P = {}" "insert rest (set_option x \<union> loop_label_set loop) \<subseteq> seq_space (ds \<union> P) s" "room (2 + (n + m)) s"
  obtains fin s' where
    "(case fb of None \<Rightarrow> Some (None, s) | Some ss \<Rightarrow> map_option (map_prod Some id) (lower_finally_region D p rest ss loop x rec s))
      = Some (fin, s')" "seq_inv P s'" "seq_step (2 + n) s s'" "room m s'" "seq_space (ds \<union> P) s \<subseteq> seq_space P s'" "fin_ok (seq_space P s') fin"
    "fin = None \<longleftrightarrow> fb = None" "fin = None \<or> finally_abrupt_payload_name p \<noteq> None"
proof (cases fb)
  case None
  have "room m s" using s(4) by (rule room_mono) simp
  then show thesis using that [of None s] None plan s(1) by (simp add: fin_ok_def)
next
  case (Some ss)
  with plan obtain en kn pn d r x' where p: "p = full_plan en kn pn d r x'" "ds = {d, r, x'}" "distinct [d, r, x']" by auto
  have Q: "ds \<union> P = insert d (insert r (insert x' P))" "{d, r, x'} \<inter> P = {}" using p(2) s(2) by auto
  have r: "room (n + (2 + m)) s" using s(4) by (rule room_mono) simp
  obtain l rng no ex s' where
    f: "lower_finally_region D p rest ss loop x rec s = Some ((l, rng, Some no, Some ex), s')"
      "seq_inv P s'" "seq_step (n + 2) s s'" "room m s'" "insert l (insert no (insert ex (seq_space (ds \<union> P) s))) \<subseteq> seq_space P s'"
    unfolding p(1) by (rule lower_finally_gives [where en = en and kn = kn and pn = pn, OF D rec [OF Some] s(1) Q(1) p(3) Q(2) s(3) [unfolded loop_label_set_def] r])
  then show thesis using that [of "Some (l, rng, Some no, Some ex)" s'] Some p(1)
    by (simp add: fin_ok_def full_plan_def add.commute)
qed


lemma lower_try_gives:
  assumes D: "dialect_ok D" and ok: "hs \<noteq> [] \<or> fb \<noteq> []"
    and rec: "rec_ok n remaining rec" "rec_ok nf fb rec" "rec_ok n1 eb rec" "\<And>h hs'. hs = h # hs' \<Longrightarrow> rec_ok n2 h rec" "rec_ok n3 tb rec"
    and s: "seq_inv P s" "region_labels t \<subseteq> seq_space P s" "room (6 + (n + nf + n1 + n2 + n3)) s"
  shows "gives (6 + (n + nf + n1 + n2 + n3)) P s (lower_try_head D tb hs eb fb remaining t linear rec s)"
proof -
  let ?fb = "if fb = [] then None else Some fb" and ?hb = "case hs of [] \<Rightarrow> None | h # _ \<Rightarrow> Some h"
  have r: "room (3 + (1 + (n + (2 + (nf + (n1 + (n2 + (n3 + 0)))))))) s" using s(3) by (rule room_mono) simp
  obtain p ds s1 where 1: "build_try_plan (fb \<noteq> []) s = Some (p, s1)" "seq_inv (ds \<union> P) s1" "seq_step 3 s s1"
    "room (1 + (n + (2 + (nf + (n1 + (n2 + (n3 + 0))))))) s1" "ds \<inter> seq_space P s = {}" "seq_labels s1 = seq_labels s"
    "if fb \<noteq> [] then \<exists>en kn pn d r x. p = full_plan en kn pn d r x \<and> ds = {d, r, x} \<and> distinct [d, r, x] else ds = {}"
    by (rule build_plan_gives [OF s(1) r])
  have r1: "room (Suc (n + (2 + (nf + (n1 + (n2 + (n3 + 0))))))) s1" using 1(4) by (rule room_mono) simp
  obtain l s2 where 2: "seq_label s1 = Some (l, s2)" "seq_inv (insert l (ds \<union> P)) s2" "seq_step 1 s1 s2"
    "room (n + (2 + (nf + (n1 + (n2 + (n3 + 0)))))) s2" "l \<notin> seq_space (ds \<union> P) s1" "seq_labels s2 = seq_labels s1"
    by (rule seq_label_step [OF 1(2) r1])
  let ?P = "insert l P"
  have Q: "insert l (ds \<union> P) = ds \<union> ?P" "ds \<inter> ?P = {}" "?P - {l} = P"
    using 1(5) 2(5) by (auto simp: seq_space_def)
  have sp: "seq_space ?P s2 = insert l (seq_space P s)" using 1(6) 2(6) by (auto simp: seq_space_def)
  have t2: "region_labels t \<subseteq> seq_space (ds \<union> ?P) s2" using s(2) 1(6) 2(6) by (auto simp: seq_space_def)
  obtain rest s3 where 3: "rec remaining t s2 = Some (rest, s3)" "seq_inv (ds \<union> ?P) s3" "seq_step n s2 s3"
    "room (2 + (nf + (n1 + (n2 + (n3 + 0))))) s3" "insert rest (seq_space (ds \<union> ?P) s2) \<subseteq> seq_space (ds \<union> ?P) s3"
    by (rule rec_call [OF rec(1) 2(2) [unfolded Q(1)] t2 2(4)])
  have t3: "insert rest (set_option (active_exc t) \<union> loop_label_set (loop_targets t)) \<subseteq> seq_space (ds \<union> ?P) s3"
    using t2 3(5) by (auto simp: region_labels_def loop_label_set_def)
  have recf: "?fb = Some ss \<Longrightarrow> rec_ok nf ss rec" for ss using rec(2) by (auto split: if_splits)
  have plan: "if ?fb \<noteq> None then \<exists>en kn pn d r x. p = full_plan en kn pn d r x \<and> ds = {d, r, x} \<and> distinct [d, r, x] else ds = {}"
    using 1(7) by (auto split: if_splits)
  obtain fin s4 where 4: "(case ?fb of None \<Rightarrow> Some (None, s3)
      | Some ss \<Rightarrow> map_option (map_prod Some id) (lower_finally_region D p rest ss (loop_targets t) (active_exc t) rec s3)) = Some (fin, s4)"
    "seq_inv ?P s4" "seq_step (2 + nf) s3 s4" "room (n1 + (n2 + (n3 + 0))) s4" "seq_space (ds \<union> ?P) s3 \<subseteq> seq_space ?P s4"
    "fin_ok (seq_space ?P s4) fin" "fin = None \<longleftrightarrow> ?fb = None" "fin = None \<or> finally_abrupt_payload_name p \<noteq> None"
    by (rule finally_gives [OF D recf plan 3(2) Q(2) t3 3(4)])
  have hb: "fin = None \<Longrightarrow> ?hb \<noteq> None" using ok 4(7) by (auto split: if_splits list.splits)
  have rech: "?hb = Some h \<Longrightarrow> rec_ok n2 h rec" for h using rec(4) by (auto split: list.splits)
  have t4: "insert rest (set_option (active_exc t) \<union> loop_label_set (loop_targets t)) \<subseteq> seq_space ?P s4" using t3 4(5) by blast
  obtain tr s5 where 5: "lower_try_regions D p rest ?fb eb tb ?hb (loop_targets t) (active_exc t) rec s3 = Some (tr, s5)"
    "seq_inv ?P s5" "seq_step (n1 + n2 + n3) s4 s5" "room 0 s5" "insert (body_entry_label tr) (seq_space ?P s4) \<subseteq> seq_space ?P s5"
    "finally_entry_label tr = map_option fst fin"
    by (rule try_regions_gives [OF 4(1,6) hb rec(3) rech rec(5) 4(2) t4 4(4)])
  have T: "insert (body_entry_label tr) (set_option (finally_entry_label tr) \<union> set_option (active_exc t)) \<subseteq> seq_space ?P s5"
    using 5(5,6) t4 4(6) by (auto simp: fin_ok_def split: option.splits)
  have payload: "finally_entry_label tr \<noteq> None \<Longrightarrow> finally_abrupt_payload_name p \<noteq> None" using 5(6) 4(8) by auto
  have "gives 0 P s5 (finalize_try_regions D l linear p tr (active_exc t) s5)"
    by (rule finalize_gives [OF D 5(2) insertI1 T payload, unfolded Q(3)])
  moreover have "seq_step (3 + 1 + n + (2 + nf) + (n1 + n2 + n3)) s s5"
    by (rule seq_step_trans [OF seq_step_trans [OF seq_step_trans [OF seq_step_trans [OF 1(3) 2(3)] 3(3)] 4(3)] 5(3)])
  moreover have "lower_try_head D tb hs eb fb remaining t linear rec s = finalize_try_regions D l linear p tr (active_exc t) s5"
    by (simp add: lower_try_head_def 1(1) 2(1) lower_try_stmt_sequence_def 3(1) 5(1))
  ultimately show ?thesis using gives_trans by fastforce
qed


section \<open>Whole sequences\<close>

lemma gives_mono: "gives n P s r \<Longrightarrow> n \<le> m \<Longrightarrow> gives m P s r"
  unfolding gives_def using seq_step_mono by blast

lemma rec_ok_gives:
  "rec_ok n ss rec \<longleftrightarrow>
     (\<forall>P t s. seq_inv P s \<longrightarrow> region_labels t \<subseteq> seq_space P s \<longrightarrow> room n s \<longrightarrow> gives n P s (rec ss t s))"
  by (simp add: rec_ok_def gives_def)

lemma fresh_block_gives:
  assumes "seq_inv P s" "room 1 s" "\<And>l. makes_block l T (b l)" "T \<subseteq> seq_space P s"
  shows "gives 1 P s (do { (l, s1) \<leftarrow> seq_label s; emit (b l) l s1 })"
proof -
  have "room (Suc 0) s" using assms(2) by simp
  then obtain l s1 where 1: "seq_label s = Some (l, s1)" "seq_inv (insert l P) s1" "seq_step 1 s s1" "l \<notin> seq_space P s"
    "seq_labels s1 = seq_labels s" by (rule seq_label_step [OF assms(1)])
  have T: "T \<subseteq> seq_space (insert l P) s1" using assms(4) 1(5) by (auto simp: seq_space_def)
  have "insert l P - {l} = P" using 1(4) by (auto simp: seq_space_def)
  with emit_gives [OF 1(2) insertI1 assms(3) T] have "gives 0 P s1 (emit (b l) l s1)" by simp
  from gives_trans [OF 1(3) this, of 1] show ?thesis by (simp add: 1(1))
qed

lemma loop_exit_gives:
  assumes D: "dialect_ok D" and s: "seq_inv P s" "room 1 s" "region_labels t \<subseteq> seq_space P s"
    and exit: "\<And>l. exit l \<in> {break_label l, continue_label l}"
  shows "gives 1 P s (lower_loop_exit D exit t linear s)"
proof (cases "loop_targets t")
  case None
  then show ?thesis using s(1) region_cont_within [OF s(3)] by (intro givesI [of _ "normal_cont t" s]) (auto simp: lower_loop_exit_def)
next
  case (Some loop)
  have "set (successors (Jump (edge_new (exit loop)))) \<union> set_option (active_exc t) \<subseteq> seq_space P s"
    using s(3) exit [of loop] by (auto simp: region_labels_def Some)
  from fresh_block_gives [OF s(1,2) compat_block_makes [OF D] this] show ?thesis
    by (simp add: lower_loop_exit_def Some emit_sequence_jump_block_def)
qed

text \<open>Seven labels for a statement are enough: a \<open>try\<close> with a finally body takes six of its own.\<close>

abbreviation budget :: "('s, 'x) stmt list \<Rightarrow> nat" where
  "budget ss \<equiv> 7 * size_list size ss"

lemma stmt_ok_clause: "stmt_ok (IfStmt x b cs) \<Longrightarrow> list_all stmt_ok (extract_if_else_body cs)"
  by (cases cs) (simp_all add: extract_if_else_body_def)

lemma head_gives:
  assumes D: "dialect_ok D" and ok: "stmt_ok p" "list_all stmt_ok remaining" "\<nexists>a. p = Linear a" "\<nexists>f. p = FunctionDef f"
    and rec: "\<And>ss. size_list size ss \<le> head_size p remaining \<Longrightarrow> list_all stmt_ok ss \<Longrightarrow> rec_ok (budget ss) ss rec"
    and s: "seq_inv P s" "region_labels t \<subseteq> seq_space P s" "room (7 + 7 * head_size p remaining) s"
  shows "gives (7 + 7 * head_size p remaining) P s (lower_stmt_sequence_head D p remaining t linear rec s)"
proof -
  have rest: "rec_ok (budget remaining) remaining rec" by (rule rec) (simp_all add: head_size_def ok)
  have part: "rec_ok (budget ss) ss rec" if "size_list size ss \<le> size p" "list_all stmt_ok ss" for ss
    by (rule rec) (use that in \<open>simp_all add: head_size_def\<close>)
  have one: "room 1 s" using s(3) by (rule room_mono) simp
  have x: "set_option (active_exc t) \<subseteq> seq_space P s" by (rule region_exc_within [OF s(2)])
  have expand: "gives (7 + 7 * head_size p remaining) P s (expand_with_jump D es remaining t linear rec s)"
    if E: "list_all stmt_ok es" "Suc (size_list size es) \<le> Suc (size p)" for es
  proof -
    have "rec_ok (budget (es @ remaining)) (es @ remaining) rec"
      by (rule rec) (use E ok in \<open>simp_all add: head_size_def size_list_append\<close>)
    moreover have "room (Suc (budget (es @ remaining))) s"
      using s(3) by (rule room_mono) (use E(2) in \<open>simp add: head_size_def size_list_append\<close>)
    ultimately have "gives (1 + budget (es @ remaining)) P s (expand_with_jump D es remaining t linear rec s)"
      by (rule expand_gives [OF D _ s(1,2)])
    then show ?thesis by (rule gives_mono) (use E(2) in \<open>simp add: head_size_def size_list_append\<close>)
  qed
  show ?thesis
  proof (cases p)
    case (Expanded es)
    then show ?thesis using expand [of es] ok(1) by (simp add: lower_stmt_sequence_head_def)
  next
    case (StarTryStmt es)
    then show ?thesis using expand [of es] ok(1) by (simp add: lower_stmt_sequence_head_def)
  next
    case (WithStmt es)
    then show ?thesis using expand [of es] ok(1) by (simp add: lower_stmt_sequence_head_def)
  next
    case (RaiseStmt v c)
    have "gives 1 P s (do { (l, s1) \<leftarrow> seq_label s; emit_sequence_raise_block D l linear v (active_exc t) s1 })"
      unfolding emit_sequence_raise_block_def
      by (rule fresh_block_gives [OF s(1) one, where T = "set [] \<union> set_option (active_exc t)"])
        (use x block_without_expr_makes [OF D, where t = "Raise None"] block_with_expr_makes [OF D, where t = "\<lambda>e. Raise (Some e)" and ls = "[]"]
          in \<open>auto split: option.split\<close>)
    from gives_mono [OF this] show ?thesis using ok(1) by (simp add: RaiseStmt lower_stmt_sequence_head_def)
  next
    case (ReturnStmt v)
    have "gives 1 P s (do { (l, s1) \<leftarrow> seq_label s; emit_sequence_return_block D l linear v (active_exc t) s1 })"
      unfolding emit_sequence_return_block_def
      by (rule fresh_block_gives [OF s(1) one, where T = "set [] \<union> set_option (active_exc t)"])
        (use x block_without_expr_makes [OF D, where t = "Return (none_value D)"] block_with_expr_makes [OF D, where t = Return and ls = "[]"]
          in \<open>auto split: option.split\<close>)
    from gives_mono [OF this] show ?thesis by (simp add: ReturnStmt lower_stmt_sequence_head_def)
  next
    case BreakStmt
    from gives_mono [OF loop_exit_gives [OF D s(1) one s(2), of break_label linear]]
    show ?thesis by (simp add: BreakStmt lower_stmt_sequence_head_def)
  next
    case ContinueStmt
    from gives_mono [OF loop_exit_gives [OF D s(1) one s(2), of continue_label linear]]
    show ?thesis by (simp add: ContinueStmt lower_stmt_sequence_head_def)
  next
    case Unsupported
    then show ?thesis using s(1) region_cont_within [OF s(2)]
      by (intro givesI [of _ "normal_cont t" s]) (auto simp: lower_stmt_sequence_head_def)
  next
    case (IfStmt test b cs)
    have r: "rec_ok (budget b) b rec" "rec_ok (budget (extract_if_else_body cs)) (extract_if_else_body cs) rec"
      using clause_size [of cs] ok(1) stmt_ok_clause [of test b cs] by (intro part; simp add: IfStmt)+
    have sz: "budget remaining + (budget b + budget (extract_if_else_body cs)) \<le> 7 * head_size p remaining"
      using clause_size [of cs] by (simp add: IfStmt head_size_def)
    have "room (Suc (budget remaining + (budget b + budget (extract_if_else_body cs)))) s"
      using s(3) by (rule room_mono) (use sz in simp)
    then obtain l s1 where 1: "seq_label s = Some (l, s1)" "seq_inv (insert l P) s1" "seq_step 1 s s1"
      "room (budget remaining + (budget b + budget (extract_if_else_body cs))) s1" "l \<notin> seq_space P s" "seq_labels s1 = seq_labels s"
      by (rule seq_label_step [OF s(1)])
    have t: "region_labels t \<subseteq> seq_space (insert l P) s1" using s(2) 1(6) by (auto simp: seq_space_def)
    have P: "insert l P - {l} = P" using 1(5) by (auto simp: seq_space_def)
    from lower_if_gives [OF D rest r 1(2) insertI1 t 1(4), where test = test and linear = linear] gives_trans [OF 1(3)] sz
    show ?thesis unfolding P by (auto simp: IfStmt lower_stmt_sequence_head_def 1(1))
  next
    case (WhileStmt test b e)
    have r: "rec_ok (budget e) e rec" "rec_ok (budget b) b rec" using ok(1) by (intro part; simp add: WhileStmt)+
    have sz: "budget remaining + (budget e + budget b) \<le> 7 * head_size p remaining" by (simp add: WhileStmt head_size_def)
    have "room (Suc (Suc (budget remaining + (budget e + budget b)))) s" using s(3) by (rule room_mono) (use sz in simp)
    then obtain l s1 where 1: "seq_label s = Some (l, s1)" "seq_inv (insert l P) s1" "seq_step 1 s s1"
      "room (Suc (budget remaining + (budget e + budget b))) s1" "l \<notin> seq_space P s" "seq_labels s1 = seq_labels s"
      by (rule seq_label_step [OF s(1)])
    obtain j s2 where 2: "label_if (linear \<noteq> []) s1 = Some (j, s2)" "seq_inv (pending_with (insert l P) j) s2" "seq_step 1 s1 s2"
      "room (budget remaining + (budget e + budget b)) s2" "seq_space (insert l P) s1 \<inter> set_option j = {}" "seq_labels s2 = seq_labels s1"
      by (rule label_if_step [OF 1(2,4)])
    have P: "l \<notin> P" "set_option j \<inter> insert l P = {}" using 1(5) 2(5) by (auto simp: seq_space_def)
    have "pending_with (insert l P) j = insert l (pending_with P j)" by (simp add: pending_with_def)
    then have i: "seq_inv (insert l (pending_with P j)) s2" using 2(2) by simp
    have t: "region_labels t \<subseteq> seq_space P s2" using s(2) 1(6) 2(6) by (auto simp: seq_space_def)
    from gives_trans [OF seq_step_trans [OF 1(3) 2(3)] lower_while_gives [OF D rest r i P t 2(4), where test = test and linear = linear], of "7 + 7 * head_size p remaining"] sz
    show ?thesis by (simp add: WhileStmt lower_stmt_sequence_head_def 1(1) 2(1))
  next
    case (ForStmt v it a b e)
    have r: "rec_ok (budget e) e rec" "rec_ok (budget b) b rec" using ok(1) by (intro part; simp add: ForStmt)+
    have sz: "budget remaining + (budget e + budget b) \<le> 7 * head_size p remaining" by (simp add: ForStmt head_size_def)
    have "room (3 + (budget remaining + (budget e + budget b))) s" using s(3) by (rule room_mono) (use sz in simp)
    from gives_mono [OF lower_for_gives [OF D rest r s(1,2) this, where x = v and it = it and a = a and linear = linear], of "7 + 7 * head_size p remaining"] sz
    show ?thesis by (simp add: ForStmt lower_stmt_sequence_head_def)
  next
    case (TryStmt b hs e f)
    have r: "rec_ok (budget f) f rec" "rec_ok (budget e) e rec" "rec_ok (budget b) b rec" using ok(1) by (intro part; simp add: TryStmt)+
    let ?h = "case hs of [] \<Rightarrow> 0 | h # _ \<Rightarrow> budget h"
    have rh: "rec_ok ?h h rec" if "hs = h # hs'" for h hs'
      using part [of h] ok(1) by (simp add: TryStmt that)
    have sz: "budget remaining + budget f + budget e + ?h + budget b \<le> 7 * head_size p remaining"
      by (cases hs) (simp_all add: TryStmt head_size_def)
    have o: "hs \<noteq> [] \<or> f \<noteq> []" using ok(1) by (simp add: TryStmt)
    have room: "room (6 + (budget remaining + budget f + budget e + ?h + budget b)) s" using s(3) by (rule room_mono) (use sz in simp)
    have "gives (6 + (budget remaining + budget f + budget e + ?h + budget b)) P s (lower_try_head D b hs e f remaining t linear rec s)"
      by (rule lower_try_gives [OF D o rest r(1,2) _ r(3) s(1,2) room]) (rule rh)
    from gives_mono [OF this, of "7 + 7 * head_size p remaining"] sz
    show ?thesis by (simp add: TryStmt lower_stmt_sequence_head_def)
  qed (use ok in auto)
qed


lemma drive_defined: "list_all stmt_ok ss \<Longrightarrow> drive_stmt_sequence_until_control ss i linear \<noteq> None"
  by (induction ss arbitrary: i linear) (auto split: stmt.split)

lemma sequence_ok:
  assumes D: "dialect_ok D"
  shows "list_all stmt_ok ss \<Longrightarrow> rec_ok (budget ss) ss (lower_stmt_sequence_with_state D)"
proof (induction ss rule: measure_induct_rule [of "size_list size"])
  case (less ss)
  show ?case unfolding rec_ok_gives
  proof (intro allI impI)
    fix P t and s :: "'c seq_state"
    assume s: "seq_inv P s" "region_labels t \<subseteq> seq_space P s" "room (budget ss) s"
    show "gives (budget ss) P s (lower_stmt_sequence_with_state D ss t s)"
    proof (cases "ss = []")
      case True
      then show ?thesis using s(1) region_cont_within [OF s(2)]
        by (intro givesI [of _ "normal_cont t" s]) (simp_all add: lower_stmt_sequence_with_state.simps [of D "[]"])
    next
      case False
      then have big: "7 \<le> budget ss" by (cases ss) simp_all
      obtain r where r: "drive_stmt_sequence_until_control ss 0 [] = Some r" using drive_defined [OF less.prems] by fastforce
      show ?thesis
      proof (cases r)
        case (Exhausted linear)
        have T: "set (successors (Jump (edge_new (normal_cont t)))) \<union> set_option (active_exc t) \<subseteq> seq_space P s"
          using region_cont_within [OF s(2)] region_exc_within [OF s(2)] by simp
        have "room 1 s" using s(3) by (rule room_mono) (use big in simp)
        from gives_mono [OF fresh_block_gives [OF s(1) this compat_block_makes [OF D, where ss = linear] T], of "budget ss"] big False
        show ?thesis by (simp add: lower_stmt_sequence_with_state.simps [of D ss] r Exhausted emit_sequence_jump_block_def)
      next
        case (Stopped linear i p)
        let ?rest = "drop (Suc i) ss"
        note stop = r [unfolded Stopped]
        obtain pre rest where split: "ss = map Linear pre @ p # rest" "i = length pre" "\<nexists>a. p = Linear a" "\<nexists>f. p = FunctionDef f"
          using drive_stops [OF stop] by auto
        have ok: "stmt_ok p" "list_all stmt_ok ?rest" using less.prems by (simp_all add: split(1,2))
        have small: "head_size p ?rest < size_list size ss" by (rule drive_smaller [OF stop])
        have "gives (7 + 7 * head_size p ?rest) P s (lower_stmt_sequence_head D p ?rest t linear (lower_stmt_sequence_with_state D) s)"
        proof (rule head_gives [OF D ok split(3,4) _ s(1,2)])
          show "rec_ok (budget xs) xs (lower_stmt_sequence_with_state D)" if "size_list size xs \<le> head_size p ?rest" "list_all stmt_ok xs" for xs
            using less.IH [of xs] that small by simp
          show "room (7 + 7 * head_size p ?rest) s" using s(3) by (rule room_mono) (use small in simp)
        qed
        from gives_mono [OF this, of "budget ss"] small False
        show ?thesis by (simp add: lower_stmt_sequence_with_state.simps [of D ss] stop)
      qed
    qed
  qed
qed

lemma function_body_gives:
  assumes "dialect_ok D" "list_all stmt_ok ss" "unat (next_block_id g) + budget ss \<le> 2 ^ 32" "end_l \<in> issued g"
  obtains entry bs g' where "lower_function_body D ss end_l g = Some (entry, bs, g')" "distinct (map label bs)" "end_l \<notin> label ` set bs"
    "entry \<in> insert end_l (label ` set bs)" "insert end_l (label ` set bs) \<subseteq> issued g'"
    "\<And>b. b \<in> set bs \<Longrightarrow> block_targets b \<subseteq> insert end_l (label ` set bs) \<and> nested_targets (body b) = []"
    "unat (next_block_id g') \<le> unat (next_block_id g) + budget ss"
proof -
  let ?s = "\<lparr>seq_blocks = [], seq_gen = g\<rparr>"
  have "seq_inv {end_l} ?s" "region_labels (region_targets_new end_l None) \<subseteq> seq_space {end_l} ?s" "room (budget ss) ?s"
    using assms(3,4) by (simp_all add: seq_inv_def seq_labels_def region_labels_def region_targets_new_def seq_space_def room_def)
  with sequence_ok [OF assms(1,2)] obtain entry s' where
    1: "lower_stmt_sequence_with_state D ss (region_targets_new end_l None) ?s = Some (entry, s')"
    and 2: "seq_inv {end_l} s'" "seq_step (budget ss) ?s s'" "entry \<in> seq_space {end_l} s'"
    unfolding rec_ok_def by blast
  show thesis
  proof (rule that)
    show "lower_function_body D ss end_l g = Some (entry, seq_blocks s', seq_gen s')" by (simp add: lower_function_body_def 1)
  qed (use 2 in \<open>auto simp: seq_inv_def seq_space_def seq_labels_def plain_targets_def seq_step_def\<close>)
qed

section \<open>Properties\<close>

text \<open>C7: Lowering the statements of a function never panics while seven block labels for each statement
  fit in the label space, and its blocks form a closed control-flow graph: labels are unique and were handed
  out by the generator, every jump, branch, table entry and exception edge leads to a block of the function
  or to the end label, and no jump hides inside a structured if.\<close>

theorem lower_function_body_closed:
  assumes "dialect_ok D" "list_all stmt_ok ss" "unat (next_block_id g) + 7 * size_list size ss \<le> 2 ^ 32" "end_l \<in> issued g"
  shows "\<exists>entry bs g'. lower_function_body D ss end_l g = Some (entry, bs, g') \<and> distinct (map label bs) \<and>
    end_l \<notin> label ` set bs \<and> entry \<in> insert end_l (label ` set bs) \<and> insert end_l (label ` set bs) \<subseteq> issued g' \<and>
    (\<forall>b\<in>set bs. block_targets b \<subseteq> insert end_l (label ` set bs) \<and> nested_targets (body b) = [])"
  by (rule function_body_gives [OF assms]) blast


text \<open>A dialect whose statements and expressions are numbers.\<close>

definition plain_dialect :: "(nat, nat, nat) dialect" where
  "plain_dialect =
     \<lparr>lower_stmt_into = (\<lambda>a b k. map_option (\<lambda>b'. (b', k)) (push_stmt (SExpr a) b)),
      lower_nested_stmt_into = (\<lambda>a b k. map_option (\<lambda>b'. (b', k)) (push_stmt (SExpr a) b)),
      lower_expr_into = (\<lambda>x b k. Some (x, b, k)), none_value = 0, name_value = length, store_name = (\<lambda>n v. v),
      exhausted_test = length, next_stmt = (\<lambda>a tmp iter. 1), iter_stmt = (\<lambda>a iter x. x),
      for_target_assign_body = (\<lambda>x tmp g. ([x], g))\<rparr>"

lemma plain_dialect_ok: "dialect_ok plain_dialect"
  by (auto simp: dialect_ok_def stmt_lowerer_ok_def plain_dialect_def push_stmt_def appends_plain_def)

definition retry_loop :: "(nat, nat) stmt list" where
  "retry_loop =
     [Linear 1, WhileStmt 2 [TryStmt [Linear 3, BreakStmt] [[Linear 4, ReturnStmt (Some 5)]] [] [Linear 6]] [ContinueStmt],
      IfStmt 7 [RaiseStmt None False] []]"

theorem lower_function_body_closed_witness:
  "\<exists>entry bs g'. lower_function_body plain_dialect retry_loop (BlockLabel 1) sample_gen = Some (entry, bs, g') \<and>
     distinct (map label bs) \<and> entry \<in> insert (BlockLabel 1) (label ` set bs)"
proof -
  have ok: "list_all stmt_ok retry_loop" by (simp add: retry_loop_def)
  have "size_list size retry_loop \<le> 60" by (simp add: retry_loop_def)
  then have space: "unat (next_block_id sample_gen) + 7 * size_list size retry_loop \<le> 2 ^ 32" by (simp add: sample_gen_def)
  have "BlockLabel 1 \<in> issued sample_gen" by (simp add: issued_def sample_gen_def label_index_def)
  from lower_function_body_closed [OF plain_dialect_ok ok space this] show ?thesis by (elim exE conjE) (intro exI conjI)
qed

end
