(* ===== verification/Stmt_Correct.thy ===== *)
theory Stmt_Correct
  imports Stmt_Runs Stmt_Try
begin

text \<open>
  The lowering of statements is correct: from the entry label the blocks of a function complete as its
  statements do, with the same state, value or exception, and run on where the statements run on.
\<close>

section \<open>What a lowered sequence does\<close>

definition sound ::
  "('e, 'st, 'v, 'y) sem \<Rightarrow> ('s, 'x, 'st, 'v, 'y) meaning \<Rightarrow> region_targets \<Rightarrow> ('s, 'x) stmt list \<Rightarrow> block_label \<Rightarrow>
     'e seq_state \<Rightarrow> 'e seq_state \<Rightarrow> bool" where
  "sound S M t ss l s s' \<longleftrightarrow>
     keeps_code (seq_blocks s) (seq_blocks s') \<and> (exc_params s \<longrightarrow> exc_params s') \<and>
     (\<forall>F. keeps_code (seq_blocks s') F \<longrightarrow> distinct (map label F) \<longrightarrow> (\<forall>n st. leads S M F t l n st (perform M n ss st)))"

definition sound_rec ::
  "('e, 'st, 'v, 'y) sem \<Rightarrow> ('s, 'x, 'st, 'v, 'y) meaning \<Rightarrow> ('s, 'x) stmt list \<Rightarrow> ('s, 'x, 'e) sequence_lowerer \<Rightarrow> bool" where
  "sound_rec S M ss rec \<longleftrightarrow>
     (\<forall>lp t s l s'. list_all (covered lp) ss \<longrightarrow> (lp \<longrightarrow> loop_targets t \<noteq> None) \<longrightarrow> rec ss t s = Some (l, s') \<longrightarrow> sound S M t ss l s s')"

lemma soundD:
  assumes "sound S M t ss l s s'"
  shows "keeps_code (seq_blocks s) (seq_blocks s')" "exc_params s \<Longrightarrow> exc_params s'"
    "keeps_code (seq_blocks s') F \<Longrightarrow> distinct (map label F) \<Longrightarrow> leads S M F t l n st (perform M n ss st)"
  using assms by (simp_all add: sound_def)

lemma soundI:
  assumes "keeps_code (seq_blocks s) (seq_blocks s')" "exc_params s \<Longrightarrow> exc_params s'"
    "\<And>F n st. keeps_code (seq_blocks s') F \<Longrightarrow> distinct (map label F) \<Longrightarrow> leads S M F t l n st (perform M n ss st)"
  shows "sound S M t ss l s s'"
  using assms by (simp add: sound_def)

lemma sound_recD:
  "sound_rec S M ss rec \<Longrightarrow> list_all (covered lp) ss \<Longrightarrow> (lp \<Longrightarrow> loop_targets t \<noteq> None) \<Longrightarrow> rec ss t s = Some (l, s') \<Longrightarrow>
     sound S M t ss l s s'"
  unfolding sound_rec_def by blast

lemma label_same_blocks:
  "seq_label s = Some (l, s') \<Longrightarrow> seq_blocks s' = seq_blocks s \<and> (exc_params s' \<longleftrightarrow> exc_params s)"
  by (auto simp: seq_label_def bind_eq_Some_conv exc_params_def)

lemma label_if_same_blocks:
  "label_if c s = Some (l, s') \<Longrightarrow> seq_blocks s' = seq_blocks s \<and> (exc_params s' \<longleftrightarrow> exc_params s) \<and> (l = None \<longleftrightarrow> \<not> c)"
  by (auto simp: label_if_def split: if_splits dest: label_same_blocks)

section \<open>Conditionals\<close>

lemma if_sound:
  assumes D: "means S M D" and c: "list_all (covered lp) (IfStmt v b cs # remaining)" "lp \<Longrightarrow> loop_targets t \<noteq> None"
    and rec: "sound_rec S M remaining rec" "sound_rec S M b rec" "sound_rec S M (extract_if_else_body cs) rec"
    and low: "lower_if_stmt_sequence_from_stmt D v b cs remaining t linear l0 rec s = Some (l, s')"
  shows "sound S M t (map Linear linear @ IfStmt v b cs # remaining) l s s'"
proof -
  let ?e = "extract_if_else_body cs"
  obtain rest s1 a s2 e s3 where 1: "rec remaining t s = Some (rest, s1)" "rec b (nested t rest) s1 = Some (a, s2)"
      "rec ?e (nested t rest) s2 = Some (e, s3)" "emit (compat_if_jump_block D l0 linear v a e (active_exc t)) l0 s3 = Some (l, s')"
    using low by (auto simp: lower_if_stmt_sequence_from_stmt_def lower_if_stmt_sequence_def emit_if_branch_block_def bind_eq_Some_conv)
  have ce: "list_all (covered lp) ?e" using c(1) by (cases cs) (simp_all add: extract_if_else_body_def)
  have r: "sound S M t remaining rest s s1" by (rule sound_recD [where lp = lp, OF rec(1) _ _ 1(1)]) (use c in simp_all)
  have ra: "sound S M (nested t rest) b a s1 s2" by (rule sound_recD [where lp = lp, OF rec(2) _ _ 1(2)]) (use c in simp_all)
  have re: "sound S M (nested t rest) ?e e s2 s3" by (rule sound_recD [where lp = lp, OF rec(3) ce _ 1(3)]) (use c in simp)
  note t = test_runs [OF D 1(4)]
  show ?thesis
  proof (rule soundI)
    show "keeps_code (seq_blocks s) (seq_blocks s')"
      by (rule keeps_trans [OF soundD(1) [OF r] keeps_trans [OF soundD(1) [OF ra] keeps_trans [OF soundD(1) [OF re] t(2)]]])
    show "exc_params s \<Longrightarrow> exc_params s'" by (intro t(3) soundD(2) [OF re] soundD(2) [OF ra] soundD(2) [OF r])
    fix F n st assume F: "keeps_code (seq_blocks s') F" "distinct (map label F)"
    note F3 = keeps_trans [OF t(2) F(1)] note F2 = keeps_trans [OF soundD(1) [OF re] F3] note F1 = keeps_trans [OF soundD(1) [OF ra] F2]
    have rest: "leads S M F t rest n s (perform M n remaining s)" for n s by (rule soundD(3) [OF r F1 F(2)])
    have arm: "leads S M F t (if q then a else e) n s0
        (then_do (if q then perform M n b s0 else perform M n ?e s0) (\<lambda>s'. perform M n remaining s'))" for q s0
      by (rule leads_then [OF _ rest]) (use soundD(3) [OF ra F2 F(2)] soundD(3) [OF re F3 F(2)] in simp)
    have "leads S M F t l n st (on_done (then_result (do_all M linear st) (\<lambda>_ s. do_test M v s))
        (\<lambda>q s. then_do (if q then perform M n b s else perform M n ?e s) (\<lambda>s'. perform M n remaining s')))"
      by (rule leads_done [OF t(4) [OF F] arm])
    then show "leads S M F t l n st (perform M n (map Linear linear @ IfStmt v b cs # remaining) st)"
      by (simp add: perform_prefix on_done_then)
  qed
qed


section \<open>Loops\<close>

lemma while_leads:
  assumes test: "\<And>m st. run_structured S F (Suc m) (edge_new test) None st =
      on_throw S M F (active_exc t) m (do_test M v st) (\<lambda>c s. run_structured S F m (edge_new (if c then l_body else out)) None s)"
    and body: "\<And>n s. leads S M F (nested_with_loop t test (Some \<lparr>break_label = rest, continue_label = test\<rparr>)) l_body n s (perform M n b s)"
    and out: "\<And>n s. leads S M F t out n s (then_do (perform M n e s) (\<lambda>s'. perform M n ss s'))"
    and rest: "\<And>n s. leads S M F t rest n s (perform M n ss s)"
  shows "leads S M F t test n st (perform M n (WhileStmt v b e # ss) st)"
proof (induction n arbitrary: st)
  case 0
  then show ?case by (simp add: leads_zero)
next
  case (Suc m)
  let ?loop = "\<lambda>s. perform M m (WhileStmt v b e # ss) s"
  let ?t = "nested_with_loop t test (Some \<lparr>break_label = rest, continue_label = test\<rparr>)"
  obtain q s where q: "do_test M v st = (q, s)" by fastforce
  show ?case
  proof (cases q)
    case (Inl y)
    have "leads S M F t test (Suc m) st (Some (Failed y s))"
      by (rule leads_failed) (simp add: test q Inl del: run.simps)
    then show ?thesis by (simp add: q Inl)
  next
    case (Inr c)
    have step: "run_structured S F (Suc k) (edge_new test) None st = run_structured S F k (edge_new (if c then l_body else out)) None s" for k
      by (simp add: test q Inr del: run.simps)
    show ?thesis
    proof (cases c)
      case False
      have "leads S M F t test (Suc m) st (then_do (perform M (Suc m) e s) (\<lambda>s'. perform M (Suc m) ss s'))"
        by (rule leads_via [of S F 1, OF _ out]) (simp add: step False del: run.simps)
      then show ?thesis by (simp add: q Inr False)
    next
      case True
      have step': "run_structured S F (Suc k) (edge_new test) None st = run_structured S F k (edge_new l_body) None s" for k
        by (simp add: step True del: run.simps)
      have again: "leads S M F t test (Suc m) st (?loop s')"
        if B: "\<exists>k. \<forall>j. run_structured S F (k + j) (edge_new l_body) None s = run_structured S F j (edge_new test) None s'" for s'
      proof -
        obtain k where "\<And>j. run_structured S F (k + j) (edge_new l_body) None s = run_structured S F j (edge_new test) None s'" using B by blast
        from leads_tick [OF step' leads_via [OF this Suc.IH]] show ?thesis .
      qed
      have ends: "leads S M F t test (Suc m) st (Some c')"
        if B: "\<exists>k. \<forall>j. run_structured S F (k + j) (edge_new l_body) None s = arrive S M F t c' j" for c'
      proof -
        have "leads S M F t l_body m s (Some c')" using B by (simp add: leads_def)
        from leads_tick [OF step' this] show ?thesis .
      qed
      from body [of m s] show ?thesis
      proof (cases "perform M m b s")
        case None
        with body [of m s] have "run_structured S F m (edge_new l_body) None s = None" by (simp add: leads_def)
        then show ?thesis by (simp add: q Inr True None leads_def step' del: run.simps)
      next
        case (Some r)
        with body [of m s] obtain k where k: "\<And>j. run_structured S F (k + j) (edge_new l_body) None s = arrive S M F ?t r j"
          by (auto simp: leads_def)
        show ?thesis
        proof (cases r)
          case (Broke s')
          have "leads S M F t l_body (Suc m) s (perform M (Suc m) ss s')"
            by (rule leads_via [OF _ rest]) (use k in \<open>simp add: Broke del: run.simps\<close>)
          then have "leads S M F t test (Suc m) st (perform M (Suc m) ss s')"
            by (rule leads_via [of S F 1, rotated]) (simp add: step' del: run.simps)
          then show ?thesis by (simp add: q Inr True Some Broke)
        next
          case (Normal s')
          then show ?thesis using again [of s'] k by (auto simp add: q Inr True Some simp del: run.simps)
        next
          case (Continued s')
          then show ?thesis using again [of s'] k by (auto simp add: q Inr True Some simp del: run.simps)
        next
          case (Gave w s')
          then show ?thesis using ends [of r] k by (auto simp add: q Inr True Some simp del: run.simps)
        next
          case (Failed w s')
          then show ?thesis using ends [of r] k by (auto simp add: q Inr True Some simp del: run.simps)
        next
          case Unhandled
          then show ?thesis using ends [of r] k by (auto simp add: q Inr True Some simp del: run.simps)
        qed
      qed
    qed
  qed
qed


text \<open>An optional body: without statements the label stays.\<close>

lemma optional_sound:
  assumes "sound_rec S M e rec" "list_all (covered lp) e" "lp \<Longrightarrow> loop_targets t \<noteq> None"
    and "(if e = [] then Some (rest, s) else rec e (nested t rest) s) = Some (out, s')"
  shows "sound S M (nested t rest) e out s s'"
proof (cases "e = []")
  case True
  then show ?thesis using assms(4) leads_here [of S M _ "nested t rest"] by (intro soundI) auto
next
  case False
  then show ?thesis by (intro sound_recD [where lp = lp, OF assms(1,2)]) (use assms(3,4) in auto)
qed

lemma while_sound:
  assumes D: "means S M D" and c: "list_all (covered lp) (WhileStmt v b e # remaining)" "lp \<Longrightarrow> loop_targets t \<noteq> None"
    and rec: "sound_rec S M remaining rec" "sound_rec S M e rec" "sound_rec S M b rec"
    and low: "lower_while_stmt_sequence D test_l linear_l linear v b e remaining t rec s = Some (l, s')" "linear_l = None \<longleftrightarrow> linear = []"
  shows "sound S M t (map Linear linear @ WhileStmt v b e # remaining) l s s'"
proof -
  let ?t = "\<lambda>rest. nested_with_loop t test_l (Some \<lparr>break_label = rest, continue_label = test_l\<rparr>)"
  obtain rest s1 out s2 a s3 l1 s4 where 1: "rec remaining t s = Some (rest, s1)"
      "(if e = [] then Some (rest, s1) else rec e (nested t rest) s1) = Some (out, s2)" "rec b (?t rest) s2 = Some (a, s3)"
      "emit (compat_if_jump_block D test_l [] v a out (active_exc t)) test_l s3 = Some (l1, s4)"
      "(case linear_l of None \<Rightarrow> Some (test_l, s4)
        | Some l \<Rightarrow> emit (compat_block_from_blockpy D l linear (Jump (edge_new test_l)) (active_exc t)) l s4) = Some (l, s')"
    using low(1) by (auto simp: lower_while_stmt_sequence_def emit_simple_while_blocks_def bind_eq_Some_conv)
  have r: "sound S M t remaining rest s s1" by (rule sound_recD [where lp = lp, OF rec(1) _ _ 1(1)]) (use c in simp_all)
  have re: "sound S M (nested t rest) e out s1 s2" by (rule optional_sound [where lp = lp, OF rec(2) _ _ 1(2)]) (use c in simp_all)
  have rb: "sound S M (?t rest) b a s2 s3" by (rule sound_recD [where lp = True, OF rec(3) _ _ 1(3)]) (use c(1) in simp_all)
  note t = test_runs [OF D 1(4)]
  have last: "keeps_code (seq_blocks s4) (seq_blocks s') \<and> (exc_params s4 \<longrightarrow> exc_params s')"
  proof (cases linear_l)
    case (Some l2)
    with 1(5) have "emit (compat_block_from_blockpy D l2 linear (Jump (edge_new test_l)) (active_exc t)) l2 s4 = Some (l, s')" by simp
    from jump_runs [OF D this] show ?thesis by blast
  qed (use 1(5) in simp)
  show ?thesis
  proof (rule soundI)
    show "keeps_code (seq_blocks s) (seq_blocks s')"
      using keeps_trans [OF soundD(1) [OF r] keeps_trans [OF soundD(1) [OF re] keeps_trans [OF soundD(1) [OF rb] t(2)]]] last keeps_trans by blast
    show "exc_params s \<Longrightarrow> exc_params s'" using t(3) soundD(2) [OF rb] soundD(2) [OF re] soundD(2) [OF r] last by blast
    fix F n st assume F: "keeps_code (seq_blocks s') F" "distinct (map label F)"
    have F4: "keeps_code (seq_blocks s4) F" using last F(1) keeps_trans by blast
    note F3 = keeps_trans [OF t(2) F4] note F2 = keeps_trans [OF soundD(1) [OF rb] F3] note F1 = keeps_trans [OF soundD(1) [OF re] F2]
    have rest: "leads S M F t rest n s (perform M n remaining s)" for n s by (rule soundD(3) [OF r F1 F(2)])
    have loop: "leads S M F t test_l n st (perform M n (WhileStmt v b e # remaining) st)" for n st
    proof (rule while_leads [OF _ soundD(3) [OF rb F3 F(2)] leads_then [OF soundD(3) [OF re F2 F(2)] rest] rest])
      show "run_structured S F (Suc m) (edge_new test_l) None st =
          on_throw S M F (active_exc t) m (do_test M v st) (\<lambda>c s. run_structured S F m (edge_new (if c then a else out)) None s)" for m st
        using t(4) [OF F4 F(2), of m st] t(1) by (simp del: run.simps)
    qed
    show "leads S M F t l n st (perform M n (map Linear linear @ WhileStmt v b e # remaining) st)"
    proof (cases linear_l)
      case None
      then show ?thesis using low(2) 1(5) loop by (simp del: perform.simps)
    next
      case (Some l2)
      with 1(5) have "emit (compat_block_from_blockpy D l2 linear (Jump (edge_new test_l)) (active_exc t)) l2 s4 = Some (l, s')" by simp
      from leads_done [OF jump_runs(4) [OF D this F] loop] show ?thesis by (simp add: perform_prefix del: perform.simps)
    qed
  qed
qed

section \<open>Expansions\<close>

lemma expand_sound:
  assumes D: "means S M D" and c: "list_all (covered lp) (es @ remaining)" "lp \<Longrightarrow> loop_targets t \<noteq> None"
    and rec: "sound_rec S M (es @ remaining) rec" and same: "\<And>n st. perform M n (p # remaining) st = perform M n (es @ remaining) st"
    and low: "expand_with_jump D es remaining t linear rec s = Some (l, s')"
  shows "sound S M t (map Linear linear @ p # remaining) l s s'"
proof -
  obtain j s1 en s2 where 1: "label_if (linear \<noteq> []) s = Some (j, s1)" "rec (es @ remaining) t s1 = Some (en, s2)"
      "(if linear = [] then Some (en, s2) else do { l \<leftarrow> j; emit (compat_block_from_blockpy D l linear (Jump (edge_new en)) (active_exc t)) l s2 })
         = Some (l, s')"
    using low by (auto simp: expand_with_jump_def lower_expanded_stmt_sequence_def bind_eq_Some_conv)
  note j = label_if_same_blocks [OF 1(1)]
  have r: "sound S M t (es @ remaining) en s1 s2" by (rule sound_recD [where lp = lp, OF rec c(1) c(2) 1(2)])
  show ?thesis
  proof (cases "linear = []")
    case True
    then have "l = en" "s' = s2" using 1(3) by simp_all
    then show ?thesis using r j by (simp add: sound_def True same)
  next
    case False
    then obtain l2 where e: "emit (compat_block_from_blockpy D l2 linear (Jump (edge_new en)) (active_exc t)) l2 s2 = Some (l, s')"
      using 1(3) by (auto simp: bind_eq_Some_conv)
    note jr = jump_runs [OF D e]
    show ?thesis
    proof (rule soundI)
      show "keeps_code (seq_blocks s) (seq_blocks s')" using keeps_trans [OF soundD(1) [OF r] jr(2)] j by simp
      show "exc_params s \<Longrightarrow> exc_params s'" using jr(3) soundD(2) [OF r] j by simp
      fix F n st assume F: "keeps_code (seq_blocks s') F" "distinct (map label F)"
      have "leads S M F t l n st (on_done (do_all M linear st) (\<lambda>_ s. perform M n (es @ remaining) s))"
        by (rule leads_done [OF jr(4) [OF F] soundD(3) [OF r keeps_trans [OF jr(2) F(1)] F(2)]])
      then show "leads S M F t l n st (perform M n (map Linear linear @ p # remaining) st)" by (simp add: perform_prefix same)
    qed
  qed
qed

section \<open>Exits\<close>

lemma jump_sound:
  assumes D: "means S M D" and low: "do { (l, s1) \<leftarrow> seq_label s; emit_sequence_jump_block D l linear l2 (active_exc t) s1 } = Some (l, s')"
    and to: "\<And>F n st. leads S M F t l2 n st (perform M n ss st)"
  shows "sound S M t (map Linear linear @ ss) l s s'"
proof -
  obtain l0 s1 where 1: "seq_label s = Some (l0, s1)" "emit (compat_block_from_blockpy D l0 linear (Jump (edge_new l2)) (active_exc t)) l0 s1 = Some (l, s')"
    using low by (auto simp: bind_eq_Some_conv emit_sequence_jump_block_def)
  note jr = jump_runs [OF D 1(2)] and j = label_same_blocks [OF 1(1)]
  show ?thesis
  proof (rule soundI)
    show "keeps_code (seq_blocks s) (seq_blocks s')" using jr(2) j by simp
    show "exc_params s \<Longrightarrow> exc_params s'" using jr(3) j by simp
    fix F n st assume F: "keeps_code (seq_blocks s') F" "distinct (map label F)"
    from leads_done [OF jr(4) [OF F] to] show "leads S M F t l n st (perform M n (map Linear linear @ ss) st)"
      by (simp add: perform_prefix)
  qed
qed

lemma return_sound:
  assumes D: "means S M D" and low: "do { (l, s1) \<leftarrow> seq_label s; emit_sequence_return_block D l linear v (active_exc t) s1 } = Some (l, s')"
  shows "sound S M t (map Linear linear @ ReturnStmt v # ss) l s s'"
proof -
  obtain l0 s1 where 1: "seq_label s = Some (l0, s1)" "emit_sequence_return_block D l0 linear v (active_exc t) s1 = Some (l, s')"
    using low by (auto simp: bind_eq_Some_conv)
  note rr = return_runs [OF D 1(2)] and j = label_same_blocks [OF 1(1)]
  show ?thesis
  proof (rule soundI)
    show "keeps_code (seq_blocks s) (seq_blocks s')" using rr(1) j by simp
    show "exc_params s \<Longrightarrow> exc_params s'" using rr(2) j by simp
    fix F n st assume F: "keeps_code (seq_blocks s') F" "distinct (map label F)"
    have "perform M n (ReturnStmt v # ss) s =
        on_done (case v of None \<Rightarrow> (Inr (none_result M), s) | Some e \<Rightarrow> do_expr M e s) (\<lambda>v s. Some (Gave v s))" for s
      by (simp split: option.split)
    with leads_gave [OF rr(3) [OF F], of n] show "leads S M F t l n st (perform M n (map Linear linear @ ReturnStmt v # ss) st)"
      by (simp add: perform_prefix on_done_then del: perform.simps)
  qed
qed

lemma raise_sound:
  assumes D: "means S M D" and low: "do { (l, s1) \<leftarrow> seq_label s; emit_sequence_raise_block D l linear v (active_exc t) s1 } = Some (l, s')"
  shows "sound S M t (map Linear linear @ RaiseStmt v c # ss) l s s'"
proof -
  obtain l0 s1 where 1: "seq_label s = Some (l0, s1)" "emit_sequence_raise_block D l0 linear v (active_exc t) s1 = Some (l, s')"
    using low by (auto simp: bind_eq_Some_conv)
  note rr = raise_runs [OF D 1(2)] and j = label_same_blocks [OF 1(1)]
  show ?thesis
  proof (rule soundI)
    show "keeps_code (seq_blocks s) (seq_blocks s')" using rr(1) j by simp
    show "exc_params s \<Longrightarrow> exc_params s'" using rr(2) j by simp
    fix F n st assume F: "keeps_code (seq_blocks s') F" "distinct (map label F)"
    let ?r = "then_result (do_all M linear st) (\<lambda>_ s. do_fail M v s)"
    obtain y s0 where y: "?r = (Inl y, s0)"
      using do_fail_Inl [of M v "snd (do_all M linear st)"] by (cases "do_all M linear st"; cases "fst (do_all M linear st)") auto
    have "perform M n (map Linear linear @ RaiseStmt v c # ss) st = on_done ?r (\<lambda>_ s. None)"
      by (simp add: perform_prefix on_done_then perform_fail [where g = "\<lambda>_ s. None"] del: perform.simps)
    moreover have "leads S M F t l n st (Some (Failed y s0))"
      by (rule leads_failed) (simp add: rr(3) [OF F] y del: run.simps)
    ultimately show "leads S M F t l n st (perform M n (map Linear linear @ RaiseStmt v c # ss) st)" by (simp add: y)
  qed
qed


section \<open>Try statements\<close>

lemma set_exception_roles:
  "\<forall>p\<in>set ps. role p = RoleException \<Longrightarrow> p \<in> set (set_exception_param n ps) \<Longrightarrow> role p = RoleException"
  by (auto simp: set_exception_param_def Let_def split: if_splits dest!: set_first_role_set)

lemma on_range_split:
  obtains a m c where "bs = a @ m @ c" "on_range f r bs = a @ map f m @ c"
proof
  let ?a = "take (fst r) bs" and ?m = "take (snd r - fst r) (drop (fst r) bs)" and ?c = "drop (max (fst r) (snd r)) bs"
  have "drop (fst r) bs = ?m @ drop (snd r - fst r) (drop (fst r) bs)" by (rule append_take_drop_id [symmetric])
  also have "drop (snd r - fst r) (drop (fst r) bs) = ?c" by (simp add: max_def)
  finally show "bs = ?a @ ?m @ ?c" by (metis append_take_drop_id)
qed (simp add: on_range_def)

lemma rename_plain: "edge_args e = [] \<Longrightarrow> rename_args a b e = e"
  by (simp add: rename_args_def)

lemma set_block_exc_code:
  assumes "plain_term (bterm b)" "exc_edge b = map_option edge_new x"
  shows "label (set_block_exc_param n b) = label b" "body (set_block_exc_param n b) = body b" "bterm (set_block_exc_param n b) = bterm b"
    "exc_edge (set_block_exc_param n b) = exc_edge b"
proof -
  have "(case bterm b of Jump e \<Rightarrow> Jump (rename_args old n e) | t \<Rightarrow> t) = bterm b" for old
    using assms(1) by (cases "bterm b") (simp_all add: plain_term_def rename_plain)
  moreover have "map_option (rename_args old n) (exc_edge b) = exc_edge b" for old
    using assms(2) by (cases x) (simp_all add: rename_plain)
  ultimately show "label (set_block_exc_param n b) = label b" "body (set_block_exc_param n b) = body b"
    "bterm (set_block_exc_param n b) = bterm b" "exc_edge (set_block_exc_param n b) = exc_edge b"
    by (simp_all add: set_block_exc_param_def Let_def rename_exception_edge_args_def split: option.split)
qed

lemma set_region_keeps: "keeps_code bs (set_region_exc_param r n bs)"
proof -
  obtain a m c where split: "bs = a @ m @ c" "set_region_exc_param r n bs = a @ map (set_block_exc_param n) m @ c"
    unfolding set_region_exc_param_def by (rule on_range_split)
  have "has_code (set_region_exc_param r n bs) l ss t x" if B: "plain_term t" "has_code bs l ss t x" for l ss t x
  proof -
    obtain b where b: "b \<in> set bs" "label b = l" "body b = ss" "bterm b = t" "exc_edge b = map_option edge_new x"
      using B(2) by (auto simp: has_code_def)
    note code = set_block_exc_code [of b x n]
    show ?thesis
    proof (cases "b \<in> set m")
      case True
      then show ?thesis unfolding has_code_def split(2) using b B(1) code by (intro bexI [of _ "set_block_exc_param n b"]) auto
    next
      case False
      then show ?thesis unfolding has_code_def split(2) using b split(1) by (intro bexI [of _ b]) auto
    qed
  qed
  then show ?thesis by (simp add: keeps_code_def)
qed

lemma set_block_exc_params: "params (set_block_exc_param n b) = set_exception_param n (params b)"
  by (simp add: set_block_exc_param_def Let_def rename_exception_edge_args_def split: option.split)

lemma set_region_params: "exc_params s \<Longrightarrow> exc_params (s\<lparr>seq_blocks := set_region_exc_param r n (seq_blocks s)\<rparr>)"
proof -
  assume s: "exc_params s"
  obtain a m c where split: "seq_blocks s = a @ m @ c" "set_region_exc_param r n (seq_blocks s) = a @ map (set_block_exc_param n) m @ c"
    unfolding set_region_exc_param_def by (rule on_range_split)
  have "role p = RoleException" if "p \<in> set (params (set_block_exc_param n b))" "b \<in> set m" for p b
    using s split(1) set_exception_roles [of "params b" p n] that by (auto simp: exc_params_def set_block_exc_params)
  moreover have "role p = RoleException" if "p \<in> set (params b)" "b \<in> set a \<union> set c" for p b
    using s split(1) that by (auto simp: exc_params_def)
  ultimately show ?thesis by (auto simp: exc_params_def split(2))
qed

lemma nested_region: "nested t l = \<lparr>normal_cont = l, loop_targets = loop_targets t, active_exc = active_exc t\<rparr>"
  by (simp add: nested_def)

lemma region_eqs: "lower_region rec ss t s = Some ((l, r), s') \<Longrightarrow> rec ss t s = Some (l, s')"
  by (auto simp: lower_region_def bind_eq_Some_conv)

lemma try_leads:
  assumes inner: "\<And>n s. leads S M F \<lparr>normal_cont = en, loop_targets = loop_targets t, active_exc = Some hl\<rparr> bl n s (perform M n tb s)"
    and handler: "\<And>n s. leads S M F (nested t rest) hl n s (perform M n h s)"
    and orelse: "\<And>n s. leads S M F (nested t rest) en n s (perform M n eb s)"
    and rest: "\<And>n s. leads S M F t rest n s (perform M n ss s)"
  shows "leads S M F t bl n st (perform M n (TryStmt tb (h # hs) eb [] # ss) st)"
proof -
  let ?t = "\<lparr>normal_cont = en, loop_targets = loop_targets t, active_exc = Some hl\<rparr>"
  show ?thesis
  proof (cases "perform M n tb st")
    case None
    then show ?thesis using inner [of n st] by (simp add: leads_def)
  next
    case (Some r)
    with inner [of n st] obtain k where k: "\<And>m. run_structured S F (k + m) (edge_new bl) None st = arrive S M F ?t r m"
      by (auto simp: leads_def)
    show ?thesis
    proof (cases r)
      case (Normal s)
      have "leads S M F t bl n st (then_do (perform M n eb s) (\<lambda>s'. perform M n ss s'))"
        by (rule leads_via [OF _ leads_then [OF orelse rest]]) (use k in \<open>simp add: Normal del: run.simps\<close>)
      then show ?thesis by (simp add: Some Normal)
    next
      case (Failed y s)
      have "leads S M F t bl n st (then_do (perform M n h (do_catch M y s)) (\<lambda>s'. perform M n ss s'))"
        by (rule leads_via [OF _ leads_then [OF handler rest]]) (use k in \<open>simp add: Failed throw_to_def del: run.simps\<close>)
      then show ?thesis by (simp add: Some Failed)
    qed (use k in \<open>auto simp: Some leads_def simp del: run.simps\<close>)
  qed
qed

lemma try_sound:
  assumes D: "means S M D" and c: "list_all (covered lp) (TryStmt tb (h # hs) eb [] # remaining)" "lp \<Longrightarrow> loop_targets t \<noteq> None"
    and rec: "sound_rec S M remaining rec" "sound_rec S M eb rec" "sound_rec S M h rec" "sound_rec S M tb rec"
    and low: "lower_try_head D tb (h # hs) eb [] remaining t linear rec s = Some (l, s')"
  shows "sound S M t (map Linear linear @ TryStmt tb (h # hs) eb [] # remaining) l s s'"
proof -
  obtain n0 s0 where tmp: "seq_tmp ''try_exc'' s = (n0, s0)" by fastforce
  then have blocks0: "seq_blocks s0 = seq_blocks s" by (auto simp: seq_tmp_def split: prod.splits)
  obtain l0 s1 rest s2 en er s3 hl hr s4 bl br s5 where 1: "seq_label s0 = Some (l0, s1)" "rec remaining t s1 = Some (rest, s2)"
      "(if eb = [] then Some ((rest, (length (seq_blocks s2), length (seq_blocks s2))), s2) else lower_region rec eb (nested t rest) s2)
         = Some ((en, er), s3)"
      "lower_region rec h (nested t rest) s3 = Some ((hl, hr), s4)"
      "lower_region rec tb \<lparr>normal_cont = en, loop_targets = loop_targets t, active_exc = Some hl\<rparr> s4 = Some ((bl, br), s5)"
      "emit (compat_block_from_blockpy D l0 linear (Jump (edge_new bl)) (active_exc t)) l0
         (s5\<lparr>seq_blocks := set_region_exc_param hr n0 (seq_blocks s5)\<rparr>) = Some (l, s')"
    using low by (auto simp: lower_try_head_def build_try_plan_def tmp lower_try_stmt_sequence_def lower_try_regions_def finalize_try_regions_def
        on_optional_def emit_try_jump_entry_def bind_eq_Some_conv Let_def nested_region cong: if_cong)
  let ?s = "s5\<lparr>seq_blocks := set_region_exc_param hr n0 (seq_blocks s5)\<rparr>"
  have j: "seq_blocks s1 = seq_blocks s" "exc_params s1 = exc_params s"
    using label_same_blocks [OF 1(1)] blocks0 by (simp_all add: exc_params_def)
  have e': "(if eb = [] then Some (rest, s2) else rec eb (nested t rest) s2) = Some (en, s3)"
    using 1(3) by (auto split: if_splits dest: region_eqs)
  have r: "sound S M t remaining rest s1 s2" by (rule sound_recD [where lp = lp, OF rec(1) _ _ 1(2)]) (use c in simp_all)
  have re: "sound S M (nested t rest) eb en s2 s3" by (rule optional_sound [where lp = lp, OF rec(2) _ _ e']) (use c in simp_all)
  have rh: "sound S M (nested t rest) h hl s3 s4" by (rule sound_recD [where lp = lp, OF rec(3) _ _ region_eqs [OF 1(4)]]) (use c in simp_all)
  have rb: "sound S M \<lparr>normal_cont = en, loop_targets = loop_targets t, active_exc = Some hl\<rparr> tb bl s4 s5"
    by (rule sound_recD [where lp = lp, OF rec(4) _ _ region_eqs [OF 1(5)]]) (use c in simp_all)
  note jr = jump_runs [OF D 1(6)]
  have last: "keeps_code (seq_blocks s5) (seq_blocks s')" "exc_params s5 \<Longrightarrow> exc_params s'"
    using keeps_trans [OF set_region_keeps] jr(2) jr(3) set_region_params by fastforce+
  show ?thesis
  proof (rule soundI)
    show "keeps_code (seq_blocks s) (seq_blocks s')"
      using keeps_trans [OF soundD(1) [OF r] keeps_trans [OF soundD(1) [OF re] keeps_trans [OF soundD(1) [OF rh]
        keeps_trans [OF soundD(1) [OF rb] last(1)]]]] j by simp
    show "exc_params s \<Longrightarrow> exc_params s'"
      using last(2) soundD(2) [OF rb] soundD(2) [OF rh] soundD(2) [OF re] soundD(2) [OF r] j by blast
    fix F n st assume F: "keeps_code (seq_blocks s') F" "distinct (map label F)"
    note F5 = keeps_trans [OF last(1) F(1)] note F4 = keeps_trans [OF soundD(1) [OF rb] F5]
    note F3 = keeps_trans [OF soundD(1) [OF rh] F4] note F2 = keeps_trans [OF soundD(1) [OF re] F3]
    have "leads S M F t bl n st (perform M n (TryStmt tb (h # hs) eb [] # remaining) st)" for n st
      by (rule try_leads [OF soundD(3) [OF rb F5 F(2)] soundD(3) [OF rh F4 F(2)] soundD(3) [OF re F3 F(2)] soundD(3) [OF r F2 F(2)]])
    from leads_done [OF jr(4) [OF F] this] show "leads S M F t l n st (perform M n (map Linear linear @ TryStmt tb (h # hs) eb [] # remaining) st)"
      by (simp add: perform_prefix del: perform.simps)
  qed
qed


section \<open>Whole sequences\<close>

lemma head_sound:
  assumes D: "means S M D" and c: "covered lp p" "list_all (covered lp) remaining" "lp \<Longrightarrow> loop_targets t \<noteq> None" "\<nexists>a. p = Linear a"
    and rec: "\<And>ss. size_list size ss \<le> head_size p remaining \<Longrightarrow> sound_rec S M ss rec"
    and low: "lower_stmt_sequence_head D p remaining t linear rec s = Some (l, s')"
  shows "sound S M t (map Linear linear @ p # remaining) l s s'"
proof -
  have rest: "sound_rec S M remaining rec" by (rule rec) (simp add: head_size_def)
  have part: "sound_rec S M ss rec" if "size_list size ss \<le> size p" for ss
    by (rule rec) (use that in \<open>simp add: head_size_def\<close>)
  have expanded: "sound_rec S M (es @ remaining) rec" if "size_list size es \<le> size p" for es
    by (rule rec) (use that in \<open>simp add: head_size_def size_list_append\<close>)
  show ?thesis
  proof (cases p)
    case (IfStmt v b cs)
    obtain l0 s1 where 1: "seq_label s = Some (l0, s1)" "lower_if_stmt_sequence_from_stmt D v b cs remaining t linear l0 rec s1 = Some (l, s')"
      using low by (auto simp: IfStmt lower_stmt_sequence_head_def bind_eq_Some_conv)
    have "sound_rec S M b rec" "sound_rec S M (extract_if_else_body cs) rec"
      using clause_size [of cs] by (intro part; simp add: IfStmt)+
    from if_sound [where lp = lp, OF D _ c(3) rest this 1(2)] c(1,2) label_same_blocks [OF 1(1)] show ?thesis
      by (simp add: IfStmt sound_def)
  next
    case (WhileStmt v b e)
    obtain l0 s1 j s2 where 1: "seq_label s = Some (l0, s1)" "label_if (linear \<noteq> []) s1 = Some (j, s2)"
        "lower_while_stmt_sequence D l0 j linear v b e remaining t rec s2 = Some (l, s')"
      using low by (auto simp: WhileStmt lower_stmt_sequence_head_def bind_eq_Some_conv)
    have "sound_rec S M e rec" "sound_rec S M b rec" by (intro part; simp add: WhileStmt)+
    from while_sound [where lp = lp, OF D _ c(3) rest this 1(3)] c(1,2) label_same_blocks [OF 1(1)] label_if_same_blocks [OF 1(2)] show ?thesis
      by (simp add: WhileStmt sound_def)
  next
    case (TryStmt b hs e f)
    then obtain h hs' where h: "hs = h # hs'" "f = []" using c(1) by (cases hs) auto
    have "sound_rec S M e rec" "sound_rec S M h rec" "sound_rec S M b rec" by (intro part; simp add: TryStmt h)+
    from try_sound [where lp = lp, OF D _ c(3) rest this] c(1,2) low show ?thesis
      by (simp add: TryStmt h lower_stmt_sequence_head_def)
  next
    case (ReturnStmt v)
    then show ?thesis using return_sound [OF D] low by (simp add: lower_stmt_sequence_head_def)
  next
    case (RaiseStmt v hc)
    then show ?thesis using raise_sound [OF D] low c(1) by (simp add: lower_stmt_sequence_head_def)
  next
    case BreakStmt
    then obtain loop where loop: "loop_targets t = Some loop" using c(1,3) by auto
    have "leads S M F t (break_label loop) n st (perform M n (BreakStmt # remaining) st)" for F n st
      unfolding leads_def by (auto simp: loop simp del: run.simps intro: exI [of _ 0])
    with jump_sound [OF D, where ?l2.0 = "break_label loop"] low loop show ?thesis
      by (simp add: BreakStmt lower_stmt_sequence_head_def lower_loop_exit_def)
  next
    case ContinueStmt
    then obtain loop where loop: "loop_targets t = Some loop" using c(1,3) by auto
    have "leads S M F t (continue_label loop) n st (perform M n (ContinueStmt # remaining) st)" for F n st
      unfolding leads_def by (auto simp: loop simp del: run.simps intro: exI [of _ 0])
    with jump_sound [OF D, where ?l2.0 = "continue_label loop"] low loop show ?thesis
      by (simp add: ContinueStmt lower_stmt_sequence_head_def lower_loop_exit_def)
  next
    case (Expanded es)
    then show ?thesis using expand_sound [OF D, of lp es remaining t rec p linear s l s'] expanded [of es] c(1-3) low
      by (simp add: lower_stmt_sequence_head_def)
  next
    case (StarTryStmt es)
    then show ?thesis using expand_sound [OF D, of lp es remaining t rec p linear s l s'] expanded [of es] c(1-3) low
      by (simp add: lower_stmt_sequence_head_def)
  next
    case (WithStmt es)
    then show ?thesis using expand_sound [OF D, of lp es remaining t rec p linear s l s'] expanded [of es] c(1-3) low
      by (simp add: lower_stmt_sequence_head_def)
  qed (use c in auto)
qed

lemma sequence_sound:
  assumes D: "means S M D"
  shows "sound_rec S M ss (lower_stmt_sequence_with_state D)"
proof (induction ss rule: measure_induct_rule [of "size_list size"])
  case (less ss)
  show ?case unfolding sound_rec_def
  proof (intro allI impI)
    fix lp t s l s'
    assume c: "list_all (covered lp) ss" "lp \<longrightarrow> loop_targets t \<noteq> None"
      and low: "lower_stmt_sequence_with_state D ss t s = Some (l, s')"
    show "sound S M t ss l s s'"
    proof (cases "ss = []")
      case True
      then show ?thesis using low leads_here by (auto simp: lower_stmt_sequence_with_state.simps [of D "[]"] intro!: soundI)
    next
      case False
      then obtain r where r: "drive_stmt_sequence_until_control ss 0 [] = Some r"
        using low by (auto simp: lower_stmt_sequence_with_state.simps [of D ss] split: option.splits)
      show ?thesis
      proof (cases r)
        case (Exhausted linear)
        then have "ss = map Linear linear" using r by (auto simp: drive_ends)
        moreover have "do { (l, s1) \<leftarrow> seq_label s; emit_sequence_jump_block D l linear (normal_cont t) (active_exc t) s1 } = Some (l, s')"
          using low False by (simp add: lower_stmt_sequence_with_state.simps [of D ss] r Exhausted)
        then have "sound S M t (map Linear linear @ []) l s s'"
          by (rule jump_sound [OF D]) (simp add: leads_here)
        ultimately show ?thesis by simp
      next
        case (Stopped linear i p)
        let ?rest = "drop (Suc i) ss"
        note stop = r [unfolded Stopped]
        obtain pre rest where split: "ss = map Linear pre @ p # rest" "linear = pre" "i = length pre" "\<nexists>a. p = Linear a"
          using drive_stops [OF stop] by auto
        have ss: "ss = map Linear linear @ p # ?rest" using split(1-3) by simp
        have small: "head_size p ?rest < size_list size ss" by (rule drive_smaller [OF stop])
        have head: "lower_stmt_sequence_head D p ?rest t linear (lower_stmt_sequence_with_state D) s = Some (l, s')"
          using low False by (simp add: lower_stmt_sequence_with_state.simps [of D ss] stop)
        have "covered lp p" "list_all (covered lp) ?rest" using c(1) by (simp_all add: split(1,3))
        then have "sound S M t (map Linear linear @ p # ?rest) l s s'"
        proof (rule head_sound [OF D _ _ _ split(4) _ head])
          show "lp \<Longrightarrow> loop_targets t \<noteq> None" using c(2) by blast
          show "sound_rec S M xs (lower_stmt_sequence_with_state D)" if "size_list size xs \<le> head_size p ?rest" for xs
            using less.IH [of xs] that small by simp
        qed
        then show ?thesis using ss by simp
      qed
    qed
  qed
qed


section \<open>Functions\<close>

text \<open>How a function ends when its body completes: falling off the end returns none.\<close>

fun function_outcome :: "('s, 'x, 'st, 'v, 'y) meaning \<Rightarrow> ('st, 'v, 'y) completion \<Rightarrow> ('st, 'v, 'y) outcome" where
  "function_outcome M (Normal s) = Returned (none_result M) s"
| "function_outcome M (Gave v s) = Returned v s"
| "function_outcome M (Failed y s) = Raised y s"
| "function_outcome M (Broke s) = Stuck"
| "function_outcome M (Continued s) = Stuck"
| "function_outcome M Unhandled = Stuck"

text \<open>Loop exits stay in their loop.\<close>

fun exits_ok :: "bool \<Rightarrow> ('st, 'v, 'y) completion option \<Rightarrow> bool" where
  "exits_ok lp (Some (Broke s)) \<longleftrightarrow> lp"
| "exits_ok lp (Some (Continued s)) \<longleftrightarrow> lp"
| "exits_ok lp (Some Unhandled) \<longleftrightarrow> False"
| "exits_ok lp r \<longleftrightarrow> True"

lemma exits_on_done: "(\<And>a s. r = (Inr a, s) \<Longrightarrow> exits_ok lp (k a s)) \<Longrightarrow> exits_ok lp (on_done r k)"
  by (cases r; cases "fst r") auto

lemma exits_then_do: "exits_ok lp r \<Longrightarrow> (\<And>s. r = Some (Normal s) \<Longrightarrow> exits_ok lp (k s)) \<Longrightarrow> exits_ok lp (then_do r k)"
  by (cases r; cases "the r") auto

lemma exits_loosen: "exits_ok lp r \<Longrightarrow> (lp \<Longrightarrow> lp') \<Longrightarrow> exits_ok lp' r"
  by (cases r; cases "the r") auto

lemma covered_clause: "covered lp (IfStmt x b cs) \<Longrightarrow> list_all (covered lp) (extract_if_else_body cs)"
  by (cases cs) (simp_all add: extract_if_else_body_def)

lemma perform_exits: "list_all (covered lp) ss \<Longrightarrow> exits_ok lp (perform M n ss st)"
proof (induction M n ss st arbitrary: lp rule: perform.induct)
  case (9 M n v c ss st)
  then show ?case by (auto intro: exits_on_done split: option.split prod.split)
next
  case (10 M n v ss st)
  then show ?case by (auto intro: exits_on_done split: option.split)
next
  case (11 M n x b cs ss st)
  have "exits_ok lp (if c then perform M n b s else perform M n (extract_if_else_body cs) s)" if "do_test M x st = (Inr c, s)" for c s
    using 11(1,2) [OF that] 11(4) covered_clause [of lp x b cs] that by simp
  moreover have "exits_ok lp (perform M n ss s')"
    if "do_test M x st = (Inr c, s)" "(if c then perform M n b s else perform M n (extract_if_else_body cs) s) = Some (Normal s')" for c s s'
    using 11(3) [OF that(1), of s'] that 11(4) by simp
  ultimately show ?case by (auto intro!: exits_on_done exits_then_do)
next
  case (12 M n x b e ss st)
  show ?case
  proof (cases n)
    case (Suc m)
    note IH = "12.IH" [OF Suc]
    have c: "list_all (covered True) b" "list_all (covered lp) e" "list_all (covered lp) ss" using 12(7) by simp_all
    have "exits_ok lp (on_done (do_test M x st) (\<lambda>q s. if q
          then (case perform M m b s of
                  None \<Rightarrow> None
                | Some (Normal s') \<Rightarrow> perform M m (WhileStmt x b e # ss) s'
                | Some (Continued s') \<Rightarrow> perform M m (WhileStmt x b e # ss) s'
                | Some (Broke s') \<Rightarrow> perform M n ss s'
                | Some r \<Rightarrow> Some r)
          else then_do (perform M n e s) (\<lambda>s'. perform M n ss s')))"
    proof (rule exits_on_done)
      fix q s assume q: "do_test M x st = (Inr q, s)"
      let ?step = "\<lambda>q s. if q
          then (case perform M m b s of
                  None \<Rightarrow> None
                | Some (Normal s') \<Rightarrow> perform M m (WhileStmt x b e # ss) s'
                | Some (Continued s') \<Rightarrow> perform M m (WhileStmt x b e # ss) s'
                | Some (Broke s') \<Rightarrow> perform M n ss s'
                | Some r \<Rightarrow> Some r)
          else then_do (perform M n e s) (\<lambda>s'. perform M n ss s')"
      show "exits_ok lp (?step q s)"
      proof (cases q)
        case True
        note body = IH(1) [OF q True c(1)]
        show ?thesis
        proof (cases "perform M m b s")
          case (Some r)
          then show ?thesis
            using body IH(2) [OF q True Some] IH(3) [OF q True Some] IH(4) [OF q True Some] 12(7) c(3) by (cases r) (simp_all add: True)
        qed (simp add: True)
      next
        case False
        then show ?thesis using IH(5) [OF q _ c(2)] IH(6) [OF q _ _ c(3)] by (simp add: exits_then_do)
      qed
    qed
    then show ?thesis unfolding Suc by (subst perform.simps(12)) (simp only: nat.case)
  qed simp
next
  case (13 M n b hs e f ss st)
  have c: "list_all (covered lp) b" "list_all (covered lp) e" "list_all (covered lp) ss" "hs \<noteq> []" "list_all (covered lp) (hd hs)" "f = []"
    using 13(6) by (cases hs; simp)+
  show ?case
  proof (cases "perform M n b st")
    case (Some r)
    then show ?thesis
      using 13 c by (cases r; cases hs) (auto intro!: exits_then_do)
  qed (simp add: c(6))
qed (auto intro: exits_on_done)


lemma covered_ok: "covered lp p \<Longrightarrow> stmt_ok p"
  by (induction lp p rule: covered.induct) (auto simp: list_all_iff)

text \<open>With the end block in place, the blocks end as the function does.\<close>

definition end_block :: "'e \<Rightarrow> block_label \<Rightarrow> 'e lowered_block" where
  "end_block none l = \<lparr>label = l, body = [], bterm = Return none, params = [], exc_edge = None\<rparr>"

lemma exits_arrive:
  assumes D: "means S M D" and F: "find_block F l = Some (end_block (none_value D) l)" "exits_ok False (Some c)"
  shows "arrive S M F (region_targets_new l None) c 1 = Some (function_outcome M c)"
proof -
  have "sem_eval S (none_value D) st = (Inr (none_result M), st)" for st using D by (simp add: means_def)
  then show ?thesis using F
    by (cases c) (simp_all add: region_targets_new_def end_block_def exec_structured_def dispatch_def throw_to_def)
qed

lemma function_body_runs:
  assumes D: "means S M D" "dialect_ok D" and c: "list_all (covered False) ss"
    and g: "unat (next_block_id g) + 7 * size_list size ss \<le> 2 ^ 32" "end_l \<in> issued g"
    and low: "lower_function_body D ss end_l g = Some (entry, bs, g')"
  shows "(\<exists>n. run_structured S (bs @ [end_block (none_value D) end_l]) n (edge_new entry) None st = Some out) \<longleftrightarrow>
    (\<exists>n c. perform M n ss st = Some c \<and> function_outcome M c = out)"
proof -
  let ?F = "bs @ [end_block (none_value D) end_l]" and ?t = "region_targets_new end_l None"
  have ok: "list_all stmt_ok ss" using c covered_ok by (auto simp: list_all_iff)
  have "distinct (map label bs) \<and> end_l \<notin> label ` set bs"
    by (rule function_body_gives [OF D(2) ok g]) (use low in simp)
  then have F: "distinct (map label ?F)" "find_block ?F end_l = Some (end_block (none_value D) end_l)"
    using find_block_distinct [of ?F "end_block (none_value D) end_l"] by (auto simp: end_block_def)
  obtain s' where s': "lower_stmt_sequence_with_state D ss ?t \<lparr>seq_blocks = [], seq_gen = g\<rparr> = Some (entry, s')" "bs = seq_blocks s'"
    using low by (auto simp: lower_function_body_def bind_eq_Some_conv)
  have "sound S M ?t ss entry \<lparr>seq_blocks = [], seq_gen = g\<rparr> s'"
    by (rule sound_recD [where lp = False, OF sequence_sound [OF D(1)] c _ s'(1)]) simp
  from soundD(3) [OF this keeps_more F(1)] have leads: "leads S M ?F ?t entry n st (perform M n ss st)" for n
    by (simp add: s'(2) subset_insertI)
  have ends: "\<exists>n. run_structured S ?F n (edge_new entry) None st = Some (function_outcome M c')" if C: "perform M n ss st = Some c'" for n c'
  proof -
    have "exits_ok False (Some c')" using perform_exits [OF c, of M n st] C by simp
    note a = exits_arrive [OF D(1) F(2) this]
    obtain k where k: "\<And>m. run_structured S ?F (k + m) (edge_new entry) None st = arrive S M ?F ?t c' m"
      using leads [of n] C by (auto simp: leads_def)
    have "run_structured S ?F (k + 1) (edge_new entry) None st = Some (function_outcome M c')" using k [of 1] a by (simp del: run.simps)
    then show ?thesis by blast
  qed
  show ?thesis
  proof
    assume "\<exists>n. run_structured S ?F n (edge_new entry) None st = Some out"
    then obtain n where n: "run_structured S ?F n (edge_new entry) None st = Some out" by blast
    then obtain c' where c': "perform M n ss st = Some c'" using leads [of n] by (cases "perform M n ss st") (auto simp: leads_def simp del: run.simps)
    obtain m where "run_structured S ?F m (edge_new entry) None st = Some (function_outcome M c')" using ends [OF c'] by blast
    from run_deterministic [OF this n] c' show "\<exists>n c. perform M n ss st = Some c \<and> function_outcome M c = out" by blast
  qed (use ends in blast)
qed

end
