(* ===== verification/Stmt_Function.thy ===== *)
theory Stmt_Function
  imports Stmt_Correct
begin

text \<open>
  From the statements of a function to its basic blocks
  (\<open>build_core_blockpy_callable_def_from_runtime_input\<close> of \<open>passes/ruff_to_blockpy/mod.rs\<close>): the lowering of
  the statements and the passes of \<open>Frontend\<close>, composed, keep the meaning of the statements.
\<close>

definition function_from_statements ::
  "('s, 'x, 'e) dialect \<Rightarrow> ('e \<Rightarrow> bool) \<Rightarrow> ('s, 'x) stmt list \<Rightarrow> block_label \<Rightarrow> function_name_gen \<Rightarrow>
     (block_label \<times> ('e, 'e) block list \<times> function_name_gen) option" where
  "function_from_statements D is_none ss end_l g =
     do { (entry, bs, g1) \<leftarrow> lower_function_body D ss end_l g;
          (bbs, g2) \<leftarrow> simplify_and_lower is_none g1 entry
             (add_end_block (none_value D) entry end_l (move_entry_block_to_front entry bs));
          Some (entry, bbs, g2) }"

section \<open>Blocks in another order\<close>

lemma run_same_blocks:
  assumes "\<And>l. find_block as l = find_block bs l"
  shows "run S X as n e x st = run S X bs n e x st"
  by (induction n arbitrary: e x st) (auto simp: assms split: option.split sum.split)

lemma find_block_same_set:
  assumes "set as = set bs" "distinct (map label as)" "distinct (map label bs)"
  shows "find_block as l = find_block bs l"
proof (cases "find_block as l")
  case None
  then show ?thesis using assms(1) by (metis find_block_None)
next
  case (Some b)
  then have "b \<in> set bs" "label b = l" using find_block_Some [OF Some] assms(1) by auto
  then show ?thesis using find_block_distinct [OF assms(3)] Some by fastforce
qed

text \<open>A block that is not referenced does not count.\<close>

lemma run_unreferenced:
  assumes "\<And>b. b \<in> set bs \<Longrightarrow> label c \<notin> block_targets b \<and> nested_targets (body b) = []"
  shows "target e \<noteq> label c \<Longrightarrow> run_structured S (bs @ [c]) n e x st = run_structured S bs n e x st"
proof (induction n arbitrary: e x st)
  case (Suc n)
  have find: "find_block (bs @ [c]) (target e) = find_block bs (target e)"
    using Suc.prems by (induction bs) (auto simp: find_block_def)
  show ?case
  proof (cases "find_block bs (target e)")
    case (Some b)
    let ?r = "dispatch (exc_edge b) (exec_structured S b (enter_block S (params b) (edge_args e) x st))"
    have b: "label c \<notin> block_targets b" "nested_targets (body b) = []" using assms find_block_Some [OF Some] by auto
    have "target e' \<noteq> label c" if "?r = Inl (e', x', st')" for e' x' st'
      using that b exec_stmts_Goto [of S "body b" "bterm b" "enter_block S (params b) (edge_args e) x st" e' st']
      by (auto simp: dispatch_def exec_structured_def block_targets_def split: control.splits option.splits)
    then show ?thesis using Suc.IH by (simp add: find Some split: sum.split)
  qed (simp add: find)
qed simp

lemma not_referenced: "\<not> block_references_label l b \<Longrightarrow> l \<notin> block_targets b"
  by (auto simp: block_references_label_def block_targets_def split: option.splits)

lemma only_exception_params: "\<forall>p\<in>set ps. role p = RoleException \<Longrightarrow> bb_params ps = ps"
proof -
  assume r: "\<forall>p\<in>set ps. role p = RoleException"
  then have "filter (\<lambda>p. role p = RoleAbruptKind) ps = []" "filter (\<lambda>p. role p = RoleAbruptPayload) ps = []"
    "filter (\<lambda>p. role p = RoleException) ps = ps" by (auto simp: filter_empty_conv filter_id_conv)
  then show ?thesis by (simp add: bb_params_def)
qed

text \<open>Adding the end block when it is referenced is as good as adding it always.\<close>

lemma run_end_block:
  assumes "distinct (map label bs)" "end_l \<notin> label ` set bs" "\<And>b. b \<in> set bs \<Longrightarrow> nested_targets (body b) = []"
  shows "run_structured S (add_end_block none entry end_l (move_entry_block_to_front entry bs)) n (edge_new entry) None st =
    run_structured S (bs @ [end_block none end_l]) n (edge_new entry) None st"
proof -
  let ?m = "move_entry_block_to_front entry bs" and ?last = "end_block none end_l"
  let ?B = "add_end_block none entry end_l ?m"
  have m: "set ?m = set bs" "distinct (map label ?m)" using assms(1) move_entry_perm [of entry bs] move_entry_distinct by auto
  have "find_block (?m @ [?last]) l = find_block (bs @ [?last]) l" for l
    by (rule find_block_same_set) (use m assms in \<open>auto simp: end_block_def\<close>)
  then have "run_structured S (?m @ [?last]) n (edge_new entry) None st = run_structured S (bs @ [?last]) n (edge_new entry) None st"
    by (rule run_same_blocks)
  moreover have "run_structured S ?B n (edge_new entry) None st = run_structured S (?m @ [?last]) n (edge_new entry) None st"
  proof (cases "entry = end_l \<or> list_ex (block_references_label end_l) ?m")
    case True
    then show ?thesis by (simp add: add_end_block_def end_block_def)
  next
    case False
    then have "label ?last \<notin> block_targets b \<and> nested_targets (body b) = []" if "b \<in> set ?m" for b
      using that assms(3) m(1) by (auto simp: end_block_def list_ex_iff dest: not_referenced)
    then have "run_structured S (?m @ [?last]) n (edge_new entry) None st = run_structured S ?m n (edge_new entry) None st"
      by (rule run_unreferenced) (use False in \<open>simp_all add: end_block_def\<close>)
    moreover have "?B = ?m" using False by (simp add: add_end_block_def)
    ultimately show ?thesis by simp
  qed
  ultimately show ?thesis by simp
qed

lemma body_exception_params:
  assumes "means S M D" "list_all (covered False) ss" "lower_function_body D ss end_l g = Some (entry, bs, g1)" "b \<in> set bs"
  shows "bb_params (params b) = params b"
proof (rule only_exception_params)
  obtain s' where s': "lower_stmt_sequence_with_state D ss (region_targets_new end_l None) \<lparr>seq_blocks = [], seq_gen = g\<rparr> = Some (entry, s')"
      "bs = seq_blocks s'"
    using assms(3) by (auto simp: lower_function_body_def bind_eq_Some_conv)
  have "sound S M (region_targets_new end_l None) ss entry \<lparr>seq_blocks = [], seq_gen = g\<rparr> s'"
    by (rule sound_recD [where lp = False, OF sequence_sound [OF assms(1)] assms(2) _ s'(1)]) simp
  from soundD(2) [OF this] s'(2) assms(4) show "\<forall>p\<in>set (params b). role p = RoleException" by (simp add: exc_params_def)
qed

section \<open>Properties\<close>



definition plain_meaning :: "(nat, nat, nat, nat, nat) meaning" where
  "plain_meaning =
     \<lparr>do_stmt = (\<lambda>a st. (Inr (), st + a)), do_expr = (\<lambda>x st. (Inr x, st + x)), do_truth = (\<lambda>v st. (Inr (v \<noteq> 0), st)),
      do_raise = (\<lambda>v st. (v, st)), do_reraise = (\<lambda>st. (0, st)), do_catch = (\<lambda>y st. st), none_result = 0\<rparr>"

lemma plain_means: "means adding_sem plain_meaning plain_dialect"
  by (auto simp: means_def stmts_meant_def plain_meaning_def plain_dialect_def adding_sem_def push_stmt_def split: if_splits)

text \<open>A loop that is left at once, then an exception that is caught by a handler that returns.\<close>

definition leaving_statements :: "(nat, nat) stmt list" where
  "leaving_statements =
     [WhileStmt 1 [Linear 3, BreakStmt] [], TryStmt [RaiseStmt (Some 4) False] [[ReturnStmt (Some 5)]] [] []]"

lemma leaving_perform: "perform plain_meaning 1 leaving_statements 0 = Some (Gave 5 13)"
  by (simp add: leaving_statements_def plain_meaning_def do_test_def)


lemmas lowering_steps =
  lower_stmt_sequence_with_state.simps lower_stmt_sequence_head_def lower_while_stmt_sequence_def lower_try_head_def build_try_plan_def
  lower_try_stmt_sequence_def lower_try_regions_def lower_region_def finalize_try_regions_def emit_try_jump_entry_def on_optional_def
  lower_loop_exit_def label_if_def seq_label_def seq_tmp_def region_targets_new_def nested_with_loop_def nested_def Let_def

lemmas block_steps =
  emit_simple_while_blocks_def compat_if_jump_block_def compat_block_from_blockpy_def emit_def block_with_expr_def finished_block_def
  compat_block_builder_with_expr_setup_def lower_stmts_to_blockpy_stmts_def emit_sequence_raise_block_def emit_sequence_return_block_def
  emit_sequence_jump_block_def push_lowered_def with_exc_meta_def from_builder_def with_term_def builder_new_def push_stmt_def
  set_region_exc_param_def on_range_def set_block_exc_param_def exception_param_def

lemma small_labels:
  "from_index 3 = Some (BlockLabel 3)" "from_index 4 = Some (BlockLabel 4)" "from_index 5 = Some (BlockLabel 5)"
  "from_index 6 = Some (BlockLabel 6)" "from_index 7 = Some (BlockLabel 7)"
  by (simp_all add: from_index_def)

lemma leaving_lowered:
  "\<exists>entry bs g. lower_function_body plain_dialect leaving_statements (BlockLabel 1) sample_gen = Some (entry, bs, g) \<and>
     total_labels bs = 0 \<and> next_block_id g = 8"
  by (simp add: lower_function_body_def leaving_statements_def lowering_steps block_steps small_labels plain_dialect_def
      next_tmp_name_def next_block_name_def sample_gen_def)


end
