(* ===== verification/Spec2Isabelle.thy ===== *)
theory Spec2Isabelle
  imports Frontend Arg_Binding Exception_Split Constants Instr_Ids Eval_Order Opt_Block Counters Name_Binding Generators Resume_Trace Stmt_Function
begin

text \<open>
  A verification development for the BlockPy compiler middle end of \<open>soac-blockpy\<close>.

  Python functions are lowered to blocks of instructions (\<open>src/soac-blockpy/src/block_py\<close>), which
  the passes of \<open>src/soac-blockpy/src/passes\<close> rewrite until the code generator can read them. The
  theories follow that path: statements become structured blocks, structured blocks become basic
  blocks, yields are made explicit and generators become resume functions, names are bound to local slots,
  cells and globals, blocks are split at exception edges, constants and ids are assigned, and the
  validator checks the result between the passes.

  Foundations.

  \<^item> \<open>IR_Prelude\<close>: machine integers, decimal printing, checked traversals, theorem collections.
  \<^item> \<open>Names\<close>: function ids, block labels and name generators (\<open>name_gen.rs\<close>, \<open>namegen.rs\<close>); labels and
    names that are handed out are fresh until the 32-bit label counter is used up.
  \<^item> \<open>IR\<close>, \<open>Exprs\<close>, \<open>Structured\<close>: operations, blocks, parameters (\<open>mod.rs\<close>, \<open>operation.rs\<close>), the
    expression types of the stages (\<open>passes/mod.rs\<close>) with the locale \<open>instr_node\<close> for their
    traits, block builders.
  \<^item> \<open>Params\<close>, \<open>Arg_Binding\<close>: parameter specifications (\<open>param_specs/mod.rs\<close>) and the binding of the
    arguments of a call to them (\<open>build_function_bound_args\<close> of \<open>soac-eval/src/tree_walk/eval.rs\<close>), with its
    errors as values; it is shown equal to a declarative account of Python's rules.
  \<^item> \<open>Scope\<close>, \<open>Closure_Layout\<close>: where a name lives by the kind of its scope, which cells a function
    captures and the slots of its closure (\<open>scope.rs\<close>).
  \<^item> \<open>Program\<close>, \<open>Validate\<close>: functions, modules and their fallible traversals (\<open>mod.rs\<close>, \<open>map.rs\<close>,
    \<open>visit.rs\<close>), and the validator (\<open>validate.rs\<close>), which accepts exactly the well-formed functions; a
    validated function never gets stuck.
  \<^item> \<open>Machine\<close>, \<open>Simulation\<close>: an abstract machine that runs blocks for every meaning of the
    expressions, and the simulation argument for passes that split blocks.

  From statements to basic blocks (\<open>passes/ruff_to_blockpy\<close>, \<open>block_py/cfg.rs\<close>).

  \<^item> \<open>Stmt_Seq\<close>: the lowering of statement sequences, one definition per function of
    \<open>stmt_sequences.rs\<close>, \<open>try_regions.rs\<close> and \<open>compat.rs\<close>; its state is the blocks so far and the name generator.
  \<^item> \<open>Stmt_Closed\<close>, \<open>Stmt_Try\<close>: its blocks form a closed graph with distinct labels, and it panics only when
    the labels run out. Seven labels for a statement suffice: a \<open>try\<close> with a finally body takes six.
  \<^item> \<open>Stmt_Meaning\<close>, \<open>Stmt_Runs\<close>, \<open>Stmt_Correct\<close>, \<open>Stmt_Function\<close>: what statements mean without blocks
    (\<open>perform\<close>), and that the blocks of a function do the same, from the statements to the basic blocks.
  \<^item> \<open>Cfg_Simplify\<close>, \<open>Cfg_Linearize\<close>: the control-flow passes of \<open>cfg.rs\<close>.
  \<^item> \<open>Bb_Shape\<close>: lowering to basic blocks (\<open>bb_shape.rs\<close>).
  \<^item> \<open>Frontend\<close>: the composition of these passes in \<open>ruff_to_blockpy/mod.rs\<close>.

  Generators (\<open>passes/blockpy_generators\<close>).

  \<^item> \<open>Eval_Order\<close>: yields inside of expressions are made explicit, keeping the order of effects
    (\<open>core_eval_order.rs\<close>).
  \<^item> \<open>Resume_Exprs\<close>, \<open>Resume_Blocks\<close>, \<open>Resume_Function\<close>: the resume function of a generator, which branches
    on a program counter kept in a cell; \<open>Resume_Total\<close>, \<open>Resume_Closed\<close>: it is total and closed.
  \<^item> \<open>Generator_Layout\<close>, \<open>Generators\<close>: the cells of the state, functions and modules.
  \<^item> \<open>Coroutine\<close>: what a generator means before it is lowered; \<open>Resume_Realizes\<close>, \<open>Resume_Effects\<close>,
    \<open>Resume_Run\<close>, \<open>Resume_Trace\<close>: generator and resume function have the same traces of yields, returns
    and exceptions under every sequence of values sent and exceptions thrown in.

  Name binding (\<open>passes/name_binding.rs\<close>).

  \<^item> \<open>Binding_Rewrite\<close>: loads and stores become accesses of globals, cells, class namespaces and locals.
  \<^item> \<open>Local_Slots\<close>: slots and locations. \<open>Deleted_Loads\<close>: checks for deleted names.
  \<^item> \<open>Cell_Preamble\<close>: cells are created before use. \<open>Jump_Args\<close>: arguments of block edges.
  \<^item> \<open>Capture_Layouts\<close>: captures through a whole module. \<open>Name_Binding\<close>: the composed pass.

  Later passes.

  \<^item> \<open>Exception_Split\<close> (\<open>blockpy_to_bb/exception_pass\<close>), \<open>Constants\<close> (module constants and string
    normalization), \<open>Instr_Ids\<close> (\<open>instr_id.rs\<close>), \<open>Counters\<close> and \<open>Opt_Block\<close> (\<open>instrument.rs\<close>, \<open>trace\<close>).

  Conventions. A Rust panic is \<open>None\<close>, a \<open>Result\<close> a sum with the error on the left, atomic counters
  are threaded state, and integers keep their width. A \<open>HashMap\<close> or \<open>HashSet\<close> that is iterated is a list in
  an unspecified order. The machine's \<open>run\<close> executes at most as many blocks as its fuel; the theorems
  quantify the fuel existentially on both sides of an equivalence, so they also say that one program ends
  exactly when the other does. The bound of \<open>perform\<close> is used up by loop iterations only, each of which
  runs at least one block, so that statements which are still running after \<open>n\<close> keep their blocks running
  for \<open>n\<close>. A pass that looks into neither expressions nor simple statements is verified for every meaning
  of them.

  Not modelled.

  \<^item> The passes on the syntax tree of the parser (\<open>ast_to_ast\<close>, \<open>ast_symbol_analysis\<close>, the lowering of simple
    statements and expressions, \<open>module_plan\<close>, \<open>template\<close>, \<open>transformer.rs\<close>): the tree is that of the Ruff
    crates, which are not part of the repository. The statement lowering takes their result as the record
    \<open>dialect\<close>.
  \<^item> What finally bodies and for loops mean: both are lowered by \<open>Stmt_Seq\<close> and covered by the
    closed graph, but \<open>perform\<close> gives them no meaning, because they communicate through temporaries in the
    state. A break or continue that leaves a finally body unexecuted is recorded as a finding.
  \<^item> Restoring the current exception of an outer handler after a nested one: \<open>do_catch\<close> sets the current
    exception at every handler, under whatever name the block parameter has. The name that the code
    gives it in nested handlers is the subject of another finding.
  \<^item> Delegation with \<open>yield from\<close> in the trace theorem: its blocks are built and shown closed, but the
    protocol with the delegate is the runtime's.
  \<^item> The code generator (\<open>soac-eval/src/jit\<close>) emits Cranelift code and calls CPython through raw pointers; its
    runtime objects (\<open>module_type\<close>, \<open>module_globals\<close>, \<open>intrinsics\<close>), \<open>soac-pyo3\<close>, \<open>soac-inspector\<close>, pretty
    printing, tracing output and the drivers are input and output around the passes.
\<close>

end
